(* ===== verification/Go_Prelude.thy ===== *)
theory Go_Prelude
  imports Main "HOL-Library.Word" "HOL-Library.Finite_Map" "HOL-Library.AList"
    "HOL-Library.Multiset" "HOL-Library.Signed_Division"
begin

text \<open>
  Shared vocabulary of the development: the results of Go code that may panic, the loops
  over slices and integer ranges, and generic facts on lists, association lists and words.

  Go's \<open>int\<close> (64 bits on the supported targets) is \<open>goint\<close>, an \<open>int\<close>; it is read through a
  \<open>64 word\<close> wherever the source shifts, masks or converts it. A \<open>map\<close> that is only looked up
  and updated is a finite map; a \<open>map\<close> that the code iterates over is an association list whose
  order is the (unspecified) iteration order, so a fact about every list is a fact about every
  order.
\<close>

type_synonym goint = int

named_theorems wf_defs \<open>definitions of the well-formedness invariants\<close>
named_theorems mono_facts \<open>what every operation leaves unchanged or only lets grow\<close>

section \<open>Results of code that may panic\<close>

text \<open>\<open>Hang\<close> is a call that never returns, \<open>StackOverflow\<close> a nesting deeper than the fuel given,
  \<open>UnlockOfUnlocked\<close> the fatal error of the \<open>sync\<close> package, \<open>ClosedChannel\<close> a send on a closed channel or its
  second close.\<close>

datatype go_panic = NilDeref | IndexOutOfRange | SelfEdge | NilMapWrite | NoHandler | DivByZero
  | InvalidArgument | Hang | StackOverflow | UnlockOfUnlocked | ClosedChannel

type_synonym 'a go = "go_panic + 'a"

definition go_bind :: "'a go \<Rightarrow> ('a \<Rightarrow> 'b go) \<Rightarrow> 'b go" where
  "go_bind m f = (case m of Inl e \<Rightarrow> Inl e | Inr x \<Rightarrow> f x)"

lemma go_bind_simps [simp]:
  "go_bind (Inl e) f = Inl e"
  "go_bind (Inr x) f = f x"
  by (simp_all add: go_bind_def)

lemma go_bind_eq_Inr [simp]: "go_bind m f = Inr y \<longleftrightarrow> (\<exists>x. m = Inr x \<and> f x = Inr y)"
  by (cases m) simp_all

lemma go_bind_assoc: "go_bind (go_bind a f) g = go_bind a (\<lambda>x. go_bind (f x) g)"
  by (cases a) simp_all

text \<open>Reading through a pointer and indexing a slice.\<close>

definition deref :: "'a option \<Rightarrow> 'a go" where
  "deref x = (case x of None \<Rightarrow> Inl NilDeref | Some y \<Rightarrow> Inr y)"

definition slice_at :: "'a list \<Rightarrow> goint \<Rightarrow> 'a go" where
  "slice_at xs i = (if 0 \<le> i \<and> i < int (length xs) then Inr (xs ! nat i) else Inl IndexOutOfRange)"

lemma deref_simps [simp]: "deref (Some y) = Inr y" "deref x = Inr y \<longleftrightarrow> x = Some y"
  by (auto simp: deref_def split: option.split)

lemma slice_at_Inr [simp]: "slice_at xs i = Inr y \<longleftrightarrow> 0 \<le> i \<and> i < int (length xs) \<and> xs ! nat i = y"
  by (auto simp: slice_at_def)

text \<open>A \<open>for range\<close> loop over a slice whose body may panic.\<close>

fun go_fold :: "('a \<Rightarrow> 's \<Rightarrow> 's go) \<Rightarrow> 'a list \<Rightarrow> 's \<Rightarrow> 's go" where
  "go_fold f [] s = Inr s"
| "go_fold f (x # xs) s = go_bind (f x s) (go_fold f xs)"

lemma go_fold_invariant:
  assumes "go_fold f xs s = Inr t" and "P s"
    and "\<And>x u v. x \<in> set xs \<Longrightarrow> P u \<Longrightarrow> f x u = Inr v \<Longrightarrow> P v"
  shows "P t"
  using assms
proof (induction xs arbitrary: s)
  case (Cons x xs)
  from Cons.prems(1) obtain u where "f x s = Inr u" and "go_fold f xs u = Inr t"
    by auto
  moreover from this(1) have "P u"
    using Cons.prems(2,3) by auto
  ultimately show ?case
    using Cons.IH Cons.prems(3) by auto
qed simp

lemma go_fold_append: "go_fold f (xs @ ys) s = go_bind (go_fold f xs s) (go_fold f ys)"
proof (induction xs arbitrary: s)
  case (Cons x xs)
  then show ?case by (cases "f x s") simp_all
qed simp

lemma fold_invariant:
  assumes "P s" and "\<And>x u. x \<in> set xs \<Longrightarrow> P u \<Longrightarrow> P (f x u)"
  shows "P (fold f xs s)"
  using assms by (induction xs arbitrary: s) auto

text \<open>\<open>util.go\<close>: the maximum of two and of several integers.\<close>

definition goMax :: "goint \<Rightarrow> goint \<Rightarrow> goint" where
  "goMax a b = (if a < b then b else a)"

definition VMax :: "goint list \<Rightarrow> goint go" where
  "VMax v = (case v of [] \<Rightarrow> Inl IndexOutOfRange
     | x # _ \<Rightarrow> Inr (fold (\<lambda>i max. if max < i then i else max) v x))"

lemma goMax_max [simp]: "goMax a b = max a b"
  by (simp add: goMax_def)

section \<open>Lists and association lists\<close>

text \<open>Removing the first occurrence by swapping with the last element, as Go code does with
  \<open>xs[i] = xs[len(xs)-1]; xs = xs[:len(xs)-1]\<close>.\<close>

fun index_of :: "'a \<Rightarrow> 'a list \<Rightarrow> nat option" where
  "index_of a [] = None"
| "index_of a (x # xs) = (if x = a then Some 0 else map_option Suc (index_of a xs))"

definition swap_remove :: "'a \<Rightarrow> 'a list \<Rightarrow> 'a list" where
  "swap_remove a xs =
     (case index_of a xs of None \<Rightarrow> xs | Some i \<Rightarrow> butlast (xs[i := last xs]))"

lemma index_of_None: "index_of a xs = None \<longleftrightarrow> a \<notin> set xs"
  by (induction xs) auto

lemma index_of_Some: "index_of a xs = Some i \<Longrightarrow> i < length xs \<and> xs ! i = a"
  by (induction xs arbitrary: i) (auto split: if_splits)

lemma mset_swap_remove: "mset (swap_remove a xs) = mset xs - {#a#}"
proof (cases "index_of a xs")
  case None
  then have "swap_remove a xs = xs" and "a \<notin> set xs"
    by (simp_all add: swap_remove_def flip: index_of_None)
  then show ?thesis
    by (simp add: diff_single_trivial)
next
  case (Some i)
  then have i: "i < length xs" "xs ! i = a"
    by (auto dest: index_of_Some)
  then have ne: "xs \<noteq> []" by auto
  let ?ys = "xs[i := last xs]"
  have "mset ?ys = add_mset (last xs) (mset xs - {#a#})"
    using i by (simp add: mset_update)
  moreover have "mset ?ys = add_mset (last ?ys) (mset (butlast ?ys))"
    using ne by (metis append_butlast_last_id list_update_nonempty mset_append
        mset_single_iff_right add_mset_add_single mset.simps)
  moreover have "last ?ys = last xs"
    using ne i by (cases "i = length xs - 1") (auto simp: last_conv_nth nth_list_update)
  ultimately show ?thesis
    using Some by (simp add: swap_remove_def)
qed

lemma length_swap_remove: "length (swap_remove a xs) = length xs - (if a \<in> set xs then 1 else 0)"
proof -
  have "size (mset (swap_remove a xs)) = size (mset xs - {#a#})"
    by (simp add: mset_swap_remove)
  then show ?thesis
    by (auto simp: size_Diff_singleton diff_single_trivial)
qed

lemma set_swap_remove: "distinct xs \<Longrightarrow> set (swap_remove a xs) = set xs - {a}"
  and distinct_swap_remove: "distinct xs \<Longrightarrow> distinct (swap_remove a xs)"
proof -
  assume d: "distinct xs"
  then have "mset (swap_remove a xs) = mset (remove1 a xs)"
    by (simp add: mset_swap_remove)
  then show "set (swap_remove a xs) = set xs - {a}" and "distinct (swap_remove a xs)"
    using d by (metis mset_eq_setD set_remove1_eq, metis mset_eq_imp_distinct_iff distinct_remove1)
qed

lemma swap_remove_notin [simp]: "a \<notin> set xs \<Longrightarrow> swap_remove a xs = xs"
  by (simp add: swap_remove_def flip: index_of_None)

text \<open>The minimum that a \<open>for\<close> loop with a running minimum computes.\<close>

lemma fold_running_min: "fold (\<lambda>c m. if c < m then c else m) xs (a :: int) = Min (insert a (set xs))"
proof (induction xs arbitrary: a)
  case (Cons x xs)
  have "Min (insert (min x a) (set xs)) = Min (insert a (insert x (set xs)))"
  proof (cases "xs = []")
    case False
    then show ?thesis by (simp add: min.assoc min.commute min.left_commute)
  qed (simp add: min.commute)
  moreover have "(if x < a then x else a) = min x a"
    by simp
  ultimately show ?case
    by (simp add: Cons.IH)
qed simp

section \<open>Words\<close>

unbundle bit_operations_syntax

lemma word_of_int_uint_eq [simp]: "word_of_int (uint (w :: 'a::len word)) = w"
  by simp

lemma sdiv_nonneg: "0 \<le> (a :: int) \<Longrightarrow> 0 \<le> b \<Longrightarrow> a sdiv b = a div b"
  by (simp add: signed_divide_int_def sgn_if div_eq_0_iff zero_less_mult_iff)

lemma uint_drop_bit_div: "uint (drop_bit n (w :: 'a::len word)) = uint w div 2 ^ n"
  by (simp add: unsigned_drop_bit_eq bintr_uint flip: drop_bit_eq_div)

lemma pack_eq: "0 \<le> l \<Longrightarrow> l < 2 ^ n \<Longrightarrow> push_bit n h OR l = h * 2 ^ n + (l :: int)"
    using concat_bit_eq [of n l h] 
    by (simp add: concat_bit_def take_bit_int_eq_self push_bit_eq_mult or.commute)

lemma pack_less: "0 \<le> x \<Longrightarrow> x < m \<Longrightarrow> 0 \<le> y \<Longrightarrow> y < m \<Longrightarrow>
  a * m + x < b * m + y \<longleftrightarrow> a < b \<or> (a = b \<and> x < (y::int))"
proof -
  assume *: "0 \<le> x" "x < m" "0 \<le> y" "y < m"
    have "a * m + x < b * m + y" if "a < b"
    proof -
      have "(a + 1) * m \<le> b * m" using that * by (intro mult_right_mono) auto
      then show ?thesis using * by (simp add: distrib_right)
    qed
    moreover have "b * m + y < a * m + x" if "b < a"
    proof -
      have "(b + 1) * m \<le> a * m" using that * by (intro mult_right_mono) auto
      then show ?thesis using * by (simp add: distrib_right)
    qed
    ultimately show ?thesis by (cases a b rule: linorder_cases) auto
qed

lemma word_of_int_push_bit: "push_bit n (word_of_int k) = (word_of_int (push_bit n k) :: 'a::len word)"
  by transfer (simp add: take_bit_push_bit)

end
