(* ===== verification/Ident.thy ===== *)
theory Ident
  imports Go_Prelude
begin

text \<open>
  Node identifiers and ballot numbers: \<open>id.go\<close> and \<open>ballot.go\<close>. An \<open>ID\<close> packs a zone and a node
  into 32 bits, a \<open>Ballot\<close> packs a counter and an \<open>ID\<close> into 64 bits; both have a textual form that
  is parsed back. The lemmas show the packings are lossless within the field widths, that ballots
  are ordered by counter first, and that the textual forms round-trip.
\<close>

unbundle bit_operations_syntax

type_synonym ID = "32 word"
type_synonym Ballot = "64 word"

section \<open>The parts of strconv and strings that the parsers use\<close>

definition digit_char :: "goint \<Rightarrow> char" where
  "digit_char d = char_of (48 + d)"

definition is_digit :: "char \<Rightarrow> bool" where
  "is_digit c \<longleftrightarrow> 48 \<le> (of_char c :: int) \<and> (of_char c :: int) \<le> 57"

definition digit_val :: "char \<Rightarrow> goint" where
  "digit_val c = of_char c - 48"

function dec :: "goint \<Rightarrow> string" where
  "dec n = (if n < 10 then [digit_char n] else dec (n div 10) @ [digit_char (n mod 10)])"
  by pat_completeness auto
termination
  by (relation "measure nat") auto

declare dec.simps [simp del]

definition Itoa :: "goint \<Rightarrow> string" where
  "Itoa i = (if i < 0 then CHR ''-'' # dec (- i) else dec i)"

definition maxUint64 :: goint where
  "maxUint64 = 2 ^ 64 - 1"

text \<open>\<open>strconv.ParseUint(s, 10, 64)\<close>: the value with \<open>True\<close>, or the value that accompanies the
  error (0 for a syntax error, the maximum for a range error) with \<open>False\<close>.\<close>

fun parse_digits :: "goint \<Rightarrow> string \<Rightarrow> goint \<times> bool" where
  "parse_digits n [] = (n, True)"
| "parse_digits n (c # cs) =
     (if \<not> is_digit c then (0, False)
      else if maxUint64 < 10 * n + digit_val c then (maxUint64, False)
      else parse_digits (10 * n + digit_val c) cs)"

definition ParseUint :: "string \<Rightarrow> goint \<times> bool" where
  "ParseUint s = (if s = [] then (0, False) else parse_digits 0 s)"

definition Atoi :: "string \<Rightarrow> goint option" where
  "Atoi s =
     (let neg = (s \<noteq> [] \<and> hd s = CHR ''-'');
          rest = (if s \<noteq> [] \<and> (hd s = CHR ''-'' \<or> hd s = CHR ''+'') then tl s else s)
      in case ParseUint rest of
           (n, ok) \<Rightarrow>
             if \<not> ok \<or> (\<not> neg \<and> 2 ^ 63 \<le> n) \<or> (neg \<and> 2 ^ 63 < n) then None
             else Some (if neg then - n else n))"

text \<open>\<open>strings.Split(s, ".")\<close> and \<open>strings.SplitN(s, ".", 2)\<close>.\<close>

fun split_dot :: "string \<Rightarrow> string list" where
  "split_dot [] = [[]]"
| "split_dot (c # cs) =
     (if c = CHR ''.'' then [] # split_dot cs
      else case split_dot cs of [] \<Rightarrow> [[c]] | p # ps \<Rightarrow> (c # p) # ps)"

definition splitN2_dot :: "string \<Rightarrow> string list" where
  "splitN2_dot s =
     (let p = takeWhile (\<lambda>c. c \<noteq> CHR ''.'') s; r = dropWhile (\<lambda>c. c \<noteq> CHR ''.'') s
      in if r = [] then [p] else [p, tl r])"

section \<open>Node identifiers\<close>

definition NewID :: "goint \<Rightarrow> goint \<Rightarrow> ID" where
  "NewID zone node = ucast (push_bit 16 (word_of_int zone) OR word_of_int node :: 64 word)"

definition NewIDFromString :: "string \<Rightarrow> ID" where
  "NewIDFromString idstr =
     (let idParts = split_dot idstr
      in if length idParts \<noteq> 2 then 0
         else case Atoi (idParts ! 0) of
           None \<Rightarrow> 0
         | Some zone \<Rightarrow> (case Atoi (idParts ! 1) of None \<Rightarrow> 0 | Some node \<Rightarrow> NewID zone node))"

definition Zone :: "ID \<Rightarrow> goint" where
  "Zone i = uint (drop_bit 16 i)"

definition Node :: "ID \<Rightarrow> goint" where
  "Node i = uint (0x0000FFFF AND i)"

definition ID_String :: "ID \<Rightarrow> string" where
  "ID_String i = Itoa (Zone i) @ ''.'' @ Itoa (Node i)"

definition IDs_Less :: "ID \<Rightarrow> ID \<Rightarrow> bool" where
  "IDs_Less a b =
     (if Zone a < Zone b then True
      else if Zone a > Zone b then False
      else Node a < Node b)"

definition compareID :: "ID \<Rightarrow> ID \<Rightarrow> goint" where
  "compareID a b =
     (if Zone a < Zone b then - 1
      else if Zone a > Zone b then 1
      else if Node a < Node b then - 1
      else if Node a > Node b then 1
      else 0)"

section \<open>Ballot numbers\<close>

definition NewBallot :: "goint \<Rightarrow> ID \<Rightarrow> Ballot" where
  "NewBallot n nid =
     push_bit 32 (word_of_int n) OR push_bit 16 (word_of_int (Zone nid)) OR word_of_int (Node nid)"

definition NewBallotFromString :: "string \<Rightarrow> Ballot" where
  "NewBallotFromString b =
     (let (s, idstr) = (if CHR ''.'' \<in> set b
                     then (splitN2_dot b ! 0, splitN2_dot b ! 1) else (b, []))
      in NewBallot (sint (word_of_int (fst (ParseUint s)) :: 64 word)) (NewIDFromString idstr))"

definition Ballot_N :: "Ballot \<Rightarrow> goint" where
  "Ballot_N b = uint (drop_bit 32 b)"

definition Ballot_ID :: "Ballot \<Rightarrow> ID" where
  "Ballot_ID b =
     (let zone = uint (drop_bit 16 (ucast b :: 32 word)); node = uint (ucast b :: 16 word)
      in NewID zone node)"

definition Ballot_Next :: "Ballot \<Rightarrow> ID \<Rightarrow> Ballot" where
  "Ballot_Next b nid = NewBallot (Ballot_N b + 1) nid"

definition Ballot_String :: "Ballot \<Rightarrow> string" where
  "Ballot_String b = Itoa (Ballot_N b) @ ''.'' @ ID_String (Ballot_ID b)"

text \<open>The older functions on ballots held in a Go \<open>int\<close>.\<close>

definition NextBallot :: "goint \<Rightarrow> ID \<Rightarrow> goint" where
  "NextBallot ballot nid =
     (let n = push_bit 16 (word_of_int (Zone nid)) OR word_of_int (Node nid) :: 64 word;
          c = word_of_int (sint (signed_drop_bit 32 (word_of_int ballot :: 64 word)) + 1)
      in sint (push_bit 32 c OR n))"

definition LeaderID :: "goint \<Rightarrow> ID" where
  "LeaderID ballot =
     (let zone = drop_bit 16 (word_of_int ballot :: 32 word); node = (word_of_int ballot :: 16 word)
      in NewID (uint zone) (uint node))"

text \<open>The number that a string of digits denotes: the specification of the parsers.\<close>

definition dec_value :: "int \<Rightarrow> string \<Rightarrow> int" where
  "dec_value = foldl (\<lambda>n c. 10 * n + digit_val c)"

section \<open>The packing of zones, nodes and counters\<close>

lemma Zone_eq: "Zone i = uint i div 2 ^ 16"
  by (simp add: Zone_def uint_drop_bit_div)

lemma Node_eq: "Node i = uint i mod 2 ^ 16"
proof -
  have "uint ((0x0000FFFF :: ID) AND i) = take_bit 16 (uint i)"
    by (simp add: take_bit_eq_mask mask_eq_exp_minus_1 and.commute uint_and)
  then show ?thesis by (simp add: Node_def take_bit_eq_mod)
qed

lemma Zone_bounds: "0 \<le> Zone i" "Zone i < 2 ^ 16"
  using uint_lt2p [of i] by (simp_all add: Zone_eq pos_imp_zdiv_nonneg_iff)

lemma Node_bounds: "0 \<le> Node i" "Node i < 2 ^ 16"
  by (simp_all add: Node_eq)

lemma NewID_eq: "0 \<le> n \<Longrightarrow> n < 2 ^ 16 \<Longrightarrow> NewID z n = word_of_int (z * 2 ^ 16 + n)"
proof -
  assume n: "0 \<le> n" "n < 2 ^ 16"
  have "NewID z n = ucast (word_of_int (push_bit 16 z OR n) :: 64 word)"
    by (simp add: NewID_def word_of_int_push_bit word_wi_log_defs)
  also have "\<dots> = word_of_int (push_bit 16 z OR n)"
    by transfer simp
  finally show ?thesis using n by (simp add: pack_eq)
qed

lemma NewID_Zone_Node: "NewID (Zone i) (Node i) = i"
  using Node_bounds [of i]
  by (simp only: NewID_eq) (simp only: Zone_eq Node_eq div_mult_mod_eq word_of_int_uint)

lemma NewBallot_eq: "NewBallot n i = word_of_int (n * 2 ^ 32 + uint i)"
proof -
  have "NewBallot n i = word_of_int (push_bit 32 n OR (push_bit 16 (Zone i) OR Node i))"
    by (simp add: NewBallot_def word_of_int_push_bit word_wi_log_defs or.assoc)
  also have "push_bit 16 (Zone i) OR Node i = uint i"
    using Node_bounds [of i] by (simp add: pack_eq) (simp add: Zone_eq Node_eq)
  also have "push_bit 32 n OR uint i = n * 2 ^ 32 + uint i"
    using uint_lt2p [of i] by (intro pack_eq) simp_all
  finally show ?thesis .
qed

lemma Ballot_ID_eq: "Ballot_ID b = ucast b"
proof -
  have "uint (drop_bit 16 (ucast b :: 32 word)) = Zone (ucast b)" by (simp add: Zone_def)
  moreover have "uint (ucast b :: 16 word) = Node (ucast b :: 32 word)"
    by (simp add: Node_eq unsigned_ucast_eq take_bit_eq_mod mod_mod_cancel)
  ultimately show ?thesis by (simp add: Ballot_ID_def NewID_Zone_Node)
qed

lemma Ballot_N_eq: "Ballot_N b = uint b div 2 ^ 32"
  by (simp add: Ballot_N_def uint_drop_bit_div)

lemma Ballot_ID_NewBallot [simp]: "Ballot_ID (NewBallot n i) = i"
proof -
  have "ucast (word_of_int (n * 2 ^ 32 + uint i) :: 64 word) = (word_of_int (n * 2 ^ 32 + uint i) :: ID)"
    by transfer simp
  also have "\<dots> = i" 
    by transfer (simp add: take_bit_eq_mod)
  finally show ?thesis by (simp only: Ballot_ID_eq NewBallot_eq)
qed

lemma uint_NewBallot: "0 \<le> n \<Longrightarrow> n < 2 ^ 32 \<Longrightarrow> uint (NewBallot n i) = n * 2 ^ 32 + uint i"
  using uint_lt2p [of i] by (simp only: NewBallot_eq uint_word_of_int) simp

lemma Ballot_N_NewBallot: "0 \<le> n \<Longrightarrow> n < 2 ^ 32 \<Longrightarrow> Ballot_N (NewBallot n i) = n"
  using uint_lt2p [of i] by (simp add: Ballot_N_eq uint_NewBallot div_add1_eq)

lemma uint_Ballot: "uint b = Ballot_N b * 2 ^ 32 + uint (Ballot_ID b)"
  by (simp add: Ballot_N_eq Ballot_ID_eq unsigned_ucast_eq take_bit_eq_mod)

lemma Ballot_N_bounds: "0 \<le> Ballot_N b" "Ballot_N b < 2 ^ 32"
  using uint_lt2p [of b] by (simp_all add: Ballot_N_eq pos_imp_zdiv_nonneg_iff)

lemma NewBallot_inverse: "NewBallot (Ballot_N b) (Ballot_ID b) = b"
  by (simp only: NewBallot_eq flip: uint_Ballot) simp

lemma Ballot_less_iff: "b < c \<longleftrightarrow> Ballot_N b < Ballot_N c \<or> (Ballot_N b = Ballot_N c \<and> Ballot_ID b < Ballot_ID c)"
proof -
  have "b < c \<longleftrightarrow> uint b < uint c" by (rule word_less_def)
  also have "\<dots> \<longleftrightarrow> Ballot_N b * 2 ^ 32 + uint (Ballot_ID b) < Ballot_N c * 2 ^ 32 + uint (Ballot_ID c)"
    by (simp only: flip: uint_Ballot)
  also have "\<dots> \<longleftrightarrow> Ballot_N b < Ballot_N c \<or> (Ballot_N b = Ballot_N c \<and> Ballot_ID b < Ballot_ID c)"
    using uint_lt2p [of "Ballot_ID b"] uint_lt2p [of "Ballot_ID c"]
    by (subst pack_less) (simp_all add: word_less_def)
  finally show ?thesis .
qed

lemma Ballot_Next_greater: "Ballot_N b < 2 ^ 32 - 1 \<Longrightarrow> b < Ballot_Next b i"
  using Ballot_N_bounds [of b] by (simp add: Ballot_less_iff Ballot_Next_def Ballot_N_NewBallot)

section \<open>The order of identifiers\<close>

lemma compareID_eq: "compareID a b = (if a < b then - 1 else if b < a then 1 else 0)"
proof -
  have u: "uint i = Zone i * 2 ^ 16 + Node i" for i
    by (simp add: Zone_eq Node_eq)
  show ?thesis
    using Node_bounds [of a] Node_bounds [of b] pack_less [of "Node a" "2 ^ 16" "Node b" "Zone a" "Zone b"]
       pack_less [of "Node b" "2 ^ 16" "Node a" "Zone b" "Zone a"]
    by (auto simp: compareID_def word_less_def u)
qed

lemma IDs_Less_eq: "IDs_Less a b \<longleftrightarrow> a < b"
  using compareID_eq [of a b] by (auto simp: IDs_Less_def compareID_def split: if_splits)

section \<open>Textual forms\<close>

lemma digit_char_props: "0 \<le> d \<Longrightarrow> d < 10 \<Longrightarrow> is_digit (digit_char d) \<and> digit_val (digit_char d) = d"
  by (simp add: is_digit_def digit_char_def digit_val_def of_char_of)

lemma dec_digits: "0 \<le> n \<Longrightarrow> list_all is_digit (dec n) \<and> dec n \<noteq> [] \<and> dec_value 0 (dec n) = n"
proof (induction n rule: dec.induct)
  case (1 n)
  show ?case
  proof (cases "n < 10")
    case True
    with 1 show ?thesis by (subst (1 2 3) dec.simps) (simp add: digit_char_props dec_value_def)
  next
    case False
    moreover have "list_all is_digit (dec (n div 10)) \<and> dec (n div 10) \<noteq> [] \<and> dec_value 0 (dec (n div 10)) = n div 10"
      using False by (intro 1) simp_all
    ultimately show ?thesis by (subst (1 2 3) dec.simps) (simp add: digit_char_props dec_value_def)
  qed
qed

lemma parse_digits_value: "list_all is_digit s \<Longrightarrow> 0 \<le> n \<Longrightarrow> dec_value n s \<le> maxUint64 \<Longrightarrow> parse_digits n s = (dec_value n s, True)"
proof (induction s arbitrary: n)
  case Nil then show ?case by (simp add: dec_value_def)
next
  case (Cons c s)
  let ?n = "10 * n + digit_val c"
  have n: "0 \<le> ?n" using Cons.prems by (simp add: is_digit_def digit_val_def)
  have grow: "list_all is_digit s \<Longrightarrow> 0 \<le> m \<Longrightarrow> m \<le> dec_value m s" for m
  proof (induction s arbitrary: m)
    case (Cons d s)
    then have "m \<le> 10 * m + digit_val d" "0 \<le> 10 * m + digit_val d" by (simp_all add: is_digit_def digit_val_def)
    with Cons show ?case unfolding dec_value_def by fastforce
  qed (simp add: dec_value_def)
  have "?n \<le> dec_value ?n s" using grow [OF _ n] Cons.prems by simp
  moreover have "dec_value n (c # s) = dec_value ?n s" by (simp add: dec_value_def)
  ultimately show ?case using Cons n by simp
qed

lemma Atoi_dec: "0 \<le> n \<Longrightarrow> n < 2 ^ 63 \<Longrightarrow> Atoi (dec n) = Some n"
proof -
  assume n: "0 \<le> n" "n < 2 ^ 63"
  have d: "list_all is_digit (dec n)" "dec n \<noteq> []" "dec_value 0 (dec n) = n" using dec_digits n by auto
  then have "is_digit (hd (dec n))" by (cases "dec n") simp_all
  then have "hd (dec n) \<noteq> CHR ''-''" "hd (dec n) \<noteq> CHR ''+''" by (auto simp: is_digit_def)
  moreover have "ParseUint (dec n) = (n, True)" using d n by (simp add: ParseUint_def parse_digits_value maxUint64_def)
  ultimately show ?thesis using n by (simp add: Atoi_def Let_def)
qed

lemma split_dot_no_dot: "CHR ''.'' \<notin> set s \<Longrightarrow> split_dot s = [s]"
  by (induction s) auto

lemma split_dot_append: "CHR ''.'' \<notin> set s \<Longrightarrow> split_dot (s @ CHR ''.'' # t) = s # split_dot t"
  by (induction s) auto

lemma dot_notin_dec: "0 \<le> n \<Longrightarrow> CHR ''.'' \<notin> set (dec n)"
  using dec_digits [of n] by (auto simp: list_all_iff is_digit_def)

lemma NewIDFromString_ID_String: "NewIDFromString (ID_String i) = i"
  using Zone_bounds [of i] Node_bounds [of i]
  by (simp add: NewIDFromString_def ID_String_def Itoa_def split_dot_append split_dot_no_dot dot_notin_dec Atoi_dec NewID_Zone_Node)

lemma NewBallotFromString_String: "NewBallotFromString (Ballot_String b) = b"
proof -
  have n: "0 \<le> Ballot_N b" "Ballot_N b < 2 ^ 32" by (rule Ballot_N_bounds)+
  then have "ParseUint (dec (Ballot_N b)) = (Ballot_N b, True)"
    using dec_digits [of "Ballot_N b"] by (simp add: ParseUint_def parse_digits_value maxUint64_def)
  moreover have "takeWhile (\<lambda>c. c \<noteq> CHR ''.'') (s @ CHR ''.'' # t) = s" 
     "dropWhile (\<lambda>c. c \<noteq> CHR ''.'') (s @ CHR ''.'' # t) = CHR ''.'' # t" if "CHR ''.'' \<notin> set s" for s t
    using that by (auto simp: takeWhile_append dropWhile_append dest: )
  moreover have "sint (word_of_int (Ballot_N b) :: 64 word) = Ballot_N b"
    using n by (simp add: sint_sbintrunc' signed_take_bit_int_eq_self)
  ultimately show ?thesis using n
    by (simp add: NewBallotFromString_def Ballot_String_def splitN2_dot_def Itoa_def Let_def dot_notin_dec
      NewIDFromString_ID_String NewBallot_inverse)
qed

section \<open>The functions on int ballots agree with the methods\<close>

lemma LeaderID_eq: "LeaderID (sint b) = Ballot_ID b"
proof -
  have "(scast b :: 32 word) = ucast b" "(scast b :: 16 word) = ucast b"
    by (transfer, simp add: take_bit_signed_take_bit)+
  then show ?thesis
    by (simp add: LeaderID_def Ballot_ID_def Let_def)
qed

lemma NextBallot_eq: "NextBallot (sint b) i = sint (Ballot_Next b i)"
proof -
  obtain c where s: "sint b = uint b - 2 ^ 64 * c"
    by (simp add: sint_uint signed_take_bit_eq_take_bit_minus bintr_uint)
  have "sint (signed_drop_bit 32 b) = sint b div 2 ^ 32"
    by (simp add: sint_signed_drop_bit_eq drop_bit_eq_div)
  also have "\<dots> = Ballot_N b - 2 ^ 32 * c"
    by (simp add: s Ballot_N_eq)
  finally have d: "sint (signed_drop_bit 32 b) + 1 = (Ballot_N b + 1) - 2 ^ 32 * c"
    by simp
  have p: "push_bit 32 (word_of_int (k - 2 ^ 32 * c)) = (push_bit 32 (word_of_int k) :: 64 word)" for k
  proof -
    have "push_bit 32 (k - 2 ^ 32 * c) = push_bit 32 k - 2 ^ 64 * c"
      by (simp add: push_bit_eq_mult algebra_simps)
    then have "take_bit 64 (push_bit 32 (k - 2 ^ 32 * c)) = take_bit 64 (push_bit 32 k)"
      by (simp add: take_bit_eq_mod mod_diff_eq [symmetric])
    then show ?thesis
      unfolding word_of_int_push_bit by transfer simp
  qed
  have "push_bit 32 (word_of_int (sint (signed_drop_bit 32 b) + 1)) = (push_bit 32 (word_of_int (Ballot_N b + 1)) :: 64 word)"
    by (simp only: d p)
  moreover have "(word_of_int (sint b) :: 64 word) = b" by simp
  ultimately show ?thesis
    by (simp only: NextBallot_def Ballot_Next_def NewBallot_def Let_def or.assoc)
qed

section \<open>Properties\<close>

text \<open>Within the 32 bits of the counter, ballots are ordered by counter first and then by the
  order of the node identifiers that \<open>compareID\<close> computes, so two nodes never own the same ballot
  and a higher counter always wins.\<close>

theorem ballot_order:
  assumes "0 \<le> n" "n < 2 ^ 32" "0 \<le> m" "m < 2 ^ 32"
  shows "NewBallot n i < NewBallot m j \<longleftrightarrow> n < m \<or> (n = m \<and> compareID i j < 0)"
  using assms by (auto simp: Ballot_less_iff Ballot_N_NewBallot compareID_eq)

theorem ballot_order_witness:
  "NewBallot 3 (NewID 2 5) < NewBallot 4 (NewID 1 1)"
  using ballot_order [of 3 4 "NewID 2 5" "NewID 1 1"] by simp

text \<open>While the counter has not reached its last value, \<open>Next\<close> gives a ballot that is owned
  by the given node and is above every ballot of the same or a lower counter; at the last value
  the counter wraps to 0 and the new ballot is below every ballot with a positive counter.\<close>

theorem ballot_next:
  "(Ballot_N b < 2 ^ 32 - 1 \<and> Ballot_N c \<le> Ballot_N b \<longrightarrow>
      c < Ballot_Next b i \<and> Ballot_N (Ballot_Next b i) = Ballot_N b + 1)
   \<and> Ballot_ID (Ballot_Next b i) = i
   \<and> (Ballot_N b = 2 ^ 32 - 1 \<and> 0 < Ballot_N c \<longrightarrow> Ballot_Next b i < c)"
proof -
  have "Ballot_Next b i = NewBallot 0 i" if "Ballot_N b = 2 ^ 32 - 1"
  proof -
    have "word_of_int (2 ^ 32 * 2 ^ 32 + uint i) = (word_of_int (uint i) :: Ballot)"
      by transfer (simp add: take_bit_eq_mod)
    then show ?thesis
      using that by (simp add: Ballot_Next_def NewBallot_eq)
  qed
  then show ?thesis
    using Ballot_N_bounds [of b]
    by (auto simp: Ballot_less_iff Ballot_N_NewBallot Ballot_Next_def)
qed

theorem ballot_next_witness:
  "NewBallot 3 (NewID 1 1) < Ballot_Next (NewBallot 7 (NewID 2 2)) (NewID 1 3)
   \<and> Ballot_Next (NewBallot (2 ^ 32 - 1) (NewID 2 2)) (NewID 1 3) < NewBallot 1 0"
  using ballot_next [of "NewBallot 7 (NewID 2 2)" "NewBallot 3 (NewID 1 1)" "NewID 1 3"]
    ballot_next [of "NewBallot (2 ^ 32 - 1) (NewID 2 2)" "NewBallot 1 0" "NewID 1 3"]
  by (simp add: Ballot_N_NewBallot)

text \<open>The textual forms are lossless: every identifier and every ballot is parsed back from
  the string that its \<open>String\<close> method prints.\<close>

theorem textual_roundtrip:
  "NewIDFromString (ID_String i) = i \<and> NewBallotFromString (Ballot_String b) = b"
  by (simp add: NewIDFromString_ID_String NewBallotFromString_String)

text \<open>The functions on ballots held in a Go \<open>int\<close> agree with the \<open>Ballot\<close> methods on every
  64-bit value, also where the counter makes the \<open>int\<close> negative or wraps.\<close>

theorem int_ballots_agree:
  "NextBallot (sint b) i = sint (Ballot_Next b i) \<and> LeaderID (sint b) = Ballot_ID b"
  by (simp add: NextBallot_eq LeaderID_eq)

end
