(* ===== verification/Quorums.thy ===== *)
theory Quorums
  imports Ident
begin

text \<open>
  The acknowledgement counter of \<open>quorum.go\<close> and the node counts of \<open>config.go\<close> that its
  predicates read. The lemmas show that the counter counts distinct nodes, overall and per zone,
  and that the predicates used for the two phases always have a node in common.
\<close>

section \<open>The configuration read by the protocols\<close>

record config =
  cfg_n :: goint
  cfg_z :: goint
  cfg_npz :: "(goint \<times> goint) list"
  cfg_Thrifty :: bool
  cfg_UseRetroLog :: bool
  cfg_MultiVersion :: bool

text \<open>A read of a missing key of a \<open>map[int]int\<close> gives 0.\<close>

definition get0 :: "('k \<times> goint) list \<Rightarrow> 'k \<Rightarrow> goint" where
  "get0 m k = (case map_of m k of None \<Rightarrow> 0 | Some v \<Rightarrow> v)"

definition incr :: "'k \<Rightarrow> ('k \<times> goint) list \<Rightarrow> ('k \<times> goint) list" where
  "incr k m = AList.update k (get0 m k + 1) m"

text \<open>The end of \<open>Config.Load\<close>: the counts are derived from the node addresses.\<close>

definition Load_counts :: "ID list \<Rightarrow> config \<Rightarrow> config" where
  "Load_counts addrs c =
     (let c1 = fold (\<lambda>i c. c\<lparr>cfg_n := cfg_n c + 1, cfg_npz := incr (Zone i) (cfg_npz c)\<rparr>) addrs
                 (c\<lparr>cfg_npz := []\<rparr>)
      in c1\<lparr>cfg_z := int (length (cfg_npz c1))\<rparr>)"

definition default_config :: config where
  "default_config = \<lparr>cfg_n = 0, cfg_z = 0, cfg_npz = [], cfg_Thrifty = False,
     cfg_UseRetroLog = False, cfg_MultiVersion = False\<rparr>"

section \<open>The acknowledgement counter\<close>

text \<open>The maps of booleans are sets; a \<open>nil\<close> map is \<open>None\<close>. \<open>NewQuorum\<close> leaves \<open>nacks\<close> nil.\<close>

record quorum =
  qsize :: goint
  acks :: "ID set"
  zones :: "(goint \<times> goint) list"
  nacks :: "ID set option"

definition NewQuorum :: quorum where
  "NewQuorum = \<lparr>qsize = 0, acks = {}, zones = [], nacks = None\<rparr>"

definition ACK :: "ID \<Rightarrow> quorum \<Rightarrow> quorum" where
  "ACK i q =
     (if i \<notin> acks q
      then q\<lparr>acks := insert i (acks q), qsize := qsize q + 1, zones := incr (Zone i) (zones q)\<rparr>
      else q)"

definition NACK :: "ID \<Rightarrow> quorum \<Rightarrow> quorum go" where
  "NACK i q =
     (case nacks q of
        None \<Rightarrow> Inl NilMapWrite
      | Some ns \<Rightarrow> Inr (if i \<notin> ns then q\<lparr>nacks := Some (insert i ns)\<rparr> else q))"

definition ADD :: "quorum \<Rightarrow> quorum" where
  "ADD q = q\<lparr>qsize := qsize q + 1\<rparr>"

definition Size :: "quorum \<Rightarrow> goint" where
  "Size q = qsize q"

definition Reset :: "quorum \<Rightarrow> quorum" where
  "Reset q = q\<lparr>qsize := 0, acks := {}, zones := [], nacks := Some {}\<rparr>"

definition Quorum_All :: "config \<Rightarrow> quorum \<Rightarrow> bool" where
  "Quorum_All c q \<longleftrightarrow> qsize q = cfg_n c"

definition Majority :: "config \<Rightarrow> quorum \<Rightarrow> bool" where
  "Majority c q \<longleftrightarrow> qsize q > cfg_n c sdiv 2"

definition LayerMajority :: "config \<Rightarrow> quorum \<Rightarrow> bool" where
  "LayerMajority c q \<longleftrightarrow> qsize q > cfg_n c sdiv 4"

definition FastQuorum :: "config \<Rightarrow> quorum \<Rightarrow> bool" where
  "FastQuorum c q \<longleftrightarrow> qsize q \<ge> cfg_n c * 3 sdiv 4"

definition AllZones :: "config \<Rightarrow> quorum \<Rightarrow> bool" where
  "AllZones c q \<longleftrightarrow> int (length (zones q)) = cfg_z c"

definition ZoneMajority :: "config \<Rightarrow> quorum \<Rightarrow> bool" where
  "ZoneMajority c q \<longleftrightarrow> list_ex (\<lambda>(z, n). n > get0 (cfg_npz c) z sdiv 2) (zones q)"

definition GridRow :: "config \<Rightarrow> quorum \<Rightarrow> bool" where
  "GridRow c q = AllZones c q"

definition GridColumn :: "config \<Rightarrow> quorum \<Rightarrow> bool" where
  "GridColumn c q \<longleftrightarrow> list_ex (\<lambda>(z, n). n = get0 (cfg_npz c) z) (zones q)"

definition majority_zones :: "config \<Rightarrow> quorum \<Rightarrow> goint" where
  "majority_zones c q =
     fold (\<lambda>(z, n) zone. if n > get0 (cfg_npz c) z sdiv 2 then zone + 1 else zone) (zones q) 0"

definition FGridQ1 :: "config \<Rightarrow> goint \<Rightarrow> quorum \<Rightarrow> bool" where
  "FGridQ1 c Fz q \<longleftrightarrow> majority_zones c q \<ge> cfg_z c - Fz"

definition FGridQ2 :: "config \<Rightarrow> goint \<Rightarrow> quorum \<Rightarrow> bool" where
  "FGridQ2 c Fz q \<longleftrightarrow> majority_zones c q \<ge> Fz + 1"

section \<open>Invariant\<close>

definition zone_count :: "ID set \<Rightarrow> goint \<Rightarrow> nat" where
  "zone_count A z = card {i \<in> A. Zone i = z}"

text \<open>What a \<open>map[int]int\<close> of counters filled by \<open>zones[z]++\<close> holds for a set of nodes.\<close>

definition counts_zones :: "(goint \<times> goint) list \<Rightarrow> ID set \<Rightarrow> bool" where
  "counts_zones m A \<longleftrightarrow>
     distinct (map fst m) \<and>
     map_of m = (\<lambda>z. if zone_count A z = 0 then None else Some (int (zone_count A z)))"

definition wf_quorum :: "quorum \<Rightarrow> bool" where
  [wf_defs]: "wf_quorum q \<longleftrightarrow>
     finite (acks q) \<and> qsize q = int (card (acks q)) \<and> counts_zones (zones q) (acks q)"

text \<open>A quorum whose acknowledgements come from the members of a configuration.\<close>

definition member_quorum :: "ID list \<Rightarrow> quorum \<Rightarrow> bool" where
  "member_quorum ms q \<longleftrightarrow> distinct ms \<and> wf_quorum q \<and> acks q \<subseteq> set ms"

definition members_config :: "ID list \<Rightarrow> config" where
  "members_config ms = Load_counts ms default_config"

lemma get0_counts: "counts_zones m A \<Longrightarrow> get0 m z = int (zone_count A z)"
  by (simp add: counts_zones_def get0_def)

lemma zone_count_insert:
  "finite A \<Longrightarrow> i \<notin> A \<Longrightarrow>
   zone_count (insert i A) z = zone_count A z + (if Zone i = z then 1 else 0)"
proof -
  assume A: "finite A" "i \<notin> A"
  have "{j \<in> insert i A. Zone j = z} =
      (if Zone i = z then insert i {j \<in> A. Zone j = z} else {j \<in> A. Zone j = z})"
    by auto
  with A show ?thesis by (simp add: zone_count_def)
qed

lemma counts_zones_incr:
  assumes "finite A" "i \<notin> A" "counts_zones m A"
  shows "counts_zones (incr (Zone i) m) (insert i A)"
proof -
  have "map_of (incr (Zone i) m) = (map_of m)(Zone i \<mapsto> int (zone_count A (Zone i)) + 1)"
    by (simp add: incr_def update_conv' get0_counts [OF assms(3)])
  then show ?thesis
    using assms by (auto simp: counts_zones_def incr_def zone_count_insert distinct_update fun_eq_iff)
qed

lemma wf_NewQuorum [simp]: "wf_quorum NewQuorum"
  by (simp add: wf_quorum_def NewQuorum_def counts_zones_def zone_count_def)

lemma wf_Reset [simp]: "wf_quorum (Reset q)"
  by (simp add: wf_quorum_def Reset_def counts_zones_def zone_count_def)

lemma wf_ACK [simp]: "wf_quorum q \<Longrightarrow> wf_quorum (ACK i q)"
  by (auto simp: wf_quorum_def ACK_def counts_zones_incr)

lemma acks_simps [simp]:
  "acks NewQuorum = {}" "acks (Reset q) = {}" "acks (ACK i q) = insert i (acks q)"
  by (auto simp: NewQuorum_def Reset_def ACK_def)

lemma acks_fold_ACK [simp]: "acks (fold ACK ids q) = acks q \<union> set ids"
  by (induction ids arbitrary: q) auto

lemma wf_fold_ACK [simp]: "wf_quorum q \<Longrightarrow> wf_quorum (fold ACK ids q)"
  by (rule fold_invariant) auto

section \<open>The counts of a configuration\<close>

lemma Load_counts_fold:
  assumes "finite A" "counts_zones (cfg_npz c) A" "distinct ms" "set ms \<inter> A = {}"
  defines "d \<equiv> fold (\<lambda>i c. c\<lparr>cfg_n := cfg_n c + 1, cfg_npz := incr (Zone i) (cfg_npz c)\<rparr>) ms c"
  shows "cfg_n d = cfg_n c + int (length ms) \<and> counts_zones (cfg_npz d) (A \<union> set ms)"
  using assms(1-4) unfolding d_def
proof (induction ms arbitrary: c A)
  case (Cons i ms)
  then have "counts_zones (incr (Zone i) (cfg_npz c)) (insert i A)"
    by (intro counts_zones_incr) auto
  then show ?case
    using Cons.IH [of "insert i A" "c\<lparr>cfg_n := cfg_n c + 1, cfg_npz := incr (Zone i) (cfg_npz c)\<rparr>"]
      Cons.prems by auto
qed simp

lemma members_config_counts:
  assumes "distinct ms"
  shows "cfg_n (members_config ms) = int (length ms)"
    and "counts_zones (cfg_npz (members_config ms)) (set ms)"
    and "cfg_z (members_config ms) = int (length (cfg_npz (members_config ms)))"
  using Load_counts_fold [of "{}" "default_config\<lparr>cfg_npz := []\<rparr>" ms] assms
  by (simp_all add: members_config_def Load_counts_def default_config_def Let_def
      counts_zones_def zone_count_def)

section \<open>Reading the predicates as counts of nodes\<close>

lemma Majority_iff:
  "wf_quorum q \<Longrightarrow> 0 \<le> cfg_n c \<Longrightarrow> Majority c q \<longleftrightarrow> cfg_n c < 2 * int (card (acks q))"
  by (auto simp: Majority_def wf_quorum_def sdiv_nonneg)

definition won_zones :: "config \<Rightarrow> ID set \<Rightarrow> goint set" where
  "won_zones c A = {z. get0 (cfg_npz c) z < 2 * int (zone_count A z)}"

lemma majority_zones_filter:
  "majority_zones c q = int (length (filter (\<lambda>(z, n). n > get0 (cfg_npz c) z sdiv 2) (zones q)))"
proof -
  have "fold (\<lambda>(z, n) zone. if P z n then zone + 1 else zone) xs (k :: int) =
      k + int (length (filter (\<lambda>(z, n). P z n) xs))" for P k and xs :: "(goint \<times> goint) list"
    by (induction xs arbitrary: k) auto
  from this [of "\<lambda>z n. n > get0 (cfg_npz c) z sdiv 2"] show ?thesis
    by (simp add: majority_zones_def)
qed

lemma majority_zones_card:
  assumes q: "wf_quorum q" and npz: "counts_zones (cfg_npz c) B"
  shows "finite (won_zones c (acks q)) \<and> majority_zones c q = int (card (won_zones c (acks q)))"
proof -
  let ?P = "\<lambda>(z, n). n > get0 (cfg_npz c) z sdiv 2"
  let ?f = "filter ?P (zones q)"
  have zq: "counts_zones (zones q) (acks q)"
    using q by (simp add: wf_quorum_def)
  have in_zones: "(z, n) \<in> set (zones q) \<longleftrightarrow> n = int (zone_count (acks q) z) \<and> n \<noteq> 0" for z n
    using zq map_of_eq_Some_iff [of "zones q" z n] by (auto simp: counts_zones_def split: if_splits)
  have pos: "0 \<le> get0 (cfg_npz c) z" for z
    by (simp add: get0_counts [OF npz])
  have half: "get0 (cfg_npz c) z sdiv 2 < n \<longleftrightarrow> get0 (cfg_npz c) z < 2 * n" for z n
    using pos [of z] by (auto simp: sdiv_nonneg)
  have "fst ` set ?f = won_zones c (acks q)"
  proof (intro set_eqI iffI)
    fix z
    assume "z \<in> won_zones c (acks q)"
    then have "(z, int (zone_count (acks q) z)) \<in> set ?f"
      using pos [of z] by (auto simp: in_zones won_zones_def half)
    then show "z \<in> fst ` set ?f"
      by (rule image_eqI [rotated]) simp
  qed (auto simp: in_zones won_zones_def half)
  moreover have "distinct (map fst ?f)"
    using zq by (simp add: counts_zones_def distinct_map_filter)
  ultimately have "card (won_zones c (acks q)) = length ?f"
    by (metis distinct_card length_map list.set_map)
  moreover have "finite (won_zones c (acks q))"
    using \<open>fst ` set ?f = won_zones c (acks q)\<close> [symmetric] by simp
  ultimately show ?thesis
    by (simp add: majority_zones_filter)
qed

text \<open>More than half of a set twice: the two halves meet.\<close>

lemma majorities_meet:
  assumes "finite M" "A \<subseteq> M" "B \<subseteq> M" "card M < card A + card B"
  shows "A \<inter> B \<noteq> {}"
proof
  assume "A \<inter> B = {}"
  then have "card (A \<union> B) = card A + card B"
    using assms by (intro card_Un_disjoint) (auto intro: finite_subset)
  moreover have "card (A \<union> B) \<le> card M"
    using assms by (intro card_mono) auto
  ultimately show False using assms(4) by simp
qed

lemma won_zones_members:
  assumes "distinct ms" and "A \<subseteq> set ms"
  shows "won_zones (members_config ms) A \<subseteq> fst ` set (cfg_npz (members_config ms))"
    and "card (fst ` set (cfg_npz (members_config ms))) = length (cfg_npz (members_config ms))"
proof -
  let ?npz = "cfg_npz (members_config ms)"
  have c: "counts_zones ?npz (set ms)"
    using assms(1) by (rule members_config_counts)
  then show "card (fst ` set ?npz) = length ?npz"
    by (metis counts_zones_def distinct_card length_map list.set_map)
  show "won_zones (members_config ms) A \<subseteq> fst ` set ?npz"
  proof
    fix z
    assume "z \<in> won_zones (members_config ms) A"
    then have "0 < zone_count A z"
      by (simp add: won_zones_def get0_counts [OF c])
    moreover have "zone_count A z \<le> zone_count (set ms) z"
      unfolding zone_count_def using assms(2) by (intro card_mono) auto
    ultimately have "map_of ?npz z \<noteq> None"
      using c by (simp add: counts_zones_def)
    then show "z \<in> fst ` set ?npz"
      by (simp add: map_of_eq_None_iff)
  qed
qed

lemma FGrid_meet:
  assumes "member_quorum ms a" "member_quorum ms b"
    and "FGridQ1 (members_config ms) Fz a" "FGridQ2 (members_config ms) Fz b"
  shows "acks a \<inter> acks b \<noteq> {}"
proof -
  let ?c = "members_config ms" and ?npz = "cfg_npz (members_config ms)"
  let ?W = "\<lambda>q. won_zones ?c (acks q)"
  have ms: "distinct ms" and q: "wf_quorum a" "wf_quorum b" "acks a \<subseteq> set ms" "acks b \<subseteq> set ms"
    using assms(1,2) by (simp_all add: member_quorum_def)
  note c = members_config_counts [OF ms]
  note W = majority_zones_card [OF q(1) c(2)] majority_zones_card [OF q(2) c(2)]
  have "card (fst ` set ?npz) < card (?W a) + card (?W b)"
    using assms(3,4) W won_zones_members(2) [OF ms q(3)] c(3)
    by (simp add: FGridQ1_def FGridQ2_def)
  then have "?W a \<inter> ?W b \<noteq> {}"
    using won_zones_members(1) [OF ms] q by (intro majorities_meet [of "fst ` set ?npz"]) auto
  then obtain z where z: "z \<in> ?W a" "z \<in> ?W b" by auto
  let ?Z = "\<lambda>A. {i \<in> A. Zone i = z}"
  have "card (?Z (set ms)) < card (?Z (acks a)) + card (?Z (acks b))"
    using z by (simp add: won_zones_def get0_counts [OF c(2)] zone_count_def)
  then have "?Z (acks a) \<inter> ?Z (acks b) \<noteq> {}"
    using q by (intro majorities_meet [of "?Z (set ms)"]) auto
  then show ?thesis by auto
qed

lemma Majority_meet:
  assumes "member_quorum ms a" "member_quorum ms b"
    and "Majority (members_config ms) a" "Majority (members_config ms) b"
  shows "acks a \<inter> acks b \<noteq> {}"
proof -
  have ms: "distinct ms" and q: "wf_quorum a" "wf_quorum b" "acks a \<subseteq> set ms" "acks b \<subseteq> set ms"
    using assms(1,2) by (simp_all add: member_quorum_def)
  then have "card (set ms) < card (acks a) + card (acks b)"
    using assms(3,4) by (simp add: Majority_iff members_config_counts distinct_card)
  then show ?thesis
    using q by (intro majorities_meet [of "set ms"]) auto
qed

section \<open>The interface the protocols use\<close>

text \<open>
  A protocol runs its first phase until one predicate holds and its second phase until another
  holds, over counters that acknowledge members. What it relies on is that a phase-1 quorum and a
  phase-2 quorum have a voter in common.
\<close>

locale quorum_pair =
  fixes counted :: "'q \<Rightarrow> bool"
    and voters :: "'q \<Rightarrow> 'i set"
    and q1 :: "'q \<Rightarrow> bool"
    and q2 :: "'q \<Rightarrow> bool"
  assumes cross: "counted a \<Longrightarrow> counted b \<Longrightarrow> q1 a \<Longrightarrow> q2 b \<Longrightarrow> voters a \<inter> voters b \<noteq> {}"
begin

text \<open>If every voter of a phase-1 quorum has refused something, no phase-2 quorum consists of
  voters that have not.\<close>

lemma blocked:
  assumes "counted a" "counted b" "q1 a" "q2 b" "\<forall>i \<in> voters a. refused i"
  shows "\<exists>i \<in> voters b. refused i"
  using cross [OF assms(1-4)] assms(5) by blast

end

locale self_quorum = quorum_pair counted voters q q
  for counted :: "'q \<Rightarrow> bool" and voters :: "'q \<Rightarrow> 'i set" and q :: "'q \<Rightarrow> bool"
begin

text \<open>No two quorums vote for different values when every node votes for one.\<close>

lemma same_value:
  assumes "counted a" "counted b" "q a" "q b"
    and "\<forall>i \<in> voters a. vote i = v" "\<forall>i \<in> voters b. vote i = w"
  shows "v = w"
proof -
  have "voters a \<inter> voters b \<noteq> {}"
    using assms(1-4) by (rule cross)
  then obtain i where "i \<in> voters a" "i \<in> voters b" by blast
  with assms(5,6) show ?thesis by auto
qed

end

interpretation maj: self_quorum "member_quorum ms" acks "Majority (members_config ms)" for ms
  by unfold_locales (rule Majority_meet)

interpretation fgrid: quorum_pair "member_quorum ms" acks
    "FGridQ1 (members_config ms) Fz" "FGridQ2 (members_config ms) Fz" for ms Fz
  by unfold_locales (rule FGrid_meet)

section \<open>Properties\<close>

text \<open>The counter counts nodes, not messages: after any sequence of acknowledgements from a
  fresh or reset counter, \<open>Majority\<close> holds exactly when the distinct acknowledging nodes are more
  than half of the configured ones, and the size and the per-zone counts are those of the set.\<close>

theorem acks_counted_once:
  assumes "q = NewQuorum \<or> q = Reset q0" and "0 \<le> cfg_n c"
  shows "(Majority c (fold ACK ids q) \<longleftrightarrow> cfg_n c < 2 * int (card (set ids)))
    \<and> Size (fold ACK ids q) = int (card (set ids))
    \<and> get0 (zones (fold ACK ids q)) z = int (card {i \<in> set ids. Zone i = z})"
proof -
  have "wf_quorum (fold ACK ids q)" and a: "acks (fold ACK ids q) = set ids"
    using assms(1) by auto
  moreover from this have "qsize (fold ACK ids q) = int (card (set ids))"
    and "counts_zones (zones (fold ACK ids q)) (set ids)"
    unfolding wf_quorum_def by simp_all
  ultimately show ?thesis
    using assms(2) by (auto simp: Majority_iff Size_def get0_counts zone_count_def)
qed

theorem acks_counted_once_witness:
  "\<not> Majority (members_config [NewID 1 1, NewID 1 2, NewID 2 1])
      (fold ACK [NewID 1 1, NewID 1 1] NewQuorum)"
proof -
  have "card (set [NewID 1 1, NewID 1 1]) = 1" by simp
  moreover have "cfg_n (members_config [NewID 1 1, NewID 1 2, NewID 2 1]) = 3"
    by (simp add: members_config_counts NewID_def)
  ultimately show ?thesis
    using acks_counted_once [of NewQuorum undefined
        "members_config [NewID 1 1, NewID 1 2, NewID 2 1]" "[NewID 1 1, NewID 1 1]" 1]
    by simp
qed

text \<open>Two majorities of the configured nodes always share a node.\<close>

theorem majorities_intersect:
  assumes "member_quorum ms a" "member_quorum ms b"
    and "Majority (members_config ms) a" "Majority (members_config ms) b"
  shows "acks a \<inter> acks b \<noteq> {}"
  using assms by (rule maj.cross)

theorem majorities_intersect_witness:
  "acks (fold ACK [NewID 1 1, NewID 1 2] NewQuorum) \<inter> acks (fold ACK [NewID 2 1, NewID 1 2] NewQuorum) \<noteq> {}"
proof -
  let ?ms = "[NewID 1 1, NewID 1 2, NewID 2 1]"
  let ?a = "fold ACK [NewID 1 1, NewID 1 2] NewQuorum" and ?b = "fold ACK [NewID 2 1, NewID 1 2] NewQuorum"
  have "member_quorum ?ms ?a" "member_quorum ?ms ?b"
    by (simp_all add: member_quorum_def NewID_def)
  moreover have "Majority (members_config ?ms) ?a" "Majority (members_config ?ms) ?b"
    by code_simp+
  ultimately show ?thesis
    by (rule majorities_intersect)
qed

text \<open>The flexible-grid quorums cross: a phase-1 quorum that has a majority in all but \<open>Fz\<close>
  zones and a phase-2 quorum that has a majority in \<open>Fz + 1\<close> zones, counted over the configured
  nodes, share a node, so if all nodes of the first refuse a proposal some node of the second
  does.\<close>

theorem fgrid_blocks:
  assumes "member_quorum ms a" "member_quorum ms b"
    and "FGridQ1 (members_config ms) Fz a" "FGridQ2 (members_config ms) Fz b"
    and "\<forall>i \<in> acks a. refused i"
  shows "\<exists>i \<in> acks b. refused i"
  using assms by (rule fgrid.blocked)

theorem fgrid_blocks_witness:
  "\<exists>i \<in> acks (fold ACK [NewID 1 1, NewID 2 1] NewQuorum). i = NewID 2 1 \<or> i = NewID 1 1"
proof -
  let ?ms = "[NewID 1 1, NewID 2 1]"
  let ?a = "fold ACK [NewID 2 1] NewQuorum" and ?b = "fold ACK [NewID 1 1, NewID 2 1] NewQuorum"
  have "member_quorum ?ms ?a" "member_quorum ?ms ?b"
    by (simp_all add: member_quorum_def NewID_def)
  moreover have "FGridQ1 (members_config ?ms) 1 ?a" "FGridQ2 (members_config ?ms) 1 ?b"
    by code_simp+
  ultimately show ?thesis
    using fgrid_blocks [of ?ms ?a ?b 1 "\<lambda>i. i = NewID 2 1"] by auto
qed

end
