(* ===== verification/Database.thy ===== *)
theory Database
  imports Quorums
begin

text \<open>
  The replicated key-value store, \<open>db.go\<close>: values and commands, the store with its version counter
  and optional history, and the conflict test on commands. The lemmas give the store's meaning as
  a function of the commands executed so far and show that commands which do not conflict commute.
\<close>

section \<open>Values and commands\<close>

text \<open>A \<open>Value\<close> is a byte slice that may be \<open>nil\<close> (\<open>None\<close>); \<open>bytes.Equal\<close> does not tell \<open>nil\<close> from an
  empty slice.\<close>

type_synonym bytes = "8 word list"
type_synonym Value = "bytes option"
type_synonym Key = goint

definition slice_bytes :: "Value \<Rightarrow> bytes" where
  "slice_bytes v = (case v of None \<Rightarrow> [] | Some b \<Rightarrow> b)"

definition Value_Equals :: "Value \<Rightarrow> Value \<Rightarrow> bool" where
  "Value_Equals v v2 \<longleftrightarrow> slice_bytes v = slice_bytes v2"

record Command =
  cKey :: Key
  cValue :: Value
  cClientID :: ID
  cCommandID :: goint

definition Empty :: "Command \<Rightarrow> bool" where
  "Empty c \<longleftrightarrow> cKey c = 0 \<and> cValue c = None \<and> cClientID c = 0 \<and> cCommandID c = 0"

definition IsRead :: "Command \<Rightarrow> bool" where
  "IsRead c \<longleftrightarrow> cValue c = None"

definition IsWrite :: "Command \<Rightarrow> bool" where
  "IsWrite c \<longleftrightarrow> cValue c \<noteq> None"

definition Command_Equal :: "Command \<Rightarrow> Command \<Rightarrow> bool" where
  "Command_Equal c a \<longleftrightarrow>
     cKey c = cKey a \<and> slice_bytes (cValue c) = slice_bytes (cValue a) \<and>
     cClientID c = cClientID a \<and> cCommandID c = cCommandID a"

definition zero_command :: Command where
  "zero_command = \<lparr>cKey = 0, cValue = None, cClientID = 0, cCommandID = 0\<rparr>"

definition Conflict :: "Command \<Rightarrow> Command \<Rightarrow> bool" where
  "Conflict gamma delta \<longleftrightarrow> cKey gamma = cKey delta \<and> (\<not> IsRead gamma \<or> \<not> IsRead delta)"

fun ConflictBatch :: "Command list \<Rightarrow> Command list \<Rightarrow> bool" where
  "ConflictBatch [] batch2 = False"
| "ConflictBatch (c # batch1) batch2 = (list_ex (Conflict c) batch2 \<or> ConflictBatch batch1 batch2)"

section \<open>The store\<close>

text \<open>A read of a missing key of \<open>map[Key]Value\<close> gives \<open>nil\<close>, so the maps to values and to slices of
  values are total functions with the default \<open>None\<close> and the empty slice.\<close>

record database =
  db_data :: "Key \<Rightarrow> Value"
  db_version :: goint
  db_multiversion :: bool
  db_history :: "Key \<Rightarrow> Value list"

definition NewDatabase :: "config \<Rightarrow> database" where
  "NewDatabase c = \<lparr>db_data = (\<lambda>_. None), db_version = 0,
     db_multiversion = cfg_MultiVersion c, db_history = (\<lambda>_. [])\<rparr>"

definition put :: "Key \<Rightarrow> Value \<Rightarrow> database \<Rightarrow> database" where
  "put k v d =
     (if v \<noteq> None then
        let d1 = d\<lparr>db_data := (db_data d)(k := v), db_version := db_version d + 1\<rparr>
        in if db_multiversion d1
           then d1\<lparr>db_history := (db_history d1)(k := db_history d1 k @ [v])\<rparr> else d1
      else d)"

definition Execute :: "Command \<Rightarrow> database \<Rightarrow> database \<times> Value" where
  "Execute c d = (let v = db_data d (cKey c) in (put (cKey c) (cValue c) d, v))"

definition Get :: "Key \<Rightarrow> database \<Rightarrow> Value" where
  "Get k d = db_data d k"

definition Put :: "Key \<Rightarrow> Value \<Rightarrow> database \<Rightarrow> database" where
  "Put k v d = put k v d"

definition Version :: "Key \<Rightarrow> database \<Rightarrow> goint" where
  "Version k d = db_version d"

definition History :: "Key \<Rightarrow> database \<Rightarrow> Value list" where
  "History k d = db_history d k"

text \<open>A run of commands: the final store and the replies in order.\<close>

fun Execute_all :: "Command list \<Rightarrow> database \<Rightarrow> database \<times> Value list" where
  "Execute_all [] d = (d, [])"
| "Execute_all (c # cs) d =
     (let (d1, v) = Execute c d; (d2, vs) = Execute_all cs d1 in (d2, v # vs))"

section \<open>The meaning of a run\<close>

text \<open>The values written to a key, in order.\<close>

definition writes :: "Key \<Rightarrow> Command list \<Rightarrow> Value list" where
  "writes k cs = map cValue (filter (\<lambda>c. IsWrite c \<and> cKey c = k) cs)"

lemma writes_simps [simp]:
  "writes k [] = []"
  "writes k (c # cs) = (if IsWrite c \<and> cKey c = k then cValue c # writes k cs else writes k cs)"
  "writes k (cs @ ds) = writes k cs @ writes k ds"
  by (simp_all add: writes_def)

lemma Execute_eq:
  "fst (Execute c d) =
     (if IsWrite c then
        d\<lparr>db_data := (db_data d)(cKey c := cValue c), db_version := db_version d + 1,
          db_history := (if db_multiversion d
            then (db_history d)(cKey c := db_history d (cKey c) @ [cValue c]) else db_history d)\<rparr>
      else d)"
  "snd (Execute c d) = db_data d (cKey c)"
  by (auto simp: Execute_def put_def IsWrite_def Let_def)

lemma Execute_all_append:
  "Execute_all (cs @ ds) d =
     (let (d1, vs) = Execute_all cs d; (d2, ws) = Execute_all ds d1 in (d2, vs @ ws))"
  by (induction cs arbitrary: d) (auto simp: Let_def split: prod.splits)

lemma fst_Execute_all_Cons: "fst (Execute_all (c # cs) d) = fst (Execute_all cs (fst (Execute c d)))"
  by (simp add: Let_def split: prod.splits)

lemma fst_Execute_all_append:
  "fst (Execute_all (cs @ ds) d) = fst (Execute_all ds (fst (Execute_all cs d)))"
  by (simp add: Execute_all_append Let_def split: prod.splits)

lemma snd_Execute_all_Cons:
  "snd (Execute_all (c # cs) d) = snd (Execute c d) # snd (Execute_all cs (fst (Execute c d)))"
  by (simp add: Let_def split: prod.splits)

lemma snd_Execute_all_append:
  "snd (Execute_all (cs @ ds) d) = snd (Execute_all cs d) @ snd (Execute_all ds (fst (Execute_all cs d)))"
  by (simp add: Execute_all_append Let_def split: prod.splits)

lemma length_snd_Execute_all [simp]: "length (snd (Execute_all cs d)) = length cs"
  by (induction cs arbitrary: d) (simp_all add: snd_Execute_all_Cons del: Execute_all.simps(2))

lemma Execute_all_data:
  "db_data (fst (Execute_all cs d)) k = last (db_data d k # writes k cs)"
  by (induction cs arbitrary: d)
    (auto simp: fst_Execute_all_Cons Execute_eq simp del: Execute_all.simps(2))

lemma Execute_all_history:
  "db_multiversion d \<Longrightarrow>
     db_multiversion (fst (Execute_all cs d)) \<and>
     db_history (fst (Execute_all cs d)) k = db_history d k @ writes k cs"
  by (induction cs arbitrary: d)
    (auto simp: fst_Execute_all_Cons Execute_eq simp del: Execute_all.simps(2))

lemma Execute_all_version:
  "db_version (fst (Execute_all cs d)) = db_version d + int (length (filter IsWrite cs))"
  by (induction cs arbitrary: d)
    (auto simp: fst_Execute_all_Cons Execute_eq simp del: Execute_all.simps(2))

lemma Execute_all_reply:
  "i < length cs \<Longrightarrow>
     snd (Execute_all cs d) ! i = last (db_data d (cKey (cs ! i)) # writes (cKey (cs ! i)) (take i cs))"
proof -
  assume i: "i < length cs"
  let ?pre = "take i cs" and ?c = "cs ! i" and ?post = "drop (Suc i) cs"
  have "cs = ?pre @ ?c # ?post"
    using i by (rule id_take_nth_drop)
  then have "snd (Execute_all cs d) ! i =
      (snd (Execute_all ?pre d) @ snd (Execute_all (?c # ?post) (fst (Execute_all ?pre d)))) ! i"
    by (metis snd_Execute_all_append)
  also have "\<dots> = snd (Execute ?c (fst (Execute_all ?pre d)))"
    using i by (simp add: nth_append snd_Execute_all_Cons del: Execute_all.simps(2))
  finally show ?thesis
    by (simp add: Execute_eq Execute_all_data)
qed

section \<open>Commands that do not conflict\<close>

lemma not_Conflict_commute:
  assumes "\<not> Conflict a b"
  shows "fst (Execute b (fst (Execute a d))) = fst (Execute a (fst (Execute b d)))"
    and "snd (Execute b (fst (Execute a d))) = snd (Execute b d)"
    and "snd (Execute a (fst (Execute b d))) = snd (Execute a d)"
  using assms
  by (auto simp: Conflict_def IsRead_def IsWrite_def Execute_eq fun_upd_twist)

lemma ConflictBatch_iff:
  "ConflictBatch xs ys \<longleftrightarrow> (\<exists>x \<in> set xs. \<exists>y \<in> set ys. Conflict x y)"
  by (induction xs ys rule: ConflictBatch.induct) (auto simp: list_ex_iff)

lemma not_Conflict_batch:
  assumes "\<forall>b \<in> set bs. \<not> Conflict a b"
  shows "fst (Execute_all bs (fst (Execute a d))) = fst (Execute a (fst (Execute_all bs d)))"
    and "snd (Execute_all bs (fst (Execute a d))) = snd (Execute_all bs d)"
    and "snd (Execute a (fst (Execute_all bs d))) = snd (Execute a d)"
proof -
  have "fst (Execute_all bs (fst (Execute a d))) = fst (Execute a (fst (Execute_all bs d)))
      \<and> snd (Execute_all bs (fst (Execute a d))) = snd (Execute_all bs d)
      \<and> snd (Execute a (fst (Execute_all bs d))) = snd (Execute a d)"
    using assms
  proof (induction bs arbitrary: d)
    case (Cons b bs)
    then have "\<not> Conflict a b" by simp
    note c = not_Conflict_commute [OF this, of d]
    then show ?case
      using Cons.IH [of "fst (Execute b d)"] Cons.prems
      by (simp add: fst_Execute_all_Cons snd_Execute_all_Cons del: Execute_all.simps(2))
  qed simp
  then show "fst (Execute_all bs (fst (Execute a d))) = fst (Execute a (fst (Execute_all bs d)))"
    and "snd (Execute_all bs (fst (Execute a d))) = snd (Execute_all bs d)"
    and "snd (Execute a (fst (Execute_all bs d))) = snd (Execute a d)"
    by simp_all
qed

lemma not_ConflictBatch:
  assumes "\<not> ConflictBatch xs ys"
  shows "fst (Execute_all (xs @ ys) d) = fst (Execute_all (ys @ xs) d)
    \<and> snd (Execute_all ys (fst (Execute_all xs d))) = snd (Execute_all ys d)
    \<and> snd (Execute_all xs (fst (Execute_all ys d))) = snd (Execute_all xs d)"
  using assms
proof (induction xs arbitrary: d)
  case (Cons x xs)
  then have "\<forall>y \<in> set ys. \<not> Conflict x y" and xs: "\<not> ConflictBatch xs ys"
    by (simp_all add: list_ex_iff)
  note b = not_Conflict_batch [OF this(1)]
  show ?case
    using Cons.IH [OF xs, of "fst (Execute x d)"] b [of d]
    by (simp add: fst_Execute_all_Cons snd_Execute_all_Cons fst_Execute_all_append
        del: Execute_all.simps(2))
qed (simp add: fst_Execute_all_append)

section \<open>Properties\<close>

text \<open>C15: The store is a register per key: every command is answered with the last value written to
  its key by an earlier command of the run (or the value before the run), the final contents are
  the last writes, and a multi-version store records exactly the
  writes of each key in order. The version is that of the store, not of the key, as the comment of \<open>Version\<close> has
  it: it counts the writes to all keys.\<close>

theorem store_is_last_write:
  assumes "d = NewDatabase c" and "i < length cs"
  shows "snd (Execute_all cs d) ! i =
           last (None # writes (cKey (cs ! i)) (take i cs))
    \<and> Get k (fst (Execute_all cs d)) = last (None # writes k cs)
    \<and> Version k (fst (Execute_all cs d)) = int (length (filter IsWrite cs))
    \<and> (cfg_MultiVersion c \<longrightarrow> History k (fst (Execute_all cs d)) = writes k cs)"
  using assms Execute_all_history [of d cs k]
  by (auto simp: Execute_all_reply Execute_all_data Execute_all_version NewDatabase_def
      Get_def Version_def History_def)

theorem store_is_last_write_witness:
  "snd (Execute_all [\<lparr>cKey = 4, cValue = Some [1], cClientID = 0, cCommandID = 1\<rparr>,
      \<lparr>cKey = 4, cValue = None, cClientID = 0, cCommandID = 2\<rparr>] (NewDatabase default_config)) ! 1
   = Some [1]"
  using store_is_last_write [of "NewDatabase default_config" default_config 1
      "[\<lparr>cKey = 4, cValue = Some [1], cClientID = 0, cCommandID = 1\<rparr>,
        \<lparr>cKey = 4, cValue = None, cClientID = 0, cCommandID = 2\<rparr>]" 4]
  by (simp add: IsWrite_def)

text \<open>The conflict test is sound: two batches that it lets pass can be executed in either order,
  with the same final store and the same replies.\<close>

theorem unconflicting_batches_commute:
  assumes "\<not> ConflictBatch batch1 batch2"
  shows "fst (Execute_all (batch1 @ batch2) d) = fst (Execute_all (batch2 @ batch1) d)
    \<and> snd (Execute_all (batch1 @ batch2) d) = snd (Execute_all batch1 d) @ snd (Execute_all batch2 d)
    \<and> snd (Execute_all (batch2 @ batch1) d) = snd (Execute_all batch2 d) @ snd (Execute_all batch1 d)"
  using not_ConflictBatch [OF assms, of d] by (simp add: snd_Execute_all_append)

theorem unconflicting_batches_commute_witness:
  "fst (Execute_all ([\<lparr>cKey = 4, cValue = Some [1], cClientID = 0, cCommandID = 1\<rparr>]
      @ [\<lparr>cKey = 5, cValue = Some [2], cClientID = 0, cCommandID = 2\<rparr>]) (NewDatabase default_config))
   = fst (Execute_all ([\<lparr>cKey = 5, cValue = Some [2], cClientID = 0, cCommandID = 2\<rparr>]
      @ [\<lparr>cKey = 4, cValue = Some [1], cClientID = 0, cCommandID = 1\<rparr>]) (NewDatabase default_config))"
  using unconflicting_batches_commute
    [of "[\<lparr>cKey = 4, cValue = Some [1], cClientID = 0, cCommandID = 1\<rparr>]"
      "[\<lparr>cKey = 5, cValue = Some [2], cClientID = 0, cCommandID = 2\<rparr>]" "NewDatabase default_config"]
  by (simp add: Conflict_def)

end
