(* ===== verification/PigMessages.thy ===== *)
theory PigMessages
  imports Database
begin

text \<open>
  The client messages of \<open>message.go\<close>, the protocol messages of \<open>pigpaxos/msg.go\<close> and the calls that
  the protocol makes on its \<open>paxi.Node\<close>. A \<open>Request\<close>'s reply channel is not a value of the model: a
  reply names the request it answers. The log of a \<open>P1b\<close> is a Go map that the receiver iterates, so
  it is an association list in iteration order.
\<close>

record Request =
  rCommand :: Command
  rProperties :: "(string \<times> string) list"
  rTimestamp :: goint
  rNodeID :: ID

record Reply =
  yCommand :: Command
  yValue :: Value
  yProperties :: "(string \<times> string) list"
  yTimestamp :: goint

definition mk_Reply :: "Command \<Rightarrow> Value \<Rightarrow> goint \<Rightarrow> Reply" where
  "mk_Reply c v t = \<lparr>yCommand = c, yValue = v, yProperties = [], yTimestamp = t\<rparr>"

datatype CommandBallot = CommandBallot (cbCommand: Command) (cbBallot: Ballot)

datatype P1a = P1a (P1a_Ballot: Ballot)

datatype P1b = P1b (P1b_ID: ID) (P1b_Ballot: Ballot) (P1b_Log: "(goint \<times> CommandBallot) list")

datatype P2b = P2b (P2b_ID: "ID list") (P2b_Ballot: Ballot) (P2b_Slot: goint)

datatype P2bAggregated =
  P2bAggregated (MissingIDs: "ID list") (RelayID: ID) (RelayLastExecute: goint)
    (P2bA_Ballot: Ballot) (P2bA_Slot: goint)

datatype P3 = P3 (P3_Ballot: Ballot) (P3_Slot: "goint list")

datatype P2a =
  P2a (P2a_Ballot: Ballot) (P2a_Slot: goint) (P2a_GlobalExecute: goint) (P2a_Command: Command)
    (P2a_P3msg: P3)

datatype P3RecoverRequest = P3RecoverRequest (RReq_Ballot: Ballot) (RReq_Slot: goint) (RReq_NodeId: ID)

datatype P3RecoverReply = P3RecoverReply (RRep_Ballot: Ballot) (RRep_Slot: goint) (RRep_Command: Command)

datatype 'p RoutedMsg =
  RoutedMsg (Hops: "ID list") (IsForward: bool) (Progress: nat) (Payload: 'p)

datatype msg =
    M_Request Request
  | M_P1a P1a
  | M_P1b P1b
  | M_P1bs "P1b list"
  | M_P2a P2a
  | M_P2b P2b
  | M_P2bAggregated P2bAggregated
  | M_P3 P3
  | M_P3RecoverRequest P3RecoverRequest
  | M_P3RecoverReply P3RecoverReply
  | M_Routed "msg RoutedMsg"

text \<open>Indexing a slice outside its bounds panics; \<open>Progress-1\<close> is computed in \<open>uint8\<close>, so it is 255 for 0.\<close>

definition hop :: "ID list \<Rightarrow> nat \<Rightarrow> ID go" where
  "hop hs i = (if i < length hs then Inr (hs ! i) else Inl IndexOutOfRange)"

definition GetLastProgressHop :: "'p RoutedMsg \<Rightarrow> ID go" where
  "GetLastProgressHop m = hop (Hops m) (Progress m)"

definition GetPreviousProgressHop :: "'p RoutedMsg \<Rightarrow> ID go" where
  "GetPreviousProgressHop m = hop (Hops m) (if Progress m = 0 then 255 else Progress m - 1)"

text \<open>The calls on the embedded \<open>paxi.Node\<close>, in the order the code makes them; \<open>CRetro\<close> is the record of
  a committed slot in the retroscope log.\<close>

datatype call =
    CSend ID msg
  | CBroadcast msg
  | CForward ID Request
  | CReply Request Reply
  | CRetro goint

end
