(* ===== verification/Hlc.thy ===== *)
theory Hlc
  imports Go_Prelude
begin

text \<open>
  The hybrid logical clock of \<open>hlc/hlc.go\<close> and \<open>hlc/timestamp.go\<close>: timestamps of an \<open>int64\<close> physical
  and an \<open>int16\<close> logical part, their order and their two encodings, and the clock that every local
  event and every received timestamp moves forward. The readings of the operating system's clock
  are arguments, in nanoseconds.
\<close>

section \<open>Timestamps\<close>

datatype Timestamp = Timestamp (PhysicalTime: "64 word") (LogicalTime: "16 word")

definition MaxTimestamp :: Timestamp where
  "MaxTimestamp = Timestamp (2 ^ 63 - 1) (2 ^ 15 - 1)"

definition MinTimestamp :: Timestamp where
  "MinTimestamp = Timestamp 0 0"

definition ToInt64 :: "Timestamp \<Rightarrow> 64 word" where
  "ToInt64 t = (let i64hlc = push_bit 16 (PhysicalTime t) in i64hlc OR scast (LogicalTime t))"

definition NewTimestampI64 :: "64 word \<Rightarrow> Timestamp" where
  "NewTimestampI64 hlc =
     (let wallTime = signed_drop_bit 16 hlc; logical = ucast (hlc AND 0xFFFF)
      in Timestamp wallTime logical)"

text \<open>\<open>binary.LittleEndian\<close>: eight bytes, the lowest first; fewer than eight make \<open>Uint64\<close> panic.\<close>

definition PutUint64 :: "64 word \<Rightarrow> 8 word list" where
  "PutUint64 v = map (\<lambda>i. ucast (drop_bit (8 * i) v)) [0..<8]"

definition Uint64 :: "8 word list \<Rightarrow> 64 word go" where
  "Uint64 b =
     (if length b < 8 then Inl IndexOutOfRange
      else Inr (fold (\<lambda>i acc. acc OR push_bit (8 * i) (ucast (b ! i))) [0..<8] 0))"

definition ToBytes :: "Timestamp \<Rightarrow> 8 word list" where
  "ToBytes t = PutUint64 (ToInt64 t)"

definition NewTimestampBytes :: "8 word list \<Rightarrow> Timestamp go" where
  "NewTimestampBytes ts = go_bind (Uint64 ts) (\<lambda>tint. Inr (NewTimestampI64 tint))"

definition NewTimestampPt :: "64 word \<Rightarrow> Timestamp" where
  "NewTimestampPt pt = Timestamp pt 0"

definition NewTimestamp :: "64 word \<Rightarrow> 16 word \<Rightarrow> Timestamp" where
  "NewTimestamp pt lc = Timestamp pt lc"

definition IncrementLogical :: "Timestamp \<Rightarrow> Timestamp" where
  "IncrementLogical t = Timestamp (PhysicalTime t) (LogicalTime t + 1)"

definition ResetLogical :: "Timestamp \<Rightarrow> Timestamp" where
  "ResetLogical t = Timestamp (PhysicalTime t) 0"

definition SetPhysicalTime :: "64 word \<Rightarrow> Timestamp \<Rightarrow> Timestamp" where
  "SetPhysicalTime pt t = Timestamp pt (LogicalTime t)"

definition SetLogicalTime :: "16 word \<Rightarrow> Timestamp \<Rightarrow> Timestamp" where
  "SetLogicalTime lc t = Timestamp (PhysicalTime t) lc"

definition Compare :: "Timestamp \<Rightarrow> Timestamp \<Rightarrow> goint" where
  "Compare t t2 =
     (if PhysicalTime t2 <s PhysicalTime t then 1
      else if PhysicalTime t <s PhysicalTime t2 then - 1
      else if LogicalTime t2 <s LogicalTime t then 1
      else if LogicalTime t <s LogicalTime t2 then - 1
      else 0)"

section \<open>The clock\<close>

text \<open>A reading of the system clock in nanoseconds, in milliseconds.\<close>

definition CurrentTimeInMS :: "goint \<Rightarrow> goint" where
  "CurrentTimeInMS now = now sdiv 1000000"

record HLC =
  lastWallTime :: "64 word"
  currentHLC :: Timestamp

definition NewHLC :: "64 word \<Rightarrow> HLC" where
  "NewHLC pt = \<lparr>lastWallTime = pt, currentHLC = Timestamp pt 0\<rparr>"

definition ReadClock :: "HLC \<Rightarrow> Timestamp" where
  "ReadClock hlc = currentHLC hlc"

definition Now :: "goint \<Rightarrow> HLC \<Rightarrow> Timestamp \<times> HLC" where
  "Now now hlc =
     (let pt = word_of_int (CurrentTimeInMS now); c = currentHLC hlc;
          h = (if pt \<le>s PhysicalTime c then hlc\<lparr>currentHLC := IncrementLogical c\<rparr>
               else hlc\<lparr>currentHLC := ResetLogical (SetPhysicalTime pt c)\<rparr>)
      in (currentHLC h, h))"

definition Update :: "goint \<Rightarrow> Timestamp \<Rightarrow> HLC \<Rightarrow> Timestamp \<times> HLC" where
  "Update now t hlc =
     (let pt = word_of_int (CurrentTimeInMS now); c = currentHLC hlc;
          h = (if PhysicalTime c <s pt \<and> PhysicalTime t <s pt
               then hlc\<lparr>currentHLC := ResetLogical (SetPhysicalTime pt c)\<rparr>
               else if PhysicalTime c <s PhysicalTime t
               then hlc\<lparr>currentHLC := SetLogicalTime (LogicalTime t + 1) (SetPhysicalTime (PhysicalTime t) c)\<rparr>
               else if PhysicalTime t <s PhysicalTime c
               then hlc\<lparr>currentHLC := IncrementLogical c\<rparr>
               else
                 let c1 = (if LogicalTime c <s LogicalTime t then SetLogicalTime (LogicalTime t) c else c)
                 in hlc\<lparr>currentHLC := IncrementLogical c1\<rparr>)
      in (currentHLC h, h))"

section \<open>The order of timestamps\<close>

lemma sint_inject: "sint a = sint b \<longleftrightarrow> a = b"
  by (auto intro: signed_word_eqI)

lemma of_sint: "word_of_int (sint (w :: 'a::len word)) = w"
  by simp

instantiation Timestamp :: linorder
begin

definition less_Timestamp :: "Timestamp \<Rightarrow> Timestamp \<Rightarrow> bool" where
  "less_Timestamp a b \<longleftrightarrow>
     sint (PhysicalTime a) < sint (PhysicalTime b) \<or>
     sint (PhysicalTime a) = sint (PhysicalTime b) \<and> sint (LogicalTime a) < sint (LogicalTime b)"

definition less_eq_Timestamp :: "Timestamp \<Rightarrow> Timestamp \<Rightarrow> bool" where
  "less_eq_Timestamp a b \<longleftrightarrow> a < b \<or> a = (b :: Timestamp)"

instance
  by standard (auto simp: less_Timestamp_def less_eq_Timestamp_def sint_inject intro: Timestamp.expand)

end

lemma compare_lemma: "Compare a b = (if a < b then - 1 else if a = b then 0 else 1)"
  by (cases a; cases b) (auto simp: Compare_def less_Timestamp_def word_sless_alt sint_inject)

text \<open>\<open>Compare\<close> is the three-way comparison of one linear order on timestamps, the
  lexicographic order of the signed physical and the signed logical part.\<close>

theorem compare_is_the_order:
  "Compare a b = (if a < b then - 1 else if a = b then 0 else 1)
   \<and> Compare b a = - Compare a b
   \<and> (sint (PhysicalTime a) < sint (PhysicalTime b) \<longleftrightarrow> PhysicalTime a \<noteq> PhysicalTime b \<and> a < b)"
  by (cases a; cases b) (auto simp: Compare_def less_Timestamp_def word_sless_alt sint_inject)

section \<open>Encodings\<close>

lemma word_of_int_add_shift: "(word_of_int (a * 2 ^ 16 + b) :: 16 word) = word_of_int b"
  by transfer (simp add: take_bit_eq_mod)

lemma sint_64: "- (2 ^ 63) \<le> k \<Longrightarrow> k < 2 ^ 63 \<Longrightarrow> sint (word_of_int k :: 64 word) = k"
  by (simp add: int_word_sint)

lemma ToInt64_nonneg:
  assumes "- (2 ^ 47) \<le> sint (PhysicalTime t)" "sint (PhysicalTime t) < 2 ^ 47" "0 \<le> sint (LogicalTime t)"
  shows "ToInt64 t = word_of_int (sint (PhysicalTime t) * 2 ^ 16 + sint (LogicalTime t))"
    and "sint (ToInt64 t) = sint (PhysicalTime t) * 2 ^ 16 + sint (LogicalTime t)"
proof -
  let ?P = "sint (PhysicalTime t)" and ?L = "sint (LogicalTime t)"
  have L: "?L < 2 ^ 15"
    using sint_lt [of "LogicalTime t"] by simp
  have or: "word_of_int a OR word_of_int b = (word_of_int (a OR b) :: 64 word)" for a b
    by transfer simp
  have "ToInt64 t = push_bit 16 (word_of_int ?P) OR word_of_int ?L"
    by (simp only: ToInt64_def Let_def of_sint) (subst scast_eq, rule refl)
  also have "\<dots> = word_of_int (push_bit 16 ?P OR ?L)"
    by (simp only: word_of_int_push_bit or)
  finally show t: "ToInt64 t = word_of_int (?P * 2 ^ 16 + ?L)"
    using assms(3) L by (simp add: pack_eq)
  have "?P * 2 ^ 16 + ?L < 2 ^ 63" "- (2 ^ 63) \<le> ?P * 2 ^ 16 + ?L"
    using assms L by simp_all
  then show "sint (ToInt64 t) = ?P * 2 ^ 16 + ?L"
    unfolding t by (intro sint_64)
qed

lemma NewTimestampI64_word:
  "NewTimestampI64 h = Timestamp (word_of_int (sint h div 2 ^ 16)) (word_of_int (sint h))"
proof -
  have "sint (signed_drop_bit 16 h) = sint h div 2 ^ 16"
    by (simp add: sint_signed_drop_bit_eq drop_bit_eq_div)
  then have "signed_drop_bit 16 h = word_of_int (sint h div 2 ^ 16)"
    by (metis of_sint)
  moreover have "(ucast (h AND 0xFFFF) :: 16 word) = word_of_int (sint h)"
  proof -
    have "(0xFFFF :: 64 word) = mask 16" by (simp add: mask_eq_exp_minus_1)
    then have "(ucast (h AND 0xFFFF) :: 16 word) = ucast (take_bit 16 h)"
      by (simp add: take_bit_eq_mask)
    also have "\<dots> = ucast h"
      by (rule bit_word_eqI) (simp add: bit_simps)
    also have "\<dots> = word_of_int (sint h)"
      by transfer (simp add: take_bit_signed_take_bit)
    finally show ?thesis .
  qed
  ultimately show ?thesis by (simp add: NewTimestampI64_def Let_def)
qed

lemma ToInt64_negative: "sint (LogicalTime t) < 0 \<Longrightarrow> ToInt64 t = scast (LogicalTime t)"
proof -
  assume "sint (LogicalTime t) < 0"
  then have "bit (LogicalTime t) 15"
    by (simp add: bit_last_iff [where 'a = 16, simplified])
  then show ?thesis
    unfolding ToInt64_def Let_def by (intro bit_word_eqI) (auto simp: bit_simps min_def)
qed

lemma bit_fold_or:
  "bit (fold (\<lambda>i acc. acc OR f i) is a) n \<longleftrightarrow> bit (a :: 'a::len word) n \<or> (\<exists>i \<in> set is. bit (f i) n)"
  by (induction "is" arbitrary: a) (auto simp: bit_or_iff)

lemma Uint64_PutUint64: "Uint64 (PutUint64 v @ bs) = Inr v"
proof -
  let ?b = "PutUint64 v @ bs"
  have b: "?b ! i = ucast (drop_bit (8 * i) v)" if "i < 8" for i
    using that by (simp add: PutUint64_def nth_append del: upt_rec_numeral)
  have "bit (fold (\<lambda>i acc. acc OR push_bit (8 * i) (ucast (?b ! i))) [0..<8] (0 :: 64 word)) n = bit v n"
    if n: "n < 64" for n
  proof -
    have *: "bit (push_bit (8 * i) (ucast (?b ! i)) :: 64 word) n \<longleftrightarrow> 8 * i \<le> n \<and> n - 8 * i < 8 \<and> bit v n"
      if "i < 8" for i
      using n that by (auto simp: b bit_push_bit_iff bit_ucast_iff bit_drop_bit_eq)
    have "8 * (n div 8) \<le> n" "n - 8 * (n div 8) < 8" "n div 8 < 8"
      using n by presburger+
    then have "(\<exists>i \<in> {0..<8}. bit (push_bit (8 * i) (ucast (?b ! i)) :: 64 word) n) \<longleftrightarrow> bit v n"
      using * by (meson atLeastLessThan_iff zero_le)
    then show ?thesis
      by (simp add: bit_fold_or del: upt_rec_numeral)
  qed
  then have "fold (\<lambda>i acc. acc OR push_bit (8 * i) (ucast (?b ! i))) [0..<8] (0 :: 64 word) = v"
    by (intro bit_word_eqI) simp
  then show ?thesis
    by (simp add: Uint64_def PutUint64_def del: upt_rec_numeral)
qed

lemma NewTimestampI64_ToInt64:
  assumes "- (2 ^ 47) \<le> sint (PhysicalTime v)" "sint (PhysicalTime v) < 2 ^ 47" "0 \<le> sint (LogicalTime v)"
  shows "NewTimestampI64 (ToInt64 v) = v"
proof -
  have "sint (LogicalTime v) < 2 ^ 16"
    using sint_lt [of "LogicalTime v"] by simp
  then have "sint (ToInt64 v) div 2 ^ 16 = sint (PhysicalTime v)"
    using assms(3) by (simp add: ToInt64_nonneg(2) [OF assms])
  moreover have "(word_of_int (sint (ToInt64 v)) :: 16 word) = LogicalTime v"
    using assms(3) unfolding ToInt64_nonneg(2) [OF assms]
    by (metis of_sint word_of_int_add_shift)
  ultimately show ?thesis
    by (simp add: NewTimestampI64_word)
qed

text \<open>C14: the integer encoding keeps a timestamp whose physical part fits in 48 bits and whose
  logical part is not negative, and orders such timestamps as \<open>Compare\<close> does; the byte encoding
  keeps it too, whatever follows the eight bytes. With a negative logical part, which the clock
  reaches by overflow, the sign extension overwrites the physical part and only the logical part
  survives.\<close>

theorem timestamp_encodings:
  assumes "- (2 ^ 47) \<le> sint (PhysicalTime t)" "sint (PhysicalTime t) < 2 ^ 47"
    and "- (2 ^ 47) \<le> sint (PhysicalTime u)" "sint (PhysicalTime u) < 2 ^ 47" "0 \<le> sint (LogicalTime u)"
  shows "NewTimestampI64 (ToInt64 t) =
      (if 0 \<le> sint (LogicalTime t) then t else Timestamp (- 1) (LogicalTime t))
    \<and> NewTimestampBytes (ToBytes t @ bs) = Inr (NewTimestampI64 (ToInt64 t))
    \<and> (sint (ToInt64 t) < sint (ToInt64 u) \<or> sint (LogicalTime t) < 0 \<or> Compare t u \<noteq> - 1)"
proof -
  let ?P = "sint (PhysicalTime t)" and ?L = "sint (LogicalTime t)"
  note dec = NewTimestampI64_ToInt64
  have neg: "NewTimestampI64 (ToInt64 t) = Timestamp (- 1) (LogicalTime t)" if "?L < 0"
  proof -
    have "- (2 ^ 15) \<le> ?L"
      using sint_ge [of "LogicalTime t"] by simp
    then have L: "sint (ToInt64 t) = ?L"
      unfolding ToInt64_negative [OF that] using that
      by (subst scast_eq, intro sint_64) simp_all
    have "?L div 2 ^ 16 = - 1"
      using that \<open>- (2 ^ 15) \<le> ?L\<close> by simp
    then show ?thesis
      by (simp add: NewTimestampI64_word L)
  qed
  have "sint (ToInt64 t) < sint (ToInt64 u)" if "0 \<le> ?L" "Compare t u = - 1"
  proof -
    have "t < u"
      using that(2) compare_lemma [of t u] by (auto split: if_splits)
    moreover have "?L < 2 ^ 16" "sint (LogicalTime u) < 2 ^ 16"
      using sint_lt [of "LogicalTime t"] sint_lt [of "LogicalTime u"] by simp_all
    ultimately show ?thesis
      unfolding ToInt64_nonneg(2) [OF assms(1,2) that(1)] ToInt64_nonneg(2) [OF assms(3-5)]
      using that(1) assms(5) by (auto simp: pack_less less_Timestamp_def)
  qed
  then show ?thesis
    using dec [OF assms(1,2)] neg
    by (auto simp: NewTimestampBytes_def ToBytes_def Uint64_PutUint64)
qed

theorem timestamp_encodings_witness:
  "NewTimestampI64 (ToInt64 (Timestamp 5 7)) = Timestamp 5 7
   \<and> sint (ToInt64 (Timestamp 5 7)) < sint (ToInt64 (Timestamp 6 0))
   \<and> NewTimestampI64 (ToInt64 (Timestamp 5 (- 1))) = Timestamp (- 1) (- 1)"
  using timestamp_encodings [of "Timestamp 5 7" "Timestamp 6 0"]
    timestamp_encodings [of "Timestamp 5 (- 1)" "Timestamp 6 0"]
  by (simp add: Compare_def word_sless_alt)

section \<open>The clock only moves forward\<close>

text \<open>The readings after each event of a run.\<close>

fun scan :: "('e \<Rightarrow> 's \<Rightarrow> 's) \<Rightarrow> ('s \<Rightarrow> 't) \<Rightarrow> 'e list \<Rightarrow> 's \<Rightarrow> 't list" where
  "scan step reading [] s = []"
| "scan step reading (e # es) s = (let s1 = step e s in reading s1 # scan step reading es s1)"

text \<open>A clock: its reading, what an event does to it, how many further events it can take, and the
  timestamp an event carries. The readings of a run increase and exceed what the events carry.\<close>

locale logical_clock =
  fixes reading :: "'s \<Rightarrow> 't::linorder"
    and step :: "'e \<Rightarrow> 's \<Rightarrow> 's"
    and room :: "nat \<Rightarrow> 's \<Rightarrow> bool"
    and fits :: "nat \<Rightarrow> 'e \<Rightarrow> bool"
    and carried :: "'e \<Rightarrow> 't option"
  assumes advances: "room (Suc n) s \<Longrightarrow> fits (Suc n) e \<Longrightarrow> reading s < reading (step e s)"
    and exceeds: "room (Suc n) s \<Longrightarrow> fits (Suc n) e \<Longrightarrow> carried e = Some t \<Longrightarrow> t < reading (step e s)"
    and leaves_room: "room (Suc n) s \<Longrightarrow> fits (Suc n) e \<Longrightarrow> room n (step e s)"
    and fits_less: "fits (Suc n) e \<Longrightarrow> fits n e"
begin

lemma readings_increase:
  "room (length es) s \<Longrightarrow> list_all (fits (length es)) es \<Longrightarrow>
     sorted_wrt (<) (reading s # scan step reading es s)"
proof (induction es arbitrary: s)
  case (Cons e es)
  let ?s = "step e s"
  from Cons.prems have e: "reading s < reading ?s" "room (length es) ?s"
    by (auto intro: advances leaves_room)
  have "list_all (fits (length es)) es"
    using Cons.prems(2) by (auto simp: list_all_iff intro: fits_less)
  with e have "sorted_wrt (<) (reading ?s # scan step reading es ?s)"
    using Cons.IH by simp
  with e(1) show ?case
    by (auto simp: Let_def)
qed simp

lemma readings_exceed:
  "room (length es) s \<Longrightarrow> list_all (fits (length es)) es \<Longrightarrow>
     list_all2 (\<lambda>e r. \<forall>t. carried e = Some t \<longrightarrow> t < r) es (scan step reading es s)"
proof (induction es arbitrary: s)
  case (Cons e es)
  have "list_all (fits (length es)) es"
    using Cons.prems(2) by (auto simp: list_all_iff intro: fits_less)
  then show ?case
    using Cons.IH [of "step e s"] Cons.prems by (auto simp: Let_def intro: exceeds leaves_room)
qed simp

end

text \<open>The events of the clock of the code: a local event and the receipt of a timestamp, each with
  the reading of the physical clock. The logical part has room for \<open>n\<close> events when \<open>n\<close> increments do
  not overflow it.\<close>

datatype clock_event = Local goint | Received goint Timestamp

fun clock_step :: "clock_event \<Rightarrow> HLC \<Rightarrow> HLC" where
  "clock_step (Local now) h = snd (Now now h)"
| "clock_step (Received now t) h = snd (Update now t h)"

fun carried_timestamp :: "clock_event \<Rightarrow> Timestamp option" where
  "carried_timestamp (Local now) = None"
| "carried_timestamp (Received now t) = Some t"

definition logical_room :: "nat \<Rightarrow> Timestamp \<Rightarrow> bool" where
  "logical_room n t \<longleftrightarrow> n < 2 ^ 15 \<and> sint (LogicalTime t) + int n < 2 ^ 15"

definition event_room :: "nat \<Rightarrow> clock_event \<Rightarrow> bool" where
  "event_room n e \<longleftrightarrow> (case carried_timestamp e of None \<Rightarrow> True | Some t \<Rightarrow> logical_room n t)"

lemma sint_inc: "sint (l :: 16 word) + 1 < 2 ^ 15 \<Longrightarrow> sint (l + 1) = sint l + 1"
proof -
  assume a: "sint l + 1 < 2 ^ 15"
  have "l + 1 = word_of_int (sint l + 1)" by simp
  moreover have "- (2 ^ 15) \<le> sint l"
    using sint_ge [of l] by simp
  then have "sint (word_of_int (sint l + 1) :: 16 word) = sint l + 1"
    using a unfolding int_word_sint by simp
  ultimately show ?thesis by presburger
qed

lemmas clock_defs = Now_def Update_def Let_def IncrementLogical_def ResetLogical_def SetPhysicalTime_def
  SetLogicalTime_def less_Timestamp_def word_sless_alt word_sle_eq logical_room_def event_room_def

interpretation hc: logical_clock currentHLC clock_step "\<lambda>n h. logical_room n (currentHLC h)" event_room
  carried_timestamp
proof (unfold_locales, goal_cases)
  case (1 n s e)
  then show ?case
    by (cases e) (auto simp: clock_defs sint_inc sint_inject)
next
  case (2 n s e t)
  then show ?case
    by (cases e) (auto simp: clock_defs sint_inc sint_inject)
next
  case (3 n s e)
  then show ?case
    by (cases e) (auto simp: clock_defs sint_inc sint_inject)
next
  case (4 n e)
  then show ?case
    by (auto simp: event_room_def logical_room_def split: option.splits)
qed

text \<open>C13: the readings of the hybrid clock strictly increase over any sequence of local events and
  receipts, and each reading after a receipt is later than the received timestamp, as long as the
  logical parts of the clock and of every received timestamp leave room for the number of events;
  the physical part is always the largest of the clock's, the received and the operating system's.\<close>

theorem clock_moves_forward:
  assumes "logical_room (length es) (currentHLC h)" and "list_all (event_room (length es)) es"
  shows "sorted_wrt (<) (currentHLC h # scan clock_step currentHLC es h)
    \<and> list_all2 (\<lambda>e r. \<forall>t. carried_timestamp e = Some t \<longrightarrow> t < r) es (scan clock_step currentHLC es h)
    \<and> sint (PhysicalTime (fst (Update now t h))) =
        max (sint (word_of_int (CurrentTimeInMS now) :: 64 word))
          (max (sint (PhysicalTime (currentHLC h))) (sint (PhysicalTime t)))
    \<and> sint (PhysicalTime (fst (Now now h))) =
        max (sint (word_of_int (CurrentTimeInMS now) :: 64 word)) (sint (PhysicalTime (currentHLC h)))"
proof -
  have "sint (PhysicalTime (fst (Update now t h))) =
        max (sint (word_of_int (CurrentTimeInMS now) :: 64 word))
          (max (sint (PhysicalTime (currentHLC h))) (sint (PhysicalTime t)))"
    "sint (PhysicalTime (fst (Now now h))) =
        max (sint (word_of_int (CurrentTimeInMS now) :: 64 word)) (sint (PhysicalTime (currentHLC h)))"
    by (auto simp: clock_defs)
  then show ?thesis
    using hc.readings_increase [OF assms] hc.readings_exceed [OF assms] by blast
qed

theorem clock_moves_forward_witness:
  "Timestamp 9 4 < currentHLC (clock_step (Received 0 (Timestamp 9 4)) (NewHLC 3))"
  using clock_moves_forward [of "[Received 0 (Timestamp 9 4)]" "NewHLC 3" 0 "Timestamp 9 4"]
  by (simp add: logical_room_def event_room_def NewHLC_def)

text \<open>after 32767 logical ticks within one millisecond the logical part overflows, and the next
  local event moves the clock back: its reading is smaller than the one before.\<close>

theorem clock_overflow_moves_back:
  "fst (Now 0 \<lparr>lastWallTime = 0, currentHLC = Timestamp 5 (2 ^ 15 - 1)\<rparr>) = Timestamp 5 (- (2 ^ 15))
   \<and> Timestamp 5 (- (2 ^ 15)) < Timestamp 5 (2 ^ 15 - 1)
   \<and> NewTimestampI64 (ToInt64 (Timestamp 5 (- (2 ^ 15)))) = Timestamp (- 1) (- (2 ^ 15))"
  by code_simp

end
