(* ===== verification/PigPaxos.thy ===== *)
theory PigPaxos
  imports PigMessages Hlc
begin

text \<open>
  The protocol core, \<open>pigpaxos/pigpaxos.go\<close>; the files \<open>layerpaxos/layerpaxos.go\<close> and
  \<open>chainpaxos/chainpaxos.go\<close> repeat this code under other type names. The struct is a record
  (the replica extends it, as the Go struct is embedded), every method is a state transformer, and
  the calls on the embedded \<open>paxi.Node\<close> are appended to \<open>calls\<close> in program order. The two handlers
  whose reply may be a call back into the same node take that node's \<open>Send\<close> as an argument. One
  handler reads the clock once (\<open>now\<close>, in nanoseconds), \<open>Q1\<close> and \<open>Q2\<close> are the majority predicate
  that \<open>NewPigPaxos\<close> installs, and the locks are not modelled: a handler runs without interruption.
\<close>

section \<open>State\<close>

record entry =
  e_ballot :: Ballot
  e_command :: Command
  e_commit :: bool
  e_request :: "Request option"
  e_quorum :: "quorum option"
  e_timestamp :: goint

record pigpaxos =
  pid :: ID
  db :: database
  logm :: "(goint, entry) fmap"
  slot :: goint
  execute :: goint
  lastCleanupMarker :: goint
  globalExecute :: goint
  executeByNode :: "(ID \<times> goint) list"
  active :: bool
  ballot :: Ballot
  p1aTime :: goint
  quorum :: quorum
  requests :: "Request list"
  p3PendingBallot :: Ballot
  p3pendingSlots :: "goint list"
  lastP3Time :: goint
  ReplyWhenCommit :: bool
  calls :: "call list"

definition NewPigPaxos :: "config \<Rightarrow> ID \<Rightarrow> pigpaxos" where
  "NewPigPaxos c nid =
     \<lparr>pid = nid, db = NewDatabase c, logm = fmempty, slot = - 1, execute = 0,
      lastCleanupMarker = 0, globalExecute = 0, executeByNode = [], active = False, ballot = 0,
      p1aTime = 0, quorum = NewQuorum, requests = [], p3PendingBallot = 0, p3pendingSlots = [],
      lastP3Time = 0, ReplyWhenCommit = False, calls = []\<rparr>"

definition emit :: "call \<Rightarrow> 'a pigpaxos_scheme \<Rightarrow> 'a pigpaxos_scheme" where
  "emit x p = p\<lparr>calls := calls p @ [x]\<rparr>"

definition set_entry :: "goint \<Rightarrow> entry \<Rightarrow> 'a pigpaxos_scheme \<Rightarrow> 'a pigpaxos_scheme" where
  "set_entry s e p = p\<lparr>logm := fmupd s e (logm p)\<rparr>"

definition follower_entry :: "Ballot \<Rightarrow> Command \<Rightarrow> entry" where
  "follower_entry b cmd = \<lparr>e_ballot = b, e_command = cmd, e_commit = False, e_request = None,
     e_quorum = None, e_timestamp = 0\<rparr>"

text \<open>\<open>&entry{commit: true, ballot: 0}\<close>: a slot known to be committed whose command is missing.\<close>

definition placeholder :: entry where
  "placeholder = \<lparr>e_ballot = 0, e_command = zero_command, e_commit = True, e_request = None,
     e_quorum = None, e_timestamp = 0\<rparr>"

section \<open>Accessors and the cleanup marker\<close>

definition IsLeader :: "'a pigpaxos_scheme \<Rightarrow> bool" where
  "IsLeader p \<longleftrightarrow> active p \<or> Ballot_ID (ballot p) = pid p"

definition Leader :: "'a pigpaxos_scheme \<Rightarrow> ID" where
  "Leader p = Ballot_ID (ballot p)"

definition SetActive :: "bool \<Rightarrow> 'a pigpaxos_scheme \<Rightarrow> 'a pigpaxos_scheme" where
  "SetActive a p = p\<lparr>active := a\<rparr>"

definition SetBallot :: "Ballot \<Rightarrow> 'a pigpaxos_scheme \<Rightarrow> 'a pigpaxos_scheme" where
  "SetBallot b p = p\<lparr>ballot := b\<rparr>"

definition UpdateLastExecuteByNode ::
  "ID \<Rightarrow> goint \<Rightarrow> 'a pigpaxos_scheme \<Rightarrow> 'a pigpaxos_scheme" where
  "UpdateLastExecuteByNode i lastExecute p =
     p\<lparr>executeByNode := AList.update i lastExecute (executeByNode p)\<rparr>"

definition GetSafeLogCleanupMarker :: "'a pigpaxos_scheme \<Rightarrow> goint" where
  "GetSafeLogCleanupMarker p =
     fold (\<lambda>c marker. if c < marker then c else marker) (map snd (executeByNode p)) (execute p)"

definition CleanupLog :: "'a pigpaxos_scheme \<Rightarrow> 'a pigpaxos_scheme" where
  "CleanupLog p =
     (let marker = GetSafeLogCleanupMarker p
      in p\<lparr>logm := fold fmdrop [lastCleanupMarker p .. marker - 1] (logm p),
           lastCleanupMarker := marker\<rparr>)"

section \<open>Executing committed slots\<close>

definition sendRecoverRequest ::
  "Ballot \<Rightarrow> goint \<Rightarrow> 'a pigpaxos_scheme \<Rightarrow> 'a pigpaxos_scheme" where
  "sendRecoverRequest b s p =
     emit (CSend (Ballot_ID b) (M_P3RecoverRequest (P3RecoverRequest b s (pid p)))) p"

definition exec_entry :: "entry \<Rightarrow> 'a pigpaxos_scheme \<Rightarrow> 'a pigpaxos_scheme" where
  "exec_entry e p =
     (let (d, value) = Execute (e_command e) (db p);
          p1 = p\<lparr>db := d\<rparr>;
          p2 = (case e_request e of
                  None \<Rightarrow> p1
                | Some r \<Rightarrow> set_entry (execute p1) (e\<lparr>e_request := None\<rparr>)
                              (emit (CReply r (mk_Reply (e_command e) value 0)) p1))
      in p2\<lparr>execute := execute p2 + 1\<rparr>)"

lemma exec_entry_simps [simp]:
  "execute (exec_entry e p) = execute p + 1"
  "fmdom (logm (exec_entry e p)) =
     (if e_request e = None then fmdom (logm p) else finsert (execute p) (fmdom (logm p)))"
  "slot (exec_entry e p) = slot p"
  "ballot (exec_entry e p) = ballot p"
  "pid (exec_entry e p) = pid p"
  by (auto simp: exec_entry_def Let_def set_entry_def emit_def split: prod.splits option.splits)

lemma sendRecoverRequest_simps [simp]:
  "logm (sendRecoverRequest b s p) = logm p"
  "execute (sendRecoverRequest b s p) = execute p"
  by (simp_all add: sendRecoverRequest_def emit_def)

function exec :: "'a pigpaxos_scheme \<Rightarrow> 'a pigpaxos_scheme" where
  "exec p =
     (case fmlookup (logm p) (execute p) of
        None \<Rightarrow> p
      | Some e \<Rightarrow>
          let p1 = (if execute p + 10 < slot p \<and> e_commit e \<and> e_ballot e = 0
                    then sendRecoverRequest (ballot p) (execute p) p else p)
          in if \<not> e_commit e \<or> (e_commit e \<and> e_ballot e = 0) then p1
             else exec (exec_entry e p1))"
  by pat_completeness auto
termination
proof (relation "measure (\<lambda>p. card {k \<in> fset (fmdom (logm p)). execute p \<le> k})", goal_cases)
  case (2 p e p1)
  let ?A = "{k \<in> fset (fmdom (logm p)). execute p \<le> k}"
  have dom: "execute p \<in> fset (fmdom (logm p))"
    using 2(1) by (rule fmdomI)
  have "logm p1 = logm p" "execute p1 = execute p"
    using 2(2) by simp_all
  then have "{k \<in> fset (fmdom (logm (exec_entry e p1))). execute (exec_entry e p1) \<le> k} \<subseteq> ?A - {execute p}"
    using dom by auto
  moreover have "?A - {execute p} \<subset> ?A"
    using dom by auto
  ultimately show ?case
    by (auto intro!: psubset_card_mono)
qed simp

declare exec.simps [simp del]

section \<open>Proposing\<close>

text \<open>The methods \<open>P1a\<close>, \<open>RetryP1a\<close>, \<open>P2a\<close> and \<open>RetryP2a\<close>; the names \<open>P1a\<close> and \<open>P2a\<close> are the messages.\<close>

definition StartP1a :: "goint \<Rightarrow> 'a pigpaxos_scheme \<Rightarrow> 'a pigpaxos_scheme" where
  "StartP1a now p =
     (if active p then p
      else let p1 = p\<lparr>ballot := Ballot_Next (ballot p) (pid p),
                      quorum := ACK (pid p) (Reset (quorum p)), p1aTime := now\<rparr>
           in emit (CBroadcast (M_P1a (P1a (ballot p1)))) p1)"

definition RetryP1a :: "goint \<Rightarrow> 'a pigpaxos_scheme \<Rightarrow> 'a pigpaxos_scheme" where
  "RetryP1a now p =
     (if active p then p
      else let p1 = p\<lparr>quorum := ACK (pid p) (Reset (quorum p)), p1aTime := now\<rparr>
           in emit (CBroadcast (M_P1a (P1a (ballot p1)))) p1)"

definition StartP2a :: "goint \<Rightarrow> Request \<Rightarrow> 'a pigpaxos_scheme \<Rightarrow> 'a pigpaxos_scheme" where
  "StartP2a now r p =
     (let p1 = p\<lparr>slot := slot p + 1\<rparr>;
          p2 = set_entry (slot p1)
                 \<lparr>e_ballot = ballot p1, e_command = rCommand r, e_commit = False,
                  e_request = Some r, e_quorum = Some (ACK (pid p1) NewQuorum),
                  e_timestamp = now\<rparr> p1;
          (p3msg, p3) =
            (if p3PendingBallot p2 > 0
             then (P3 (p3PendingBallot p2) (p3pendingSlots p2),
                   p2\<lparr>p3pendingSlots := [], lastP3Time := CurrentTimeInMS now\<rparr>)
             else (P3 0 [], p2))
      in emit (CBroadcast (M_P2a (P2a (ballot p3) (slot p3) (globalExecute p3) (rCommand r) p3msg))) p3)"

definition RetryP2a :: "goint \<Rightarrow> entry \<Rightarrow> 'a pigpaxos_scheme \<Rightarrow> 'a pigpaxos_scheme" where
  "RetryP2a s e p =
     emit (CBroadcast (M_P2a (P2a (ballot p) s (globalExecute p) (e_command e) (P3 0 [])))) p"

definition HandleRequest :: "goint \<Rightarrow> Request \<Rightarrow> 'a pigpaxos_scheme \<Rightarrow> 'a pigpaxos_scheme" where
  "HandleRequest now r p =
     (if \<not> active p then
        let p1 = p\<lparr>requests := requests p @ [r]\<rparr>
        in if Ballot_ID (ballot p1) \<noteq> pid p1 then StartP1a now p1 else p1
      else StartP2a now r p)"

definition CheckTimeout :: "goint \<Rightarrow> goint \<Rightarrow> 'a pigpaxos_scheme \<Rightarrow> 'a pigpaxos_scheme" where
  "CheckTimeout now timeout p =
     (let p1 =
        (if active p \<and> execute p \<le> slot p then
           (case fmlookup (logm p) (execute p) of
              None \<Rightarrow> p
            | Some e \<Rightarrow>
                if \<not> e_commit e \<and> e_timestamp e < timeout then RetryP2a (execute p) e p else p)
         else if \<not> active p \<and> p1aTime p < timeout then RetryP1a now p
         else p);
        tnow = CurrentTimeInMS now
      in if tnow - 10 > lastP3Time p1 \<and> lastP3Time p1 > 0 \<and> p3PendingBallot p1 > 0
         then (emit (CBroadcast (M_P3 (P3 (p3PendingBallot p1) (p3pendingSlots p1)))) p1)
                \<lparr>lastP3Time := tnow, p3pendingSlots := []\<rparr>
         else p1)"

section \<open>Phase 1\<close>

definition forward :: "'a pigpaxos_scheme \<Rightarrow> 'a pigpaxos_scheme" where
  "forward p =
     (fold (\<lambda>m p. emit (CForward (Ballot_ID (ballot p)) m) p) (requests p) p)\<lparr>requests := []\<rparr>"

text \<open>The uncommitted entries from the next slot to execute up to the highest slot.\<close>

definition uncommitted_log :: "'a pigpaxos_scheme \<Rightarrow> (goint \<times> CommandBallot) list" where
  "uncommitted_log p =
     List.map_filter
       (\<lambda>s. case fmlookup (logm p) s of
              None \<Rightarrow> None
            | Some e \<Rightarrow> if e_commit e then None
                        else Some (s, CommandBallot (e_command e) (e_ballot e)))
       [execute p .. slot p]"

definition HandleP1a ::
  "(ID \<Rightarrow> msg \<Rightarrow> 'a pigpaxos_scheme \<Rightarrow> 'a pigpaxos_scheme go) \<Rightarrow> P1a \<Rightarrow> ID
   \<Rightarrow> 'a pigpaxos_scheme \<Rightarrow> 'a pigpaxos_scheme go" where
  "HandleP1a send m reply p =
     (let p1 = (if P1a_Ballot m > ballot p
                then forward (p\<lparr>ballot := P1a_Ballot m, active := False\<rparr>) else p);
          l = uncommitted_log p1
      in send reply (M_P1b (P1b (pid p1) (ballot p1) l)) p1)"

fun update_slot :: "goint \<times> CommandBallot \<Rightarrow> 'a pigpaxos_scheme \<Rightarrow> 'a pigpaxos_scheme" where
  "update_slot (s, cb) p =
     (let p1 = p\<lparr>slot := goMax (slot p) s\<rparr>
      in case fmlookup (logm p1) s of
           Some e \<Rightarrow>
             if \<not> e_commit e \<and> cbBallot cb > e_ballot e
             then set_entry s (e\<lparr>e_ballot := cbBallot cb, e_command := cbCommand cb\<rparr>) p1 else p1
         | None \<Rightarrow> set_entry s (follower_entry (cbBallot cb) (cbCommand cb)) p1)"

definition update_log ::
  "(goint \<times> CommandBallot) list \<Rightarrow> 'a pigpaxos_scheme \<Rightarrow> 'a pigpaxos_scheme" where
  "update_log scb p = fold update_slot scb p"

definition repropose :: "goint \<Rightarrow> 'a pigpaxos_scheme \<Rightarrow> 'a pigpaxos_scheme" where
  "repropose i p =
     (case fmlookup (logm p) i of
        None \<Rightarrow> p
      | Some e \<Rightarrow>
          if e_commit e then p
          else emit (CBroadcast (M_P2a (P2a (ballot p) i (globalExecute p) (e_command e) (P3 0 []))))
                 (set_entry i (e\<lparr>e_ballot := ballot p, e_quorum := Some (ACK (pid p) NewQuorum)\<rparr>) p))"

definition become_leader :: "goint \<Rightarrow> 'a pigpaxos_scheme \<Rightarrow> 'a pigpaxos_scheme" where
  "become_leader now p =
     (let p1 = p\<lparr>active := True, p3PendingBallot := ballot p\<rparr>;
          p2 = fold repropose [execute p1 .. slot p1] p1;
          p3 = fold (StartP2a now) (requests p2) p2
      in p3\<lparr>requests := []\<rparr>)"

definition HandleP1b ::
  "config \<Rightarrow> goint \<Rightarrow> P1b \<Rightarrow> 'a pigpaxos_scheme \<Rightarrow> 'a pigpaxos_scheme" where
  "HandleP1b c now m p =
     (if P1b_Ballot m < ballot p \<or> active p then p
      else
        let p1 = update_log (P1b_Log m) p;
            p2 = (if P1b_Ballot m > ballot p1
                  then forward (p1\<lparr>ballot := P1b_Ballot m, active := False\<rparr>) else p1)
        in if Ballot_ID (P1b_Ballot m) = pid p2 \<and> P1b_Ballot m = ballot p2
           then let p3 = p2\<lparr>quorum := ACK (P1b_ID m) (quorum p2)\<rparr>
                in if Majority c (quorum p3) then become_leader now p3 else p3
           else p2)"

section \<open>Phases 2 and 3\<close>

definition p3_slot ::
  "config \<Rightarrow> Ballot \<Rightarrow> goint \<Rightarrow> 'a pigpaxos_scheme \<Rightarrow> 'a pigpaxos_scheme" where
  "p3_slot c b s p =
     (let p0 = p\<lparr>slot := goMax (slot p) s\<rparr>;
          p1 = (case fmlookup (logm p0) s of
                  Some e \<Rightarrow>
                    if e_ballot e = b then set_entry s (e\<lparr>e_commit := True\<rparr>) p0
                    else (case e_request e of
                            Some r \<Rightarrow>
                              sendRecoverRequest b s
                                (set_entry s (e\<lparr>e_request := None\<rparr>) (emit (CForward (Ballot_ID b) r) p0))
                          | None \<Rightarrow> p0)
                | None \<Rightarrow> set_entry s placeholder p0);
          p2 = (if cfg_UseRetroLog c then emit (CRetro s) p1 else p1)
      in if ReplyWhenCommit p2 then
           (case fmlookup (logm p2) s of
              None \<Rightarrow> p2
            | Some e \<Rightarrow> (case e_request e of
                           None \<Rightarrow> p2
                         | Some r \<Rightarrow> emit (CReply r (mk_Reply (rCommand r) None (rTimestamp r))) p2))
         else p2)"

definition HandleP3 :: "config \<Rightarrow> P3 \<Rightarrow> 'a pigpaxos_scheme \<Rightarrow> 'a pigpaxos_scheme" where
  "HandleP3 c m p = exec (fold (p3_slot c (P3_Ballot m)) (P3_Slot m) p)"

definition accept_entry :: "P2a \<Rightarrow> 'a pigpaxos_scheme \<Rightarrow> 'a pigpaxos_scheme" where
  "accept_entry m p =
     (case fmlookup (logm p) (P2a_Slot m) of
        Some e \<Rightarrow>
          if \<not> e_commit e \<and> P2a_Ballot m > e_ballot e then
            (case (if \<not> Command_Equal (e_command e) (P2a_Command m) then e_request e else None) of
               Some r \<Rightarrow>
                 set_entry (P2a_Slot m)
                   (e\<lparr>e_request := None, e_command := P2a_Command m, e_ballot := P2a_Ballot m\<rparr>)
                   (emit (CForward (Ballot_ID (P2a_Ballot m)) r) p)
             | None \<Rightarrow>
                 set_entry (P2a_Slot m) (e\<lparr>e_command := P2a_Command m, e_ballot := P2a_Ballot m\<rparr>) p)
          else if e_commit e \<and> e_ballot e = 0 then
            set_entry (P2a_Slot m) (e\<lparr>e_command := P2a_Command m, e_ballot := P2a_Ballot m\<rparr>) p
          else p
      | None \<Rightarrow> set_entry (P2a_Slot m) (follower_entry (P2a_Ballot m) (P2a_Command m)) p)"

definition accept_P2a :: "P2a \<Rightarrow> 'a pigpaxos_scheme \<Rightarrow> 'a pigpaxos_scheme" where
  "accept_P2a m p =
     (if P2a_Ballot m \<ge> ballot p
      then accept_entry m (p\<lparr>ballot := P2a_Ballot m, active := False,
             globalExecute := P2a_GlobalExecute m, slot := goMax (slot p) (P2a_Slot m)\<rparr>)
      else p)"

definition HandleP2a ::
  "config \<Rightarrow> (ID \<Rightarrow> msg \<Rightarrow> 'a pigpaxos_scheme \<Rightarrow> 'a pigpaxos_scheme go) \<Rightarrow> P2a \<Rightarrow> ID
   \<Rightarrow> 'a pigpaxos_scheme \<Rightarrow> 'a pigpaxos_scheme go" where
  "HandleP2a c send m reply p =
     (let p1 = accept_P2a m p
      in go_bind (send reply (M_P2b (P2b [pid p1] (ballot p1) (P2a_Slot m))) p1)
           (\<lambda>p2. Inr (if P3_Slot (P2a_P3msg m) \<noteq> [] then HandleP3 c (P2a_P3msg m) p2 else p2)))"

text \<open>The answer to a higher ballot: fall back to acceptor and announce the pending commits.\<close>

definition step_down :: "goint \<Rightarrow> Ballot \<Rightarrow> 'a pigpaxos_scheme \<Rightarrow> 'a pigpaxos_scheme" where
  "step_down now b p =
     (emit (CBroadcast (M_P3 (P3 (p3PendingBallot p) (p3pendingSlots p))))
        (p\<lparr>ballot := b, active := False\<rparr>))
       \<lparr>lastP3Time := CurrentTimeInMS now, p3pendingSlots := [], p3PendingBallot := 0\<rparr>"

definition commit_slot ::
  "config \<Rightarrow> goint \<Rightarrow> entry \<Rightarrow> 'a pigpaxos_scheme \<Rightarrow> 'a pigpaxos_scheme go" where
  "commit_slot c s e p =
     (let p1 = set_entry s (e\<lparr>e_commit := True\<rparr>) p;
          p2 = (if cfg_UseRetroLog c then emit (CRetro s) p1 else p1);
          p3 = p2\<lparr>p3pendingSlots := p3pendingSlots p2 @ [s]\<rparr>
      in if ReplyWhenCommit p3 then
           (case e_request e of
              None \<Rightarrow> Inl NilDeref
            | Some r \<Rightarrow> Inr (emit (CReply r (mk_Reply (rCommand r) None (rTimestamp r))) p3))
         else Inr (exec p3))"

definition HandleP2b ::
  "config \<Rightarrow> goint \<Rightarrow> goint \<Rightarrow> Ballot \<Rightarrow> ID list \<Rightarrow> 'a pigpaxos_scheme \<Rightarrow> 'a pigpaxos_scheme go" where
  "HandleP2b c now msgSlot msgBallot votedIds p =
     (case fmlookup (logm p) msgSlot of
        None \<Rightarrow> Inr p
      | Some e \<Rightarrow>
          if msgBallot < e_ballot e \<or> e_commit e then Inr p
          else
            let p1 = (if msgBallot > ballot p then step_down now msgBallot p else p)
            in if Ballot_ID msgBallot = pid p1 \<and> msgBallot = e_ballot e then
                 (case e_quorum e of
                    None \<Rightarrow> Inl NilDeref
                  | Some q \<Rightarrow>
                      let e1 = e\<lparr>e_quorum := Some (fold ACK votedIds q)\<rparr>;
                          p2 = set_entry msgSlot e1 p1
                      in if Majority c (fold ACK votedIds q) then commit_slot c msgSlot e1 p2
                         else Inr p2)
               else Inr p1)"

section \<open>Recovery of a slot\<close>

definition HandleP3RecoverRequest ::
  "P3RecoverRequest \<Rightarrow> 'a pigpaxos_scheme \<Rightarrow> 'a pigpaxos_scheme" where
  "HandleP3RecoverRequest m p =
     (let p1 = (case fmlookup (logm p) (RReq_Slot m) of
                  None \<Rightarrow> p
                | Some e \<Rightarrow>
                    if e_commit e
                    then emit (CSend (RReq_NodeId m)
                           (M_P3RecoverReply (P3RecoverReply (e_ballot e) (RReq_Slot m) (e_command e)))) p
                    else p)
      in exec p1)"

definition HandleP3RecoverReply ::
  "P3RecoverReply \<Rightarrow> 'a pigpaxos_scheme \<Rightarrow> 'a pigpaxos_scheme" where
  "HandleP3RecoverReply m p =
     (let p1 = p\<lparr>slot := goMax (slot p) (RRep_Slot m)\<rparr>;
          p2 = (case fmlookup (logm p1) (RRep_Slot m) of
                  None \<Rightarrow> p1
                | Some e \<Rightarrow>
                    set_entry (RRep_Slot m)
                      (e\<lparr>e_command := RRep_Command m, e_ballot := RRep_Ballot m, e_commit := True\<rparr>) p1)
      in exec p2)"

text \<open>The \<open>Send\<close> of a node whose messages to itself also go through the network.\<close>

definition net_send :: "ID \<Rightarrow> msg \<Rightarrow> 'a pigpaxos_scheme \<Rightarrow> 'a pigpaxos_scheme go" where
  "net_send to m p = Inr (emit (CSend to m) p)"

end
