(* ===== verification/PigFacts.thy ===== *)
theory PigFacts
  imports PigPaxos
begin

text \<open>
  Facts on the protocol object of PigPaxos: what each field is after the elementary updates, the loop that
  executes committed slots, the cleanup of the log, and the adoption of a log from promises.
\<close>

section \<open>Field lemmas\<close>

lemma emit_simps [simp]:
  "pid (emit x p) = pid p" "db (emit x p) = db p" "logm (emit x p) = logm p"
  "slot (emit x p) = slot p" "execute (emit x p) = execute p"
  "lastCleanupMarker (emit x p) = lastCleanupMarker p" "globalExecute (emit x p) = globalExecute p"
  "executeByNode (emit x p) = executeByNode p" "active (emit x p) = active p"
  "ballot (emit x p) = ballot p" "p1aTime (emit x p) = p1aTime p" "quorum (emit x p) = quorum p"
  "requests (emit x p) = requests p" "p3PendingBallot (emit x p) = p3PendingBallot p"
  "p3pendingSlots (emit x p) = p3pendingSlots p" "lastP3Time (emit x p) = lastP3Time p"
  "ReplyWhenCommit (emit x p) = ReplyWhenCommit p" "calls (emit x p) = calls p @ [x]"
  by (simp_all add: emit_def)

lemma set_entry_simps [simp]:
  "pid (set_entry s e p) = pid p" "db (set_entry s e p) = db p"
  "logm (set_entry s e p) = fmupd s e (logm p)"
  "slot (set_entry s e p) = slot p" "execute (set_entry s e p) = execute p"
  "lastCleanupMarker (set_entry s e p) = lastCleanupMarker p"
  "globalExecute (set_entry s e p) = globalExecute p"
  "executeByNode (set_entry s e p) = executeByNode p" "active (set_entry s e p) = active p"
  "ballot (set_entry s e p) = ballot p" "p1aTime (set_entry s e p) = p1aTime p"
  "quorum (set_entry s e p) = quorum p" "requests (set_entry s e p) = requests p"
  "p3PendingBallot (set_entry s e p) = p3PendingBallot p"
  "p3pendingSlots (set_entry s e p) = p3pendingSlots p" "lastP3Time (set_entry s e p) = lastP3Time p"
  "ReplyWhenCommit (set_entry s e p) = ReplyWhenCommit p" "calls (set_entry s e p) = calls p"
  by (simp_all add: set_entry_def)

section \<open>exec\<close>

definition ready :: "'a pigpaxos_scheme \<Rightarrow> goint \<Rightarrow> bool" where
  "ready p s \<longleftrightarrow> (\<exists>e. fmlookup (logm p) s = Some e \<and> e_commit e \<and> e_ballot e \<noteq> 0)"

definition slot_command :: "'a pigpaxos_scheme \<Rightarrow> goint \<Rightarrow> Command" where
  "slot_command p s = (case fmlookup (logm p) s of None \<Rightarrow> zero_command | Some e \<Rightarrow> e_command e)"

definition slot_request :: "'a pigpaxos_scheme \<Rightarrow> goint \<Rightarrow> Request option" where
  "slot_request p s = (case fmlookup (logm p) s of None \<Rightarrow> None | Some e \<Rightarrow> e_request e)"

text \<open>the exec loop stopped at once\<close>
definition exec_stop :: "'a pigpaxos_scheme \<Rightarrow> 'a pigpaxos_scheme" where
  "exec_stop p =
     (case fmlookup (logm p) (execute p) of
        None \<Rightarrow> p
      | Some e \<Rightarrow> if execute p + 10 < slot p \<and> e_commit e \<and> e_ballot e = 0
                  then sendRecoverRequest (ballot p) (execute p) p else p)"

lemma exec_step: "fmlookup (logm p) (execute p) = Some e \<Longrightarrow> e_commit e \<Longrightarrow> e_ballot e \<noteq> 0 \<Longrightarrow> exec p = exec (exec_entry e p)"
  by (subst exec.simps) simp
lemma exec_stopped: "\<not> ready p (execute p) \<Longrightarrow> exec p = exec_stop p"
  by (subst exec.simps) (auto simp: exec_stop_def ready_def Let_def split: option.splits)

text \<open>induction over exec: stop case and step case\<close>
lemma exec_cases_induct [consumes 0, case_names stop step]:
  assumes "\<And>p. \<not> ready p (execute p) \<Longrightarrow> P p (exec_stop p)"
    and "\<And>p e. fmlookup (logm p) (execute p) = Some e \<Longrightarrow> e_commit e \<Longrightarrow> e_ballot e \<noteq> 0 \<Longrightarrow>
           P (exec_entry e p) (exec (exec_entry e p)) \<Longrightarrow> P p (exec (exec_entry e p))"
  shows "P p (exec p)"
proof (induction p rule: exec.induct)
  case (1 p)
  show ?case
  proof (cases "ready p (execute p)")
    case False
    then show ?thesis using assms(1) by (simp add: exec_stopped)
  next
    case True
    then obtain e where e: "fmlookup (logm p) (execute p) = Some e" "e_commit e" "e_ballot e \<noteq> 0"
      by (auto simp: ready_def)
    then have "P (exec_entry e p) (exec (exec_entry e p))"
      using 1 [OF e(1) refl] by simp
    with e show ?thesis using assms(2) by (simp add: exec_step)
  qed
qed

lemma exec_entry_fields [simp]:
  "lastCleanupMarker (exec_entry e p) = lastCleanupMarker p" "globalExecute (exec_entry e p) = globalExecute p"
  "executeByNode (exec_entry e p) = executeByNode p" "active (exec_entry e p) = active p"
  "p1aTime (exec_entry e p) = p1aTime p" "quorum (exec_entry e p) = quorum p"
  "requests (exec_entry e p) = requests p" "p3PendingBallot (exec_entry e p) = p3PendingBallot p"
  "p3pendingSlots (exec_entry e p) = p3pendingSlots p" "lastP3Time (exec_entry e p) = lastP3Time p"
  "ReplyWhenCommit (exec_entry e p) = ReplyWhenCommit p"
  "db (exec_entry e p) = fst (Execute (e_command e) (db p))"
  "logm (exec_entry e p) = (if e_request e = None then logm p
      else fmupd (execute p) (e\<lparr>e_request := None\<rparr>) (logm p))"
  "calls (exec_entry e p) = calls p @ (case e_request e of None \<Rightarrow> []
      | Some r \<Rightarrow> [CReply r (mk_Reply (e_command e) (snd (Execute (e_command e) (db p))) 0)])"
  by (auto simp: exec_entry_def Let_def split: prod.splits option.splits)

lemma sendRecoverRequest_fields [simp]:
  "pid (sendRecoverRequest b s p) = pid p" "db (sendRecoverRequest b s p) = db p"
  "slot (sendRecoverRequest b s p) = slot p"
  "lastCleanupMarker (sendRecoverRequest b s p) = lastCleanupMarker p"
  "globalExecute (sendRecoverRequest b s p) = globalExecute p"
  "executeByNode (sendRecoverRequest b s p) = executeByNode p" "active (sendRecoverRequest b s p) = active p"
  "ballot (sendRecoverRequest b s p) = ballot p" "p1aTime (sendRecoverRequest b s p) = p1aTime p"
  "quorum (sendRecoverRequest b s p) = quorum p" "requests (sendRecoverRequest b s p) = requests p"
  "p3PendingBallot (sendRecoverRequest b s p) = p3PendingBallot p"
  "p3pendingSlots (sendRecoverRequest b s p) = p3pendingSlots p"
  "lastP3Time (sendRecoverRequest b s p) = lastP3Time p"
  "ReplyWhenCommit (sendRecoverRequest b s p) = ReplyWhenCommit p"
  "calls (sendRecoverRequest b s p) = calls p @ [CSend (Ballot_ID b) (M_P3RecoverRequest (P3RecoverRequest b s (pid p)))]"
  by (simp_all add: sendRecoverRequest_def)

lemma exec_stop_fields [simp]:
  "pid (exec_stop p) = pid p" "db (exec_stop p) = db p" "logm (exec_stop p) = logm p"
  "slot (exec_stop p) = slot p" "execute (exec_stop p) = execute p"
  "lastCleanupMarker (exec_stop p) = lastCleanupMarker p"
  "globalExecute (exec_stop p) = globalExecute p"
  "executeByNode (exec_stop p) = executeByNode p" "active (exec_stop p) = active p"
  "ballot (exec_stop p) = ballot p" "p1aTime (exec_stop p) = p1aTime p"
  "quorum (exec_stop p) = quorum p" "requests (exec_stop p) = requests p"
  "p3PendingBallot (exec_stop p) = p3PendingBallot p"
  "p3pendingSlots (exec_stop p) = p3pendingSlots p"
  "lastP3Time (exec_stop p) = lastP3Time p"
  "ReplyWhenCommit (exec_stop p) = ReplyWhenCommit p"
  by (simp_all add: exec_stop_def split: option.splits)

lemma exec_fields [simp]:
  "pid (exec p) = pid p" "slot (exec p) = slot p"
  "lastCleanupMarker (exec p) = lastCleanupMarker p" "globalExecute (exec p) = globalExecute p"
  "executeByNode (exec p) = executeByNode p" "active (exec p) = active p" "ballot (exec p) = ballot p"
  "p1aTime (exec p) = p1aTime p" "quorum (exec p) = quorum p" "requests (exec p) = requests p"
  "p3PendingBallot (exec p) = p3PendingBallot p" "p3pendingSlots (exec p) = p3pendingSlots p"
  "lastP3Time (exec p) = lastP3Time p" "ReplyWhenCommit (exec p) = ReplyWhenCommit p"
  by (induction p rule: exec_cases_induct, simp_all)+

text \<open>The slots that one run of the loop executes, the replies it sends and the request it may end with.\<close>

definition executed_slots :: "'a pigpaxos_scheme \<Rightarrow> goint list" where
  "executed_slots p = [execute p .. execute (exec p) - 1]"

definition slot_reply :: "'a pigpaxos_scheme \<Rightarrow> goint \<times> Value \<Rightarrow> call list" where
  "slot_reply p = (\<lambda>(s, v). case slot_request p s of None \<Rightarrow> []
     | Some r \<Rightarrow> [CReply r (mk_Reply (slot_command p s) v 0)])"

definition recover_call :: "'a pigpaxos_scheme \<Rightarrow> call list" where
  "recover_call p = (case fmlookup (logm p) (execute p) of None \<Rightarrow> []
     | Some e \<Rightarrow> if execute p + 10 < slot p \<and> e_commit e \<and> e_ballot e = 0
       then [CSend (Ballot_ID (ballot p)) (M_P3RecoverRequest (P3RecoverRequest (ballot p) (execute p) (pid p)))]
       else [])"

lemma exec_stop_calls: "calls (exec_stop p) = calls p @ recover_call p"
  by (simp add: exec_stop_def recover_call_def split: option.splits)

lemma exec_entry_lookups:
  assumes "fmlookup (logm p) (execute p) = Some e" "e_commit e" "e_ballot e \<noteq> 0"
  shows "fmlookup (logm (exec_entry e p)) s =
      (if s = execute p then Some (e\<lparr>e_request := None\<rparr>) else fmlookup (logm p) s)"
    and "slot_command (exec_entry e p) s = slot_command p s"
    and "s \<noteq> execute p \<Longrightarrow> slot_request (exec_entry e p) s = slot_request p s"
    and "ready (exec_entry e p) s = ready p s"
  using assms by (auto simp: slot_command_def slot_request_def ready_def)

lemma exec_execute_mono: "execute p \<le> execute (exec p)"
  by (induction p rule: exec_cases_induct) simp_all

lemma exec_entry_ready:
  "fmlookup (logm p) (execute p) = Some e \<Longrightarrow> e_commit e \<Longrightarrow> e_ballot e \<noteq> 0 \<Longrightarrow>
     executed_slots p = execute p # executed_slots (exec_entry e p)"
  using exec_execute_mono [of "exec_entry e p"]
  by (simp add: executed_slots_def exec_step upto_rec1)

lemma executed_slots_stop: "\<not> ready p (execute p) \<Longrightarrow> executed_slots p = []"
  by (simp add: executed_slots_def exec_stopped)

lemma exec_ready: "\<forall>s \<in> set (executed_slots p). ready p s"
proof (induction p rule: exec.induct)
  case (1 p)
  show ?case
  proof (cases "ready p (execute p)")
    case True
    then obtain e where e: "fmlookup (logm p) (execute p) = Some e" "e_commit e" "e_ballot e \<noteq> 0"
      by (auto simp: ready_def)
    then have "\<forall>s \<in> set (executed_slots (exec_entry e p)). ready (exec_entry e p) s"
      using 1 [OF e(1) refl] by simp
    with True e show ?thesis by (simp add: exec_entry_ready exec_entry_lookups)
  qed (simp add: executed_slots_stop)
qed

lemma exec_stops_unready: "\<not> ready (exec p) (execute (exec p))"
  by (induction p rule: exec_cases_induct) (auto simp: ready_def)

lemma executed_slots_step_bound: "s \<in> set (executed_slots (exec_entry e p)) \<Longrightarrow> execute p < s"
  by (simp add: executed_slots_def)

lemma exec_effect:
  "db (exec p) = fst (Execute_all (map (slot_command p) (executed_slots p)) (db p)) \<and>
   calls (exec p) = calls p
     @ concat (map (slot_reply p)
         (zip (executed_slots p) (snd (Execute_all (map (slot_command p) (executed_slots p)) (db p)))))
     @ recover_call (exec p) \<and>
   (\<forall>s. fmlookup (logm (exec p)) s =
     map_option (\<lambda>e. if s \<in> set (executed_slots p) then e\<lparr>e_request := None\<rparr> else e) (fmlookup (logm p) s))"
proof (induction p rule: exec.induct)
  case (1 p)
  show ?case
  proof (cases "ready p (execute p)")
    case False
    then have "exec p = exec_stop p" "executed_slots p = []"
      by (simp_all add: exec_stopped executed_slots_stop)
    moreover have "recover_call (exec_stop p) = recover_call p"
      by (simp add: recover_call_def split: option.split)
    ultimately show ?thesis by (simp add: exec_stop_calls option.map_ident)
  next
    case True
    then obtain e where e: "fmlookup (logm p) (execute p) = Some e" "e_commit e" "e_ballot e \<noteq> 0"
      by (auto simp: ready_def)
    let ?q = "exec_entry e p" and ?ss = "executed_slots (exec_entry e p)"
    have IH: "db (exec ?q) = fst (Execute_all (map (slot_command ?q) ?ss) (db ?q))"
      "calls (exec ?q) = calls ?q @ concat (map (slot_reply ?q)
         (zip ?ss (snd (Execute_all (map (slot_command ?q) ?ss) (db ?q))))) @ recover_call (exec ?q)"
      "\<And>s. fmlookup (logm (exec ?q)) s =
         map_option (\<lambda>e. if s \<in> set ?ss then e\<lparr>e_request := None\<rparr> else e) (fmlookup (logm ?q) s)"
      using 1 [OF e(1) refl] e by auto
    have c: "map (slot_command ?q) ?ss = map (slot_command p) ?ss"
      by (simp add: exec_entry_lookups [OF e])
    have r: "map (slot_reply ?q) (zip ?ss vs) = map (slot_reply p) (zip ?ss vs)" for vs
    proof (rule map_cong [OF refl])
      fix x assume "x \<in> set (zip ?ss vs)"
      then have "fst x \<in> set ?ss" by (metis in_set_zipE prod.collapse)
      then have "fst x \<noteq> execute p" using executed_slots_step_bound by fastforce
      then show "slot_reply ?q x = slot_reply p x"
        by (cases x) (auto simp: slot_reply_def exec_entry_lookups [OF e] split: option.split)
    qed
    have ss: "executed_slots p = execute p # ?ss" by (rule exec_entry_ready [OF e])
    have sc: "slot_command p (execute p) = e_command e" "slot_request p (execute p) = e_request e"
      by (simp_all add: slot_command_def slot_request_def e)
    show ?thesis
      unfolding exec_step [OF e] ss
      using IH c r [unfolded slot_reply_def]
      by (auto simp: sc fst_Execute_all_Cons snd_Execute_all_Cons slot_reply_def e
          exec_entry_lookups(1) [OF e] simp del: Execute_all.simps(2) exec_entry_fields(13)
          split: option.splits)
  qed
qed


lemma slot_command_exec: "slot_command (exec p) s = slot_command p s"
  using exec_effect [of p] by (auto simp: slot_command_def split: option.splits)

lemma ready_exec: "ready (exec p) s = ready p s"
  using exec_effect [of p] by (cases "fmlookup (logm p) s") (auto simp: ready_def)

text \<open>C9: Whatever the log, one run of the execute loop takes exactly the maximal block of
  consecutive slots, from the next slot to execute, that are committed with a command: the state
  machine becomes the one reached by applying their commands in slot order, each pending client
  gets the value its own command returned, in order, nothing but the answered requests changes in
  the log, and the loop ends with at most one recovery request.\<close>

theorem exec_runs_committed_prefix:
  "list_all (ready p) (executed_slots p)
   \<and> \<not> ready p (execute p + int (length (executed_slots p)))
   \<and> execute (exec p) = execute p + int (length (executed_slots p))
   \<and> db (exec p) = fst (Execute_all (map (slot_command p) (executed_slots p)) (db p))
   \<and> calls (exec p) = calls p
       @ concat (map (slot_reply p)
           (zip (executed_slots p) (snd (Execute_all (map (slot_command p) (executed_slots p)) (db p)))))
       @ recover_call (exec p)
   \<and> fmlookup (logm (exec p)) s =
       map_option (\<lambda>e. if s \<in> set (executed_slots p) then e\<lparr>e_request := None\<rparr> else e)
         (fmlookup (logm p) s)"
proof -
  have x: "execute (exec p) = execute p + int (length (executed_slots p))"
    using exec_execute_mono [of p] by (simp add: executed_slots_def)
  have "\<not> ready p (execute p + int (length (executed_slots p)))"
    using exec_stops_unready [of p] unfolding x ready_exec .
  with x show ?thesis
    using exec_ready [of p] exec_effect [of p] by (simp add: list_all_iff)
qed

section \<open>Cleanup\<close>

lemma exec_cong:
  assumes "execute q = execute p" "db q = db p" "slot q = slot p" "ballot q = ballot p"
    and "\<And>s. execute p \<le> s \<Longrightarrow> fmlookup (logm q) s = fmlookup (logm p) s"
  shows "execute (exec q) = execute (exec p) \<and> db (exec q) = db (exec p)"
  using assms
proof (induction p arbitrary: q rule: exec.induct)
  case (1 p)
  show ?case
  proof (cases "ready p (execute p)")
    case True
    then obtain e where e: "fmlookup (logm p) (execute p) = Some e" "e_commit e" "e_ballot e \<noteq> 0"
      by (auto simp: ready_def)
    then have e': "fmlookup (logm q) (execute q) = Some e"
      using 1 by simp
    have "execute (exec (exec_entry e q)) = execute (exec (exec_entry e p))
        \<and> db (exec (exec_entry e q)) = db (exec (exec_entry e p))"
      by (rule 1(1) [OF e(1) refl, simplified]) (use e 1(2-) in auto)
    then show ?thesis
      using e by (simp add: exec_step [OF e] exec_step [OF e' e(2,3)])
  next
    case False
    then have "\<not> ready q (execute q)"
      using 1 by (simp add: ready_def)
    with False show ?thesis using 1 by (simp add: exec_stopped)
  qed
qed

lemma GetSafeLogCleanupMarker_Min:
  "GetSafeLogCleanupMarker p = Min (insert (execute p) (snd ` set (executeByNode p)))"
  by (simp add: GetSafeLogCleanupMarker_def fold_running_min)

lemma fmlookup_fold_fmdrop: "fmlookup (fold fmdrop ks m) k = (if k \<in> set ks then None else fmlookup m k)"
  by (induction ks arbitrary: m) auto

lemma CleanupLog_simps [simp]:
  "pid (CleanupLog p) = pid p" "db (CleanupLog p) = db p" "slot (CleanupLog p) = slot p"
  "execute (CleanupLog p) = execute p" "active (CleanupLog p) = active p"
  "ballot (CleanupLog p) = ballot p" "calls (CleanupLog p) = calls p"
  "quorum (CleanupLog p) = quorum p" "requests (CleanupLog p) = requests p"
  "p3PendingBallot (CleanupLog p) = p3PendingBallot p"
  "lastCleanupMarker (CleanupLog p) = GetSafeLogCleanupMarker p"
  by (simp_all add: CleanupLog_def Let_def)

lemma CleanupLog_log:
  "fmlookup (logm (CleanupLog p)) s =
     (if lastCleanupMarker p \<le> s \<and> s < GetSafeLogCleanupMarker p then None else fmlookup (logm p) s)"
  by (simp add: CleanupLog_def Let_def fmlookup_fold_fmdrop)

text \<open>C12: The cleanup removes exactly the slots between the previous marker and the new one; the
  new marker never exceeds the replica's own next slot to execute nor any position reported to
  it, and equals one of these, so no slot that is still to be executed is ever removed, and the
  run of the execute loop is the same before and after it.\<close>

theorem cleanup_is_safe:
  "fmlookup (logm (CleanupLog p)) s =
     (if lastCleanupMarker p \<le> s \<and> s < lastCleanupMarker (CleanupLog p) then None
      else fmlookup (logm p) s)
   \<and> lastCleanupMarker (CleanupLog p) = Min (insert (execute p) (snd ` set (executeByNode p)))
   \<and> (s < execute p \<or> fmlookup (logm (CleanupLog p)) s = fmlookup (logm p) s)
   \<and> execute (exec (CleanupLog p)) = execute (exec p)
   \<and> db (exec (CleanupLog p)) = db (exec p)"
proof -
  have le: "GetSafeLogCleanupMarker p \<le> execute p"
    by (simp add: GetSafeLogCleanupMarker_Min)
  have "execute (exec (CleanupLog p)) = execute (exec p) \<and> db (exec (CleanupLog p)) = db (exec p)"
    using le by (intro exec_cong) (auto simp: CleanupLog_log)
  then show ?thesis
    using le by (auto simp: CleanupLog_log GetSafeLogCleanupMarker_Min)
qed

section \<open>Adopting the log of a promise\<close>

lemma update_slot_fields [simp]:
  "pid (update_slot x p) = pid p" "db (update_slot x p) = db p" "slot (update_slot x p) = max (slot p) (fst x)"
  "execute (update_slot x p) = execute p" "active (update_slot x p) = active p"
  "ballot (update_slot x p) = ballot p" "calls (update_slot x p) = calls p"
  "quorum (update_slot x p) = quorum p" "requests (update_slot x p) = requests p"
  "p3PendingBallot (update_slot x p) = p3PendingBallot p"
  by (cases x; simp add: Let_def split: option.splits)+

text \<open>What \<open>update\<close> makes of the entry of a slot for which the promise reports \<open>cb\<close>.\<close>

definition adopt :: "CommandBallot \<Rightarrow> entry option \<Rightarrow> entry" where
  "adopt cb eo = (case eo of
      None \<Rightarrow> follower_entry (cbBallot cb) (cbCommand cb)
    | Some e \<Rightarrow> if \<not> e_commit e \<and> cbBallot cb > e_ballot e
                then e\<lparr>e_ballot := cbBallot cb, e_command := cbCommand cb\<rparr> else e)"

lemma update_slot_eq:
  "update_slot (s, cb) p =
     p\<lparr>slot := max (slot p) s, logm := fmupd s (adopt cb (fmlookup (logm p) s)) (logm p)\<rparr>"
proof -
  have idem: "fmupd s e m = m" if "fmlookup m s = Some e" for m :: "(goint, entry) fmap" and e
    using that by (intro fmap_ext) auto
  show ?thesis
    by (auto simp: Let_def adopt_def set_entry_def idem split: option.splits)
qed

lemma update_slot_commute:
  "fst x \<noteq> fst y \<Longrightarrow> update_slot x (update_slot y p) = update_slot y (update_slot x p)"
  by (cases x; cases y) (simp add: update_slot_eq fmupd_reorder_neq max.left_commute max.commute
      del: update_slot.simps)

lemma update_log_fields [simp]:
  "pid (update_log l p) = pid p" "db (update_log l p) = db p"
  "execute (update_log l p) = execute p" "active (update_log l p) = active p"
  "ballot (update_log l p) = ballot p" "calls (update_log l p) = calls p"
  "quorum (update_log l p) = quorum p" "requests (update_log l p) = requests p"
  "p3PendingBallot (update_log l p) = p3PendingBallot p"
  "slot (update_log l p) = fold max (map fst l) (slot p)"
  unfolding update_log_def
  by (induction l arbitrary: p) (simp_all add: max.commute del: update_slot.simps)

lemma update_log_lookup:
  "distinct (map fst l) \<Longrightarrow> fmlookup (logm (update_log l p)) s =
     (case map_of l s of None \<Rightarrow> fmlookup (logm p) s | Some cb \<Rightarrow> Some (adopt cb (fmlookup (logm p) s)))"
  unfolding update_log_def
proof (induction l arbitrary: p)
  case (Cons x l)
  obtain t cb where x: "x = (t, cb)" by fastforce
  have "map_of l t = None"
    using Cons.prems by (simp add: x map_of_eq_None_iff)
  with Cons show ?case
    by (auto simp: x update_slot_eq simp del: update_slot.simps split: option.splits)
qed simp

text \<open>\<open>update\<close> iterates a Go map, whose order is not specified; the result does not depend on
  it. For every slot the promise reports, the candidate adopts the reported command and ballot
  exactly when it has no entry or an uncommitted one with a lower ballot (a pending request and a
  quorum stay with the entry); every other slot is unchanged, and the highest slot number is the
  maximum of the old one and the reported ones.\<close>

theorem promise_log_adoption:
  assumes "distinct (map fst l)" and "mset l' = mset l"
  shows "update_log l' p = update_log l p
   \<and> fmlookup (logm (update_log l p)) s =
       (case map_of l s of None \<Rightarrow> fmlookup (logm p) s
        | Some cb \<Rightarrow> Some (adopt cb (fmlookup (logm p) s)))
   \<and> slot (update_log l p) = Max (insert (slot p) (fst ` set l))"
proof -
  have f: "fold update_slot l = fold update_slot l'"
  proof (rule fold_multiset_equiv)
    fix x y assume "x \<in> set l" "y \<in> set l"
    with assms(1) have "x = y \<or> fst x \<noteq> fst y"
      by (auto simp: distinct_map inj_on_def)
    then show "update_slot x \<circ> update_slot y = update_slot y \<circ> update_slot x"
      by (auto simp: update_slot_commute fun_eq_iff simp del: update_slot.simps)
  qed (simp add: assms(2))
  moreover have "fold max (map fst l) (slot p) = Max (insert (slot p) (fst ` set l))"
    using Max.set_eq_fold [of "slot p" "map fst l"] by simp
  moreover have "update_log l' p = update_log l p"
    by (simp add: update_log_def f)
  ultimately show ?thesis
    using update_log_lookup [OF assms(1)] by simp
qed

definition promise_example :: pigpaxos where
  "promise_example = update_log [(0, CommandBallot zero_command 4)] (NewPigPaxos default_config 1)"

theorem promise_log_adoption_witness:
  "fmlookup (logm (update_log [(2, CommandBallot zero_command 5), (0, CommandBallot (zero_command\<lparr>cKey := 7\<rparr>) 6)]
      promise_example)) 0 = Some (follower_entry 6 (zero_command\<lparr>cKey := 7\<rparr>))"
  using promise_log_adoption [of "[(2, CommandBallot zero_command 5), (0, CommandBallot (zero_command\<lparr>cKey := 7\<rparr>) 6)]"
      "[(0, CommandBallot (zero_command\<lparr>cKey := 7\<rparr>) 6), (2, CommandBallot zero_command 5)]" promise_example 0]
  by (simp add: adopt_def promise_example_def update_log_def follower_entry_def NewPigPaxos_def set_entry_def)

end
