(* ===== verification/PigSafety.thy ===== *)
theory PigSafety
  imports PigFacts "HOL-Library.Sublist"
begin

text \<open>
  The invariant behind the safety of the protocol core, for one replica: every operation of
  \<open>PigPaxos\<close> keeps it. A proposal is what a leader puts into a \<open>P2a\<close>: a ballot, a slot and a command.
  \<open>Q\<close> stands for the proposals that other replicas have made.
\<close>

type_synonym proposal = "Ballot \<times> goint \<times> Command"

fun carried :: "call \<Rightarrow> msg option" where
  "carried (CSend to m) = Some m"
| "carried (CBroadcast m) = Some m"
| "carried (CForward to r) = Some (M_Request r)"
| "carried (CReply r y) = None"
| "carried (CRetro s) = None"

definition sent :: "'a pigpaxos_scheme \<Rightarrow> msg set" where
  "sent p = {m. \<exists>x \<in> set (calls p). carried x = Some m}"

definition proposals :: "'a pigpaxos_scheme \<Rightarrow> proposal set" where
  "proposals p = {(P2a_Ballot m, P2a_Slot m, P2a_Command m) | m. M_P2a m \<in> sent p}"

definition promise_ok :: "proposal set \<Rightarrow> P1b \<Rightarrow> bool" where
  "promise_ok Q m \<longleftrightarrow>
     (\<forall>(s, cb) \<in> set (P1b_Log m). cbBallot cb \<noteq> 0 \<longrightarrow> (cbBallot cb, s, cbCommand cb) \<in> Q)"

fun msg_ok :: "proposal set \<Rightarrow> msg \<Rightarrow> bool" where
  "msg_ok Q (M_P1b m) \<longleftrightarrow> promise_ok Q m"
| "msg_ok Q (M_P1bs ms) \<longleftrightarrow> (\<forall>m \<in> set ms. promise_ok Q m)"
| "msg_ok Q (M_P2a m) \<longleftrightarrow> (P2a_Ballot m, P2a_Slot m, P2a_Command m) \<in> Q"
| "msg_ok Q (M_P3RecoverReply m) \<longleftrightarrow> (RRep_Ballot m \<noteq> 0 \<longrightarrow> (RRep_Ballot m, RRep_Slot m, RRep_Command m) \<in> Q)"
| "msg_ok Q (M_Routed (RoutedMsg hs f i m)) \<longleftrightarrow> msg_ok Q m"
| "msg_ok Q _ \<longleftrightarrow> True"

definition own_ok :: "'a pigpaxos_scheme \<Rightarrow> bool" where
  "own_ok p \<longleftrightarrow>
     (active p \<longrightarrow> Ballot_ID (ballot p) = pid p) \<and>
     (\<forall>b s c. (b, s, c) \<in> proposals p \<longrightarrow>
        Ballot_ID b = pid p \<and> b \<le> ballot p \<and>
        (b = ballot p \<longrightarrow> active p \<and> s \<le> slot p \<and>
           (\<forall>e. fmlookup (logm p) s = Some e \<longrightarrow> e_commit e \<or> e_command e = c))) \<and>
     (\<forall>b s c c'. (b, s, c) \<in> proposals p \<longrightarrow> (b, s, c') \<in> proposals p \<longrightarrow> c = c')"

definition log_ok :: "proposal set \<Rightarrow> 'a pigpaxos_scheme \<Rightarrow> bool" where
  "log_ok Q p \<longleftrightarrow>
     (\<forall>s e. fmlookup (logm p) s = Some e \<longrightarrow> e_ballot e \<noteq> 0 \<longrightarrow> (e_ballot e, s, e_command e) \<in> Q)"

definition good :: "proposal set \<Rightarrow> 'a pigpaxos_scheme \<Rightarrow> bool" where
  "good Q p \<longleftrightarrow> own_ok p \<and> log_ok (Q \<union> proposals p) p \<and> (\<forall>m \<in> sent p. msg_ok (Q \<union> proposals p) m)"

lemmas good_defs = good_def own_ok_def log_ok_def

section \<open>Messages\<close>

lemma sent_emit [simp]: "sent (emit x p) = (case carried x of None \<Rightarrow> sent p | Some m \<Rightarrow> insert m (sent p))"
  by (auto simp: sent_def split: option.splits)

lemma sent_cong: "calls q = calls p \<Longrightarrow> sent q = sent p"
  by (simp add: sent_def)

lemma proposals_sent_cong: "sent q = sent p \<Longrightarrow> proposals q = proposals p"
  by (simp add: proposals_def)

lemma proposals_emit_P2a [simp]:
  "proposals (emit (CBroadcast (M_P2a m)) p) = insert (P2a_Ballot m, P2a_Slot m, P2a_Command m) (proposals p)"
  by (auto simp: proposals_def)

definition is_proposal :: "call \<Rightarrow> bool" where
  "is_proposal x \<longleftrightarrow> (\<exists>m. carried x = Some (M_P2a m))"

lemma proposals_emit: "\<not> is_proposal x \<Longrightarrow> proposals (emit x p) = proposals p"
  by (auto simp: proposals_def is_proposal_def split: option.splits)

lemma is_proposal_simps [simp]:
  "is_proposal (CSend i m) = (\<exists>x. m = M_P2a x)" "is_proposal (CBroadcast m) = (\<exists>x. m = M_P2a x)"
  "\<not> is_proposal (CForward i r)" "\<not> is_proposal (CReply r y)" "\<not> is_proposal (CRetro s)"
  by (simp_all add: is_proposal_def)

lemma promise_ok_mono: "promise_ok Q m \<Longrightarrow> Q \<subseteq> Q' \<Longrightarrow> promise_ok Q' m"
  by (auto simp: promise_ok_def)

lemma msg_ok_mono: "msg_ok Q m \<Longrightarrow> Q \<subseteq> Q' \<Longrightarrow> msg_ok Q' m"
  by (induction Q m rule: msg_ok.induct) (auto dest: promise_ok_mono)

lemma msg_ok_Un: "msg_ok Q m \<Longrightarrow> msg_ok (Q \<union> R) m"
  by (rule msg_ok_mono) auto

text \<open>The messages that carry nothing from a log.\<close>

fun plain :: "msg \<Rightarrow> bool" where
  "plain (M_P1b m) \<longleftrightarrow> False" | "plain (M_P1bs ms) \<longleftrightarrow> False" | "plain (M_P2a m) \<longleftrightarrow> False"
| "plain (M_P3RecoverReply m) \<longleftrightarrow> False" | "plain (M_Routed m) \<longleftrightarrow> False" | "plain _ \<longleftrightarrow> True"

lemma plain_ok: "plain m \<Longrightarrow> msg_ok Q m"
  by (cases m) simp_all

lemma good_mono: "good Q p \<Longrightarrow> Q \<subseteq> Q' \<Longrightarrow> good Q' p"
  unfolding good_def log_ok_def by (meson Un_mono msg_ok_mono order_refl subsetD)

section \<open>The primitive changes of state\<close>

text \<open>The fields that the invariant reads.\<close>

lemma good_cong:
  assumes "pid q = pid p" "active q = active p" "ballot q = ballot p" "slot q = slot p"
    "logm q = logm p" "calls q = calls p"
  shows "good Q q = good Q p"
  using assms sent_cong [OF assms(6)] proposals_sent_cong [OF sent_cong [OF assms(6)]]
  by (simp add: good_defs)

lemma good_irrelevant [simp]:
  "good Q (p\<lparr>quorum := q\<rparr>) = good Q p" "good Q (p\<lparr>p1aTime := t\<rparr>) = good Q p"
  "good Q (p\<lparr>requests := rs\<rparr>) = good Q p" "good Q (p\<lparr>p3PendingBallot := b\<rparr>) = good Q p"
  "good Q (p\<lparr>p3pendingSlots := ss\<rparr>) = good Q p" "good Q (p\<lparr>lastP3Time := t\<rparr>) = good Q p"
  "good Q (p\<lparr>globalExecute := g\<rparr>) = good Q p" "good Q (p\<lparr>executeByNode := m\<rparr>) = good Q p"
  "good Q (p\<lparr>db := d\<rparr>) = good Q p" "good Q (p\<lparr>execute := i\<rparr>) = good Q p"
  "good Q (p\<lparr>lastCleanupMarker := i\<rparr>) = good Q p"
  by (rule good_cong; simp)+

lemma emit_irrelevant:
  "emit x (p\<lparr>p3pendingSlots := ss\<rparr>) = (emit x p)\<lparr>p3pendingSlots := ss\<rparr>"
  "emit x (p\<lparr>lastP3Time := t\<rparr>) = (emit x p)\<lparr>lastP3Time := t\<rparr>"
  by (simp_all add: emit_def)

lemma good_emit:
  assumes "good Q p" "\<not> is_proposal x" "\<And>m. carried x = Some m \<Longrightarrow> msg_ok (Q \<union> proposals p) m"
  shows "good Q (emit x p)"
  using assms(1,3) unfolding good_defs by (auto simp: proposals_emit [OF assms(2)] split: option.splits)

lemma good_emit_plain:
  "good Q p \<Longrightarrow> (case carried x of None \<Rightarrow> True | Some m \<Rightarrow> plain m) \<Longrightarrow> good Q (emit x p)"
  by (rule good_emit) (auto simp: is_proposal_def plain_ok)

lemma sent_slot [simp]: "sent (p\<lparr>slot := s\<rparr>) = sent p" "sent (p\<lparr>ballot := b\<rparr>) = sent p"
  "sent (p\<lparr>active := a\<rparr>) = sent p" "sent (p\<lparr>logm := l\<rparr>) = sent p" "sent (set_entry t e p) = sent p"
  by (simp_all add: sent_def)

lemma proposals_slot [simp]: "proposals (p\<lparr>slot := s\<rparr>) = proposals p"
  "proposals (p\<lparr>ballot := b\<rparr>) = proposals p" "proposals (p\<lparr>active := a\<rparr>) = proposals p"
  "proposals (p\<lparr>logm := l\<rparr>) = proposals p" "proposals (set_entry t e p) = proposals p"
  by (rule proposals_sent_cong; simp)+

lemma good_set_entry:
  assumes "good Q p"
    and "e_ballot e \<noteq> 0 \<Longrightarrow> (e_ballot e, s, e_command e) \<in> Q \<union> proposals p"
    and "\<And>c. (ballot p, s, c) \<in> proposals p \<Longrightarrow> e_commit e \<or> e_command e = c"
  shows "good Q (set_entry s e p)"
  using assms unfolding good_defs by (auto split: if_splits)

lemma good_same_entry:
  assumes "good Q p" "fmlookup (logm p) s = Some e"
    and "e_ballot e' = e_ballot e" "e_command e' = e_command e" "e_commit e \<longrightarrow> e_commit e'"
  shows "good Q (set_entry s e' p)"
  using assms by (intro good_set_entry) (auto simp: good_defs)

lemma own_proposal:
  assumes "good Q p" "(b, s, c) \<in> proposals p"
  shows "Ballot_ID b = pid p" "b \<le> ballot p" "b = ballot p \<Longrightarrow> active p" "b = ballot p \<Longrightarrow> s \<le> slot p"
    "b = ballot p \<Longrightarrow> fmlookup (logm p) s = Some e \<Longrightarrow> e_commit e \<or> e_command e = c"
  using assms unfolding good_def own_ok_def by blast+

lemma good_entry:
  "good Q p \<Longrightarrow> fmlookup (logm p) s = Some e \<Longrightarrow> e_ballot e \<noteq> 0 \<Longrightarrow>
     (e_ballot e, s, e_command e) \<in> Q \<union> proposals p"
  by (simp add: good_def log_ok_def)

lemma good_idle_proposals: "good Q p \<Longrightarrow> \<not> active p \<Longrightarrow> (ballot p, s, c) \<notin> proposals p"
  by (auto simp: good_defs)

lemma good_idle_entry:
  assumes "good Q p" "\<not> active p" "e_ballot e \<noteq> 0 \<Longrightarrow> (e_ballot e, s, e_command e) \<in> Q"
  shows "good Q (set_entry s e p)"
  using assms by (intro good_set_entry) (auto simp: good_idle_proposals)

lemma good_slot: "good Q p \<Longrightarrow> slot p \<le> s \<Longrightarrow> good Q (p\<lparr>slot := s\<rparr>)"
  unfolding good_defs by fastforce

lemma good_step_down:
  assumes "good Q p" "ballot p < b \<or> (b = ballot p \<and> Ballot_ID b \<noteq> pid p)"
  shows "good Q (p\<lparr>ballot := b, active := False\<rparr>)"
proof -
  have "b' < b" if "(b', s, c) \<in> proposals p" for b' s c
    using assms(2) own_proposal [OF assms(1) that] by (metis le_less_trans order.not_eq_order_implies_strict)
  then show ?thesis
    using assms(1) unfolding good_defs by (auto simp: less_imp_le)
qed

lemma good_activate: "good Q p \<Longrightarrow> Ballot_ID (ballot p) = pid p \<Longrightarrow> good Q (p\<lparr>active := True\<rparr>)"
  unfolding good_defs by auto

lemma good_forget:
  assumes "good Q p" "\<And>s e. fmlookup l s = Some e \<Longrightarrow> fmlookup (logm p) s = Some e"
  shows "good Q (p\<lparr>logm := l\<rparr>)"
  using assms unfolding good_defs by auto

text \<open>The leader proposes the command of an entry that it has stamped with its ballot.\<close>

lemma good_propose:
  assumes "good Q p" "active p" "s \<le> slot p" "e_ballot e = ballot p"
    and "\<And>c. (ballot p, s, c) \<in> proposals p \<Longrightarrow> c = e_command e"
  shows "good Q (emit (CBroadcast (M_P2a (P2a (ballot p) s g (e_command e) p3))) (set_entry s e p))"
  using assms unfolding good_defs
  by (auto simp: intro: msg_ok_mono split: if_splits)

lemma good_repropose:
  assumes "good Q p" "active p" "s \<le> slot p" "fmlookup (logm p) s = Some e" "\<not> e_commit e"
  shows "good Q (emit (CBroadcast (M_P2a (P2a (ballot p) s g (e_command e) p3))) p)"
  using assms unfolding good_defs by (auto intro: msg_ok_mono)


section \<open>The operations\<close>

lemma good_NewPigPaxos: "good Q (NewPigPaxos c n)"
  by (simp add: good_defs NewPigPaxos_def proposals_def sent_def)

lemma good_sendRecoverRequest [intro!]: "good Q p \<Longrightarrow> good Q (sendRecoverRequest b s p)"
  by (simp add: sendRecoverRequest_def good_emit_plain)

lemma good_exec_stop: "good Q p \<Longrightarrow> good Q (exec_stop p)"
  by (auto simp: exec_stop_def split: option.splits)

lemma good_exec_entry:
  assumes "good Q p" "fmlookup (logm p) (execute p) = Some e"
  shows "good Q (exec_entry e p)"
  unfolding exec_entry_def using assms
  by (auto simp: Let_def split: prod.splits option.splits
      intro!: good_same_entry good_emit_plain)

lemma good_exec [intro!]: "good Q p \<Longrightarrow> good Q (exec p)"
  by (induction p rule: exec_cases_induct) (auto simp: good_exec_stop good_exec_entry)

lemma good_StartP1a:
  assumes "good Q p" "Ballot_N (ballot p) < 2 ^ 32 - 1"
  shows "good Q (StartP1a now p)"
proof -
  have "good Q (p\<lparr>ballot := Ballot_Next (ballot p) (pid p), active := False\<rparr>)"
    using assms by (intro good_step_down) (auto simp: Ballot_Next_greater)
  then have "good Q (p\<lparr>ballot := Ballot_Next (ballot p) (pid p)\<rparr>)" if "\<not> active p"
    using that good_cong [of "p\<lparr>ballot := Ballot_Next (ballot p) (pid p)\<rparr>"
        "p\<lparr>ballot := Ballot_Next (ballot p) (pid p), active := False\<rparr>"] by simp
  then show ?thesis
    using assms(1) by (cases "active p") (auto simp: StartP1a_def Let_def intro!: good_emit_plain)
qed

lemma good_RetryP1a [intro!]: "good Q p \<Longrightarrow> good Q (RetryP1a now p)"
  by (simp add: RetryP1a_def Let_def good_emit_plain)

lemma good_StartP2a [intro!]:
  assumes "good Q p" "active p"
  shows "good Q (StartP2a now r p)"
proof -
  let ?p = "p\<lparr>slot := slot p + 1\<rparr>"
  have g: "good Q ?p" "\<And>c. (ballot p, slot p + 1, c) \<notin> proposals p"
    using assms(1) own_proposal(4) [OF assms(1)] by (fastforce simp: good_slot)+
  let ?e = "\<lparr>e_ballot = ballot p, e_command = rCommand r, e_commit = False, e_request = Some r,
    e_quorum = Some (ACK (pid p) NewQuorum), e_timestamp = now\<rparr>"
  have "good Q (emit (CBroadcast (M_P2a (P2a (ballot p) (slot p + 1) g (rCommand r) p3)))
      (set_entry (slot p + 1) ?e ?p))" for g p3
    using good_propose [OF g(1), of "slot p + 1" ?e] assms(2) g(2) by simp
  then show ?thesis
    by (simp add: StartP2a_def Let_def emit_irrelevant)
qed


lemma StartP2a_fields [simp]:
  "active (StartP2a now r p) = active p" "ballot (StartP2a now r p) = ballot p"
  "pid (StartP2a now r p) = pid p" "slot (StartP2a now r p) = slot p + 1"
  "execute (StartP2a now r p) = execute p" "requests (StartP2a now r p) = requests p"
  by (simp_all add: StartP2a_def Let_def)

lemma good_HandleRequest:
  assumes "good Q p" "Ballot_N (ballot p) < 2 ^ 32 - 1"
  shows "good Q (HandleRequest now r p)"
  using assms by (auto simp: HandleRequest_def Let_def intro!: good_StartP1a)

lemma good_RetryP2a:
  "good Q p \<Longrightarrow> active p \<Longrightarrow> s \<le> slot p \<Longrightarrow> fmlookup (logm p) s = Some e \<Longrightarrow> \<not> e_commit e \<Longrightarrow>
     good Q (RetryP2a s e p)"
  by (simp add: RetryP2a_def good_repropose)

lemma good_CheckTimeout [intro!]:
  assumes "good Q p"
  shows "good Q (CheckTimeout now timeout p)"
  unfolding CheckTimeout_def Let_def
  using assms by (auto simp: intro!: good_emit_plain good_RetryP2a split: option.splits)

lemma good_fold:
  assumes "good Q p" "\<And>x q. x \<in> set xs \<Longrightarrow> good Q q \<Longrightarrow> good Q (f x q)"
  shows "good Q (fold f xs p)"
  using assms by (rule fold_invariant)

lemma good_forward [intro!]: "good Q p \<Longrightarrow> good Q (forward p)"
  by (auto simp: forward_def intro!: good_fold good_emit_plain)

lemma fold_forward:
  "b = ballot q \<Longrightarrow> fold (\<lambda>m p. emit (CForward (Ballot_ID (ballot p)) m) p) rs q
      = q\<lparr>calls := calls q @ map (CForward (Ballot_ID b)) rs\<rparr>"
  by (induction rs arbitrary: q) (auto simp: emit_def)

lemma forward_eq:
  "forward p = p\<lparr>calls := calls p @ map (CForward (Ballot_ID (ballot p))) (requests p), requests := []\<rparr>"
  by (simp add: forward_def fold_forward [OF refl])

lemma forward_fields [simp]:
  "pid (forward p) = pid p" "active (forward p) = active p" "ballot (forward p) = ballot p"
  "slot (forward p) = slot p" "execute (forward p) = execute p" "logm (forward p) = logm p"
  "requests (forward p) = []" "quorum (forward p) = quorum p" "db (forward p) = db p"
  "calls (forward p) = calls p @ map (CForward (Ballot_ID (ballot p))) (requests p)"
  by (simp_all add: forward_eq)

text \<open>The promise carries only entries of the log.\<close>

lemma set_uncommitted_log:
  "(s, cb) \<in> set (uncommitted_log p) \<longleftrightarrow>
     (\<exists>e. fmlookup (logm p) s = Some e \<and> \<not> e_commit e \<and> execute p \<le> s \<and> s \<le> slot p \<and>
       cb = CommandBallot (e_command e) (e_ballot e))"
proof -
  have set_mf: "y \<in> set (List.map_filter f xs) \<longleftrightarrow> (\<exists>x \<in> set xs. f x = Some y)"
    for y :: "goint \<times> CommandBallot" and f and xs :: "goint list"
    by (induction xs) (auto split: option.splits)
  show ?thesis
    unfolding uncommitted_log_def set_mf by (auto split: option.splits if_splits)
qed

lemma good_P1b: "good Q p \<Longrightarrow> msg_ok (Q \<union> proposals p) (M_P1b (P1b i b (uncommitted_log p)))"
  using good_entry by (fastforce simp: set_uncommitted_log promise_ok_def)

lemma good_update_slot:
  assumes "good Q p" "\<not> active p" "cbBallot cb \<noteq> 0 \<longrightarrow> (cbBallot cb, s, cbCommand cb) \<in> Q"
  shows "good Q (update_slot (s, cb) p)"
proof -
  have "good Q (p\<lparr>slot := max (slot p) s\<rparr>)"
    using assms by (simp add: good_slot)
  then show ?thesis
    using assms by (auto simp: Let_def follower_entry_def split: option.splits intro!: good_idle_entry)
qed

lemma good_update_log:
  assumes "good Q p" "\<not> active p" "msg_ok Q (M_P1b m)"
  shows "good Q (update_log (P1b_Log m) p)"
proof -
  have "good Q (fold update_slot (P1b_Log m) p) \<and> \<not> active (fold update_slot (P1b_Log m) p)"
    by (rule fold_invariant) (use assms in \<open>auto simp: good_update_slot promise_ok_def simp del: update_slot.simps\<close>)
  then show ?thesis by (simp add: update_log_def)
qed

lemma repropose_fields [simp]:
  "active (repropose i p) = active p" "ballot (repropose i p) = ballot p" "pid (repropose i p) = pid p"
  "slot (repropose i p) = slot p" "execute (repropose i p) = execute p"
  "requests (repropose i p) = requests p"
  by (simp_all add: repropose_def split: option.splits)

lemma good_repropose_step:
  assumes "good Q p" "active p" "i \<le> slot p"
  shows "good Q (repropose i p)"
proof (cases "fmlookup (logm p) i")
  case (Some e)
  let ?e = "e\<lparr>e_ballot := ballot p, e_quorum := Some (ACK (pid p) NewQuorum)\<rparr>"
  have "good Q (emit (CBroadcast (M_P2a (P2a (ballot p) i g (e_command e) p3))) (set_entry i ?e p))"
    if "\<not> e_commit e" for g p3
    using good_propose [OF assms, of ?e] own_proposal(5) [OF assms(1) _ _ Some] that by auto
  with Some assms show ?thesis by (simp add: repropose_def)
qed (simp add: repropose_def assms)

lemma good_become_leader:
  assumes "good Q p" "Ballot_ID (ballot p) = pid p"
  shows "good Q (become_leader now p)"
proof -
  let ?p1 = "p\<lparr>active := True, p3PendingBallot := ballot p\<rparr>"
  let ?p2 = "fold repropose [execute ?p1 .. slot ?p1] ?p1"
  have "good Q ?p1" "active ?p1"
    using good_activate [OF assms] by simp_all
  then have "good Q ?p2 \<and> active ?p2 \<and> slot ?p2 = slot p"
    using fold_invariant [of "\<lambda>q. good Q q \<and> active q \<and> slot q = slot p" ?p1
        "[execute ?p1 .. slot ?p1]" repropose]
    by (simp add: good_repropose_step)
  then have "good Q (fold (StartP2a now) (requests ?p2) ?p2)"
    using fold_invariant [of "\<lambda>q. good Q q \<and> active q" ?p2 "requests ?p2" "StartP2a now"]
    by (simp add: good_StartP2a)
  then show ?thesis
    by (simp add: become_leader_def Let_def)
qed

lemma good_HandleP1b:
  assumes "good Q p" "msg_ok Q (M_P1b m)"
  shows "good Q (HandleP1b c now m p)"
proof (cases "P1b_Ballot m < ballot p \<or> active p")
  case False
  then have g: "good Q (update_log (P1b_Log m) p)"
    using assms good_update_log by blast
  have "good Q ((update_log (P1b_Log m) p)\<lparr>ballot := P1b_Ballot m, active := False\<rparr>)"
    if "ballot p < P1b_Ballot m"
    using good_step_down [OF g] that by simp
  with g False show ?thesis
    by (auto simp: HandleP1b_def Let_def intro!: good_become_leader)
qed (auto simp: HandleP1b_def assms)


lemma good_p3_slot:
  assumes "good Q p"
  shows "good Q (p3_slot c b s p)"
proof -
  let ?p0 = "p\<lparr>slot := max (slot p) s\<rparr>"
  let ?p1 = "case fmlookup (logm ?p0) s of
      Some e \<Rightarrow> if e_ballot e = b then set_entry s (e\<lparr>e_commit := True\<rparr>) ?p0
        else (case e_request e of
            Some r \<Rightarrow> sendRecoverRequest b s
              (set_entry s (e\<lparr>e_request := None\<rparr>) (emit (CForward (Ballot_ID b) r) ?p0))
          | None \<Rightarrow> ?p0)
    | None \<Rightarrow> set_entry s placeholder ?p0"
  have g0: "good Q ?p0"
    using assms by (simp add: good_slot)
  have "good Q (set_entry s placeholder ?p0)"
    by (rule good_set_entry [OF g0]) (simp_all add: placeholder_def)
  with g0 have "good Q ?p1"
    by (auto simp: good_emit_plain split: option.splits intro!: good_same_entry)
  moreover define p1 where "p1 = ?p1"
  ultimately have "good Q p1" by simp
  then show ?thesis
    unfolding p3_slot_def Let_def goMax_max p1_def [symmetric]
    by (auto simp: good_emit_plain split: option.split)
qed

lemma good_HandleP3 [intro!]: "good Q p \<Longrightarrow> good Q (HandleP3 c m p)"
  by (auto simp: HandleP3_def intro!: good_fold good_p3_slot)

lemma good_accept_entry:
  assumes "good Q p" "\<not> active p" "msg_ok Q (M_P2a m)"
  shows "good Q (accept_entry m p)"
  unfolding accept_entry_def using assms
  by (auto simp: follower_entry_def good_emit_plain emit_def [abs_def] split: option.split
      intro!: good_idle_entry good_emit_plain [unfolded emit_def])

lemma good_accept_P2a:
  assumes "good Q p" "msg_ok Q (M_P2a m)" "Ballot_ID (P2a_Ballot m) \<noteq> pid p"
  shows "good Q (accept_P2a m p)"
proof (cases "ballot p \<le> P2a_Ballot m")
  case True
  let ?p = "p\<lparr>ballot := P2a_Ballot m, active := False\<rparr>"
  have "good Q ?p"
    using assms True by (intro good_step_down) auto
  then have "good Q (p\<lparr>ballot := P2a_Ballot m, active := False, globalExecute := P2a_GlobalExecute m,
      slot := max (slot p) (P2a_Slot m)\<rparr>)"
    using good_slot [of Q "?p\<lparr>globalExecute := P2a_GlobalExecute m\<rparr>"] by simp
  with True assms show ?thesis
    by (simp add: accept_P2a_def good_accept_entry)
qed (simp add: accept_P2a_def assms)

lemma good_step_down_op:
  assumes "good Q p" "ballot p < b"
  shows "good Q (step_down now b p)"
  using good_step_down [of Q p b] assms by (simp add: step_down_def good_emit_plain)

lemma good_commit_slot:
  assumes "good Q p" "fmlookup (logm p) s = Some e" "commit_slot c s e p = Inr q"
  shows "good Q q"
  using assms(3) good_same_entry [OF assms(1,2), of "e\<lparr>e_commit := True\<rparr>"]
  by (auto simp: commit_slot_def Let_def good_emit_plain split: if_splits option.splits)

lemma good_HandleP2b:
  assumes "good Q p" "HandleP2b c now s b ids p = Inr q"
  shows "good Q q"
proof (cases "fmlookup (logm p) s")
  case (Some e)
  define p1 where "p1 = (if b > ballot p then step_down now b p else p)"
  have g1: "good Q p1" and l1: "fmlookup (logm p1) s = Some e"
    using assms(1) Some unfolding p1_def by (auto simp: good_step_down_op) (simp_all add: step_down_def)
  have g2: "good Q (set_entry s (e\<lparr>e_quorum := Some x\<rparr>) p1)" for x
    using good_same_entry [OF g1 l1] by simp
  have com: "commit_slot c s (e\<lparr>e_quorum := Some x\<rparr>) (set_entry s (e\<lparr>e_quorum := Some x\<rparr>) p1) = Inr q \<Longrightarrow> good Q q"
    for x by (rule good_commit_slot [OF g2]) auto
  show ?thesis
    using assms Some g1 g2 com unfolding HandleP2b_def Let_def p1_def [symmetric]
    by (auto split: if_splits option.splits)
qed (use assms in \<open>simp add: HandleP2b_def\<close>)

lemma good_HandleP3RecoverRequest [intro!]:
  assumes "good Q p"
  shows "good Q (HandleP3RecoverRequest m p)"
  unfolding HandleP3RecoverRequest_def Let_def using assms good_entry [OF assms]
  by (auto split: option.split intro!: good_emit)

lemma good_HandleP3RecoverReply:
  assumes "good Q p" "msg_ok Q (M_P3RecoverReply m)"
  shows "good Q (HandleP3RecoverReply m p)"
  unfolding HandleP3RecoverReply_def Let_def using assms
  by (auto simp: good_slot split: option.split intro!: good_set_entry)

lemma good_CleanupLog: "good Q p \<Longrightarrow> good Q (CleanupLog p)"
  unfolding CleanupLog_def Let_def
  by (auto simp: fmlookup_fold_fmdrop split: if_splits intro!: good_forget)


section \<open>What only grows\<close>

text \<open>A replica keeps its identity, never returns to a smaller ballot, never un-executes a slot, never
  lowers its highest slot and never takes back a call; the core's own operations also leave the
  fields of an extending record alone.\<close>

definition advances :: "'a pigpaxos_scheme \<Rightarrow> 'a pigpaxos_scheme \<Rightarrow> bool" where
  "advances p q \<longleftrightarrow> pid q = pid p \<and> ballot p \<le> ballot q \<and> execute p \<le> execute q \<and> slot p \<le> slot q \<and>
     prefix (calls p) (calls q)"

definition grows :: "'a pigpaxos_scheme \<Rightarrow> 'a pigpaxos_scheme \<Rightarrow> bool" where
  "grows p q \<longleftrightarrow> advances p q \<and> pigpaxos.more q = pigpaxos.more p"

lemma advances_refl [simp]: "advances p p"
  by (simp add: advances_def)

lemma grows_refl [simp]: "grows p p"
  by (simp add: grows_def)

lemma advances_trans: "advances p q \<Longrightarrow> advances q r \<Longrightarrow> advances p r"
  unfolding advances_def by (auto intro: order_trans prefix_order.trans)

lemma grows_trans: "grows p q \<Longrightarrow> grows q r \<Longrightarrow> grows p r"
  unfolding grows_def by (auto intro: advances_trans)

lemma grows_advances: "grows p q \<Longrightarrow> advances p q"
  by (simp add: grows_def)

lemma emit_more [simp]: "pigpaxos.more (emit x p) = pigpaxos.more p"
  "pigpaxos.more (set_entry s e p) = pigpaxos.more p"
  by (simp_all add: emit_def set_entry_def)

lemma proposals_advance: "advances p q \<Longrightarrow> proposals p \<subseteq> proposals q"
  unfolding advances_def proposals_def sent_def using set_mono_prefix by blast

lemma good_absorb: "good (Q \<union> proposals p) p = good Q p"
  by (simp add: good_def Un_assoc)

lemma good_absorbed: "good (Q \<union> proposals p) q \<Longrightarrow> advances p q \<Longrightarrow> good Q q"
  using proposals_advance [of p q] by (simp add: good_def Un_assoc Un_absorb1)

lemma grows_emit [mono_facts]: "grows p q \<Longrightarrow> grows p (emit x q)"
  by (auto simp: grows_def advances_def prefix_def)

lemma grows_set_entry [mono_facts]: "grows p q \<Longrightarrow> grows p (set_entry s e q)"
  by (simp add: grows_def advances_def)

lemma grows_update [mono_facts]:
  "grows p q \<Longrightarrow> grows p (q\<lparr>active := a\<rparr>)" "grows p q \<Longrightarrow> grows p (q\<lparr>quorum := w\<rparr>)"
  "grows p q \<Longrightarrow> grows p (q\<lparr>p1aTime := t\<rparr>)" "grows p q \<Longrightarrow> grows p (q\<lparr>requests := rs\<rparr>)"
  "grows p q \<Longrightarrow> grows p (q\<lparr>p3PendingBallot := b\<rparr>)" "grows p q \<Longrightarrow> grows p (q\<lparr>p3pendingSlots := ss\<rparr>)"
  "grows p q \<Longrightarrow> grows p (q\<lparr>lastP3Time := t\<rparr>)" "grows p q \<Longrightarrow> grows p (q\<lparr>globalExecute := g\<rparr>)"
  "grows p q \<Longrightarrow> grows p (q\<lparr>logm := l\<rparr>)" "grows p q \<Longrightarrow> grows p (q\<lparr>lastCleanupMarker := i\<rparr>)"
  "grows p q \<Longrightarrow> grows p (q\<lparr>executeByNode := m\<rparr>)" "grows p q \<Longrightarrow> grows p (q\<lparr>db := d\<rparr>)"
  by (simp_all add: grows_def advances_def)

lemma grows_raise [mono_facts]:
  "grows p q \<Longrightarrow> ballot q \<le> b \<Longrightarrow> grows p (q\<lparr>ballot := b\<rparr>)"
  "grows p q \<Longrightarrow> slot q \<le> s \<Longrightarrow> grows p (q\<lparr>slot := s\<rparr>)"
  "grows p q \<Longrightarrow> execute q \<le> i \<Longrightarrow> grows p (q\<lparr>execute := i\<rparr>)"
  by (auto simp: grows_def advances_def)

lemma grows_fold: "grows p q \<Longrightarrow> (\<And>x u. grows p u \<Longrightarrow> grows p (f x u)) \<Longrightarrow> grows p (fold f xs q)"
  by (rule fold_invariant)

lemma grows_exec [mono_facts]: "grows p q \<Longrightarrow> grows p (exec q)"
proof (rule grows_trans)
  show "grows q (exec q)"
  proof (induction q rule: exec_cases_induct)
    case (stop p)
    then show ?case
      by (auto simp: exec_stop_def sendRecoverRequest_def split: option.splits intro!: grows_emit)
  next
    case (step p e)
    have "grows p (exec_entry e p)"
      unfolding exec_entry_def Let_def
      by (auto split: prod.split option.split intro!: mono_facts)
    then show ?case using step grows_trans by blast
  qed
qed

lemma grows_sendRecoverRequest [mono_facts]: "grows p q \<Longrightarrow> grows p (sendRecoverRequest b s q)"
  by (simp add: sendRecoverRequest_def mono_facts)

lemma grows_StartP2a [mono_facts]: "grows p q \<Longrightarrow> grows p (StartP2a now r q)"
  by (simp add: StartP2a_def Let_def mono_facts)

lemma grows_forward [mono_facts]: "grows p q \<Longrightarrow> grows p (forward q)"
  by (auto simp: grows_def advances_def prefix_def forward_eq)

lemma grows_update_log [mono_facts]: "grows p q \<Longrightarrow> grows p (update_log l q)"
  unfolding update_log_def
  by (erule grows_fold) (auto simp: grows_def advances_def update_slot_eq simp del: update_slot.simps)

lemma grows_repropose: "grows p q \<Longrightarrow> grows p (repropose i q)"
  by (simp add: repropose_def mono_facts split: option.split)

lemma grows_become_leader [mono_facts]: "grows p q \<Longrightarrow> grows p (become_leader now q)"
  unfolding become_leader_def Let_def by (intro mono_facts grows_fold grows_repropose)

lemma grows_p3_slot: "grows p q \<Longrightarrow> grows p (p3_slot c b s q)"
  unfolding p3_slot_def Let_def goMax_max
  by (auto intro!: mono_facts split: option.split)

lemma grows_HandleP3 [mono_facts]: "grows p q \<Longrightarrow> grows p (HandleP3 c m q)"
  unfolding HandleP3_def by (intro mono_facts grows_fold grows_p3_slot)

lemma grows_accept_P2a [mono_facts]: "grows p q \<Longrightarrow> grows p (accept_P2a m q)"
  unfolding accept_P2a_def accept_entry_def goMax_max
  by (auto intro!: mono_facts split: option.split)

lemma grows_step_down: "grows p q \<Longrightarrow> ballot q \<le> b \<Longrightarrow> grows p (step_down now b q)"
  unfolding step_down_def by (intro mono_facts) auto

lemma grows_commit_slot: "grows p q \<Longrightarrow> commit_slot c s e q = Inr r \<Longrightarrow> grows p r"
  unfolding commit_slot_def Let_def
  by (auto intro!: mono_facts split: option.splits if_splits)

lemma grows_HandleP2b:
  assumes "HandleP2b c now s b ids p = Inr q"
  shows "grows p q"
proof -
  define p1 where "p1 = (if b > ballot p then step_down now b p else p)"
  have "grows p p1"
    by (simp add: p1_def grows_step_down)
  then have "grows p (set_entry s e p1)" for e
    by (rule mono_facts)
  with assms \<open>grows p p1\<close> show ?thesis
    unfolding HandleP2b_def Let_def p1_def [symmetric]
    by (auto intro: grows_commit_slot split: option.splits if_splits)
qed

lemma grows_StartP1a: "grows p q \<Longrightarrow> Ballot_N (ballot q) < 2 ^ 32 - 1 \<Longrightarrow> grows p (StartP1a now q)"
  unfolding StartP1a_def Let_def
  by (auto intro!: mono_facts less_imp_le [OF Ballot_Next_greater])

lemma grows_RetryP1a [mono_facts]: "grows p q \<Longrightarrow> grows p (RetryP1a now q)"
  unfolding RetryP1a_def Let_def by (auto intro!: mono_facts)

lemma grows_HandleRequest: "Ballot_N (ballot p) < 2 ^ 32 - 1 \<Longrightarrow> grows p (HandleRequest now r p)"
  unfolding HandleRequest_def Let_def
  by (auto intro!: mono_facts grows_StartP1a)

lemma grows_CheckTimeout: "grows p (CheckTimeout now timeout p)"
proof -
  have "grows p (RetryP2a s e p)" for s e by (simp add: RetryP2a_def mono_facts)
  then show ?thesis
    unfolding CheckTimeout_def Let_def
    by (auto intro!: mono_facts split: option.split)
qed

lemma grows_HandleP1b: "grows p (HandleP1b c now m p)"
  unfolding HandleP1b_def Let_def by (auto intro!: mono_facts)

lemma grows_recover:
  "grows p (HandleP3RecoverRequest rq p)" "grows p (HandleP3RecoverReply rr p)"
  unfolding HandleP3RecoverRequest_def HandleP3RecoverReply_def Let_def
  by (auto intro!: mono_facts split: option.split)

lemma grows_CleanupLog: "grows p (CleanupLog p)"
  unfolding CleanupLog_def Let_def by (intro mono_facts) simp

section \<open>The node's Send\<close>

text \<open>What the two handlers that answer a message rely on: sending a promise or a vote keeps an
  invariant that contains that of the core and that the core's operations keep, and never takes
  anything back. The network provides it, and so does the self loop of a replica.\<close>

definition answer :: "msg \<Rightarrow> bool" where
  "answer m \<longleftrightarrow> (\<exists>x. m = M_P1b x) \<or> (\<exists>x. m = M_P2b x)"

lemma P1a_cases:
  assumes "HandleP1a send m to p = Inr q"
  obtains p1 where "grows p p1" "\<And>Q. good Q p \<Longrightarrow> good Q p1"
    "send to (M_P1b (P1b (pid p1) (ballot p1) (uncommitted_log p1))) p1 = Inr q"
proof
  define p1 where "p1 = (if P1a_Ballot m > ballot p
    then forward (p\<lparr>ballot := P1a_Ballot m, active := False\<rparr>) else p)"
  show "grows p p1"
    unfolding p1_def by (auto intro!: mono_facts)
  show "good Q p1" if "good Q p" for Q
    using that good_step_down [of Q p "P1a_Ballot m"] by (auto simp: p1_def)
  show "send to (M_P1b (P1b (pid p1) (ballot p1) (uncommitted_log p1))) p1 = Inr q"
    using assms unfolding HandleP1a_def Let_def p1_def [symmetric] .
qed

lemma P2a_cases:
  assumes "HandleP2a c send m to p = Inr q"
  obtains p1 r where "grows p p1" "p1 = accept_P2a m p"
    "send to (M_P2b (P2b [pid p1] (ballot p1) (P2a_Slot m))) p1 = Inr r"
    "grows r q" "\<And>Q. good Q r \<Longrightarrow> good Q q"
proof -
  obtain r where r: "send to (M_P2b (P2b [pid (accept_P2a m p)] (ballot (accept_P2a m p)) (P2a_Slot m)))
      (accept_P2a m p) = Inr r" "q = r \<or> q = HandleP3 c (P2a_P3msg m) r"
    using assms unfolding HandleP2a_def Let_def go_bind_eq_Inr by (metis sum.inject(2))
  have g: "grows p (accept_P2a m p)"
    by (intro mono_facts) simp
  have q: "grows r q" "\<And>Q. good Q r \<Longrightarrow> good Q q"
    using r(2) by (auto intro!: mono_facts)
  show thesis
    by (rule that [OF g refl r(1) q])
qed

locale advancing_send =
  fixes send :: "ID \<Rightarrow> msg \<Rightarrow> 'a pigpaxos_scheme \<Rightarrow> 'a pigpaxos_scheme go"
  assumes send_advances: "answer m \<Longrightarrow> send to m p = Inr q \<Longrightarrow> advances p q"
begin

lemma advances_P1a: "HandleP1a send m to p = Inr q \<Longrightarrow> advances p q"
  by (erule P1a_cases)
    (erule advances_trans [OF grows_advances], erule send_advances [rotated], simp add: answer_def)

lemma advances_P2a: "HandleP2a c send m to p = Inr q \<Longrightarrow> advances p q"
  by (erule P2a_cases)
    (erule advances_trans [OF grows_advances advances_trans [OF _ grows_advances]],
      erule send_advances [rotated], simp_all add: answer_def)

end

locale node_send =
  fixes send :: "ID \<Rightarrow> msg \<Rightarrow> 'a pigpaxos_scheme \<Rightarrow> 'a pigpaxos_scheme go"
    and inv :: "proposal set \<Rightarrow> 'a pigpaxos_scheme \<Rightarrow> bool"
  assumes inv_good: "inv Q p \<Longrightarrow> good Q p"
    and inv_frame: "inv Q p \<Longrightarrow> good Q q \<Longrightarrow> grows p q \<Longrightarrow> inv Q q"
    and send_inv: "inv Q p \<Longrightarrow> answer m \<Longrightarrow> msg_ok (Q \<union> proposals p) m \<Longrightarrow> send to m p = Inr q \<Longrightarrow>
      inv Q q \<and> advances p q"
begin

lemma inv_P1a:
  assumes "inv Q p" "HandleP1a send m to p = Inr q"
  shows "inv Q q \<and> advances p q"
proof (rule P1a_cases [OF assms(2)])
  fix p1
  assume p1: "grows p p1" "\<And>Q. good Q p \<Longrightarrow> good Q p1"
    "send to (M_P1b (P1b (pid p1) (ballot p1) (uncommitted_log p1))) p1 = Inr q"
  have "good Q p1"
    using inv_good [OF assms(1)] p1(2) by blast
  then have "inv Q q \<and> advances p1 q"
    using send_inv [OF inv_frame [OF assms(1) _ p1(1)] _ good_P1b p1(3)] by (simp add: answer_def)
  with grows_advances [OF p1(1)] show ?thesis
    by (blast intro: advances_trans)
qed

lemma inv_P2a:
  assumes "inv Q p" "msg_ok (Q \<union> proposals p) (M_P2a m)" "Ballot_ID (P2a_Ballot m) \<noteq> pid p"
    and "HandleP2a c send m to p = Inr q"
  shows "inv Q q \<and> advances p q"
proof (rule P2a_cases [OF assms(4)])
  fix p1 r
  assume p1: "grows p p1" "p1 = accept_P2a m p"
    and r: "send to (M_P2b (P2b [pid p1] (ballot p1) (P2a_Slot m))) p1 = Inr r"
    and q: "grows r q" "\<And>Q. good Q r \<Longrightarrow> good Q q"
  have "good (Q \<union> proposals p) p1"
    using good_accept_P2a [OF _ assms(2,3)] inv_good [OF assms(1)] by (simp add: good_absorb p1(2))
  then have "inv Q p1"
    using inv_frame [OF assms(1) good_absorbed [OF _ grows_advances [OF p1(1)]] p1(1)] by blast
  then have r': "inv Q r \<and> advances p1 r"
    using send_inv [OF _ _ _ r] by (simp add: answer_def)
  then have "inv Q q"
    using inv_frame [OF _ _ q(1)] q(2) inv_good by blast
  moreover have "advances p q"
    using r' p1(1) q(1) grows_advances advances_trans by blast
  ultimately show ?thesis by simp
qed

end

interpretation net: node_send net_send good
  by unfold_locales (auto simp: net_send_def answer_def intro!: good_emit grows_advances mono_facts)

interpretation net: advancing_send net_send
  by unfold_locales (auto simp: net_send_def intro!: grows_advances mono_facts)

end
