(* ===== verification/PigSystem.thy ===== *)
theory PigSystem
  imports PigSafety
begin

text \<open>
  A cluster of replicas of \<open>PigPaxos\<close> over an asynchronous network. A step runs one handler of one
  node without interruption. Everything ever sent stays deliverable, to any node, in any order and
  any number of times, which covers loss, duplication, reordering and the forwarding by relays (the
  relay logic itself is in \<open>PigReplica\<close>); the one restriction is that a \<open>P2a\<close> does not reach the owner
  of its ballot, which a broadcast and a relay both exclude. The votes that arrive in a \<open>P2b\<close> are
  arbitrary, as are clock readings and the positions reported to the leader. A handler that panics takes no step.
\<close>

datatype event =
    E_Request ID goint Request
  | E_P1a ID P1a ID
  | E_P1b ID goint P1b
  | E_P2a ID P2a ID
  | E_P2b ID goint goint Ballot "ID list"
  | E_P3 ID P3
  | E_RecoverRequest ID P3RecoverRequest
  | E_RecoverReply ID P3RecoverReply
  | E_Timeout ID goint goint
  | E_Cleanup ID
  | E_Executed ID ID goint

type_synonym sys = "ID \<Rightarrow> pigpaxos"

fun event_node :: "event \<Rightarrow> ID" where
  "event_node (E_Request n _ _) = n" | "event_node (E_P1a n _ _) = n" | "event_node (E_P1b n _ _) = n"
| "event_node (E_P2a n _ _) = n" | "event_node (E_P2b n _ _ _ _) = n" | "event_node (E_P3 n _) = n"
| "event_node (E_RecoverRequest n _) = n" | "event_node (E_RecoverReply n _) = n"
| "event_node (E_Timeout n _ _) = n" | "event_node (E_Cleanup n) = n" | "event_node (E_Executed n _ _) = n"

text \<open>The message an event delivers, and the side condition of the event at its node.\<close>

fun event_msg :: "event \<Rightarrow> msg option" where
  "event_msg (E_P1a n m to) = Some (M_P1a m)"
| "event_msg (E_P1b n now m) = Some (M_P1b m)"
| "event_msg (E_P2a n m to) = Some (M_P2a m)"
| "event_msg (E_P3 n m) = Some (M_P3 m)"
| "event_msg (E_RecoverRequest n m) = Some (M_P3RecoverRequest m)"
| "event_msg (E_RecoverReply n m) = Some (M_P3RecoverReply m)"
| "event_msg _ = None"

fun admissible :: "event \<Rightarrow> pigpaxos \<Rightarrow> bool" where
  "admissible (E_Request n now r) p \<longleftrightarrow> Ballot_N (ballot p) < 2 ^ 32 - 1"
| "admissible (E_P2a n m to) p \<longleftrightarrow> Ballot_ID (P2a_Ballot m) \<noteq> n"
| "admissible _ p \<longleftrightarrow> True"

fun handle :: "config \<Rightarrow> event \<Rightarrow> pigpaxos \<Rightarrow> pigpaxos go" where
  "handle c (E_Request n now r) p = Inr (HandleRequest now r p)"
| "handle c (E_P1a n m to) p = HandleP1a net_send m to p"
| "handle c (E_P1b n now m) p = Inr (HandleP1b c now m p)"
| "handle c (E_P2a n m to) p = HandleP2a c net_send m to p"
| "handle c (E_P2b n now s b ids) p = HandleP2b c now s b ids p"
| "handle c (E_P3 n m) p = Inr (HandleP3 c m p)"
| "handle c (E_RecoverRequest n m) p = Inr (HandleP3RecoverRequest m p)"
| "handle c (E_RecoverReply n m) p = Inr (HandleP3RecoverReply m p)"
| "handle c (E_Timeout n now timeout) p = Inr (CheckTimeout now timeout p)"
| "handle c (E_Cleanup n) p = Inr (CleanupLog p)"
| "handle c (E_Executed n i k) p = Inr (UpdateLastExecuteByNode i k p)"

text \<open>Everything the nodes \<open>ms\<close> have sent.\<close>

definition in_flight :: "ID list \<Rightarrow> sys \<Rightarrow> msg list" where
  "in_flight ms S = List.map_filter carried (concat (map (\<lambda>n. calls (S n)) ms))"

definition pig_deliver :: "config \<Rightarrow> ID list \<Rightarrow> event \<Rightarrow> sys \<Rightarrow> sys option" where
  "pig_deliver c ms ev S =
     (let n = event_node ev in
      if n \<in> set ms \<and> admissible ev (S n) \<and>
         (case event_msg ev of None \<Rightarrow> True | Some m \<Rightarrow> m \<in> set (in_flight ms S))
      then (case handle c ev (S n) of Inl _ \<Rightarrow> None | Inr p \<Rightarrow> Some (S(n := p)))
      else None)"

fun pig_run :: "config \<Rightarrow> ID list \<Rightarrow> event list \<Rightarrow> sys \<Rightarrow> sys option" where
  "pig_run c ms [] S = Some S"
| "pig_run c ms (ev # evs) S = Option.bind (pig_deliver c ms ev S) (pig_run c ms evs)"

definition pig_init :: "config \<Rightarrow> sys" where
  "pig_init c = (\<lambda>n. NewPigPaxos c n)"

inductive pig_step :: "config \<Rightarrow> ID list \<Rightarrow> sys \<Rightarrow> sys \<Rightarrow> bool" for c ms where
  deliver: "pig_deliver c ms ev S = Some T \<Longrightarrow> pig_step c ms S T"

inductive pig_reach :: "config \<Rightarrow> ID list \<Rightarrow> sys \<Rightarrow> bool" for c ms where
  init: "pig_reach c ms (pig_init c)"
| step: "pig_reach c ms S \<Longrightarrow> pig_step c ms S T \<Longrightarrow> pig_reach c ms T"

inductive_cases pig_stepE: "pig_step c ms S T"
inductive_simps pig_step_iff: "pig_step c ms S T"

lemma pig_run_reach: "pig_run c ms evs S = Some T \<Longrightarrow> pig_reach c ms S \<Longrightarrow> pig_reach c ms T"
proof (induction evs arbitrary: S)
  case (Cons ev evs)
  then obtain U where "pig_deliver c ms ev S = Some U" "pig_run c ms evs U = Some T"
    by (auto split: bind_splits)
  with Cons show ?case
    by (meson pig_reach.step pig_step.deliver)
qed simp

section \<open>One step\<close>

lemma in_proposals: "M_P2a m \<in> sent p \<Longrightarrow> (P2a_Ballot m, P2a_Slot m, P2a_Command m) \<in> proposals p"
  by (auto simp: proposals_def)

definition all_proposals :: "ID list \<Rightarrow> sys \<Rightarrow> proposal set" where
  "all_proposals ms S = (\<Union>n \<in> set ms. proposals (S n))"

lemma in_flight_iff: "m \<in> set (in_flight ms S) \<longleftrightarrow> (\<exists>n \<in> set ms. m \<in> sent (S n))"
proof -
  have set_mf: "y \<in> set (List.map_filter f xs) \<longleftrightarrow> (\<exists>x \<in> set xs. f x = Some y)"
    for y :: msg and f and xs :: "call list"
    by (induction xs) (auto split: option.splits)
  show ?thesis
    unfolding in_flight_def set_mf sent_def by auto
qed

lemma deliver_cases:
  assumes "pig_deliver c ms ev S = Some T"
  obtains p where "event_node ev \<in> set ms" "admissible ev (S (event_node ev))"
    "handle c ev (S (event_node ev)) = Inr p" "T = S(event_node ev := p)"
    "\<forall>m. event_msg ev = Some m \<longrightarrow> m \<in> set (in_flight ms S)"
  using assms unfolding pig_deliver_def Let_def by (auto split: if_splits sum.splits option.splits)

lemma handle_good:
  assumes "good Q p" "pid p = event_node ev" "admissible ev p" "handle c ev p = Inr q"
    and "\<And>m. event_msg ev = Some m \<Longrightarrow> msg_ok Q m"
  shows "good Q q"
  using assms
  by (cases ev) (auto simp: good_HandleRequest good_HandleP1b good_HandleP3RecoverReply good_CleanupLog
      UpdateLastExecuteByNode_def dest: net.inv_P1a net.inv_P2a [OF _ msg_ok_Un] good_HandleP2b
      simp del: msg_ok.simps)

lemma handle_advances:
  assumes "admissible ev p" "handle c ev p = Inr q"
  shows "advances p q"
  using assms
  by (cases ev) (auto simp: grows_HandleRequest grows_HandleP1b grows_recover grows_CheckTimeout
      grows_CleanupLog grows_HandleP3 UpdateLastExecuteByNode_def grows_advances
      dest: net.advances_P1a net.advances_P2a grows_HandleP2b intro!: grows_advances [OF grows_update(11)])

lemma reach_good:
  "pig_reach c ms S \<Longrightarrow> pid (S n) = n \<and> good (all_proposals ms S) (S n)"
proof (induction arbitrary: n rule: pig_reach.induct)
  case init
  then show ?case by (simp add: pig_init_def good_NewPigPaxos) (simp add: NewPigPaxos_def)
next
  case (step S T)
  from step.hyps(2) obtain ev where "pig_deliver c ms ev S = Some T"
    by (rule pig_stepE)
  then obtain p where ev: "event_node ev \<in> set ms" "admissible ev (S (event_node ev))"
    "handle c ev (S (event_node ev)) = Inr p" and T: "T = S(event_node ev := p)"
    and m: "\<forall>m. event_msg ev = Some m \<longrightarrow> m \<in> set (in_flight ms S)"
    by (rule deliver_cases)
  let ?Q = "all_proposals ms S" and ?i = "event_node ev"
  have g: "advances (S ?i) p"
    using handle_advances ev by blast
  have "msg_ok ?Q x" if "event_msg ev = Some x" for x
  proof -
    from m that obtain k where k: "k \<in> set ms" "x \<in> sent (S k)"
      by (auto simp: in_flight_iff)
    with step.IH [of k] have "msg_ok (?Q \<union> proposals (S k)) x"
      by (simp add: good_def)
    then show ?thesis
      using k(1) by (auto elim!: msg_ok_mono simp: all_proposals_def)
  qed
  then have "good ?Q p"
    using handle_good ev step.IH by blast
  moreover have "?Q \<subseteq> all_proposals ms T"
    using proposals_advance [OF g] unfolding all_proposals_def T
    by (intro UN_mono) auto
  ultimately have "good (all_proposals ms T) (T n)"
    using step.IH [of n] good_mono by (cases "n = ?i") (auto simp: T)
  moreover have "pid (T n) = n"
    using step.IH [of n] g by (auto simp: T advances_def)
  ultimately show ?case by simp
qed


section \<open>Safety\<close>

text \<open>Whatever the network delivers, every handler keeps the replica's identity, never returns to
  a smaller ballot, never moves the next slot to execute or the highest slot back, and only
  appends to what has been sent.\<close>

theorem handlers_only_grow:
  assumes "admissible ev p" and "handle c ev p = Inr q"
  shows "pid q = pid p \<and> ballot p \<le> ballot q \<and> execute p \<le> execute q \<and> slot p \<le> slot q \<and>
    (\<exists>new. calls q = calls p @ new)"
  using handle_advances [OF assms] by (auto simp: advances_def prefix_def)

definition req :: "Key \<Rightarrow> Request" where
  "req k = \<lparr>rCommand = \<lparr>cKey = k, cValue = Some [1], cClientID = 1, cCommandID = 0\<rparr>,
     rProperties = [], rTimestamp = 0, rNodeID = 0\<rparr>"

theorem handlers_only_grow_witness:
  "ballot (NewPigPaxos default_config 1)
     \<le> ballot (HandleRequest 5 (req 7) (NewPigPaxos default_config 1))"
  using handlers_only_grow [of "E_Request 1 5 (req 7)" "NewPigPaxos default_config 1" default_config]
  by (simp add: NewPigPaxos_def Ballot_N_def)

lemma proposal_unique:
  assumes "pig_reach c ms S"
    and "M_P2a m \<in> sent (S i)" and "M_P2a m' \<in> sent (S j)"
    and "P2a_Ballot m = P2a_Ballot m'" and "P2a_Slot m = P2a_Slot m'"
  shows "i = j \<and> Ballot_ID (P2a_Ballot m) = i \<and> P2a_Command m = P2a_Command m'"
proof -
  have p: "(P2a_Ballot m, P2a_Slot m, P2a_Command m) \<in> proposals (S i)"
    "(P2a_Ballot m, P2a_Slot m, P2a_Command m') \<in> proposals (S j)"
    using assms(2-5) in_proposals by metis+
  have "Ballot_ID (P2a_Ballot m) = i" "Ballot_ID (P2a_Ballot m) = j"
    using reach_good [OF assms(1)] own_proposal(1) [OF _ p(1)] own_proposal(1) [OF _ p(2)] by metis+
  moreover from this p have "P2a_Command m = P2a_Command m'"
    using reach_good [OF assms(1), of i] unfolding good_def own_ok_def by blast
  ultimately show ?thesis by simp
qed

text \<open>C2: In every reachable state of the cluster a ballot and a slot determine the proposed command and
  the proposer: no two \<open>P2a\<close> messages with the same ballot and slot, whoever sent them, carry
  different commands, also across retries, re-proposals and changes of leadership.\<close>

theorem one_proposal_per_ballot_and_slot:
  assumes "pig_reach c ms S"
    and "M_P2a m \<in> sent (S i)" and "M_P2a m' \<in> sent (S j)"
    and "P2a_Ballot m = P2a_Ballot m'" and "P2a_Slot m = P2a_Slot m'"
  shows "i = j \<and> Ballot_ID (P2a_Ballot m) = i \<and> P2a_Command m = P2a_Command m'"
  using assms by (rule proposal_unique)

lemma reach_entry:
  assumes "pig_reach c ms S" "fmlookup (logm (S i)) s = Some e" "e_ballot e \<noteq> 0"
  obtains j m where "M_P2a m \<in> sent (S j)" "P2a_Ballot m = e_ballot e" "P2a_Slot m = s"
    "P2a_Command m = e_command e"
proof -
  have "(e_ballot e, s, e_command e) \<in> all_proposals ms S \<union> proposals (S i)"
    using reach_good [OF assms(1)] good_entry assms(2,3) by blast
  then show ?thesis
    using that by (fastforce simp: all_proposals_def proposals_def)
qed


text \<open>C1: In every reachable state, two replicas that hold a slot with the same ballot hold it with the
  same command; in particular two replicas that have committed the slot under one ballot agree on
  the command. The entry's command is one that the owner of the ballot has proposed for the slot.\<close>

theorem logs_agree_per_ballot:
  assumes "pig_reach c ms S"
    and "fmlookup (logm (S i)) s = Some e" and "fmlookup (logm (S j)) s = Some e'"
    and "e_ballot e = e_ballot e'" and "e_ballot e \<noteq> 0"
  shows "e_command e = e_command e' \<and>
    (\<exists>m. M_P2a m \<in> sent (S (Ballot_ID (e_ballot e))) \<and> P2a_Ballot m = e_ballot e \<and> P2a_Slot m = s \<and>
       P2a_Command m = e_command e)"
proof -
  obtain k m where m: "M_P2a m \<in> sent (S k)" "P2a_Ballot m = e_ballot e" "P2a_Slot m = s"
    "P2a_Command m = e_command e"
    using reach_entry [OF assms(1,2,5)] .
  obtain k' m' where m': "M_P2a m' \<in> sent (S k')" "P2a_Ballot m' = e_ballot e'" "P2a_Slot m' = s"
    "P2a_Command m' = e_command e'"
    using reach_entry [OF assms(1,3)] assms(4,5) by metis
  have "Ballot_ID (e_ballot e) = k \<and> e_command e = e_command e'"
    using proposal_unique [OF assms(1) m(1) m'(1)] m m' assms(4) by simp
  with m show ?thesis by blast
qed

section \<open>Executions\<close>

definition cluster :: "ID list" where
  "cluster = [1, 2, 3]"

definition cluster_config :: config where
  "cluster_config = members_config cluster"

text \<open>Node 1 is elected by node 2 and commits a command in slot 0; node 3 is then elected by node 1.\<close>

definition leader_change :: "event list" where
  "leader_change = (let b1 = NewBallot 1 1; b3 = NewBallot 1 3 in
    [E_Request 1 5 (req 7), E_P1a 2 (P1a b1) 1, E_P1b 1 6 (P1b 2 b1 []),
     E_P2a 2 (P2a b1 0 0 (rCommand (req 7)) (P3 b1 [])) 1, E_P2b 1 7 0 b1 [2],
     E_Request 3 8 (req 9), E_P1a 1 (P1a b3) 3, E_P1b 3 9 (P1b 1 b3 []),
     E_P2a 1 (P2a b3 0 0 (rCommand (req 9)) (P3 b3 [])) 3, E_P2b 3 10 0 b3 [1]])"


definition command_at :: "sys \<Rightarrow> ID \<Rightarrow> goint \<Rightarrow> Command option" where
  "command_at S i s = (case fmlookup (logm (S i)) s of None \<Rightarrow> None
     | Some e \<Rightarrow> if e_commit e \<and> s < execute (S i) then Some (e_command e) else None)"

text \<open>A promise reports only what is not committed, and the candidate proposes from its own next slot.
  A slot that the old leader has committed and executed is therefore open to the new leader: in the
  execution above nodes 1 and 3 execute different commands in slot 0, and both clients are answered.\<close>

lemma committed_slot_is_reassigned:
  "case pig_run cluster_config cluster leader_change (pig_init cluster_config) of
     None \<Rightarrow> False
   | Some S \<Rightarrow> command_at S 1 0 = Some (rCommand (req 7)) \<and> command_at S 3 0 = Some (rCommand (req 9))"
  by code_simp

theorem logs_agree_per_ballot_witness:
  "\<exists>(S :: sys) e e'. fmlookup (logm (S 1)) 0 = Some e \<and> fmlookup (logm (S 2)) 0 = Some e' \<and> e_commit e \<and>
     e_command e = e_command e'"
proof -
  let ?run = "pig_run cluster_config cluster (take 5 leader_change) (pig_init cluster_config)"
  have chk: "case ?run of None \<Rightarrow> False | Some S \<Rightarrow>
      (case (fmlookup (logm (S 1)) 0, fmlookup (logm (S 2)) 0) of
         (Some e, Some e') \<Rightarrow> e_ballot e = e_ballot e' \<and> e_ballot e \<noteq> 0 \<and> e_commit e
       | _ \<Rightarrow> False)"
    by code_simp
  then obtain S e e' where S: "?run = Some S" "fmlookup (logm (S 1)) 0 = Some e"
    "fmlookup (logm (S 2)) 0 = Some e'" "e_ballot e = e_ballot e'" "e_ballot e \<noteq> 0" "e_commit e"
    by (auto split: option.splits)
  have "pig_reach cluster_config cluster S"
    using pig_run_reach [OF S(1) pig_reach.init] .
  from logs_agree_per_ballot [OF this S(2,3,4,5)] S show ?thesis
    by (intro exI [of _ S] exI [of _ e] exI [of _ e']) auto
qed

theorem one_proposal_per_ballot_and_slot_witness:
  "\<exists>(S :: sys) m. M_P2a m \<in> sent (S 1) \<and> P2a_Slot m = 0 \<and> Ballot_ID (P2a_Ballot m) = (1 :: ID)"
proof -
  let ?run = "pig_run cluster_config cluster (take 3 leader_change) (pig_init cluster_config)"
  let ?m = "P2a (NewBallot 1 1) 0 0 (rCommand (req 7)) (P3 (NewBallot 1 1) [])"
  have "case ?run of None \<Rightarrow> False | Some S \<Rightarrow> list_ex (\<lambda>x. carried x = Some (M_P2a ?m)) (calls (S 1))"
    by code_simp
  then obtain S where S: "?run = Some S" "M_P2a ?m \<in> sent (S 1)"
    by (auto simp: sent_def list_ex_iff split: option.splits)
  have "pig_reach cluster_config cluster S"
    using pig_run_reach [OF S(1) pig_reach.init] .
  from one_proposal_per_ballot_and_slot [OF this S(2) S(2) refl refl] S(2) show ?thesis
    by (intro exI [of _ S] exI [of _ ?m]) auto
qed

end
