(* ===== verification/PigHandlers.thy ===== *)
theory PigHandlers
  imports PigSafety
begin

text \<open>
  What each handler of the protocol core does, on every branch: the promise, the election of a
  leader, the acceptance of a proposal, the commit of a slot and its announcement, and the recovery; and that a leader whose
  majority does not know of a committed slot gives the slot to its own request.
\<close>

section \<open>Field lemmas\<close>

lemma exec_request_only:
  "fmlookup (logm (exec p)) s = Some e' \<longleftrightarrow>
     (\<exists>e. fmlookup (logm p) s = Some e \<and>
       e' = (if s \<in> set (executed_slots p) then e\<lparr>e_request := None\<rparr> else e))"
proof -
  have "fmlookup (logm (exec p)) s =
      map_option (\<lambda>e. if s \<in> set (executed_slots p) then e\<lparr>e_request := None\<rparr> else e) (fmlookup (logm p) s)"
    using exec_effect [of p] by blast
  then show ?thesis
    by (cases "fmlookup (logm p) s") auto
qed

lemma step_down_fields [simp]:
  "pid (step_down now b p) = pid p" "ballot (step_down now b p) = b" "active (step_down now b p) = False"
  "logm (step_down now b p) = logm p" "p3pendingSlots (step_down now b p) = []"
  "p3PendingBallot (step_down now b p) = 0"
  "calls (step_down now b p) = calls p @ [CBroadcast (M_P3 (P3 (p3PendingBallot p) (p3pendingSlots p)))]"
  by (simp_all add: step_down_def)

section \<open>Commit\<close>

text \<open>What a vote changes.\<close>

lemma HandleP2b_votes:
  assumes "fmlookup (logm p) s = Some e" "\<not> e_commit e" "e_quorum e = Some Q" "wf_quorum Q"
    and "Ballot_ID (e_ballot e) = pid p" "e_ballot e \<le> ballot p" "\<not> ReplyWhenCommit p" "0 \<le> cfg_n c"
  shows "\<exists>q e'. HandleP2b c now s (e_ballot e) ids p = Inr q \<and> fmlookup (logm q) s = Some e' \<and>
    e_command e' = e_command e \<and> e_ballot e' = e_ballot e \<and> ballot q = ballot p \<and> active q = active p \<and>
    (e_commit e' \<longleftrightarrow> cfg_n c < 2 * int (card (acks Q \<union> set ids))) \<and>
    map_option acks (e_quorum e') = Some (acks Q \<union> set ids) \<and>
    p3pendingSlots q = p3pendingSlots p @ (if e_commit e' then [s] else [])"
proof -
  let ?Q = "fold ACK ids Q"
  let ?e = "e\<lparr>e_quorum := Some ?Q\<rparr>"
  let ?p = "set_entry s ?e p"
  have nl: "\<not> ballot p < e_ballot e"
    using assms(6) by simp
  have maj: "Majority c ?Q \<longleftrightarrow> cfg_n c < 2 * int (card (acks Q \<union> set ids))"
    using assms(4,8) by (simp add: Majority_iff)
  show ?thesis
  proof (cases "Majority c ?Q")
    case False
    then have "HandleP2b c now s (e_ballot e) ids p = Inr ?p"
      using assms by (simp add: HandleP2b_def Let_def)
    then show ?thesis
      using assms(2) False maj by (intro exI [of _ ?p] exI [of _ ?e]) simp
  next
    case True
    let ?r = "(if cfg_UseRetroLog c then emit (CRetro s) (set_entry s (?e\<lparr>e_commit := True\<rparr>) ?p)
        else set_entry s (?e\<lparr>e_commit := True\<rparr>) ?p)\<lparr>p3pendingSlots := p3pendingSlots p @ [s]\<rparr>"
    have q: "HandleP2b c now s (e_ballot e) ids p = Inr (exec ?r)"
      using assms True nl by (simp add: HandleP2b_def Let_def commit_slot_def)
    let ?e' = "if s \<in> set (executed_slots ?r) then ?e\<lparr>e_commit := True, e_request := None\<rparr>
        else ?e\<lparr>e_commit := True\<rparr>"
    have l: "fmlookup (logm (exec ?r)) s = Some ?e'"
      unfolding exec_request_only by simp
    have f: "ballot (exec ?r) = ballot p" "active (exec ?r) = active p"
      "p3pendingSlots (exec ?r) = p3pendingSlots p @ [s]"
      by simp_all
    have e': "e_command ?e' = e_command e" "e_ballot ?e' = e_ballot e" "e_commit ?e'"
      "map_option acks (e_quorum ?e') = Some (acks Q \<union> set ids)"
      by simp_all
    show ?thesis
      using q l f e' True maj by (intro exI [of _ "exec ?r"] exI [of _ ?e']) presburger
  qed
qed

text \<open>C8: A \<open>P2b\<close> for the leader's own proposal commits the slot exactly when the nodes that have
  acknowledged it, counted once each and the leader included, are more than half of the
  configured nodes. Then the slot is queued for the next announcement; otherwise only the votes
  are recorded. The command, the ballot and the leadership do not change.\<close>

theorem p2b_commits_iff_majority:
  assumes "fmlookup (logm p) s = Some e" "\<not> e_commit e" "e_quorum e = Some Q" "wf_quorum Q"
    and "Ballot_ID (e_ballot e) = pid p" "e_ballot e \<le> ballot p" "\<not> ReplyWhenCommit p" "0 \<le> cfg_n c"
  shows "\<exists>q e'. HandleP2b c now s (e_ballot e) ids p = Inr q \<and> fmlookup (logm q) s = Some e' \<and>
    e_command e' = e_command e \<and> e_ballot e' = e_ballot e \<and> ballot q = ballot p \<and> active q = active p \<and>
    (e_commit e' \<longleftrightarrow> cfg_n c < 2 * int (card (acks Q \<union> set ids))) \<and>
    map_option acks (e_quorum e') = Some (acks Q \<union> set ids) \<and>
    p3pendingSlots q = p3pendingSlots p @ (if e_commit e' then [s] else [])"
  using assms by (rule HandleP2b_votes)

definition voting_example :: pigpaxos where
  "voting_example = (StartP2a 5 \<lparr>rCommand = zero_command, rProperties = [], rTimestamp = 0, rNodeID = 0\<rparr>
     ((NewPigPaxos default_config 1)\<lparr>active := True, ballot := NewBallot 1 1\<rparr>))"

theorem p2b_commits_iff_majority_witness:
  "\<exists>q e'. HandleP2b (members_config [1, 2, 3]) 6 0 (NewBallot 1 1) [2] voting_example = Inr q \<and>
     fmlookup (logm q) 0 = Some e' \<and> e_commit e'"
proof -
  have e: "fmlookup (logm voting_example) 0 = Some \<lparr>e_ballot = NewBallot 1 1, e_command = zero_command,
      e_commit = False, e_request = Some \<lparr>rCommand = zero_command, rProperties = [], rTimestamp = 0, rNodeID = 0\<rparr>,
      e_quorum = Some (ACK 1 NewQuorum), e_timestamp = 5\<rparr>"
    by (simp add: voting_example_def StartP2a_def NewPigPaxos_def Let_def)
  have p: "pid voting_example = 1" "ballot voting_example = NewBallot 1 1" "\<not> ReplyWhenCommit voting_example"
    by (simp_all add: voting_example_def) (simp_all add: NewPigPaxos_def StartP2a_def Let_def)
  have n: "cfg_n (members_config [1, 2, 3]) = 3"
    by (simp add: members_config_counts)
  show ?thesis
    using p2b_commits_iff_majority [OF e, of "ACK 1 NewQuorum" "members_config [1, 2, 3]" 6 "[2]"] p n
    by (force simp: card_insert_if)
qed

text \<open>The other branches of the vote handler. A vote for an unknown slot, for an older ballot or for a
  committed slot changes nothing. A vote with a ballot above the entry's does not touch the log;
  if it is also above the replica's own ballot the replica becomes an acceptor of that ballot and
  announces the commits it still holds back. A vote for an entry with the replica's own ballot
  that was not proposed here, so that it has no quorum, is a nil dereference.\<close>

theorem p2b_other_branches:
  assumes "fmlookup (logm p) s = Some e"
  shows "HandleP2b c now s b ids p =
    (if b < e_ballot e \<or> e_commit e then Inr p
     else if e_ballot e < b then Inr (if ballot p < b then step_down now b p else p)
     else if Ballot_ID b \<noteq> pid p then Inr (if ballot p < b then step_down now b p else p)
     else if e_quorum e = None then Inl NilDeref
     else HandleP2b c now s (e_ballot e) ids p)
   \<and> (t |\<notin>| fmdom (logm p) \<longrightarrow> HandleP2b c now t b ids p = Inr p)
   \<and> ballot (step_down now b p) = b \<and> \<not> active (step_down now b p) \<and> logm (step_down now b p) = logm p
   \<and> calls (step_down now b p) = calls p @ [CBroadcast (M_P3 (P3 (p3PendingBallot p) (p3pendingSlots p)))]"
proof -
  have "fmlookup (logm p) t = None" if "t |\<notin>| fmdom (logm p)"
    using that by (simp add: fmdom_notD)
  then show ?thesis
    using assms by (cases "e_ballot e = b") (simp_all add: HandleP2b_def Let_def)
qed

theorem p2b_other_branches_witness:
  "HandleP2b default_config 6 3 (NewBallot 1 1) [2] voting_example = Inr voting_example"
  using p2b_other_branches [of voting_example 0 _ default_config 6 "NewBallot 1 1" "[2]" 3]
  by (simp add: voting_example_def StartP2a_def NewPigPaxos_def Let_def)


section \<open>Promise\<close>

lemma map_of_map_filter_key:
  "map_of (List.map_filter (\<lambda>x. map_option (Pair x) (g x)) xs) k = (if k \<in> set xs then g k else None)"
  by (induction xs) (auto split: option.splits)

lemma map_fst_map_filter_key:
  "map fst (List.map_filter (\<lambda>x. map_option (Pair x) (g x)) xs) = filter (\<lambda>x. g x \<noteq> None) xs"
  by (induction xs) (simp_all split: option.split)

definition promised :: "'a pigpaxos_scheme \<Rightarrow> goint \<Rightarrow> CommandBallot option" where
  "promised p s = (case fmlookup (logm p) s of
      None \<Rightarrow> None
    | Some e \<Rightarrow> if e_commit e then None else Some (CommandBallot (e_command e) (e_ballot e)))"

lemma uncommitted_log_alt:
  "uncommitted_log p = List.map_filter (\<lambda>s. map_option (Pair s) (promised p s)) [execute p .. slot p]"
  unfolding uncommitted_log_def promised_def
  by (intro arg_cong2 [where f = List.map_filter] ext) (auto split: option.split)

text \<open>A \<open>P1a\<close> is always answered, with the larger of the two ballots. If it is the message's the
  replica stops leading and hands its pending requests to the new leader. The promise reports
  each slot from the next one to execute up to the highest one at most once, with the command and ballot of its
  entry, exactly when the entry exists and is not committed; the log does not change.\<close>

theorem promise_contents:
  "\<exists>q l. HandleP1a net_send m to p = Inr q \<and> ballot q = max (ballot p) (P1a_Ballot m) \<and>
     active q = (active p \<and> P1a_Ballot m \<le> ballot p) \<and> logm q = logm p \<and> execute q = execute p \<and>
     calls q = calls p
       @ (if ballot p < P1a_Ballot m then map (CForward (Ballot_ID (P1a_Ballot m))) (requests p) else [])
       @ [CSend to (M_P1b (P1b (pid p) (ballot q) l))] \<and>
     requests q = (if ballot p < P1a_Ballot m then [] else requests p) \<and>
     distinct (map fst l) \<and>
     map_of l s = (if execute p \<le> s \<and> s \<le> slot p then promised p s else None)"
proof -
  define p1 where "p1 = (if P1a_Ballot m > ballot p
    then forward (p\<lparr>ballot := P1a_Ballot m, active := False\<rparr>) else p)"
  let ?l = "uncommitted_log p1"
  have p1: "promised p1 = promised p" "execute p1 = execute p" "slot p1 = slot p"
    by (auto simp: p1_def promised_def)
  have "distinct (map fst ?l)"
    unfolding uncommitted_log_alt by (simp add: map_fst_map_filter_key)
  moreover have "map_of ?l s = (if execute p \<le> s \<and> s \<le> slot p then promised p s else None)"
    unfolding uncommitted_log_alt by (simp add: map_of_map_filter_key p1)
  moreover have "HandleP1a net_send m to p = Inr (emit (CSend to (M_P1b (P1b (pid p1) (ballot p1) ?l))) p1)"
    by (simp add: HandleP1a_def Let_def p1_def [symmetric] net_send_def)
  ultimately show ?thesis
    by (intro exI [of _ "emit (CSend to (M_P1b (P1b (pid p1) (ballot p1) ?l))) p1"] exI [of _ ?l])
      (auto simp: p1_def max_def emit_def [of _ "forward q" for q] emit_def [of _ p])
qed

section \<open>Election\<close>

text \<open>The proposals among the calls, in the order they are made.\<close>

definition proposed :: "call list \<Rightarrow> proposal list" where
  "proposed cs = List.map_filter
     (\<lambda>x. case x of CBroadcast (M_P2a m) \<Rightarrow> Some (P2a_Ballot m, P2a_Slot m, P2a_Command m) | _ \<Rightarrow> None) cs"

lemma proposed_append [simp]: "proposed (xs @ ys) = proposed xs @ proposed ys"
  by (induction xs) (simp_all add: proposed_def split: option.split)

lemma proposed_P2a [simp]:
  "proposed [CBroadcast (M_P2a (P2a b s g cmd p3))] = [(b, s, cmd)]" "proposed [] = []"
  by (simp_all add: proposed_def)

definition own_entry :: "goint \<Rightarrow> Request \<Rightarrow> 'a pigpaxos_scheme \<Rightarrow> entry" where
  "own_entry now r p = \<lparr>e_ballot = ballot p, e_command = rCommand r, e_commit = False,
     e_request = Some r, e_quorum = Some (ACK (pid p) NewQuorum), e_timestamp = now\<rparr>"

lemma StartP2a_effect:
  "proposed (calls (StartP2a now r p)) = proposed (calls p) @ [(ballot p, slot p + 1, rCommand r)]"
  "logm (StartP2a now r p) = fmupd (slot p + 1) (own_entry now r p) (logm p)"
  by (simp_all add: StartP2a_def Let_def own_entry_def)

lemma fold_StartP2a:
  "proposed (calls (fold (StartP2a now) rs p)) = proposed (calls p) @
     map2 (\<lambda>s r. (ballot p, s, rCommand r)) [slot p + 1 .. slot p + int (length rs)] rs \<and>
   slot (fold (StartP2a now) rs p) = slot p + int (length rs) \<and>
   ballot (fold (StartP2a now) rs p) = ballot p \<and> active (fold (StartP2a now) rs p) = active p \<and>
   (\<forall>s. fmlookup (logm (fold (StartP2a now) rs p)) s =
      (if slot p < s \<and> s \<le> slot p + int (length rs)
       then Some (own_entry now (rs ! nat (s - slot p - 1)) p) else fmlookup (logm p) s))"
proof (induction rs arbitrary: p)
  case (Cons r rs)
  have up: "[slot p + 1 .. slot p + int (length (r # rs))] =
      (slot p + 1) # [slot p + 1 + 1 .. slot p + 1 + int (length rs)]"
    by (simp add: upto_rec1 add.assoc)
  have oe: "own_entry now r' (StartP2a now r p) = own_entry now r' p" for r'
    by (simp add: own_entry_def)
  have nth: "(r # rs) ! nat (s - slot p - 1) =
      (if s = slot p + 1 then r else rs ! nat (s - (slot p + 1) - 1))" if "slot p < s" for s
  proof (cases "s = slot p + 1")
    case False
    then have "nat (s - slot p - 1) = Suc (nat (s - (slot p + 1) - 1))"
      using that by simp
    then show ?thesis using False by simp
  qed simp
  show ?case
    unfolding up using Cons [of "StartP2a now r p"]
    by (simp add: StartP2a_effect oe nth)
qed auto


definition pending :: "'a pigpaxos_scheme \<Rightarrow> goint \<Rightarrow> bool" where
  "pending p s \<longleftrightarrow> (\<exists>e. fmlookup (logm p) s = Some e \<and> \<not> e_commit e)"

definition restamped :: "'a pigpaxos_scheme \<Rightarrow> entry \<Rightarrow> entry" where
  "restamped p e = e\<lparr>e_ballot := ballot p, e_quorum := Some (ACK (pid p) NewQuorum)\<rparr>"

lemma repropose_effect:
  "proposed (calls (repropose i p)) = proposed (calls p) @
     (if pending p i then [(ballot p, i, slot_command p i)] else [])"
  "fmlookup (logm (repropose i p)) s =
     (if s = i \<and> pending p i then map_option (restamped p) (fmlookup (logm p) s) else fmlookup (logm p) s)"
  by (auto simp: repropose_def pending_def slot_command_def restamped_def split: option.split)

lemma fold_repropose:
  "distinct xs \<Longrightarrow>
   proposed (calls (fold repropose xs p)) = proposed (calls p) @
     map (\<lambda>s. (ballot p, s, slot_command p s)) (filter (pending p) xs) \<and>
   (\<forall>s. fmlookup (logm (fold repropose xs p)) s =
     (if s \<in> set xs \<and> pending p s then map_option (restamped p) (fmlookup (logm p) s)
      else fmlookup (logm p) s)) \<and>
   slot (fold repropose xs p) = slot p \<and> ballot (fold repropose xs p) = ballot p \<and>
   pid (fold repropose xs p) = pid p \<and> requests (fold repropose xs p) = requests p \<and>
   active (fold repropose xs p) = active p"
proof (induction xs arbitrary: p)
  case (Cons i xs)
  let ?q = "repropose i p"
  have same: "pending ?q s = pending p s" "slot_command ?q s = slot_command p s" if "s \<noteq> i" for s
    using that by (simp_all add: pending_def slot_command_def repropose_effect)
  have r: "restamped ?q = restamped p"
    by (simp add: restamped_def fun_eq_iff)
  have ne: "x \<noteq> i" if "x \<in> set xs" for x
    using that Cons.prems by auto
  have "filter (pending ?q) xs = filter (pending p) xs"
    "map (\<lambda>s. (ballot p, s, slot_command ?q s)) (filter (pending p) xs) =
     map (\<lambda>s. (ballot p, s, slot_command p s)) (filter (pending p) xs)"
    using same [OF ne] by (auto cong: filter_cong)
  moreover have "pending ?q s = pending p s" if "s \<in> set xs" for s
    by (rule same(1) [OF ne [OF that]])
  ultimately show ?case
    using Cons by (auto simp: repropose_effect r)
qed simp

text \<open>A candidate that has its majority first re-proposes, in slot order and under its own ballot, every
  uncommitted command from its next slot to execute up to its highest slot, with a vote count that
  holds only itself, and then proposes the requests that clients have left with it, in order, in
  the slots after that, one each. It makes no other proposal and changes no other slot.\<close>

theorem election_proposals:
  "active (become_leader now p) \<and> ballot (become_leader now p) = ballot p \<and>
   requests (become_leader now p) = [] \<and>
   slot (become_leader now p) = slot p + int (length (requests p)) \<and>
   proposed (calls (become_leader now p)) = proposed (calls p)
     @ map (\<lambda>s. (ballot p, s, slot_command p s)) (filter (pending p) [execute p .. slot p])
     @ map2 (\<lambda>s r. (ballot p, s, rCommand r)) [slot p + 1 .. slot p + int (length (requests p))] (requests p) \<and>
   fmlookup (logm (become_leader now p)) s =
     (if slot p < s \<and> s \<le> slot p + int (length (requests p))
      then Some (own_entry now (requests p ! nat (s - slot p - 1)) p)
      else if execute p \<le> s \<and> s \<le> slot p \<and> pending p s
      then map_option (restamped p) (fmlookup (logm p) s)
      else fmlookup (logm p) s)"
proof -
  define p1 where "p1 = p\<lparr>active := True, p3PendingBallot := ballot p\<rparr>"
  define p2 where "p2 = fold repropose [execute p .. slot p] p1"
  have p1: "pending p1 = pending p" "slot_command p1 = slot_command p" "ballot p1 = ballot p"
    "restamped p1 = restamped p" "requests p1 = requests p" "calls p1 = calls p" "logm p1 = logm p"
    "slot p1 = slot p" "active p1" "pid p1 = pid p"
    by (auto simp: p1_def pending_def slot_command_def restamped_def fun_eq_iff)
  have p2: "proposed (calls p2) = proposed (calls p) @
      map (\<lambda>s. (ballot p, s, slot_command p s)) (filter (pending p) [execute p .. slot p])"
    "\<And>s. fmlookup (logm p2) s = (if execute p \<le> s \<and> s \<le> slot p \<and> pending p s
       then map_option (restamped p) (fmlookup (logm p) s) else fmlookup (logm p) s)"
    "slot p2 = slot p" "ballot p2 = ballot p" "requests p2 = requests p" "active p2" "pid p2 = pid p"
    using fold_repropose [of "[execute p .. slot p]" p1] by (simp_all add: p1 p2_def [symmetric])
  have oe: "own_entry now r p2 = own_entry now r p" for r
    by (simp add: own_entry_def p2)
  have b: "become_leader now p = (fold (StartP2a now) (requests p2) p2)\<lparr>requests := []\<rparr>"
    by (simp add: become_leader_def Let_def p1_def p2_def)
  show ?thesis
    unfolding b using fold_StartP2a [of now "requests p2" p2]
    by (simp add: p2 oe)
qed

section \<open>Promises and committed slots\<close>

lemma reported_pending:
  assumes "t \<in> fst ` set (uncommitted_log p)"
  shows "execute p \<le> t \<and> t \<le> slot p \<and> pending p t"
proof -
  have "t \<in> set (map fst (uncommitted_log p))"
    using assms by simp
  then show ?thesis
    unfolding uncommitted_log_alt map_fst_map_filter_key
    by (auto simp: promised_def pending_def split: option.splits if_splits)
qed

lemma election_by_promise:
  assumes "pid l = Ballot_ID b" "ballot l = b" "\<not> active l" "Majority c (ACK i (quorum l))"
  shows "HandleP1b c now (P1b i b scb) l = become_leader now ((update_log scb l)\<lparr>quorum := ACK i (quorum l)\<rparr>)"
  using assms by (simp add: HandleP1b_def Let_def)

text \<open>C3: A promise reports only what is not committed, and a new leader proposes from the slot after the highest one it
  knows. So when an acceptor has committed the slot \<open>s\<close>, has nothing open at or after it, and its promise makes a majority
  for a candidate whose log ends right before \<open>s\<close>, the candidate proposes the first request of its
  clients in the slot \<open>s\<close>, while the acceptor still has it committed, whatever its command is.\<close>

theorem committed_slot_is_open:
  assumes "fmlookup (logm f) s = Some e" "e_commit e" "\<And>t. execute f \<le> t \<Longrightarrow> t \<le> slot f \<Longrightarrow> pending f t \<Longrightarrow> t < s"
    and "ballot f < b" "Ballot_ID b = pid l" "ballot l = b" "\<not> active l" "slot l + 1 = s" "requests l = r # rs"
    and "Majority c (ACK (pid f) (quorum l))"
  shows "\<exists>q i log. HandleP1a net_send (P1a b) to f = Inr q \<and> last (calls q) = CSend to (M_P1b (P1b i b log)) \<and>
    s \<notin> fst ` set log \<and> fmlookup (logm q) s = Some e \<and>
    (let l' = HandleP1b c now (P1b i b log) l
     in active l' \<and> (b, s, rCommand r) \<in> set (proposed (calls l')) \<and>
        fmlookup (logm l') s = Some (own_entry now r l))"
proof -
  define f1 where "f1 = forward (f\<lparr>ballot := b, active := False\<rparr>)"
  let ?log = "uncommitted_log f1"
  let ?q = "emit (CSend to (M_P1b (P1b (pid f1) (ballot f1) ?log))) f1"
  have f1: "logm f1 = logm f" "execute f1 = execute f" "slot f1 = slot f" "pid f1 = pid f" "ballot f1 = b"
    by (simp_all add: f1_def)
  have q: "HandleP1a net_send (P1a b) to f = Inr ?q"
    using assms(4) by (simp add: HandleP1a_def Let_def net_send_def flip: f1_def)
  have below: "t < s" if "t \<in> fst ` set ?log" for t
    using reported_pending [OF that] assms(3) f1 by (simp add: pending_def)
  define u where "u = (update_log ?log l)\<lparr>quorum := ACK (pid f) (quorum l)\<rparr>"
  have "fold max ts k = k" if "\<forall>t \<in> set ts. t \<le> k" for ts and k :: goint
    using that by (induction ts) auto
  then have "fold max (map fst ?log) (slot l) = slot l"
    using below assms(8) by fastforce
  then have u: "slot u = slot l" "requests u = r # rs" "ballot u = b" "pid u = pid l"
    using assms(6,9) by (simp_all add: u_def)
  have l': "HandleP1b c now (P1b (pid f) b ?log) l = become_leader now u"
    unfolding u_def using assms(5-7,10) by (intro election_by_promise) simp_all
  have up: "[slot u + 1 .. slot u + int (length (requests u))] = s # [s + 1 .. slot u + int (length (requests u))]"
    using u(1,2) assms(8) by (simp add: upto_rec1)
  have "(b, s, rCommand r) \<in> set (proposed (calls (become_leader now u)))"
    using election_proposals [of now u s] up u by simp
  moreover have "fmlookup (logm (become_leader now u)) s = Some (own_entry now r l)"
    using election_proposals [of now u s] u assms(6,8) by (simp add: own_entry_def)
  moreover have "active (become_leader now u)"
    using election_proposals [of now u s] by blast
  moreover have "s \<notin> fst ` set ?log"
    using below by blast
  ultimately show ?thesis
    using q f1 assms(1) l' by (intro exI [of _ ?q] exI [of _ "pid f"] exI [of _ ?log]) (simp add: Let_def)
qed

theorem committed_slot_is_open_witness:
  "\<exists>q i log. HandleP1a net_send (P1a (NewBallot 1 3)) 3
       ((NewPigPaxos (members_config [1, 2, 3]) 1)\<lparr>slot := 0, execute := 1,
          logm := fmupd 0 (follower_entry 1 zero_command\<lparr>e_commit := True\<rparr>) fmempty\<rparr>) = Inr q \<and>
     last (calls q) = CSend 3 (M_P1b (P1b i (NewBallot 1 3) log)) \<and>
     (NewBallot 1 3, 0, zero_command\<lparr>cKey := 7\<rparr>) \<in> set (proposed (calls (HandleP1b (members_config [1, 2, 3]) 9 (P1b i (NewBallot 1 3) log)
       ((NewPigPaxos (members_config [1, 2, 3]) 3)\<lparr>ballot := NewBallot 1 3, quorum := ACK 3 NewQuorum,
          requests := [\<lparr>rCommand = zero_command\<lparr>cKey := 7\<rparr>, rProperties = [], rTimestamp = 0, rNodeID = 3\<rparr>]\<rparr>))))"
proof -
  let ?c = "members_config [1, 2, 3]" and ?b = "NewBallot 1 3"
  let ?e = "follower_entry 1 zero_command\<lparr>e_commit := True\<rparr>"
  let ?f = "(NewPigPaxos ?c 1)\<lparr>slot := 0, execute := 1, logm := fmupd 0 ?e fmempty\<rparr>"
  let ?r = "\<lparr>rCommand = zero_command\<lparr>cKey := 7\<rparr>, rProperties = [], rTimestamp = 0, rNodeID = 3\<rparr>"
  let ?l = "(NewPigPaxos ?c 3)\<lparr>ballot := ?b, quorum := ACK 3 NewQuorum, requests := [?r]\<rparr>"
  have "fmlookup (logm ?f) 0 = Some ?e" "e_commit ?e" "ballot ?f < ?b" "Ballot_ID ?b = pid ?l" "ballot ?l = ?b" "\<not> active ?l"
    "slot ?l + 1 = 0" "requests ?l = [?r]" "Majority ?c (ACK (pid ?f) (quorum ?l))"
    by code_simp+
  moreover have "t < 0" if "execute ?f \<le> t" "t \<le> slot ?f" for t
    using that by simp
  ultimately show ?thesis
    using committed_slot_is_open [of ?f 0 ?e ?b ?l ?r "[]" ?c 3 9] by (simp only: Let_def) fastforce
qed

section \<open>Acceptance\<close>

text \<open>What the acceptance of \<open>m\<close> makes of the entry of its slot.\<close>

definition accepted :: "P2a \<Rightarrow> entry option \<Rightarrow> entry" where
  "accepted m eo = (case eo of
      None \<Rightarrow> follower_entry (P2a_Ballot m) (P2a_Command m)
    | Some e \<Rightarrow>
        if e_commit e \<and> e_ballot e \<noteq> 0 \<or> \<not> e_commit e \<and> P2a_Ballot m \<le> e_ballot e then e
        else e\<lparr>e_ballot := P2a_Ballot m, e_command := P2a_Command m,
               e_request := (if e_commit e \<or> Command_Equal (e_command e) (P2a_Command m)
                             then e_request e else None)\<rparr>)"

lemma fmupd_same: "fmlookup m s = Some e \<Longrightarrow> fmupd s e m = m"
  by (intro fmap_ext) auto

lemma entry_update_order:
  "e\<lparr>e_command := c, e_ballot := b\<rparr> = e\<lparr>e_ballot := b, e_command := c\<rparr>"
  "e\<lparr>e_request := r, e_ballot := b, e_command := c\<rparr> = e\<lparr>e_ballot := b, e_command := c, e_request := r\<rparr>"
  "e_request e = r \<Longrightarrow> e\<lparr>e_ballot := b, e_command := c, e_request := r\<rparr> = e\<lparr>e_ballot := b, e_command := c\<rparr>"
  by (cases e; simp)+

lemma accept_P2a_effect:
  "ballot p \<le> P2a_Ballot m \<Longrightarrow>
     logm (accept_P2a m p) = fmupd (P2a_Slot m) (accepted m (fmlookup (logm p) (P2a_Slot m))) (logm p)"
  by (auto simp: accept_P2a_def accept_entry_def accepted_def fmupd_same
      entry_update_order split: option.split)

lemma accept_P2a_fields [simp]:
  "ballot (accept_P2a m p) = max (ballot p) (P2a_Ballot m)"
  "pid (accept_P2a m p) = pid p" "execute (accept_P2a m p) = execute p" "db (accept_P2a m p) = db p"
  "active (accept_P2a m p) = (active p \<and> P2a_Ballot m < ballot p)"
  "slot (accept_P2a m p) = (if ballot p \<le> P2a_Ballot m then max (slot p) (P2a_Slot m) else slot p)"
  by (auto simp: accept_P2a_def accept_entry_def max_def split: option.split)

text \<open>A \<open>P2a\<close> is accepted exactly when its ballot is not below the replica's. Then the replica is an
  acceptor of that ballot and its slot holds the proposed command, except that a slot committed
  with a command and a slot that already has this or a higher ballot are kept; a
  slot known only as committed gets its command. A rejected \<open>P2a\<close> changes nothing. Either way the
  replica answers with its own ballot and identifier.\<close>

theorem acceptance:
  "\<exists>q. HandleP2a c net_send (P2a b s g cmd (P3 b3 [])) to p = Inr q \<and>
     ballot q = max (ballot p) b \<and> active q = (b < ballot p \<and> active p) \<and>
     logm q = (if b < ballot p then logm p
       else fmupd s (accepted (P2a b s g cmd (P3 b3 [])) (fmlookup (logm p) s)) (logm p)) \<and>
     slot q = (if b < ballot p then slot p else max (slot p) s) \<and>
     execute q = execute p \<and> db q = db p \<and>
     last (calls q) = CSend to (M_P2b (P2b [pid p] (ballot q) s))"
proof -
  let ?m = "P2a b s g cmd (P3 b3 [])"
  have "logm (accept_P2a ?m p) = logm p" if "b < ballot p"
    using that leD by (auto simp: accept_P2a_def)
  then have "logm (accept_P2a ?m p) = (if b < ballot p then logm p
       else fmupd s (accepted ?m (fmlookup (logm p) s)) (logm p))"
    using accept_P2a_effect [of p ?m] by simp
  then show ?thesis
    by (auto simp: HandleP2a_def Let_def net_send_def)
qed


section \<open>Announcement of commits\<close>

text \<open>What a \<open>P3\<close> for ballot \<open>b\<close> makes of the entry of an announced slot.\<close>

definition announced :: "Ballot \<Rightarrow> entry option \<Rightarrow> entry" where
  "announced b eo = (case eo of
      None \<Rightarrow> placeholder
    | Some e \<Rightarrow> if e_ballot e = b then e\<lparr>e_commit := True\<rparr> else e\<lparr>e_request := None\<rparr>)"

lemma p3_slot_log:
  "logm (p3_slot c b s p) = fmupd s (announced b (fmlookup (logm p) s)) (logm p)"
proof -
  have same: "e\<lparr>e_request := None\<rparr> = e" if "e_request e = None" for e :: entry
    using that by (cases e) simp
  show ?thesis
    unfolding p3_slot_def Let_def announced_def
    by (auto simp: fmupd_same same split: option.split)
qed

lemma p3_slot_fields [simp]:
  "slot (p3_slot c b s p) = max (slot p) s" "execute (p3_slot c b s p) = execute p"
  "ballot (p3_slot c b s p) = ballot p" "pid (p3_slot c b s p) = pid p" "db (p3_slot c b s p) = db p"
  unfolding p3_slot_def Let_def by (auto split: option.split)

lemma announced_idem: "announced b (Some (announced b eo)) = announced b eo"
  by (auto simp: announced_def placeholder_def split: option.split)

lemma fold_p3_slot:
  "fmlookup (logm (fold (p3_slot c b) ss p)) s =
     (if s \<in> set ss then Some (announced b (fmlookup (logm p) s)) else fmlookup (logm p) s) \<and>
   slot (fold (p3_slot c b) ss p) = Max (insert (slot p) (set ss)) \<and>
   execute (fold (p3_slot c b) ss p) = execute p \<and> ballot (fold (p3_slot c b) ss p) = ballot p \<and>
   db (fold (p3_slot c b) ss p) = db p"
proof (induction ss arbitrary: p)
  case (Cons t ss)
  have "Max (insert (max (slot p) t) (set ss)) = Max (insert (slot p) (insert t (set ss)))"
    by (cases "ss = []") (auto simp: max.assoc)
  then show ?case
    using Cons [of "p3_slot c b t p"] by (auto simp: p3_slot_log announced_idem)
qed simp

text \<open>An announcement \<open>P3 b ss\<close> commits every listed slot whose entry has ballot \<open>b\<close>, marks a slot without
  an entry as committed but unknown, and commits no other entry: one with another ballot only
  loses its pending request. Repeating a slot or the whole announcement in the list changes
  nothing. Then the execute loop runs on the result.\<close>

theorem announcement_commits_matching:
  "\<exists>p1. HandleP3 c (P3 b ss) p = exec p1 \<and>
     fmlookup (logm p1) s =
       (if s \<in> set ss then Some (announced b (fmlookup (logm p) s)) else fmlookup (logm p) s) \<and>
     slot p1 = Max (insert (slot p) (set ss)) \<and> execute p1 = execute p \<and> ballot p1 = ballot p \<and>
     db p1 = db p \<and>
     fmlookup (logm (fold (p3_slot c b) (ss @ ss) p)) s = fmlookup (logm p1) s"
  using fold_p3_slot [of c b ss p s] fold_p3_slot [of c b "ss @ ss" p s]
  by (intro exI [of _ "fold (p3_slot c b) ss p"]) (simp add: HandleP3_def)

section \<open>Recovery\<close>

text \<open>The owner of a committed slot answers a recovery request with the command and the ballot of its
  entry, and an answer makes the receiver commit exactly that. Between two replicas this restores
  a slot known only as committed: whatever the receiver's placeholder was, after the exchange its
  entry has the sender's command and ballot.\<close>

theorem recovery_restores_the_slot:
  assumes "fmlookup (logm p) s = Some e" "e_commit e" "fmlookup (logm q) s = Some e'"
  shows "CSend i (M_P3RecoverReply (P3RecoverReply (e_ballot e) s (e_command e)))
       \<in> set (calls (HandleP3RecoverRequest (P3RecoverRequest b s i) p)) \<and>
    (\<exists>e2. fmlookup (logm (HandleP3RecoverReply (P3RecoverReply (e_ballot e) s (e_command e)) q)) s = Some e2 \<and>
       e_command e2 = e_command e \<and> e_ballot e2 = e_ballot e \<and> e_commit e2)"
proof -
  have "calls (exec p) = calls p @ drop (length (calls p)) (calls (exec p))" for p :: "'a pigpaxos_scheme"
    using exec_effect [of p] by (metis append_eq_conv_conj)
  then have "set (calls p) \<subseteq> set (calls (exec p))" for p :: "'a pigpaxos_scheme"
    by (metis set_append sup_ge1)
  then show ?thesis
    using assms by (fastforce simp: HandleP3RecoverRequest_def HandleP3RecoverReply_def Let_def exec_request_only)
qed

theorem recovery_restores_the_slot_witness:
  "\<exists>e2. fmlookup (logm (HandleP3RecoverReply (P3RecoverReply (NewBallot 1 1) 0 zero_command)
      (set_entry 0 placeholder (NewPigPaxos default_config 2)))) 0 = Some e2 \<and> e_ballot e2 = NewBallot 1 1"
  using recovery_restores_the_slot [of "set_entry 0 ((follower_entry (NewBallot 1 1) zero_command)\<lparr>e_commit := True\<rparr>)
      (NewPigPaxos default_config 1)" 0 _ "set_entry 0 placeholder (NewPigPaxos default_config 2)" placeholder 2 0]
  by (auto simp: follower_entry_def)

end
