(* ===== verification/PigReplica.thy ===== *)
theory PigReplica
  imports PigHandlers
begin

text \<open>
  The replica of \<open>pigpaxos/replica.go\<close>: peer groups, relays, aggregation of the answers, the self loop of
  \<open>Send\<close>, and the timer. The struct extends the one of \<open>PigPaxos\<close>, as the Go struct embeds it. The
  command-line flags, the configuration, the source of random numbers and the nodes that can be
  dialled are the environment. A handler runs on the replica with its \<open>Send\<close> as an argument; what
  it leaves in \<open>calls\<close> is then carried out on the network (\<open>transmit\<close>), which fills \<open>outbox\<close>.
\<close>

section \<open>State\<close>

record env =
  conf :: config
  stableLeader :: bool
  pg :: goint
  regionPeerGroups :: bool
  useSmallP2b :: bool
  stdPigTimeout :: goint
  rgSlack :: goint
  fixedrelay :: bool
  rnd :: "nat \<Rightarrow> nat"
  reachable :: "ID \<Rightarrow> bool"

record replica = pigpaxos +
  relayGroups :: "ID list option list"
  fixedRelays :: "ID list"
  myRelayGroup :: goint
  NodeIdsToGroup :: "(ID, goint) fmap"
  numRelayGroups :: goint
  maxDepth :: nat
  relaySlack :: goint
  cleanupMultiplier :: goint
  GrayNodes :: "(ID \<times> goint) list"
  p1bRelayRoutedMsg :: "P1b list RoutedMsg option"
  pendingP1bRelay :: goint
  p1bRelayDepth :: nat
  p2bRelaysMapByBalSlot :: "(goint \<times> P2b RoutedMsg) list"
  p2bRelaysTimeMapByBalSlot :: "(goint, goint) fmap"
  draws :: nat
  outbox :: "(ID \<times> msg) list"

definition GrayTimeoutMultiplier :: goint where
  "GrayTimeoutMultiplier = 1000"

definition TickerDuration :: goint where
  "TickerDuration = 10"

section \<open>Peer groups\<close>

text \<open>The loop of \<open>GetRandomNodeId\<close>: \<open>draw\<close> is the sequence of random numbers, \<open>k\<close> the next one to use.
  The loop ends only when it draws an eligible node, so the function is partial.\<close>

partial_function (option) pick_node ::
  "ID list \<Rightarrow> ID \<Rightarrow> ID list \<Rightarrow> (nat \<Rightarrow> nat) \<Rightarrow> nat \<Rightarrow> (ID \<times> nat) option" where
  "pick_node nodes excludeId gray draw k =
     (let randId = nodes ! (draw k mod length nodes)
      in if randId = excludeId \<or> randId \<in> set gray
         then pick_node nodes excludeId gray draw (k + 1)
         else Some (randId, k + 1))"

declare pick_node.simps [code]

definition GetRandomNodeId ::
  "ID list \<Rightarrow> ID \<Rightarrow> ID list \<Rightarrow> (nat \<Rightarrow> nat) \<Rightarrow> nat \<Rightarrow> (ID \<times> nat) go" where
  "GetRandomNodeId nodes excludeId gray draw k =
     (if nodes = [] then Inl InvalidArgument
      else case pick_node nodes excludeId gray draw k of None \<Rightarrow> Inl Hang | Some x \<Rightarrow> Inr x)"

text \<open>The accumulator of the loop of \<open>peersToGroups\<close>: the groups, \<open>pgNum\<close>, \<open>nodesAddToPg\<close> and \<open>myRelayGroup\<close>.\<close>

type_synonym grouping = "ID list option list \<times> nat \<times> goint \<times> goint"

definition add_to_group :: "ID \<Rightarrow> goint \<Rightarrow> goint \<Rightarrow> ID \<Rightarrow> grouping \<Rightarrow> grouping" where
  "add_to_group self numGroups nodesPerGroup i =
     (\<lambda>(groups, pgNum, added, my).
        let my1 = (if i = self then int pgNum else my);
            g = (case groups ! pgNum of None \<Rightarrow> [] | Some ns \<Rightarrow> ns) @ [i];
            groups1 = groups[pgNum := Some g];
            added1 = added + 1
        in if added1 \<ge> nodesPerGroup \<and> int pgNum + 1 < numGroups
           then (groups1, pgNum + 1, 0, my1) else (groups1, pgNum, added1, my1))"

definition peersToGroups :: "ID \<Rightarrow> goint \<Rightarrow> ID list \<Rightarrow> goint \<Rightarrow> (ID list option list \<times> goint) go" where
  "peersToGroups self numGroups nodeList my =
     (if numGroups < 0 then Inl InvalidArgument
      else if numGroups = 0 then Inl DivByZero
      else let nodesPerGroup = int (length nodeList) sdiv numGroups;
               (groups, _, _, my1) = fold (add_to_group self numGroups nodesPerGroup) nodeList
                 (replicate (nat numGroups) None, 0, 0, my)
           in Inr (groups, my1))"

definition region_group :: "ID \<Rightarrow> ID list option list \<Rightarrow> ID list option list go" where
  "region_group i groups =
     (let pgNum = Zone i - 1
      in go_bind (slice_at groups pgNum) (\<lambda>g.
           Inr (groups[nat pgNum := Some ((case g of None \<Rightarrow> [] | Some ns \<Rightarrow> ns) @ [i])])))"

text \<open>The order of \<open>sort.Slice\<close> in \<open>NewReplica\<close>.\<close>

definition knownIDs_less :: "ID \<Rightarrow> ID \<Rightarrow> bool" where
  "knownIDs_less i j \<longleftrightarrow> Zone i < Zone j \<or> (Zone i = Zone j \<and> Node i < Node j)"

fun insert_less :: "('a \<Rightarrow> 'a \<Rightarrow> bool) \<Rightarrow> 'a \<Rightarrow> 'a list \<Rightarrow> 'a list" where
  "insert_less lt x [] = [x]"
| "insert_less lt x (y # ys) = (if lt x y then x # y # ys else y # insert_less lt x ys)"

definition sort_less :: "('a \<Rightarrow> 'a \<Rightarrow> bool) \<Rightarrow> 'a list \<Rightarrow> 'a list" where
  "sort_less lt xs = foldr (insert_less lt) xs []"

definition register_group :: "env \<Rightarrow> goint \<Rightarrow> 'a replica_scheme \<Rightarrow> 'a replica_scheme go" where
  "register_group E i r =
     go_bind (go_bind (slice_at (relayGroups r) i) deref) (\<lambda>nodes.
       let r1 = r\<lparr>NodeIdsToGroup := fold (\<lambda>j. fmupd j i) nodes (NodeIdsToGroup r)\<rparr>
       in if fixedrelay E then
            go_bind (GetRandomNodeId nodes (pid r1) (map fst (GrayNodes r1)) (rnd E) (draws r1))
              (\<lambda>(j, k). Inr (r1\<lparr>fixedRelays := (fixedRelays r1)[nat i := j], draws := k\<rparr>))
          else Inr r1)"

text \<open>\<open>addrs\<close> are the keys of the map of addresses, in its iteration order.\<close>

definition NewReplica :: "env \<Rightarrow> ID \<Rightarrow> ID list \<Rightarrow> replica go" where
  "NewReplica E self addrs =
     (let r = pigpaxos.extend (NewPigPaxos (conf E) self)
                \<lparr>relayGroups = [], fixedRelays = [], myRelayGroup = 0, NodeIdsToGroup = fmempty,
                 numRelayGroups = 0, maxDepth = 2, relaySlack = rgSlack E, cleanupMultiplier = 3,
                 GrayNodes = [], p1bRelayRoutedMsg = None, pendingP1bRelay = 0, p1bRelayDepth = 0,
                 p2bRelaysMapByBalSlot = [], p2bRelaysTimeMapByBalSlot = fmempty, draws = 0,
                 outbox = []\<rparr>;
          knownIDs = sort_less knownIDs_less addrs
      in go_bind
           (if \<not> regionPeerGroups E then
              go_bind (peersToGroups self (pg E) knownIDs 0)
                (\<lambda>(groups, my). Inr (r\<lparr>numRelayGroups := pg E, relayGroups := groups, myRelayGroup := my\<rparr>))
            else
              go_bind (go_fold region_group knownIDs (replicate (nat (cfg_z (conf E))) None))
                (\<lambda>groups. Inr (r\<lparr>numRelayGroups := cfg_z (conf E), relayGroups := groups,
                   myRelayGroup := Zone self - 1\<rparr>)))
           (\<lambda>r1. go_fold (register_group E) [0 .. int (length (relayGroups r1)) - 1]
              (r1\<lparr>fixedRelays := replicate (nat (numRelayGroups r1)) 0\<rparr>)))"

definition my_group :: "'a replica_scheme \<Rightarrow> ID list go" where
  "my_group r = go_bind (slice_at (relayGroups r) (myRelayGroup r)) deref"

text \<open>A read of a missing key of \<open>NodeIdsToGroup\<close> gives group 0.\<close>

definition group_of :: "'a replica_scheme \<Rightarrow> ID \<Rightarrow> goint" where
  "group_of r i = (case fmlookup (NodeIdsToGroup r) i of None \<Rightarrow> 0 | Some g \<Rightarrow> g)"

section \<open>The network\<close>

text \<open>\<open>Replica.Send\<close> to another node: a dial error puts the node on the gray list.\<close>

definition Node_Send :: "env \<Rightarrow> goint \<Rightarrow> ID \<Rightarrow> msg \<Rightarrow> 'a replica_scheme \<Rightarrow> 'a replica_scheme" where
  "Node_Send E now to m r =
     (if reachable E to then r\<lparr>outbox := outbox r @ [(to, m)]\<rparr>
      else r\<lparr>GrayNodes := AList.update to now (GrayNodes r)\<rparr>)"

definition choose_relay :: "env \<Rightarrow> goint \<Rightarrow> 'a replica_scheme \<Rightarrow> (ID \<times> nat) go" where
  "choose_relay E i r =
     (if fixedrelay E then go_bind (slice_at (fixedRelays r) i) (\<lambda>j. Inr (j, draws r))
      else go_bind (go_bind (slice_at (relayGroups r) i) deref)
             (\<lambda>nodes. GetRandomNodeId nodes (pid r) (map fst (GrayNodes r)) (rnd E) (draws r)))"

text \<open>One iteration of the loop of \<open>Broadcast\<close>. A broadcast is made with the log locked, so a relay that
  is the replica itself would not return.\<close>

definition Broadcast_to :: "env \<Rightarrow> goint \<Rightarrow> msg \<Rightarrow> goint \<Rightarrow> 'a replica_scheme \<Rightarrow> 'a replica_scheme go" where
  "Broadcast_to E now m i r =
     go_bind (choose_relay E i r) (\<lambda>(relayId, k).
       if relayId = pid r then Inl Hang
       else Inr (Node_Send E now relayId (M_Routed (RoutedMsg [pid r] True 0 m)) (r\<lparr>draws := k\<rparr>)))"

definition Broadcast :: "env \<Rightarrow> goint \<Rightarrow> msg \<Rightarrow> 'a replica_scheme \<Rightarrow> 'a replica_scheme go" where
  "Broadcast E now m r = go_fold (Broadcast_to E now m) [0 .. numRelayGroups r - 1] r"


section \<open>Sending, and the handlers over a \<open>Send\<close>\<close>

text \<open>\<open>Replica.Send\<close>: a message to the replica itself is handled at once by \<open>H\<close>. The flag says that the
  code passes a pointer, for which no handler is registered; on the wire it makes no difference.\<close>

type_synonym 'a sender = "bool \<Rightarrow> ID \<Rightarrow> msg \<Rightarrow> 'a replica_scheme \<Rightarrow> 'a replica_scheme go"

definition loop_Send :: "(msg \<Rightarrow> 'a replica_scheme \<Rightarrow> 'a replica_scheme go) \<Rightarrow> 'a sender" where
  "loop_Send H ptr to m r =
     (if to = pid r then (if ptr then Inl NoHandler else H m r) else Inr (emit (CSend to m) r))"

text \<open>\<open>go r.Send(id, m)\<close> for the members of the group that are neither the replica, the source nor gray.\<close>

definition BroadcastToPeerGroup ::
  "ID list \<Rightarrow> ID \<Rightarrow> msg RoutedMsg \<Rightarrow> 'a replica_scheme \<Rightarrow> 'a replica_scheme" where
  "BroadcastToPeerGroup nodes originalSourceToExclude m r =
     fold (\<lambda>i r. if i \<noteq> pid r \<and> i \<noteq> originalSourceToExclude \<and> i \<notin> fst ` set (GrayNodes r)
                then emit (CSend i (M_Routed m)) r else r) nodes r"

definition readyToRelayP1b :: "Ballot \<Rightarrow> P1b list \<Rightarrow> 'a replica_scheme \<Rightarrow> bool go" where
  "readyToRelayP1b b p1bs r =
     go_bind (my_group r) (\<lambda>nodes.
       Inr (length p1bs = length nodes \<or>
            (int (length p1bs) = int (length nodes) - 1 \<and> Ballot_ID b \<in> set nodes)))"

definition handleP1bRelay :: "'a sender \<Rightarrow> P1b \<Rightarrow> 'a replica_scheme \<Rightarrow> 'a replica_scheme go" where
  "handleP1bRelay send m r =
     go_bind (deref (p1bRelayRoutedMsg r)) (\<lambda>rm.
       let p1bs = Payload rm @ [m];
           rm1 = RoutedMsg (Hops rm) (IsForward rm) (Progress rm) p1bs;
           r1 = r\<lparr>p1bRelayRoutedMsg := Some rm1\<rparr>
       in go_bind (readyToRelayP1b (P1b_Ballot m) p1bs r1) (\<lambda>ready.
            if ready then
              go_bind (GetLastProgressHop rm1) (\<lambda>hop.
                go_bind
                  (if Progress rm1 = 0 then send False hop (M_P1bs p1bs) r1
                   else send True hop (M_Routed (RoutedMsg (Hops rm1) (IsForward rm1) (Progress rm1) (M_P1bs p1bs))) r1)
                  (\<lambda>r2. Inr (r2\<lparr>pendingP1bRelay := 0, p1bRelayDepth := 0, p1bRelayRoutedMsg := None\<rparr>)))
            else Inr r1))"

definition handleP1b :: "env \<Rightarrow> goint \<Rightarrow> 'a sender \<Rightarrow> P1b \<Rightarrow> 'a replica_scheme \<Rightarrow> 'a replica_scheme go" where
  "handleP1b E now send m r =
     (if pendingP1bRelay r > 0 \<and> p1bRelayRoutedMsg r \<noteq> None then handleP1bRelay send m r
      else Inr (HandleP1b (conf E) now m r))"

definition handleP1bLeader :: "env \<Rightarrow> goint \<Rightarrow> P1b list \<Rightarrow> 'a replica_scheme \<Rightarrow> 'a replica_scheme" where
  "handleP1bLeader E now p1bs r = fold (HandleP1b (conf E) now) p1bs r"

definition handleP1aRelay ::
  "goint \<Rightarrow> 'a sender \<Rightarrow> P1a \<Rightarrow> msg RoutedMsg \<Rightarrow> 'a replica_scheme \<Rightarrow> (bool \<times> 'a replica_scheme) go" where
  "handleP1aRelay now send m routedMsg r =
     (let oldBallot = ballot r;
          next = (Progress routedMsg + 1) mod 256
      in go_bind
           (if oldBallot < P1a_Ballot m \<and> next < maxDepth r then
              go_bind (if pendingP1bRelay r > 0 then send False (Ballot_ID oldBallot) (M_P1a m) r else Inr r)
                (\<lambda>r1. Inr (True, r1\<lparr>pendingP1bRelay := now,
                   p1bRelayRoutedMsg := Some (RoutedMsg (Hops routedMsg) False (Progress routedMsg) [])\<rparr>))
            else Inr (False, r))
           (\<lambda>(needToPropagate, r1).
              go_bind
                (if next = maxDepth r1
                 then go_bind (GetLastProgressHop routedMsg) (\<lambda>hop. HandleP1a (send False) m hop r1)
                 else HandleP1a (send False) m (pid r1) r1)
                (\<lambda>r2. Inr (needToPropagate, r2))))"

definition newP2bRelay :: "goint \<Rightarrow> P2a \<Rightarrow> msg RoutedMsg \<Rightarrow> 'a replica_scheme \<Rightarrow> 'a replica_scheme" where
  "newP2bRelay now m routedMsg r =
     r\<lparr>p2bRelaysMapByBalSlot := AList.update (P2a_Slot m)
          (RoutedMsg (Hops routedMsg) False (Progress routedMsg) (P2b [] (P2a_Ballot m) (P2a_Slot m)))
          (p2bRelaysMapByBalSlot r),
       p2bRelaysTimeMapByBalSlot := fmupd (P2a_Slot m) now (p2bRelaysTimeMapByBalSlot r)\<rparr>"

definition handleP2aRelay ::
  "env \<Rightarrow> goint \<Rightarrow> 'a sender \<Rightarrow> P2a \<Rightarrow> msg RoutedMsg \<Rightarrow> 'a replica_scheme \<Rightarrow> 'a replica_scheme go" where
  "handleP2aRelay E now send m routedMsg r =
     (if (Progress routedMsg + 1) mod 256 = maxDepth r then
        go_bind (GetLastProgressHop routedMsg) (\<lambda>hop. HandleP2a (conf E) (send False) m hop r)
      else
        go_bind
          (case map_of (p2bRelaysMapByBalSlot r) (P2a_Slot m) of
             None \<Rightarrow> Inr (newP2bRelay now m routedMsg r)
           | Some rm \<Rightarrow>
               let b = P2b_Ballot (Payload rm) in
               if b < P2a_Ballot m then
                 go_bind (send True (Ballot_ID b) (M_P2b (P2b [] (P2a_Ballot m) (P2a_Slot m))) r)
                   (\<lambda>r1. Inr (newP2bRelay now m routedMsg r1))
               else if b > P2a_Ballot m then
                 send True (Ballot_ID b) (M_P2b (P2b [] b (P2a_Slot m))) r
               else Inr r)
          (\<lambda>r1. HandleP2a (conf E) (send False) m (pid r1) r1))"

definition readyToRelayP2b :: "goint \<Rightarrow> 'a replica_scheme \<Rightarrow> bool go" where
  "readyToRelayP2b m r =
     (case map_of (p2bRelaysMapByBalSlot r) m of
        None \<Rightarrow> Inr False
      | Some rm \<Rightarrow>
          go_bind (my_group r) (\<lambda>nodes.
            let n = int (length (P2b_ID (Payload rm))); k = int (length nodes)
            in Inr (n = k - relaySlack r \<or>
                    (n = k - 1 - relaySlack r \<and>
                     group_of r (Ballot_ID (P2b_Ballot (Payload rm))) = myRelayGroup r))))"

definition computeMissingIDsForP2b :: "P2b \<Rightarrow> 'a replica_scheme \<Rightarrow> ID list go" where
  "computeMissingIDsForP2b p2b r =
     go_bind (my_group r) (\<lambda>nodes. Inr (fold swap_remove (P2b_ID p2b) nodes))"

definition drop_relay :: "goint \<Rightarrow> 'a replica_scheme \<Rightarrow> 'a replica_scheme" where
  "drop_relay s r =
     r\<lparr>p2bRelaysMapByBalSlot := AList.delete s (p2bRelaysMapByBalSlot r),
       p2bRelaysTimeMapByBalSlot := fmdrop s (p2bRelaysTimeMapByBalSlot r)\<rparr>"

text \<open>How a relay passes on the votes it has collected.\<close>

definition relay_votes :: "env \<Rightarrow> 'a sender \<Rightarrow> ID list \<Rightarrow> P2b RoutedMsg \<Rightarrow> 'a replica_scheme \<Rightarrow> 'a replica_scheme go" where
  "relay_votes E send missingIds rm r =
     go_bind (GetLastProgressHop rm) (\<lambda>hop.
       let p2b = Payload rm in
       if Progress rm = 0 then
         if useSmallP2b E
         then send False hop (M_P2bAggregated (P2bAggregated missingIds (pid r) (execute r - 1)
                (P2b_Ballot p2b) (P2b_Slot p2b))) r
         else send False hop (M_P2b p2b) r
       else send True hop (M_Routed (RoutedMsg (Hops rm) (IsForward rm) (Progress rm) (M_P2b p2b))) r)"

definition handleP2bRelay :: "env \<Rightarrow> 'a sender \<Rightarrow> P2b \<Rightarrow> 'a replica_scheme \<Rightarrow> 'a replica_scheme go" where
  "handleP2bRelay E send m r =
     (case map_of (p2bRelaysMapByBalSlot r) (P2b_Slot m) of
        None \<Rightarrow> Inr r
      | Some rm \<Rightarrow>
          let p2b = Payload rm in
          if P2b_Ballot p2b = P2b_Ballot m then
            let p2b1 = P2b (P2b_ID p2b @ P2b_ID m) (P2b_Ballot p2b) (P2b_Slot p2b);
                rm1 = RoutedMsg (Hops rm) (IsForward rm) (Progress rm) p2b1;
                r1 = r\<lparr>p2bRelaysMapByBalSlot := AList.update (P2b_Slot m) rm1 (p2bRelaysMapByBalSlot r)\<rparr>
            in go_bind (readyToRelayP2b (P2b_Slot m) r1) (\<lambda>ready.
                 if ready then
                   go_bind (if relaySlack r1 > 0 then computeMissingIDsForP2b p2b1 r1 else Inr [])
                     (\<lambda>missingIds. go_bind (relay_votes E send missingIds rm1 r1)
                        (\<lambda>r2. Inr (drop_relay (P2b_Slot m) r2)))
                 else Inr r1)
          else send True (Ballot_ID (P2b_Ballot p2b)) (M_P2b (P2b [] (P2b_Ballot m) (P2b_Slot m))) r)"

definition handleP2b :: "env \<Rightarrow> goint \<Rightarrow> 'a sender \<Rightarrow> P2b \<Rightarrow> 'a replica_scheme \<Rightarrow> 'a replica_scheme go" where
  "handleP2b E now send m r =
     (if IsLeader r then HandleP2b (conf E) now (P2b_Slot m) (P2b_Ballot m) (P2b_ID m) r
      else handleP2bRelay E send m r)"

text \<open>The voters that a leader reads out of an aggregated vote.\<close>

definition aggregated_ids :: "P2bAggregated \<Rightarrow> ID list \<Rightarrow> ID list" where
  "aggregated_ids m nodes = (if MissingIDs m \<noteq> [] then fold swap_remove (MissingIDs m) nodes else nodes)"

definition handleP2bAggregated :: "env \<Rightarrow> goint \<Rightarrow> P2bAggregated \<Rightarrow> 'a replica_scheme \<Rightarrow> 'a replica_scheme go" where
  "handleP2bAggregated E now m r =
     (if IsLeader r then
        let r1 = UpdateLastExecuteByNode (RelayID m) (RelayLastExecute m) r
        in go_bind (go_bind (slice_at (relayGroups r1) (group_of r1 (RelayID m))) deref) (\<lambda>nodes.
             HandleP2b (conf E) now (P2bA_Slot m) (P2bA_Ballot m) (aggregated_ids m nodes) r1)
      else Inr r)"

definition handleRequest :: "env \<Rightarrow> goint \<Rightarrow> Request \<Rightarrow> 'a replica_scheme \<Rightarrow> 'a replica_scheme" where
  "handleRequest E now m r =
     (if \<not> stableLeader E \<or> IsLeader r \<or> ballot r = 0 then HandleRequest now m r
      else emit (CForward (Leader r) m) r)"

definition propagate :: "msg RoutedMsg \<Rightarrow> bool \<Rightarrow> 'a replica_scheme \<Rightarrow> 'a replica_scheme go" where
  "propagate m needToPropagate r =
     (let next = (Progress m + 1) mod 256 in
      if next < maxDepth r \<and> needToPropagate then
        go_bind (my_group r) (\<lambda>nodes.
          let m1 = RoutedMsg (Hops m @ [pid r]) (IsForward m) next (Payload m)
          in go_bind (GetPreviousProgressHop m1) (\<lambda>hop. Inr (BroadcastToPeerGroup nodes hop m1 r)))
      else Inr r)"

definition handleRoutedMsg :: "env \<Rightarrow> goint \<Rightarrow> 'a sender \<Rightarrow> msg RoutedMsg \<Rightarrow> 'a replica_scheme \<Rightarrow> 'a replica_scheme go" where
  "handleRoutedMsg E now send m r =
     (if IsForward m then
        (case Payload m of
           M_P1a p1a \<Rightarrow>
             go_bind (handleP1aRelay now send p1a m r) (\<lambda>(need, r1).
               propagate m need (if need then r1\<lparr>p1bRelayDepth := Progress m\<rparr> else r1))
         | M_P2a p2a \<Rightarrow> go_bind (handleP2aRelay E now send p2a m r) (propagate m True)
         | M_P3 p3 \<Rightarrow> propagate m True (HandleP3 (conf E) p3 r)
         | _ \<Rightarrow> Inr r)
      else
        (case Payload m of
           M_P1b p1b \<Rightarrow> handleP1bRelay send p1b r
         | M_P2b p2b \<Rightarrow> handleP2bRelay E send p2b r
         | _ \<Rightarrow> Inr r))"


section \<open>Dispatch\<close>

text \<open>The handlers that \<open>NewReplica\<close> registers; a message type without a handler ends the process. A \<open>P1a\<close>
  and a \<open>P2a\<close> have one only inside a \<open>RoutedMsg\<close>.\<close>

definition dispatch :: "env \<Rightarrow> goint \<Rightarrow> 'a sender \<Rightarrow> msg \<Rightarrow> 'a replica_scheme \<Rightarrow> 'a replica_scheme go" where
  "dispatch E now send m r =
     (case m of
        M_Request q \<Rightarrow> Inr (handleRequest E now q r)
      | M_P1b p1b \<Rightarrow> handleP1b E now send p1b r
      | M_P1bs p1bs \<Rightarrow> Inr (handleP1bLeader E now p1bs r)
      | M_P2b p2b \<Rightarrow> handleP2b E now send p2b r
      | M_P2bAggregated a \<Rightarrow> handleP2bAggregated E now a r
      | M_P3 p3 \<Rightarrow> Inr (HandleP3 (conf E) p3 r)
      | M_P3RecoverRequest q \<Rightarrow> Inr (HandleP3RecoverRequest q r)
      | M_P3RecoverReply q \<Rightarrow> Inr (HandleP3RecoverReply q r)
      | M_Routed rm \<Rightarrow> handleRoutedMsg E now send rm r
      | M_P1a _ \<Rightarrow> Inl NoHandler
      | M_P2a _ \<Rightarrow> Inl NoHandler)"

text \<open>\<open>node.HandleMsg\<close>; the fuel bounds the nesting of messages that the replica sends to itself.\<close>

primrec HandleMsg :: "env \<Rightarrow> goint \<Rightarrow> nat \<Rightarrow> msg \<Rightarrow> 'a replica_scheme \<Rightarrow> 'a replica_scheme go" where
  "HandleMsg E now 0 m r = Inl StackOverflow"
| "HandleMsg E now (Suc k) m r = dispatch E now (loop_Send (HandleMsg E now k)) m r"

text \<open>Carrying out a call of the core on the network. The core addresses a message to its own replica only
  when it asks to recover a slot, which happens with the log locked: the handler of the request
  waits for that lock. \<open>Forward\<close> goes to the socket and stamps the request with this node.\<close>

definition transmit_call :: "env \<Rightarrow> goint \<Rightarrow> call \<Rightarrow> 'a replica_scheme \<Rightarrow> 'a replica_scheme go" where
  "transmit_call E now x r =
     (case x of
        CBroadcast m \<Rightarrow> Broadcast E now m r
      | CSend to m \<Rightarrow> if to = pid r then Inl Hang else Inr (Node_Send E now to m r)
      | CForward to q \<Rightarrow>
          Inr (if reachable E to then r\<lparr>outbox := outbox r @ [(to, M_Request (q\<lparr>rNodeID := pid r\<rparr>))]\<rparr> else r)
      | CReply q y \<Rightarrow> Inr r
      | CRetro s \<Rightarrow> Inr r)"

definition transmit :: "env \<Rightarrow> goint \<Rightarrow> nat \<Rightarrow> 'a replica_scheme \<Rightarrow> 'a replica_scheme go" where
  "transmit E now n r = go_fold (transmit_call E now) (drop n (calls r)) r"

definition deliver :: "env \<Rightarrow> goint \<Rightarrow> nat \<Rightarrow> msg \<Rightarrow> 'a replica_scheme \<Rightarrow> 'a replica_scheme go" where
  "deliver E now k m r = go_bind (HandleMsg E now k m r) (transmit E now (length (calls r)))"

section \<open>The timer\<close>

definition expire_p1b :: "goint \<Rightarrow> 'a sender \<Rightarrow> 'a replica_scheme \<Rightarrow> 'a replica_scheme go" where
  "expire_p1b cutoff send r =
     (case p1bRelayRoutedMsg r of
        None \<Rightarrow> Inr r
      | Some rm \<Rightarrow>
          if pendingP1bRelay r > 0 \<and> pendingP1bRelay r < cutoff \<and> Payload rm \<noteq> [] then
            go_bind (GetLastProgressHop rm) (\<lambda>hop.
              go_bind
                (if Progress rm = 0 then send False hop (M_P1bs (Payload rm)) r
                 else send True hop (M_Routed (RoutedMsg (Hops rm) (IsForward rm) (Progress rm) (M_P1bs (Payload rm)))) r)
                (\<lambda>r1. Inr (r1\<lparr>p1bRelayRoutedMsg := None, pendingP1bRelay := 0\<rparr>)))
          else Inr r)"

definition expire_p2b :: "env \<Rightarrow> goint \<Rightarrow> 'a sender \<Rightarrow> goint \<times> P2b RoutedMsg \<Rightarrow> 'a replica_scheme \<Rightarrow> 'a replica_scheme go" where
  "expire_p2b E cutoff send =
     (\<lambda>(s, rm) r.
        if (case fmlookup (p2bRelaysTimeMapByBalSlot r) s of None \<Rightarrow> 0 | Some t \<Rightarrow> t) < cutoff then
          let rm1 = RoutedMsg (Hops rm) False (Progress rm) (Payload rm) in
          go_bind (if Progress rm1 = 0 \<and> useSmallP2b E then computeMissingIDsForP2b (Payload rm1) r else Inr [])
            (\<lambda>missingIds. go_bind (relay_votes E send missingIds rm1 r) (\<lambda>r1. Inr (drop_relay s r1)))
        else Inr r)"

text \<open>One tick: \<open>tnow\<close> is the time of the tick, \<open>now\<close> a reading of the clock while it is handled.\<close>

definition tick_cleanup :: "nat \<Rightarrow> 'a replica_scheme \<Rightarrow> 'a replica_scheme" where
  "tick_cleanup ticks r = (if int ticks mod cleanupMultiplier r = 0 then CleanupLog r else r)"

definition tick_gray :: "goint \<Rightarrow> nat \<Rightarrow> 'a replica_scheme \<Rightarrow> 'a replica_scheme" where
  "tick_gray tnow ticks r =
     (if int ticks mod GrayTimeoutMultiplier = 0
      then r\<lparr>GrayNodes := filter (\<lambda>(i, t). \<not> t + TickerDuration * GrayTimeoutMultiplier * 1000000 < tnow) (GrayNodes r)\<rparr>
      else r)"

definition tick_timeouts :: "env \<Rightarrow> goint \<Rightarrow> goint \<Rightarrow> 'a sender \<Rightarrow> 'a replica_scheme \<Rightarrow> 'a replica_scheme go" where
  "tick_timeouts E tnow now send r =
     (let cutoff = tnow - stdPigTimeout E * 1000000
      in if IsLeader r then Inr (CheckTimeout now cutoff r)
         else go_bind (expire_p1b cutoff send r)
                (\<lambda>r1. go_fold (expire_p2b E cutoff send) (p2bRelaysMapByBalSlot r1) r1))"

definition tick :: "env \<Rightarrow> goint \<Rightarrow> goint \<Rightarrow> nat \<Rightarrow> nat \<Rightarrow> 'a replica_scheme \<Rightarrow> 'a replica_scheme go" where
  "tick E tnow now ticks k r =
     go_bind (tick_timeouts E tnow now (loop_Send (HandleMsg E now k)) (tick_gray tnow ticks (tick_cleanup ticks r)))
       (transmit E now (length (calls r)))"

end
