(* ===== verification/PigRelay.thy ===== *)
theory PigRelay
  imports PigReplica
begin

text \<open>
  Facts on the replica: the choice of relays, the peer groups, the aggregation of answers by a relay
  and their reading by the leader, who a message is passed on to, and the invariant of the
  protocol core under the self loop.
\<close>

section \<open>Choosing a relay\<close>

lemma pick_node_step:
  "pick_node nodes x gray draw k =
     (if nodes ! (draw k mod length nodes) = x \<or> nodes ! (draw k mod length nodes) \<in> set gray
      then pick_node nodes x gray draw (k + 1) else Some (nodes ! (draw k mod length nodes), k + 1))"
  by (subst pick_node.simps) (simp add: Let_def)

lemma pick_node_Some:
  assumes "pick_node nodes x gray draw k = Some y"
  shows "nodes \<noteq> [] \<longrightarrow> fst y \<in> set nodes \<and> fst y \<noteq> x \<and> fst y \<notin> set gray \<and> k < snd y"
  using _ assms
proof (rule pick_node.raw_induct [where P = "\<lambda>nodes x gray draw k y.
    nodes \<noteq> [] \<longrightarrow> fst y \<in> set nodes \<and> fst y \<noteq> x \<and> fst y \<notin> set gray \<and> k < snd y"], goal_cases)
  case (1 rec nodes x gray draw k y)
  let ?r = "nodes ! (draw k mod length nodes)"
  show ?case
  proof (cases "?r = x \<or> ?r \<in> set gray")
    case True
    then have "rec nodes x gray draw (k + 1) = Some y"
      using 1(2) by (simp add: Let_def)
    from 1(1) [OF this] show ?thesis by auto
  next
    case False
    then have "y = (?r, k + 1)"
      using 1(2) by (simp add: Let_def split: if_splits)
    with False show ?thesis by (simp add: mod_less_divisor)
  qed
qed

text \<open>When nobody is eligible the loop never ends.\<close>

lemma pick_node_None:
  assumes "\<forall>i \<in> set nodes. i = x \<or> i \<in> set gray" "nodes \<noteq> []"
  shows "pick_node nodes x gray draw k = None"
proof (rule ccontr)
  assume "pick_node nodes x gray draw k \<noteq> None"
  then obtain y where "pick_node nodes x gray draw k = Some y" by blast
  from pick_node_Some [OF this] assms show False by blast
qed

text \<open>When the source of random numbers eventually hits an eligible position, the loop ends.\<close>

lemma pick_node_total:
  assumes "nodes ! (draw (k + n) mod length nodes) \<notin> insert x (set gray)"
  shows "pick_node nodes x gray draw k \<noteq> None"
  using assms
proof (induction n arbitrary: k)
  case 0
  then show ?case by (simp add: pick_node_step)
next
  case (Suc n)
  then show ?case
    using Suc.IH [of "k + 1"] by (subst pick_node_step) simp
qed

text \<open>The choice of a relay never returns the excluded node or a gray node, and returns whenever the
  random numbers eventually hit an eligible member of the group; when every member is excluded or
  gray it never returns.\<close>

theorem relay_choice:
  assumes "nodes \<noteq> []"
  shows "(case GetRandomNodeId nodes x gray draw k of
      Inr (i, j) \<Rightarrow> i \<in> set nodes \<and> i \<noteq> x \<and> i \<notin> set gray \<and> k < j
    | Inl e \<Rightarrow> e = Hang \<and> (\<forall>n. nodes ! (draw (k + n) mod length nodes) \<in> insert x (set gray)))
   \<and> (set nodes \<subseteq> insert x (set gray) \<longrightarrow> GetRandomNodeId nodes x gray draw k = Inl Hang)"
proof (cases "pick_node nodes x gray draw k")
  case None
  then show ?thesis
    using assms pick_node_total [of nodes draw k _ x gray] by (auto simp: GetRandomNodeId_def)
next
  case (Some y)
  have "\<not> set nodes \<subseteq> insert x (set gray)"
    using pick_node_None [of nodes x gray draw k] Some assms by auto
  with Some show ?thesis
    using assms pick_node_Some [OF Some] by (cases y) (simp add: GetRandomNodeId_def)
qed

theorem relay_choice_witness:
  "\<exists>i j. GetRandomNodeId [1, 2, 3] 1 [2] (\<lambda>k. k) 0 = Inr (i, j) \<and> i = 3"
proof -
  have "GetRandomNodeId [1, 2, 3] 1 [2] (\<lambda>k. k) 0 \<noteq> Inl Hang"
    by (simp add: GetRandomNodeId_def pick_node_step numeral_2_eq_2)
  then show ?thesis
    using relay_choice [where nodes = "[1, 2, 3]" and x = 1 and gray = "[2]" and draw = "\<lambda>k. k" and k = 0] by (auto split: sum.splits prod.splits)
qed

section \<open>Peer groups\<close>

definition nodes_of :: "ID list option \<Rightarrow> ID list" where
  "nodes_of g = (case g of None \<Rightarrow> [] | Some ns \<Rightarrow> ns)"

lemma nodes_of_simps [simp]: "nodes_of None = []" "nodes_of (Some ns) = ns"
  by (simp_all add: nodes_of_def)

text \<open>The loop invariant: full groups, the group being filled, and \<open>m\<close> groups that are still nil.\<close>

definition grouping_ok :: "ID \<Rightarrow> goint \<Rightarrow> goint \<Rightarrow> ID list \<Rightarrow> grouping \<Rightarrow> bool" where
  "grouping_ok self num per done =
     (\<lambda>(groups, k, added, my). \<exists>full cur m.
        groups = map Some full @ cur # replicate m None \<and> k = length full \<and>
        int (length full) + 1 + int m = num \<and>
        (\<forall>ns \<in> set full. int (length ns) = max 1 per) \<and>
        concat full @ nodes_of cur = done \<and> added = int (length (nodes_of cur)) \<and> cur \<noteq> Some [] \<and>
        (m = 0 \<or> added < max 1 per) \<and>
        (self \<in> set done \<longrightarrow> (\<exists>j. my = int j \<and> self \<in> set (nodes_of ((map Some full @ [cur]) ! j)) \<and> j \<le> k)))"

lemma grouping_ok_step:
  assumes "grouping_ok self num per done st"
  shows "grouping_ok self num per (done @ [i]) (add_to_group self num per i st)"
proof -
  obtain groups k added my where st: "st = (groups, k, added, my)"
    by (cases st)
  from assms obtain full cur m where ok: "groups = map Some full @ cur # replicate m None" "k = length full"
    "int (length full) + 1 + int m = num" "\<forall>ns \<in> set full. int (length ns) = max 1 per"
    "concat full @ nodes_of cur = done" "added = int (length (nodes_of cur))" "cur \<noteq> Some []"
    "m = 0 \<or> added < max 1 per"
    and my: "self \<in> set done \<longrightarrow> (\<exists>j. my = int j \<and> self \<in> set (nodes_of ((map Some full @ [cur]) ! j)) \<and> j \<le> k)"
    unfolding grouping_ok_def st by auto
  define g where "g = nodes_of cur @ [i]"
  define my1 where "my1 = (if i = self then int k else my)"
  have my': "\<exists>j. my1 = int j \<and> self \<in> set (nodes_of ((map Some full @ [Some g]) ! j)) \<and> j \<le> k"
    if "self \<in> set (done @ [i])"
  proof (cases "i = self")
    case True
    then show ?thesis using ok(2) by (auto simp: my1_def g_def nth_append)
  next
    case False
    with that my obtain j where "my = int j" "self \<in> set (nodes_of ((map Some full @ [cur]) ! j))" "j \<le> k"
      by auto
    then show ?thesis
      using False ok(2) by (intro exI [of _ j]) (auto simp: my1_def g_def nth_append split: if_splits)
  qed
  have at: "groups ! k = cur" "groups[k := x] = map Some full @ x # replicate m None" for x
    using ok(1,2) nth_append_length [of "map Some full"] list_update_length [of "map Some full"] by simp_all
  have add: "add_to_group self num per i st =
      (if added + 1 \<ge> per \<and> int k + 1 < num
       then (map Some full @ Some g # replicate m None, k + 1, 0, my1)
       else (map Some full @ Some g # replicate m None, k, added + 1, my1))"
    by (simp add: add_to_group_def st Let_def at g_def my1_def nodes_of_def)
  show ?thesis
  proof (cases "added + 1 \<ge> per \<and> int k + 1 < num")
    case True
    then have m: "m = Suc (m - 1)" and len: "int (length g) = max 1 per"
      using ok by (auto simp: g_def)
    from m have r: "Some g # replicate m None = Some g # None # replicate (m - 1) (None :: ID list option)"
      by (metis replicate_Suc)
    have "grouping_ok self num per (done @ [i]) (map Some (full @ [g]) @ None # replicate (m - 1) None, k + 1, 0, my1)"
      unfolding grouping_ok_def split_conv
    proof (rule exI [of _ "full @ [g]"], rule exI [of _ None], rule exI [of _ "m - 1"], intro conjI impI)
      show "\<exists>j. my1 = int j \<and> self \<in> set (nodes_of ((map Some (full @ [g]) @ [None]) ! j)) \<and> j \<le> k + 1"
        if "self \<in> set (done @ [i])"
      proof -
        from my' [OF that] obtain j where "my1 = int j" "self \<in> set (nodes_of ((map Some full @ [Some g]) ! j))" "j \<le> k"
          by auto
        moreover from this(3) have "(map Some (full @ [g]) @ [None]) ! j = (map Some full @ [Some g]) ! j"
          using ok(2) by (simp add: nth_append)
        ultimately show ?thesis by auto
      qed
    qed (use ok len m in \<open>auto simp: g_def\<close>)
    then show ?thesis
      unfolding add using True r by simp
  next
    case False
    have "grouping_ok self num per (done @ [i]) (map Some full @ Some g # replicate m None, k, added + 1, my1)"
      unfolding grouping_ok_def split_conv
      by (rule exI [of _ full], rule exI [of _ "Some g"], rule exI [of _ m], intro conjI impI)
        (use ok False my' in \<open>auto simp: g_def\<close>)
    then show ?thesis
      unfolding add if_not_P [OF False] .
  qed
qed

lemma grouping_ok_fold:
  "grouping_ok self num per done st \<Longrightarrow>
     grouping_ok self num per (done @ xs) (fold (add_to_group self num per) xs st)"
proof (induction xs arbitrary: "done" st)
  case (Cons x xs)
  then show ?case
    using Cons.IH [OF grouping_ok_step [OF Cons.prems]] by simp
qed simp


lemma grouping_ok_init:
  "0 < num \<Longrightarrow> grouping_ok self num per [] (replicate (nat num) None, 0, 0, my)"
  unfolding grouping_ok_def split_conv
  by (rule exI [of _ "[]"], rule exI [of _ None], rule exI [of _ "nat num - 1"])
    (auto simp: max_def simp flip: replicate_Suc)

lemma peersToGroups_shape:
  assumes "0 < num"
  obtains full cur m my1 where
    "peersToGroups self num xs my = Inr (map Some full @ cur # replicate m None, my1)"
    "int (length full) + 1 + int m = num"
    "\<forall>ns \<in> set full. int (length ns) = max 1 (int (length xs) div num)"
    "concat full @ nodes_of cur = xs" "cur \<noteq> Some []"
    "m = 0 \<or> int (length (nodes_of cur)) < max 1 (int (length xs) div num)"
    "self \<in> set xs \<longrightarrow> (\<exists>j. my1 = int j \<and> self \<in> set (nodes_of ((map Some full @ [cur]) ! j)) \<and> j \<le> length full)"
proof -
  let ?per = "int (length xs) div num"
  let ?st = "fold (add_to_group self num ?per) xs (replicate (nat num) None, 0, 0, my)"
  have "grouping_ok self num ?per xs ?st"
    using grouping_ok_fold [OF grouping_ok_init [OF assms, where self = self and per = "?per" and my = my],
      where xs = xs] by simp
  moreover obtain groups k added my1 where st: "?st = (groups, k, added, my1)"
    by (cases ?st)
  moreover have "peersToGroups self num xs my = Inr (groups, my1)"
    using assms st by (simp add: peersToGroups_def Let_def sdiv_nonneg)
  ultimately have ok: "grouping_ok self num ?per xs (groups, k, added, my1)"
    and res: "peersToGroups self num xs my = Inr (groups, my1)" by simp_all
  from ok obtain full cur m where f: "groups = map Some full @ cur # replicate m None" "k = length full"
    "int (length full) + 1 + int m = num" "\<forall>ns \<in> set full. int (length ns) = max 1 ?per"
    "concat full @ nodes_of cur = xs" "added = int (length (nodes_of cur))" "cur \<noteq> Some []"
    "m = 0 \<or> added < max 1 ?per"
    "self \<in> set xs \<longrightarrow> (\<exists>j. my1 = int j \<and> self \<in> set (nodes_of ((map Some full @ [cur]) ! j)) \<and> j \<le> k)"
    unfolding grouping_ok_def split_conv by blast
  show ?thesis
    using that [OF res [unfolded f(1)] f(3,4,5,7) f(8) [unfolded f(6)] f(9) [unfolded f(2)]] .
qed

lemma length_concat_const:
  "\<forall>ns \<in> set xss. int (length ns) = k \<Longrightarrow> int (length (concat xss)) = int (length xss) * k"
  by (induction xss) (auto simp: algebra_simps)

text \<open>With at least as many nodes as groups, \<open>peersToGroups\<close> splits the sorted node list into
  exactly the requested number of groups: no group is nil or empty, the groups in order are the
  list, all but the last have the same size (the quotient) and the last takes the remainder too,
  and \<open>myRelayGroup\<close> is the group of the replica itself.\<close>

theorem peer_groups_partition:
  assumes "0 < num" and "num \<le> int (length xs)"
  shows "\<exists>gs my1. peersToGroups self num xs my = Inr (map Some gs, my1) \<and> int (length gs) = num \<and>
    concat gs = xs \<and> (\<forall>g \<in> set (butlast gs). int (length g) = int (length xs) div num) \<and>
    int (length xs) div num \<le> int (length (last gs)) \<and>
    int (length (last gs)) < int (length xs) div num + num \<and>
    (self \<in> set xs \<longrightarrow> 0 \<le> my1 \<and> my1 < num \<and> self \<in> set (gs ! nat my1))"
proof -
  obtain full cur m my1 where r: "peersToGroups self num xs my = Inr (map Some full @ cur # replicate m None, my1)"
    "int (length full) + 1 + int m = num"
    "\<forall>ns \<in> set full. int (length ns) = max 1 (int (length xs) div num)"
    "concat full @ nodes_of cur = xs" "cur \<noteq> Some []"
    "m = 0 \<or> int (length (nodes_of cur)) < max 1 (int (length xs) div num)"
    "self \<in> set xs \<longrightarrow> (\<exists>j. my1 = int j \<and> self \<in> set (nodes_of ((map Some full @ [cur]) ! j)) \<and> j \<le> length full)"
    using peersToGroups_shape [OF assms(1)] .
  let ?per = "int (length xs) div num"
  have per: "1 \<le> ?per"
    using assms by (metis int_one_le_iff_zero_less pos_imp_zdiv_pos_iff)
  have bounds: "num * ?per \<le> int (length xs)" "int (length xs) < num * ?per + num"
    using mult_div_mod_eq [of num "int (length xs)"] pos_mod_bound [of num "int (length xs)"]
      pos_mod_sign [of num "int (length xs)"] assms(1) by linarith+
  have len: "int (length xs) = int (length full) * ?per + int (length (nodes_of cur))"
  proof -
    have "\<forall>ns \<in> set full. int (length ns) = ?per"
      using r(3) per by simp
    then have "int (length (concat full)) = int (length full) * ?per"
      by (rule length_concat_const)
    moreover have "length xs = length (concat full) + length (nodes_of cur)"
      using arg_cong [OF r(4), of length] by simp
    ultimately show ?thesis by simp
  qed
  have m: "m = 0"
  proof (rule ccontr)
    assume "m \<noteq> 0"
    then have "int (length (nodes_of cur)) < ?per" "int (length full) + 1 < num"
      using r(2,6) per by auto
    then have "int (length xs) < (int (length full) + 1) * ?per"
      using len by (simp add: distrib_right)
    also have "\<dots> \<le> num * ?per"
      using \<open>int (length full) + 1 < num\<close> per by (intro mult_right_mono) auto
    finally show False using bounds by simp
  qed
  then have full: "int (length full) = num - 1" using r(2) by simp
  have cur: "int (length (nodes_of cur)) = int (length xs) - (num - 1) * ?per"
    using len full by simp
  then have curb: "?per \<le> int (length (nodes_of cur))" "int (length (nodes_of cur)) < ?per + num"
    using bounds by (simp_all add: left_diff_distrib)
  then obtain ns where ns: "cur = Some ns"
    using per by (cases cur) auto
  show ?thesis
  proof (intro exI conjI)
    show "peersToGroups self num xs my = Inr (map Some (full @ [ns]), my1)"
      using r(1) m ns by simp
    show "self \<in> set xs \<longrightarrow> 0 \<le> my1 \<and> my1 < num \<and> self \<in> set ((full @ [ns]) ! nat my1)"
    proof
      assume "self \<in> set xs"
      then obtain j where "my1 = int j" "self \<in> set (nodes_of ((map Some full @ [cur]) ! j))" "j \<le> length full"
        using r(7) by blast
      then show "0 \<le> my1 \<and> my1 < num \<and> self \<in> set ((full @ [ns]) ! nat my1)"
        using ns full by (auto simp: nth_append split: if_splits)
    qed
  qed (use r(3,4) full ns curb per in auto)
qed

theorem peer_groups_partition_witness:
  "\<exists>gs my1. peersToGroups 3 2 [1, 2, 3, 4, 5] 0 = Inr (map Some gs, my1) \<and> concat gs = [1, 2, 3, 4, 5]"
  using peer_groups_partition [of 2 "[1, 2, 3, 4, 5]" 3 0] by auto


section \<open>Aggregated votes\<close>

lemma mset_fold_swap_remove: "mset (fold swap_remove vs xs) = mset xs - mset vs"
  by (induction vs arbitrary: xs) (simp_all add: mset_swap_remove diff_diff_add)

lemma set_fold_swap_remove:
  assumes "distinct xs"
  shows "set (fold swap_remove vs xs) = set xs - set vs" and "distinct (fold swap_remove vs xs)"
  using assms
  by (induction vs arbitrary: xs) (auto simp: set_swap_remove distinct_swap_remove)

lemma aggregated_ids_missing:
  assumes "distinct nodes" "set votes \<subseteq> set nodes"
  shows "set (aggregated_ids (P2bAggregated (fold swap_remove votes nodes) i l b s) nodes) = set votes"
  using assms set_fold_swap_remove [OF assms(1)] set_fold_swap_remove [OF assms(1), of votes]
  by (auto simp: aggregated_ids_def) (metis DiffI empty_iff list.set(1))+

lemma full_votes:
  assumes "distinct nodes" "distinct votes" "set votes \<subseteq> set nodes" "length votes = length nodes"
  shows "set votes = set nodes"
  using assms by (metis card_subset_eq distinct_card finite_set)

lemma almost_full_votes:
  assumes "distinct nodes" "distinct votes" "set votes \<subseteq> set nodes" "length nodes = Suc (length votes)"
    and "x \<in> set nodes" "x \<notin> set votes"
  shows "set nodes = insert x (set votes)"
proof -
  have "insert x (set votes) \<subseteq> set nodes" "card (insert x (set votes)) = card (set nodes)"
    using assms by (simp_all add: distinct_card)
  then show ?thesis
    by (metis card_subset_eq finite_set)
qed

text \<open>C10: A relay that has collected votes of distinct members of its group either keeps collecting, and
  then remembers the new votes, or sends one aggregated vote to where the proposal came from and
  forgets the slot; and what the leader reads out of the aggregated vote is the set of the nodes
  that voted, plus at most the owner of the ballot itself, whose vote the leader has counted.\<close>

theorem relay_reports_the_votes:
  assumes "map_of (p2bRelaysMapByBalSlot r) s = Some (RoutedMsg (root # hs) False 0 (P2b got b s))"
    and "my_group r = Inr nodes" and "distinct nodes" and "distinct (got @ new)" and "set (got @ new) \<subseteq> set nodes"
    and "Ballot_ID b \<notin> set (got @ new)"
    and "group_of r (Ballot_ID b) = myRelayGroup r \<longrightarrow> Ballot_ID b \<in> set nodes"
    and "useSmallP2b E" and "0 \<le> relaySlack r" and "root \<noteq> pid r"
  shows "\<exists>r'. handleP2bRelay E (loop_Send H) (P2b new b s) r = Inr r' \<and>
    (map_of (p2bRelaysMapByBalSlot r') s = Some (RoutedMsg (root # hs) False 0 (P2b (got @ new) b s)) \<and>
       calls r' = calls r
     \<or> map_of (p2bRelaysMapByBalSlot r') s = None \<and>
       (\<exists>a. calls r' = calls r @ [CSend root (M_P2bAggregated a)] \<and> P2bA_Ballot a = b \<and> P2bA_Slot a = s \<and>
          RelayID a = pid r \<and> set (got @ new) \<subseteq> set (aggregated_ids a nodes) \<and>
          set (aggregated_ids a nodes) \<subseteq> insert (Ballot_ID b) (set (got @ new))))"
proof -
  let ?votes = "got @ new"
  let ?rm = "RoutedMsg (root # hs) False 0 (P2b ?votes b s)"
  define r1 where "r1 = r\<lparr>p2bRelaysMapByBalSlot := AList.update s ?rm (p2bRelaysMapByBalSlot r)\<rparr>"
  have r1: "my_group r1 = Inr nodes" "relaySlack r1 = relaySlack r" "group_of r1 = group_of r"
    "myRelayGroup r1 = myRelayGroup r" "pid r1 = pid r" "calls r1 = calls r"
    "map_of (p2bRelaysMapByBalSlot r1) s = Some ?rm" "execute r1 = execute r"
    using assms(2) by (auto simp: r1_def my_group_def group_of_def update_conv')
  let ?n = "int (length ?votes)" and ?k = "int (length nodes)"
  let ?ready = "?n = ?k - relaySlack r \<or>
    (?n = ?k - 1 - relaySlack r \<and> group_of r (Ballot_ID b) = myRelayGroup r)"
  define rdy where "rdy = ?ready"
  have ready: "readyToRelayP2b s r1 = Inr rdy"
    by (simp add: readyToRelayP2b_def r1 Let_def rdy_def)
  let ?missing = "if relaySlack r > 0 then fold swap_remove ?votes nodes else []"
  let ?a = "P2bAggregated ?missing (pid r) (execute r - 1) b s"
  have step: "handleP2bRelay E (loop_Send H) (P2b new b s) r =
      (if rdy then Inr (drop_relay s (emit (CSend root (M_P2bAggregated ?a)) r1)) else Inr r1)"
    using assms(1,8,10) r1
    by (simp add: handleP2bRelay_def Let_def ready flip: r1_def)
      (cases rdy; simp add: relay_votes_def GetLastProgressHop_def hop_def loop_Send_def computeMissingIDsForP2b_def)
  show ?thesis
  proof (cases rdy)
    case False
    then show ?thesis
      unfolding step using r1 by auto
  next
    case True
    have "set ?votes \<subseteq> set (aggregated_ids ?a nodes) \<and>
        set (aggregated_ids ?a nodes) \<subseteq> insert (Ballot_ID b) (set ?votes)"
    proof (cases "relaySlack r > 0")
      case True
      then show ?thesis
        using aggregated_ids_missing [OF assms(3,5)] by simp blast
    next
      case False
      then have "aggregated_ids ?a nodes = nodes" "relaySlack r = 0"
        using assms(9) by (simp_all add: aggregated_ids_def)
      moreover have "set nodes = set ?votes \<or> set nodes = insert (Ballot_ID b) (set ?votes)"
      proof (cases "?n = ?k")
        case True
        then show ?thesis using full_votes [OF assms(3,4,5)] by simp
      next
        case False
        with \<open>rdy\<close> [unfolded rdy_def] \<open>relaySlack r = 0\<close> have "?n = ?k - 1" "group_of r (Ballot_ID b) = myRelayGroup r"
          by simp_all
        then show ?thesis
          using almost_full_votes [OF assms(3,4,5) _ _ assms(6)] assms(7) by simp
      qed
      ultimately show ?thesis using assms(5) by auto
    qed
    moreover have "map_of (p2bRelaysMapByBalSlot (drop_relay s (emit x r1))) s = None"
      "calls (drop_relay s (emit x r1)) = calls r @ [x]" for x
      using r1 by (simp_all add: drop_relay_def delete_conv emit_def)
    ultimately show ?thesis
      unfolding step using True by auto
  qed
qed


text \<open>Node 2 relays for the one group of three nodes and has its own vote for slot 0.\<close>

definition example_env :: env where
  "example_env = \<lparr>conf = default_config, stableLeader = True, pg = 1, regionPeerGroups = False,
     useSmallP2b = True, stdPigTimeout = 50, rgSlack = 0, fixedrelay = False, rnd = (\<lambda>k. k),
     reachable = (\<lambda>_. True)\<rparr>"

definition relay_example :: replica where
  "relay_example = pigpaxos.extend (NewPigPaxos default_config 2)
     \<lparr>relayGroups = [Some [1, 2, 3]], fixedRelays = [], myRelayGroup = 0,
      NodeIdsToGroup = fmap_of_list [(1, 0), (2, 0), (3, 0)],
      numRelayGroups = 1, maxDepth = 2, relaySlack = 0, cleanupMultiplier = 3,
      GrayNodes = [], p1bRelayRoutedMsg = None, pendingP1bRelay = 0, p1bRelayDepth = 0,
      p2bRelaysMapByBalSlot = [(0, RoutedMsg [1] False 0 (P2b [2] (NewBallot 1 1) 0))],
      p2bRelaysTimeMapByBalSlot = fmempty, draws = 0, outbox = []\<rparr>"

lemma relay_example_simps [simp]:
  "p2bRelaysMapByBalSlot relay_example = [(0, RoutedMsg [1] False 0 (P2b [2] (NewBallot 1 1) 0))]"
  "my_group relay_example = Inr [1, 2, 3]" "group_of relay_example 1 = 0" "myRelayGroup relay_example = 0"
  "relaySlack relay_example = 0" "pid relay_example = 2"
  by (simp_all add: relay_example_def my_group_def group_of_def pigpaxos.defs NewPigPaxos_def slice_at_def)

theorem relay_reports_the_votes_witness:
  "\<exists>r'. handleP2bRelay example_env (loop_Send (\<lambda>_. Inr)) (P2b [3] (NewBallot 1 1) 0) relay_example = Inr r'"
  using relay_reports_the_votes [of relay_example 0 1 "[]" "[2]" "NewBallot 1 1" "[1, 2, 3]" "[3]" example_env
      "\<lambda>_. Inr"]
  by (auto simp: example_env_def)

text \<open>Nothing keeps a relay from counting the same vote twice: \<open>append(p2b.ID, m.ID...)\<close> does not look
  for duplicates and \<open>readyToRelayP2b\<close> compares lengths. When node 2's own vote arrives twice more,
  the relay claims the votes of all three nodes, and the leader reads the vote of node 3 out of it.\<close>

theorem repeated_vote_invents_a_voter:
  "case go_bind (handleP2bRelay example_env (loop_Send (\<lambda>_. Inr)) (P2b [2] (NewBallot 1 1) 0) relay_example)
      (\<lambda>r. Inr (drop (length (calls relay_example)) (calls r))) of
     Inr [CSend to (M_P2bAggregated a)] \<Rightarrow>
       to = 1 \<and> P2bA_Slot a = 0 \<and> aggregated_ids a [1, 2, 3] = [1, 2, 3]
   | _ \<Rightarrow> False"
  by code_simp

section \<open>Passing a message on\<close>

lemma BroadcastToPeerGroup_calls:
  fixes r :: "'a replica_scheme"
  shows "calls (BroadcastToPeerGroup nodes src m r) = calls r @
     map (\<lambda>i. CSend i (M_Routed m)) (filter (\<lambda>i. i \<noteq> pid r \<and> i \<noteq> src \<and> i \<notin> fst ` set (GrayNodes r)) nodes)"
proof -
  have "GrayNodes (emit x r) = GrayNodes r" for x and r :: "'a replica_scheme"
    by (simp add: emit_def)
  then have "pid q = pid r \<Longrightarrow> GrayNodes q = GrayNodes r \<Longrightarrow>
    calls (BroadcastToPeerGroup nodes src m q) = calls q @
     map (\<lambda>i. CSend i (M_Routed m)) (filter (\<lambda>i. i \<noteq> pid r \<and> i \<noteq> src \<and> i \<notin> fst ` set (GrayNodes r)) nodes)" for q :: "'a replica_scheme"
    unfolding BroadcastToPeerGroup_def by (induction nodes arbitrary: q) auto
  then show ?thesis by simp
qed


text \<open>A relay passes a message on once to every other member of its group that is not gray, never to
  itself and never to the node at the current hop, from which it came (the proposer); at the maximal
  depth, and when it need not propagate, it passes nothing on. The message it sends names the
  relay as the next hop, so that the answers come back to it.\<close>

theorem forwarding_excludes_the_source:
  fixes r :: "'a replica_scheme"
  assumes "my_group r = Inr nodes" and "Progress m < length (Hops m)" and "Progress m < 255"
  shows "\<exists>r'. propagate m need r = Inr r' \<and> ballot r' = ballot r \<and> logm r' = logm r \<and>
    calls r' = calls r @
      (if need \<and> Progress m + 1 < maxDepth r
       then map (\<lambda>i. CSend i (M_Routed (RoutedMsg (Hops m @ [pid r]) (IsForward m) (Progress m + 1) (Payload m))))
              (filter (\<lambda>i. i \<noteq> pid r \<and> i \<noteq> Hops m ! Progress m \<and> i \<notin> fst ` set (GrayNodes r)) nodes)
       else [])"
proof -
  have "ballot (BroadcastToPeerGroup ns src x q) = ballot q \<and> logm (BroadcastToPeerGroup ns src x q) = logm q"
    for ns src x and q :: "'a replica_scheme"
    unfolding BroadcastToPeerGroup_def by (induction ns arbitrary: q) auto
  then show ?thesis
    using assms
    by (simp add: propagate_def Let_def GetPreviousProgressHop_def hop_def nth_append BroadcastToPeerGroup_calls)
qed

theorem forwarding_excludes_the_source_witness:
  "\<exists>r'. propagate (RoutedMsg [1] True 0 (M_P3 (P3 0 []))) True relay_example = Inr r' \<and>
     calls r' = calls relay_example @ [CSend 3 (M_Routed (RoutedMsg [1, 2] True 1 (M_P3 (P3 0 []))))]"
proof -
  have "maxDepth relay_example = 2" "GrayNodes relay_example = []"
    by (simp_all add: relay_example_def pigpaxos.defs NewPigPaxos_def)
  then show ?thesis
    using forwarding_excludes_the_source [of relay_example "[1, 2, 3]" "RoutedMsg [1] True 0 (M_P3 (P3 0 []))" True]
    by auto
qed

section \<open>The invariant under the self loop\<close>

text \<open>The promises that a relay holds back are as good as those in the network, and what it holds back
  is addressed backwards.\<close>

definition rgood :: "proposal set \<Rightarrow> 'a replica_scheme \<Rightarrow> bool" where
  "rgood Q r \<longleftrightarrow> good Q r \<and>
     (\<forall>rm. p1bRelayRoutedMsg r = Some rm \<longrightarrow>
        \<not> IsForward rm \<and> (\<forall>m \<in> set (Payload rm). promise_ok (Q \<union> proposals r) m)) \<and>
     (\<forall>x \<in> set (p2bRelaysMapByBalSlot r). \<not> IsForward (snd x))"

text \<open>The fields that the replica adds to the core.\<close>

lemma more_fields:
  assumes "pigpaxos.more q = pigpaxos.more r"
  shows "p1bRelayRoutedMsg q = p1bRelayRoutedMsg r" "p2bRelaysMapByBalSlot q = p2bRelaysMapByBalSlot r"
    "relayGroups q = relayGroups r" "pendingP1bRelay q = pendingP1bRelay r" "outbox q = outbox r"
  using assms by (cases q; cases r; simp)+

lemma rgood_frame:
  assumes "rgood Q r" "good Q q" "grows r q"
  shows "rgood Q q"
proof -
  have "p1bRelayRoutedMsg q = p1bRelayRoutedMsg r"
    using assms(3) by (intro more_fields(1)) (simp add: grows_def)
  moreover have "p2bRelaysMapByBalSlot q = p2bRelaysMapByBalSlot r"
    using assms(3) by (intro more_fields(2)) (simp add: grows_def)
  moreover have "Q \<union> proposals r \<subseteq> Q \<union> proposals q"
    using proposals_advance [OF grows_advances [OF assms(3)]] by blast
  ultimately show ?thesis
    using assms(1,2) promise_ok_mono unfolding rgood_def by metis
qed

text \<open>A core operation that keeps the core's invariant keeps that of the replica.\<close>

lemma rgood_core:
  assumes "rgood Q r" "grows r q" "good (Q \<union> proposals r) q"
  shows "rgood Q q"
  using rgood_frame [OF assms(1) good_absorbed [OF assms(3) grows_advances [OF assms(2)]] assms(2)] .

lemma rgood_good: "rgood Q r \<Longrightarrow> good (Q \<union> proposals r) r"
  by (simp add: rgood_def good_absorb)

lemma rgood_emit:
  assumes "rgood Q r" "msg_ok (Q \<union> proposals r) m" "\<And>x. m \<noteq> M_P2a x"
  shows "rgood Q (emit (CSend to m) r)"
  using assms by (intro rgood_frame [OF assms(1)] good_emit grows_emit) (auto simp: rgood_def)

lemma rgood_cong:
  assumes "pid q = pid r" "active q = active r" "ballot q = ballot r" "slot q = slot r"
    "logm q = logm r" "calls q = calls r" "p1bRelayRoutedMsg q = p1bRelayRoutedMsg r"
    "p2bRelaysMapByBalSlot q = p2bRelaysMapByBalSlot r"
  shows "rgood Q q = rgood Q r"
  unfolding rgood_def
  using good_cong [OF assms(1-6), of Q] proposals_sent_cong [OF sent_cong [OF assms(6)]] assms(7,8)
  by simp

lemma rgood_replica_fields [simp]:
  "rgood Q (r\<lparr>pendingP1bRelay := t\<rparr>) = rgood Q r" "rgood Q (r\<lparr>p1bRelayDepth := d\<rparr>) = rgood Q r"
  "rgood Q (r\<lparr>p2bRelaysTimeMapByBalSlot := y\<rparr>) = rgood Q r"
  "rgood Q (r\<lparr>GrayNodes := g\<rparr>) = rgood Q r" "rgood Q (r\<lparr>outbox := ob\<rparr>) = rgood Q r"
  "rgood Q (r\<lparr>draws := k\<rparr>) = rgood Q r"
  by (rule rgood_cong; simp)+

lemma rgood_relay:
  assumes "rgood Q r"
  shows "\<not> IsForward rm \<Longrightarrow> \<forall>m \<in> set (Payload rm). promise_ok (Q \<union> proposals r) m \<Longrightarrow>
     rgood Q (r\<lparr>p1bRelayRoutedMsg := Some rm\<rparr>)"
    and "rgood Q (r\<lparr>p1bRelayRoutedMsg := None\<rparr>)"
    and "\<forall>x \<in> set rs. \<not> IsForward (snd x) \<Longrightarrow> rgood Q (r\<lparr>p2bRelaysMapByBalSlot := rs\<rparr>)"
proof -
  have g: "good Q (r\<lparr>p1bRelayRoutedMsg := z\<rparr>) = good Q r" for z
    by (rule good_cong) simp_all
  have g': "good Q (r\<lparr>p2bRelaysMapByBalSlot := z\<rparr>) = good Q r" for z
    by (rule good_cong) simp_all
  have p: "proposals (r\<lparr>p1bRelayRoutedMsg := z\<rparr>) = proposals r"
    "proposals (r\<lparr>p2bRelaysMapByBalSlot := z'\<rparr>) = proposals r" for z z'
    by (simp_all add: proposals_def sent_def)
  show "\<not> IsForward rm \<Longrightarrow> \<forall>m \<in> set (Payload rm). promise_ok (Q \<union> proposals r) m \<Longrightarrow>
     rgood Q (r\<lparr>p1bRelayRoutedMsg := Some rm\<rparr>)"
    "rgood Q (r\<lparr>p1bRelayRoutedMsg := None\<rparr>)"
    "\<forall>x \<in> set rs. \<not> IsForward (snd x) \<Longrightarrow> rgood Q (r\<lparr>p2bRelaysMapByBalSlot := rs\<rparr>)"
    using assms unfolding rgood_def by (simp_all add: g g' p)
qed

lemma advances_replica_fields [simp]:
  "advances p (r\<lparr>pendingP1bRelay := t\<rparr>) = advances p r" "advances p (r\<lparr>p1bRelayDepth := d\<rparr>) = advances p r"
  "advances p (r\<lparr>p2bRelaysMapByBalSlot := x\<rparr>) = advances p r"
  "advances p (r\<lparr>p2bRelaysTimeMapByBalSlot := y\<rparr>) = advances p r"
  "advances p (r\<lparr>GrayNodes := g\<rparr>) = advances p r" "advances p (r\<lparr>outbox := ob\<rparr>) = advances p r"
  "advances p (r\<lparr>draws := k\<rparr>) = advances p r" "advances p (r\<lparr>p1bRelayRoutedMsg := z\<rparr>) = advances p r"
  by (simp_all add: advances_def)


text \<open>What the replica's handlers need of their \<open>Send\<close>: for an answer on its way back it keeps the
  invariant and takes nothing back.\<close>

definition backward :: "msg \<Rightarrow> bool" where
  "backward m \<longleftrightarrow> (case m of M_P1b _ \<Rightarrow> True | M_P1bs _ \<Rightarrow> True | M_P2b _ \<Rightarrow> True | M_P2bAggregated _ \<Rightarrow> True
     | M_P1a _ \<Rightarrow> True | M_Routed rm \<Rightarrow> \<not> IsForward rm | _ \<Rightarrow> False)"

lemma backward_simps [simp]:
  "backward (M_P1b x1)" "backward (M_P1bs x2)" "backward (M_P2b x3)" "backward (M_P2bAggregated x4)"
  "backward (M_P1a x5)" "backward (M_Routed rm) = (\<not> IsForward rm)"
  by (simp_all add: backward_def)

definition keeps :: "'a replica_scheme \<Rightarrow> msg \<Rightarrow> 'a replica_scheme \<Rightarrow> bool" where
  "keeps r m r' \<longleftrightarrow> (\<forall>Q. rgood Q r \<longrightarrow> msg_ok (Q \<union> proposals r) m \<longrightarrow> rgood Q r' \<and> advances r r')"

definition sends_well :: "'a sender \<Rightarrow> bool" where
  "sends_well send \<longleftrightarrow> (\<forall>ptr to m r r'. backward m \<longrightarrow> send ptr to m r = Inr r' \<longrightarrow> keeps r m r')"

lemma sends_wellD: "sends_well send \<Longrightarrow> send ptr to m r = Inr r' \<Longrightarrow> backward m \<Longrightarrow> keeps r m r'"
  unfolding sends_well_def by blast

lemma keeps_core:
  assumes "grows r q" "\<And>Q. good Q r \<Longrightarrow> msg_ok Q m \<Longrightarrow> good Q q"
  shows "keeps r m q"
  using assms(2) rgood_core [OF _ assms(1)] rgood_good grows_advances [OF assms(1)]
  unfolding keeps_def by blast

lemma keeps_refl [simp]: "keeps r m r"
  by (simp add: keeps_def)

lemma keeps_trans:
  assumes "keeps r m r1" "keeps r1 m' r2"
    and "\<And>Q. rgood Q r1 \<Longrightarrow> msg_ok (Q \<union> proposals r1) m \<Longrightarrow> msg_ok (Q \<union> proposals r1) m'"
  shows "keeps r m r2"
  unfolding keeps_def
proof (intro allI impI)
  fix Q
  assume Q: "rgood Q r" "msg_ok (Q \<union> proposals r) m"
  then have r1: "rgood Q r1" "advances r r1"
    using assms(1) by (auto simp: keeps_def)
  then have "msg_ok (Q \<union> proposals r1) m"
    using proposals_advance [OF r1(2)] by (intro msg_ok_mono [OF Q(2)]) auto
  with assms(2,3) r1(1) have "rgood Q r2 \<and> advances r1 r2"
    by (simp add: keeps_def)
  with r1(2) show "rgood Q r2 \<and> advances r r2"
    by (auto intro: advances_trans)
qed

lemma keeps_fields [simp]:
  "keeps r m (q\<lparr>pendingP1bRelay := t\<rparr>) = keeps r m q" "keeps r m (q\<lparr>p1bRelayDepth := d\<rparr>) = keeps r m q"
  "keeps r m (q\<lparr>p2bRelaysTimeMapByBalSlot := y\<rparr>) = keeps r m q"
  by (simp_all add: keeps_def)

lemma keeps_forget: "keeps r m q \<Longrightarrow> keeps r m (q\<lparr>p1bRelayRoutedMsg := None\<rparr>)"
  by (simp add: keeps_def rgood_relay(2))

lemma keeps_relays:
  assumes "keeps r m q" "\<And>x. x \<in> set rs \<Longrightarrow> x \<in> set (p2bRelaysMapByBalSlot q) \<or> \<not> IsForward (snd x)"
  shows "keeps r m (q\<lparr>p2bRelaysMapByBalSlot := rs\<rparr>)"
  unfolding keeps_def
proof (intro allI impI)
  fix Q
  assume "rgood Q r" "msg_ok (Q \<union> proposals r) m"
  then have q: "rgood Q q" "advances r q"
    using assms(1) by (auto simp: keeps_def)
  then have "\<forall>x \<in> set rs. \<not> IsForward (snd x)"
    using assms(2) unfolding rgood_def by blast
  with q show "rgood Q (q\<lparr>p2bRelaysMapByBalSlot := rs\<rparr>) \<and> advances r (q\<lparr>p2bRelaysMapByBalSlot := rs\<rparr>)"
    by (simp add: rgood_relay(3))
qed

lemma set_delete_subset: "set (AList.delete k xs) \<subseteq> set xs"
  by (induction xs) auto

lemma set_update_subset: "set (AList.update k v xs) \<subseteq> insert (k, v) (set xs)"
  by (induction xs) auto

lemma keeps_drop_relay:
  assumes "keeps r m q"
  shows "keeps r m (drop_relay s q)"
proof -
  have "keeps r m (q\<lparr>p2bRelaysMapByBalSlot := AList.delete s (p2bRelaysMapByBalSlot q)\<rparr>)"
    by (rule keeps_relays [OF assms]) (meson set_delete_subset subsetD)
  then show ?thesis
    by (simp add: drop_relay_def)
qed

lemma keeps_new_relay:
  assumes "keeps r m q" "\<not> IsForward rm"
  shows "keeps r m (q\<lparr>p2bRelaysMapByBalSlot := AList.update s rm (p2bRelaysMapByBalSlot q)\<rparr>)"
proof (rule keeps_relays [OF assms(1)])
  fix x assume "x \<in> set (AList.update s rm (p2bRelaysMapByBalSlot q))"
  then show "x \<in> set (p2bRelaysMapByBalSlot q) \<or> \<not> IsForward (snd x)"
    using set_update_subset [of s rm "p2bRelaysMapByBalSlot q"] assms(2) by auto
qed

text \<open>Collecting one more promise, and passing on what has been collected.\<close>

lemma keeps_collect_P1b:
  fixes m rm
  defines "rm1 \<equiv> RoutedMsg (Hops rm) (IsForward rm) (Progress rm) (Payload rm @ [m])"
  defines "x1 \<equiv> M_Routed (RoutedMsg (Hops rm) (IsForward rm) (Progress rm) (M_P1bs (Payload rm @ [m])))"
  assumes "sends_well send" "p1bRelayRoutedMsg r = Some rm"
  shows "keeps r (M_P1b m) (r\<lparr>p1bRelayRoutedMsg := Some rm1\<rparr>)"
    and "send ptr to x (r\<lparr>p1bRelayRoutedMsg := Some rm1\<rparr>) = Inr r2 \<Longrightarrow>
      x = M_P1bs (Payload rm @ [m]) \<or> x = x1 \<Longrightarrow> keeps r (M_P1b m) r2"
proof -
  define r1 where "r1 = r\<lparr>p1bRelayRoutedMsg := Some rm1\<rparr>"
  have r1: "proposals r1 = proposals r" "p1bRelayRoutedMsg r1 = Some rm1" "advances r r1"
    by (simp_all add: r1_def) (simp add: proposals_def sent_def)
  show g1: "keeps r (M_P1b m) (r\<lparr>p1bRelayRoutedMsg := Some rm1\<rparr>)"
    unfolding keeps_def using rgood_relay(1) [of _ r rm1] assms(4) r1(3)
    by (auto simp: r1_def rm1_def rgood_def)
  assume x: "send ptr to x (r\<lparr>p1bRelayRoutedMsg := Some rm1\<rparr>) = Inr r2"
    "x = M_P1bs (Payload rm @ [m]) \<or> x = x1"
  show "keeps r (M_P1b m) r2"
  proof (cases "IsForward rm")
    case False
    then have "keeps r1 x r2"
      using sends_wellD [OF assms(3) x(1)] x(2) by (auto simp: r1_def x1_def)
    then show ?thesis
      by (rule keeps_trans [OF g1, folded r1_def]) (use x(2) r1(2) in \<open>auto simp: rgood_def x1_def rm1_def\<close>)
  qed (use assms(4) in \<open>auto simp: keeps_def rgood_def\<close>)
qed

lemma keeps_handleP1bRelay:
  assumes "sends_well send" "handleP1bRelay send m r = Inr r'"
  shows "keeps r (M_P1b m) r'"
proof -
  from assms(2) obtain rm where rm: "p1bRelayRoutedMsg r = Some rm"
    by (auto simp: handleP1bRelay_def)
  show ?thesis
    using assms(2) keeps_collect_P1b [where m = m, OF assms(1) rm]
    unfolding handleP1bRelay_def Let_def rm deref_simps go_bind_simps
    by (auto simp: keeps_forget split: if_splits)
qed

lemma keeps_handleP1b:
  assumes "sends_well send" "handleP1b E now send m r = Inr r'"
  shows "keeps r (M_P1b m) r'"
proof -
  have "keeps r (M_P1b m) (HandleP1b (conf E) now m r)"
    by (rule keeps_core [OF grows_HandleP1b good_HandleP1b])
  then show ?thesis
    using assms keeps_handleP1bRelay by (auto simp: handleP1b_def split: if_splits)
qed

lemma keeps_handleP1bLeader: "keeps r (M_P1bs ms) (handleP1bLeader E now ms r)"
  unfolding handleP1bLeader_def
proof (rule fold_invariant)
  fix m q
  assume "m \<in> set ms" and q: "keeps r (M_P1bs ms) q"
  have "keeps q (M_P1b m) (HandleP1b (conf E) now m q)"
    by (rule keeps_core [OF grows_HandleP1b good_HandleP1b])
  then show "keeps r (M_P1bs ms) (HandleP1b (conf E) now m q)"
    by (rule keeps_trans [OF q]) (use \<open>m \<in> set ms\<close> in simp)
qed simp

lemma keeps_relay_votes:
  assumes "sends_well send" "\<not> IsForward rm" "relay_votes E send ids rm r = Inr r'"
  shows "keeps r (M_P2b x) r'"
  using assms(2,3) sends_wellD [OF assms(1)] unfolding relay_votes_def Let_def
  by (auto split: if_splits dest!: sends_wellD [OF assms(1)] elim!: keeps_trans [OF keeps_refl])

text \<open>Collecting more votes, and passing on what has been collected.\<close>

lemma keeps_collect_P2b:
  fixes m rm r
  defines "rm1 \<equiv> RoutedMsg (Hops rm) (IsForward rm) (Progress rm)
    (P2b (P2b_ID (Payload rm) @ P2b_ID m) (P2b_Ballot (Payload rm)) (P2b_Slot (Payload rm)))"
  defines "r1 \<equiv> r\<lparr>p2bRelaysMapByBalSlot := AList.update (P2b_Slot m) rm1 (p2bRelaysMapByBalSlot r)\<rparr>"
  assumes "sends_well send" "map_of (p2bRelaysMapByBalSlot r) (P2b_Slot m) = Some rm"
  shows "keeps r (M_P2b m) r1"
    and "relay_votes E send ids rm1 r1 = Inr r2 \<Longrightarrow> keeps r (M_P2b m) r2"
    and "send ptr to (M_P2b x) r = Inr r2 \<Longrightarrow> keeps r (M_P2b m) r2"
proof -
  have "keeps r (M_P2b m) r1 \<and> (relay_votes E send ids rm1 r1 = Inr r2 \<longrightarrow> keeps r (M_P2b m) r2)"
  proof (cases "IsForward rm")
    case True
    then show ?thesis
      using map_of_SomeD [OF assms(4)] by (fastforce simp: keeps_def rgood_def)
  next
    case False
    then have r1: "keeps r (M_P2b m) r1"
      unfolding r1_def by (intro keeps_new_relay) (auto simp: rm1_def)
    moreover have "keeps r (M_P2b m) r2" if "relay_votes E send ids rm1 r1 = Inr r2"
      by (rule keeps_trans [OF r1 keeps_relay_votes [OF assms(3) _ that, of m]]) (use False in \<open>auto simp: rm1_def\<close>)
    ultimately show ?thesis by blast
  qed
  then show "keeps r (M_P2b m) r1" and "relay_votes E send ids rm1 r1 = Inr r2 \<Longrightarrow> keeps r (M_P2b m) r2"
    by blast+
  assume "send ptr to (M_P2b x) r = Inr r2"
  then show "keeps r (M_P2b m) r2"
    by (intro keeps_trans [OF keeps_refl sends_wellD [OF assms(3)]]) auto
qed

lemma keeps_handleP2bRelay:
  assumes "sends_well send" "handleP2bRelay E send m r = Inr r'"
  shows "keeps r (M_P2b m) r'"
proof (cases "map_of (p2bRelaysMapByBalSlot r) (P2b_Slot m)")
  case (Some rm)
  note c = keeps_collect_P2b [OF assms(1) Some] and e = assms(2) [unfolded handleP2bRelay_def Some option.case Let_def]
  show ?thesis
  proof (cases "P2b_Ballot (Payload rm) = P2b_Ballot m")
    case True
    show ?thesis
      using e [unfolded if_P [OF True] go_bind_eq_Inr] c(1)
      by (auto split: if_splits intro: keeps_drop_relay [OF c(2)])
  next
    case False
    show ?thesis
      using e [unfolded if_not_P [OF False]] c(3) by blast
  qed
qed (use assms in \<open>simp add: handleP2bRelay_def\<close>)

lemma keeps_HandleP2b: "HandleP2b c now s b ids r = Inr r' \<Longrightarrow> keeps r m r'"
  by (rule keeps_core [OF grows_HandleP2b good_HandleP2b])

lemma keeps_handleP2b:
  assumes "sends_well send" "handleP2b E now send m r = Inr r'"
  shows "keeps r (M_P2b m) r'"
  using assms keeps_handleP2bRelay keeps_HandleP2b by (auto simp: handleP2b_def split: if_splits)

lemma keeps_handleP2bAggregated:
  assumes "handleP2bAggregated E now m r = Inr r'"
  shows "keeps r (M_P2bAggregated m) r'"
proof -
  have u: "keeps r x (UpdateLastExecuteByNode i k r)" for x i k
    by (rule keeps_core) (simp_all add: UpdateLastExecuteByNode_def mono_facts)
  show ?thesis
    using assms keeps_trans [OF u keeps_HandleP2b]
    by (auto simp: handleP2bAggregated_def Let_def split: if_splits)
qed


lemma keeps_emit:
  assumes "keeps r m q" "\<And>x. m' \<noteq> M_P2a x"
    and "\<And>Q. msg_ok (Q \<union> proposals q) m \<Longrightarrow> msg_ok (Q \<union> proposals q) m'"
  shows "keeps r m (emit (CSend to m') q)"
proof (rule keeps_trans [OF assms(1)])
  show "keeps q m' (emit (CSend to m') q)"
    unfolding keeps_def using rgood_emit [OF _ _ assms(2)] grows_advances [OF grows_emit [OF grows_refl]] by blast
qed (rule assms(3))

lemma replica_node_send:
  assumes "sends_well send"
  shows "node_send (send ptr) rgood"
proof
  show "good Q p" if "rgood Q p" for Q p
    using that by (simp add: rgood_def)
  show "rgood Q q" if "rgood Q p" "good Q q" "grows p q" for Q p q
    using that by (rule rgood_frame)
  show "rgood Q q \<and> advances p q"
    if "rgood Q p" "answer m" "msg_ok (Q \<union> proposals p) m" "send ptr to m p = Inr q" for Q p m to q
    using sends_wellD [OF assms that(4)] that by (auto simp: keeps_def answer_def)
qed

lemma keeps_HandleP1a:
  "sends_well send \<Longrightarrow> HandleP1a (send ptr) m to r = Inr r' \<Longrightarrow> keeps r x r'"
  using node_send.inv_P1a [OF replica_node_send] unfolding keeps_def by blast

lemma keeps_HandleP2a:
  assumes "sends_well send" "HandleP2a c (send ptr) m to r = Inr r'" "Ballot_ID (P2a_Ballot m) \<noteq> pid r"
  shows "keeps r (M_P2a m) r'"
  using node_send.inv_P2a [OF replica_node_send [OF assms(1)] _ _ assms(3,2)] unfolding keeps_def by blast

lemma keeps_handleP1aRelay:
  assumes "sends_well send" "handleP1aRelay now send m rm r = Inr (need, r')"
  shows "keeps r (M_P1a m) r'"
proof -
  have s: "keeps r (M_P1a m) r1" if "send ptr to (M_P1a m) r = Inr r1" for ptr to r1
    using sends_wellD [OF assms(1) that] by simp
  have u: "keeps r (M_P1a m) (q\<lparr>pendingP1bRelay := now, p1bRelayRoutedMsg := Some (RoutedMsg hs False i [])\<rparr>)"
    if "keeps r (M_P1a m) q" for q hs i
  proof -
    have "keeps r (M_P1a m) (p\<lparr>p1bRelayRoutedMsg := Some (RoutedMsg hs False i [])\<rparr>)"
      if "keeps r (M_P1a m) p" for p
      using that by (simp add: keeps_def rgood_relay(1))
    from this [of "q\<lparr>pendingP1bRelay := now\<rparr>"] that show ?thesis by simp
  qed
  have h: "keeps r (M_P1a m) r2" if "keeps r (M_P1a m) q" "HandleP1a (send ptr) m to q = Inr r2" for q ptr to r2
    by (rule keeps_trans [OF that(1) keeps_HandleP1a [OF assms(1) that(2), of "M_P1a m"]]) simp
  let ?next = "(Progress rm + 1) mod 256"
  define X where "X = (if ballot r < P1a_Ballot m \<and> ?next < maxDepth r then
      go_bind (if pendingP1bRelay r > 0 then send False (Ballot_ID (ballot r)) (M_P1a m) r else Inr r)
        (\<lambda>r1. Inr (True, r1\<lparr>pendingP1bRelay := now,
           p1bRelayRoutedMsg := Some (RoutedMsg (Hops rm) False (Progress rm) [])\<rparr>))
    else Inr (False, r))"
  obtain r1 to where x: "X = Inr (need, r1)" and y: "HandleP1a (send False) m to r1 = Inr r'"
    using assms(2) unfolding handleP1aRelay_def Let_def X_def [symmetric] by (auto split: if_splits)
  have "keeps r (M_P1a m) r1"
    using x s unfolding X_def by (auto split: if_splits intro: u)
  then show ?thesis
    using y by (rule h)
qed

lemma keeps_newP2bRelay: "keeps r x q \<Longrightarrow> keeps r x (newP2bRelay now m rm q)"
  unfolding newP2bRelay_def keeps_fields by (rule keeps_new_relay) simp_all

lemma keeps_pid: "keeps r m q \<Longrightarrow> rgood Q r \<Longrightarrow> msg_ok (Q \<union> proposals r) m \<Longrightarrow> pid q = pid r"
  by (auto simp: keeps_def advances_def)

lemma keeps_handleP2aRelay:
  assumes "sends_well send" "handleP2aRelay E now send m rm r = Inr r'" "Ballot_ID (P2a_Ballot m) \<noteq> pid r"
  shows "keeps r (M_P2a m) r'"
proof -
  have s: "keeps r (M_P2a m) r1" if "send ptr to (M_P2b x) r = Inr r1" for ptr to x r1
    by (rule keeps_trans [OF keeps_refl sends_wellD [OF assms(1) that]]) simp_all
  have h: "keeps r (M_P2a m) r2" if q: "keeps r (M_P2a m) q" "HandleP2a (conf E) (send ptr) m to q = Inr r2" for q ptr to r2
  proof (cases "Ballot_ID (P2a_Ballot m) = pid q")
    case True
    then show ?thesis
      using keeps_pid [OF q(1)] assms(3) unfolding keeps_def by metis
  next
    case False
    show ?thesis
      by (rule keeps_trans [OF q(1) keeps_HandleP2a [OF assms(1) q(2) False]]) simp
  qed
  show ?thesis
    using assms(2) unfolding handleP2aRelay_def Let_def
    by (auto split: if_splits option.splits intro: h [OF keeps_refl] h [OF keeps_newP2bRelay [OF keeps_refl]]
        h [OF keeps_newP2bRelay [OF s]] h [OF s])
qed

lemma keeps_propagate:
  assumes "keeps r (M_Routed m) q" "propagate m need q = Inr r'"
  shows "keeps r (M_Routed m) r'"
proof -
  have b: "keeps r (M_Routed m) (BroadcastToPeerGroup nodes src (RoutedMsg hs f i (Payload m)) q')"
    if "keeps r (M_Routed m) q'" for nodes src hs f i q'
    unfolding BroadcastToPeerGroup_def
    by (rule fold_invariant [where P = "keeps r (M_Routed m)"]) (use that in \<open>cases m; auto intro!: keeps_emit\<close>)+
  show ?thesis
    using assms by (auto simp: propagate_def Let_def intro: b split: if_splits)
qed


text \<open>A routed proposal that has not come back to its proposer.\<close>

fun own_free :: "ID \<Rightarrow> msg \<Rightarrow> bool" where
  "own_free i (M_Routed (RoutedMsg hs f k (M_P2a m))) \<longleftrightarrow> (f \<longrightarrow> Ballot_ID (P2a_Ballot m) \<noteq> i)"
| "own_free i _ \<longleftrightarrow> True"

lemma keeps_handleRoutedMsg:
  assumes "sends_well send" "handleRoutedMsg E now send rm r = Inr r'" "own_free (pid r) (M_Routed rm)"
  shows "keeps r (M_Routed rm) r'"
proof -
  obtain hs f i x where rm: "rm = RoutedMsg hs f i x" by (cases rm)
  have c: "keeps r (M_Routed rm) q" if "keeps r x q" for q
    by (rule keeps_trans [OF keeps_refl that]) (simp add: rm)
  have p3: "keeps r (M_P3 m) (HandleP3 (conf E) m r)" for m
    by (rule keeps_core) (auto intro: mono_facts)
  show ?thesis
  proof (cases f)
    case True
    show ?thesis
    proof (cases x)
      case (M_P1a m)
      then have fw: "IsForward rm" "Payload rm = M_P1a m"
        using True by (simp_all add: rm)
      obtain need r1 where r1: "handleP1aRelay now send m rm r = Inr (need, r1)"
        and p: "propagate rm need (if need then r1\<lparr>p1bRelayDepth := Progress rm\<rparr> else r1) = Inr r'"
        using assms(2) by (auto simp: handleRoutedMsg_def fw)
      have "keeps r (M_Routed rm) r1"
        by (rule c) (unfold M_P1a, rule keeps_handleP1aRelay [OF assms(1) r1])
      then show ?thesis
        by (intro keeps_propagate [OF _ p]) simp
    next
      case (M_P2a m)
      then show ?thesis
        using assms(2,3) True keeps_propagate [OF c [unfolded M_P2a, OF keeps_handleP2aRelay [OF assms(1)]]]
        by (auto simp: handleRoutedMsg_def rm)
    next
      case (M_P3 m)
      then show ?thesis
        using assms(2) True keeps_propagate [OF c] p3 by (auto simp: handleRoutedMsg_def rm)
    qed (use assms(2) True in \<open>auto simp: handleRoutedMsg_def rm\<close>)
  next
    case False
    then show ?thesis
      using assms(2) c keeps_handleP1bRelay [OF assms(1)] keeps_handleP2bRelay [OF assms(1)]
      by (cases x) (auto simp: handleRoutedMsg_def rm)
  qed
qed

lemma keeps_dispatch:
  assumes "sends_well send" "dispatch E now send m r = Inr r'" "own_free (pid r) m"
    and "\<And>q. m = M_Request q \<Longrightarrow> Ballot_N (ballot r) < 2 ^ 32 - 1"
  shows "keeps r m r'"
proof (cases m)
  case (M_Request q)
  have "keeps r m (HandleRequest now q r)"
    using assms(4) M_Request by (intro keeps_core) (auto intro: grows_HandleRequest good_HandleRequest)
  moreover have "keeps r m (emit (CForward i q) r)" for i
    by (intro keeps_core) (auto intro!: mono_facts good_emit_plain)
  ultimately show ?thesis
    using assms(2) M_Request by (auto simp: dispatch_def handleRequest_def split: if_splits)
next
  case (M_P3 q)
  have "keeps r m (HandleP3 (conf E) q r)"
    by (intro keeps_core) (auto intro: mono_facts)
  then show ?thesis using assms(2) M_P3 by (simp add: dispatch_def)
next
  case (M_P3RecoverRequest q)
  have "keeps r m (HandleP3RecoverRequest q r)"
    by (intro keeps_core) (auto intro: grows_recover)
  then show ?thesis using assms(2) M_P3RecoverRequest by (simp add: dispatch_def)
next
  case (M_P3RecoverReply q)
  have "keeps r m (HandleP3RecoverReply q r)"
    unfolding M_P3RecoverReply by (intro keeps_core) (auto intro: grows_recover good_HandleP3RecoverReply)
  then show ?thesis using assms(2) M_P3RecoverReply by (simp add: dispatch_def)
qed (use assms keeps_handleP1b keeps_handleP1bLeader keeps_handleP2b keeps_handleP2bAggregated
    keeps_handleRoutedMsg in \<open>auto simp: dispatch_def\<close>)

text \<open>A \<open>Send\<close> whose self loop handles the backward messages well.\<close>

lemma sends_well_loop:
  assumes "\<And>m r r'. backward m \<Longrightarrow> own_free (pid r) m \<Longrightarrow> H m r = Inr r' \<Longrightarrow> keeps r m r'"
  shows "sends_well (loop_Send H)"
  unfolding sends_well_def
proof (intro allI impI)
  fix ptr to m r r'
  assume m: "backward m" and r': "loop_Send H ptr to m r = Inr r'"
  show "keeps r m r'"
  proof (cases "to = pid r")
    case True
    moreover have "own_free (pid r) m"
      using m by (cases "(pid r, m)" rule: own_free.cases) simp_all
    ultimately show ?thesis
      using assms [OF m] r' by (auto simp: loop_Send_def split: if_splits)
  next
    case False
    then have "r' = emit (CSend to m) r"
      using r' by (simp add: loop_Send_def)
    then show ?thesis
      using m by (auto simp: backward_def intro!: keeps_emit)
  qed
qed

lemma HandleMsg_sends_well: "sends_well (loop_Send (HandleMsg E now k))"
proof (induction k)
  case 0
  show ?case by (rule sends_well_loop) simp
next
  case (Suc k)
  show ?case
    by (rule sends_well_loop) (use keeps_dispatch [OF Suc] in \<open>fastforce simp: backward_def\<close>)
qed

interpretation relay: node_send "loop_Send (HandleMsg E now k) False" rgood for E now k
  by (rule replica_node_send [OF HandleMsg_sends_well])

section \<open>Carrying out the calls\<close>

definition network_only :: "'a replica_scheme \<Rightarrow> 'a replica_scheme \<Rightarrow> bool" where
  "network_only r q \<longleftrightarrow> (\<exists>ob g k. q = r\<lparr>outbox := ob, GrayNodes := g, draws := k\<rparr>)"

lemma network_only_refl: "network_only r r"
  unfolding network_only_def
  by (intro exI [of _ "outbox r"] exI [of _ "GrayNodes r"] exI [of _ "draws r"]) (cases r; simp)

lemma network_only_trans: "network_only p q \<Longrightarrow> network_only q r \<Longrightarrow> network_only p r"
  unfolding network_only_def by fastforce

lemma network_only_Node_Send: "network_only r (Node_Send E now to m (r\<lparr>draws := k\<rparr>))"
  unfolding network_only_def Node_Send_def
  by (cases r) (auto intro: exI)

lemma network_only_keeps:
  "network_only r q \<Longrightarrow> rgood Q r \<Longrightarrow> rgood Q q \<and> advances r q"
  unfolding network_only_def by auto


lemma GetRandomNodeId_Inr:
  assumes "GetRandomNodeId nodes x gray draw k = Inr (i, j)"
  shows "i \<in> set nodes \<and> i \<noteq> x \<and> i \<notin> set gray"
proof -
  have "nodes \<noteq> []" "pick_node nodes x gray draw k = Some (i, j)"
    using assms by (auto simp: GetRandomNodeId_def split: if_splits option.splits)
  then show ?thesis
    using pick_node_Some by fastforce
qed

text \<open>An eligible relay of a group.\<close>

definition eligible :: "'a replica_scheme \<Rightarrow> goint \<Rightarrow> ID \<Rightarrow> bool" where
  "eligible r i j \<longleftrightarrow> (\<exists>nodes. slice_at (relayGroups r) i = Inr (Some nodes) \<and> j \<in> set nodes \<and>
     j \<noteq> pid r \<and> j \<notin> fst ` set (GrayNodes r))"

lemma Broadcast_to_step:
  assumes "Broadcast_to E now m i r = Inr q" "\<not> fixedrelay E" "\<forall>j. reachable E j"
  obtains j k where "eligible r i j" "q = r\<lparr>draws := k, outbox := outbox r @ [(j, M_Routed (RoutedMsg [pid r] True 0 m))]\<rparr>"
proof -
  obtain nodes j k where c: "slice_at (relayGroups r) i = Inr (Some nodes)"
    "GetRandomNodeId nodes (pid r) (map fst (GrayNodes r)) (rnd E) (draws r) = Inr (j, k)"
    "q = Node_Send E now j (M_Routed (RoutedMsg [pid r] True 0 m)) (r\<lparr>draws := k\<rparr>)"
    using assms(1,2) by (auto simp: Broadcast_to_def choose_relay_def simp del: slice_at_Inr split: if_splits)
  have "eligible r i j"
    using GetRandomNodeId_Inr [OF c(2)] c(1) by (auto simp: eligible_def)
  moreover have "q = r\<lparr>draws := k, outbox := outbox r @ [(j, M_Routed (RoutedMsg [pid r] True 0 m))]\<rparr>"
    using c(3) assms(3) by (simp add: Node_Send_def)
  ultimately show ?thesis by (rule that)
qed

lemma Broadcast_fold:
  assumes "go_fold (Broadcast_to E now m) is r = Inr q" "\<not> fixedrelay E" "\<forall>j. reachable E j"
  shows "\<exists>js k. list_all2 (eligible r) is js \<and>
    q = r\<lparr>draws := k, outbox := outbox r @ map (\<lambda>j. (j, M_Routed (RoutedMsg [pid r] True 0 m))) js\<rparr>"
  using assms(1)
proof (induction "is" arbitrary: r)
  case Nil
  then show ?case by (intro exI [of _ "[]"] exI [of _ "draws r"]) (cases r; simp)
next
  case (Cons i "is")
  then obtain r1 where r1: "Broadcast_to E now m i r = Inr r1" "go_fold (Broadcast_to E now m) is r1 = Inr q"
    by auto
  obtain j k where j: "eligible r i j"
    "r1 = r\<lparr>draws := k, outbox := outbox r @ [(j, M_Routed (RoutedMsg [pid r] True 0 m))]\<rparr>"
    using Broadcast_to_step [OF r1(1) assms(2,3)] .
  have same: "eligible r1 = eligible r"
    by (simp add: j(2) eligible_def fun_eq_iff)
  obtain js k' where js: "list_all2 (eligible r1) is js"
    "q = r1\<lparr>draws := k', outbox := outbox r1 @ map (\<lambda>j. (j, M_Routed (RoutedMsg [pid r1] True 0 m))) js\<rparr>"
    using Cons.IH [OF r1(2)] by blast
  show ?case
    by (intro exI [of _ "j # js"] exI [of _ k']) (use js j same in simp)
qed

text \<open>A broadcast that returns sends the message once to each relay group, to a member of the group that
  is neither the sender nor gray, as a forward message whose only hop is the sender; it changes
  nothing else.\<close>

theorem broadcast_one_relay_per_group:
  assumes "Broadcast E now m r = Inr q" and "\<not> fixedrelay E" and "\<forall>j. reachable E j"
  shows "\<exists>js k. list_all2 (eligible r) [0 .. numRelayGroups r - 1] js \<and> length js = nat (numRelayGroups r) \<and>
    q = r\<lparr>draws := k, outbox := outbox r @ map (\<lambda>j. (j, M_Routed (RoutedMsg [pid r] True 0 m))) js\<rparr>"
proof -
  obtain js k where "list_all2 (eligible r) [0 .. numRelayGroups r - 1] js"
    "q = r\<lparr>draws := k, outbox := outbox r @ map (\<lambda>j. (j, M_Routed (RoutedMsg [pid r] True 0 m))) js\<rparr>"
    using Broadcast_fold [OF assms(1) [unfolded Broadcast_def] assms(2,3)] by blast
  moreover from this(1) have "length js = nat (numRelayGroups r)"
    by (auto dest!: list_all2_lengthD)
  ultimately show ?thesis by blast
qed

theorem broadcast_one_relay_per_group_witness:
  "\<exists>js. list_all2 (eligible relay_example) [0] js \<and> length js = 1"
proof -
  have "\<exists>q. Broadcast example_env 0 (M_P3 (P3 0 [])) relay_example = Inr q"
    by (auto simp: Broadcast_def Broadcast_to_def choose_relay_def GetRandomNodeId_def pick_node_step
        relay_example_def example_env_def slice_at_def pigpaxos.defs NewPigPaxos_def)
  then show ?thesis
    using broadcast_one_relay_per_group [of example_env 0 "M_P3 (P3 0 [])" relay_example]
    by (auto simp: example_env_def relay_example_def pigpaxos.defs)
qed

lemma Broadcast_network_only: "Broadcast E now m r = Inr q \<Longrightarrow> network_only r q"
  unfolding Broadcast_def
proof (erule go_fold_invariant)
  fix x u v
  assume "network_only r u" "Broadcast_to E now m x u = Inr v"
  then show "network_only r v"
    by (auto simp: Broadcast_to_def intro: network_only_trans network_only_Node_Send split: if_splits)
qed (rule network_only_refl)

lemma transmit_network_only: "transmit E now n r = Inr q \<Longrightarrow> network_only r q"
  unfolding transmit_def
proof (erule go_fold_invariant)
  fix x u v
  assume "network_only r u" and v: "transmit_call E now x u = Inr v"
  have s: "network_only u (Node_Send E now to m u)" for to m
    using network_only_Node_Send [of u E now to m "draws u"] by simp
  have o: "network_only u (u\<lparr>outbox := ob\<rparr>)" for ob
    unfolding network_only_def by (intro exI [of _ ob] exI [of _ "GrayNodes u"] exI [of _ "draws u"]) simp
  have "network_only u v"
    using v s o network_only_refl Broadcast_network_only
    by (auto simp: transmit_call_def split: call.splits if_splits)
  with \<open>network_only r u\<close> show "network_only r v"
    by (rule network_only_trans)
qed (rule network_only_refl)

text \<open>C11: Handling a message at the replica level, with everything it sends to itself on the way and with
  the calls carried out on the network, keeps the invariant of the protocol core, from which the
  agreement of the logs per ballot and slot follows: a replica proposes one command per ballot and
  slot, and only as the owner of the ballot; and what it keeps in its log, in the promises
  it holds for others and in what it has sent comes from proposals.\<close>

theorem replica_keeps_the_invariant:
  assumes "rgood Q r" and "msg_ok (Q \<union> proposals r) m" and "own_free (pid r) m"
    and "Ballot_N (ballot r) < 2 ^ 32 - 1" and "deliver E now k m r = Inr r'"
  shows "rgood Q r' \<and> advances r r'"
proof -
  from assms(5) obtain r1 where r1: "HandleMsg E now k m r = Inr r1" "transmit E now (length (calls r)) r1 = Inr r'"
    by (auto simp: deliver_def)
  then obtain j where "k = Suc j"
    by (cases k) auto
  then have "keeps r m r1"
    using keeps_dispatch [OF HandleMsg_sends_well _ assms(3,4)] r1(1) by simp
  then have "rgood Q r1" "advances r r1"
    using assms(1,2) by (auto simp: keeps_def)
  then show ?thesis
    using network_only_keeps [OF transmit_network_only [OF r1(2)]] advances_trans by blast
qed


theorem replica_keeps_the_invariant_witness:
  "\<exists>r'. deliver example_env 5 2 (M_Routed (RoutedMsg [1] True 0
       (M_P2a (P2a (NewBallot 1 1) 3 0 zero_command (P3 0 []))))) relay_example = Inr r' \<and>
     rgood {(NewBallot 1 1, 3, zero_command)} r'"
proof -
  let ?Q = "{(NewBallot 1 1, 3 :: goint, zero_command)}"
  let ?m = "M_Routed (RoutedMsg [1] True 0 (M_P2a (P2a (NewBallot 1 1) 3 0 zero_command (P3 0 []))))"
  have "case deliver example_env 5 2 ?m relay_example of Inl _ \<Rightarrow> False | Inr _ \<Rightarrow> True"
    by code_simp
  then obtain r' where r': "deliver example_env 5 2 ?m relay_example = Inr r'"
    by (auto split: sum.splits)
  have "rgood ?Q relay_example"
    by (simp add: rgood_def good_defs relay_example_def pigpaxos.defs NewPigPaxos_def proposals_def sent_def)
  moreover have "Ballot_N (ballot relay_example) < 2 ^ 32 - 1"
    by (simp add: relay_example_def pigpaxos.defs NewPigPaxos_def Ballot_N_def)
  ultimately show ?thesis
    using replica_keeps_the_invariant [of ?Q relay_example ?m example_env 5 2, OF _ _ _ _ r'] r' by auto
qed

end
