(* ===== verification/Paxos.thy ===== *)
theory Paxos
  imports PigFacts
begin

text \<open>
  The plain Paxos of \<open>paxos/paxos.go\<close> and \<open>paxos/replica.go\<close>: the same protocol without relays. Votes are
  single, a recovery asks for several slots, the execute loop does not look at the ballot of an
  entry, and reads may be served from the log. The log entries and the promise have the same
  fields as in \<open>pigpaxos\<close> and share its types.
\<close>

section \<open>Messages and state\<close>

datatype Paxos_P2b =
  Paxos_P2b (V_Ballot: Ballot) (V_ID: ID) (V_Slot: goint) (V_LastExecutedSlot: goint)

datatype Paxos_RecoverRequest =
  Paxos_RecoverRequest (Q_Ballot: Ballot) (Q_Slots: "goint list") (Q_NodeId: ID)

datatype Paxos_RecoverReply =
  Paxos_RecoverReply (A_Ballot: Ballot) (A_Slots: "goint list") (A_Commands: "Command list")

datatype paxos_msg =
    X_P1a P1a
  | X_P1b P1b
  | X_P2a P2a
  | X_P2b Paxos_P2b
  | X_P3 P3
  | X_RecoverRequest Paxos_RecoverRequest
  | X_RecoverReply Paxos_RecoverReply

datatype paxos_call =
    XSend ID paxos_msg
  | XBroadcast paxos_msg
  | XMulticastQuorum goint paxos_msg
  | XForward ID Request
  | XReply Request Reply

definition ExecuteSlack :: goint where
  "ExecuteSlack = 10"

record paxos =
  x_id :: ID
  x_db :: database
  x_log :: "(goint, entry) fmap"
  x_execute :: goint
  x_active :: bool
  x_ballot :: Ballot
  x_slot :: goint
  x_p3PendingBallot :: Ballot
  x_p3pendingSlots :: "goint list"
  x_lastP3Time :: goint
  x_lastCleanupMarker :: goint
  x_globalExecuted :: goint
  x_executeByNode :: "(ID \<times> goint) list"
  x_quorum :: quorum
  x_requests :: "Request list"
  x_ReplyWhenCommit :: bool
  x_calls :: "paxos_call list"

text \<open>\<open>ids\<close> are the configured nodes (\<open>Config.IDs\<close>).\<close>

definition NewPaxos :: "config \<Rightarrow> ID list \<Rightarrow> ID \<Rightarrow> paxos" where
  "NewPaxos c ids self =
     \<lparr>x_id = self, x_db = NewDatabase c, x_log = fmempty, x_execute = 0, x_active = False,
      x_ballot = 0, x_slot = - 1, x_p3PendingBallot = 0, x_p3pendingSlots = [], x_lastP3Time = 0,
      x_lastCleanupMarker = 0, x_globalExecuted = 0,
      x_executeByNode = fold (\<lambda>i. AList.update i 0) ids [], x_quorum = NewQuorum, x_requests = [],
      x_ReplyWhenCommit = False, x_calls = []\<rparr>"

definition x_emit :: "paxos_call \<Rightarrow> paxos \<Rightarrow> paxos" where
  "x_emit x p = p\<lparr>x_calls := x_calls p @ [x]\<rparr>"

definition x_set_entry :: "goint \<Rightarrow> entry \<Rightarrow> paxos \<Rightarrow> paxos" where
  "x_set_entry s e p = p\<lparr>x_log := fmupd s e (x_log p)\<rparr>"

section \<open>Accessors, announcements and cleanup\<close>

definition Paxos_IsLeader :: "paxos \<Rightarrow> bool" where
  "Paxos_IsLeader p \<longleftrightarrow> x_active p \<or> Ballot_ID (x_ballot p) = x_id p"

definition Paxos_Leader :: "paxos \<Rightarrow> ID" where
  "Paxos_Leader p = Ballot_ID (x_ballot p)"

definition P3Sync :: "goint \<Rightarrow> paxos \<Rightarrow> paxos" where
  "P3Sync tnow p =
     (if tnow - 10 > x_lastP3Time p \<and> x_lastP3Time p > 0 \<and> x_p3PendingBallot p > 0
      then (x_emit (XBroadcast (X_P3 (P3 (x_p3PendingBallot p) (x_p3pendingSlots p)))) p)
             \<lparr>x_lastP3Time := tnow, x_p3pendingSlots := []\<rparr>
      else p)"

definition Paxos_sendRecoverRequest :: "Ballot \<Rightarrow> goint list \<Rightarrow> paxos \<Rightarrow> paxos" where
  "Paxos_sendRecoverRequest b slots p =
     x_emit (XSend (Ballot_ID b) (X_RecoverRequest (Paxos_RecoverRequest b slots (x_id p)))) p"

definition CheckNeedForRecovery :: "paxos \<Rightarrow> paxos" where
  "CheckNeedForRecovery p =
     (if x_execute p + ExecuteSlack < x_slot p then
        Paxos_sendRecoverRequest (x_ballot p)
          (filter (\<lambda>s. case fmlookup (x_log p) s of None \<Rightarrow> True | Some e \<Rightarrow> \<not> e_commit e)
             [x_execute p .. x_slot p - ExecuteSlack - 1]) p
      else p)"

definition UpdateLastExecutedByNode :: "ID \<Rightarrow> goint \<Rightarrow> paxos \<Rightarrow> paxos" where
  "UpdateLastExecutedByNode i lastExecute p =
     p\<lparr>x_executeByNode := AList.update i lastExecute (x_executeByNode p)\<rparr>"

definition GetGlobalExecuteMarker :: "paxos \<Rightarrow> goint \<times> paxos" where
  "GetGlobalExecuteMarker p =
     (let p1 = (if Paxos_IsLeader p
                then p\<lparr>x_globalExecuted := fold (\<lambda>c marker. if c < marker then c else marker)
                         (map snd (x_executeByNode p)) (x_execute p)\<rparr>
                else p)
      in (x_globalExecuted p1, p1))"

definition Paxos_CleanupLog :: "paxos \<Rightarrow> paxos" where
  "Paxos_CleanupLog p =
     (let (marker, p1) = GetGlobalExecuteMarker p
      in p1\<lparr>x_log := fold fmdrop [x_lastCleanupMarker p1 .. marker - 1] (x_log p1),
            x_lastCleanupMarker := marker\<rparr>)"

section \<open>Executing\<close>

definition paxos_reply :: "goint \<Rightarrow> entry \<Rightarrow> Value \<Rightarrow> Reply" where
  "paxos_reply s e v =
     \<lparr>yCommand = e_command e, yValue = v,
      yProperties = [(''Slot'', Itoa s), (''Ballot'', Ballot_String (e_ballot e)), (''Execute'', Itoa s)],
      yTimestamp = 0\<rparr>"

definition Paxos_exec_entry :: "entry \<Rightarrow> paxos \<Rightarrow> paxos" where
  "Paxos_exec_entry e p =
     (let (d, value) = Execute (e_command e) (x_db p);
          p1 = p\<lparr>x_db := d\<rparr>;
          p2 = (case e_request e of
                  None \<Rightarrow> p1
                | Some r \<Rightarrow> x_set_entry (x_execute p1) (e\<lparr>e_request := None\<rparr>)
                              (x_emit (XReply r (paxos_reply (x_execute p1) e value)) p1))
      in p2\<lparr>x_execute := x_execute p2 + 1\<rparr>)"

lemma Paxos_exec_entry_simps [simp]:
  "x_execute (Paxos_exec_entry e p) = x_execute p + 1"
  "fmdom (x_log (Paxos_exec_entry e p)) =
     (if e_request e = None then fmdom (x_log p) else finsert (x_execute p) (fmdom (x_log p)))"
  by (auto simp: Paxos_exec_entry_def Let_def x_set_entry_def x_emit_def split: prod.splits option.splits)

function Paxos_exec :: "paxos \<Rightarrow> paxos" where
  "Paxos_exec p =
     (case fmlookup (x_log p) (x_execute p) of
        None \<Rightarrow> p
      | Some e \<Rightarrow> if \<not> e_commit e then p else Paxos_exec (Paxos_exec_entry e p))"
  by pat_completeness auto
termination
proof (relation "measure (\<lambda>p. card {k \<in> fset (fmdom (x_log p)). x_execute p \<le> k})", goal_cases)
  case (2 p e)
  let ?A = "{k \<in> fset (fmdom (x_log p)). x_execute p \<le> k}"
  have dom: "x_execute p \<in> fset (fmdom (x_log p))"
    using 2(1) by (rule fmdomI)
  then have "{k \<in> fset (fmdom (x_log (Paxos_exec_entry e p))). x_execute (Paxos_exec_entry e p) \<le> k}
      \<subseteq> ?A - {x_execute p}"
    by auto
  moreover have "?A - {x_execute p} \<subset> ?A"
    using dom by auto
  ultimately show ?case
    by (auto intro!: psubset_card_mono)
qed simp

declare Paxos_exec.simps [simp del]

section \<open>Proposing\<close>

definition Paxos_P1a :: "paxos \<Rightarrow> paxos" where
  "Paxos_P1a p =
     (if x_active p then p
      else let p1 = p\<lparr>x_ballot := Ballot_Next (x_ballot p) (x_id p),
                      x_quorum := ACK (x_id p) (Reset (x_quorum p))\<rparr>
           in x_emit (XBroadcast (X_P1a (P1a (x_ballot p1)))) p1)"

definition Paxos_P2a :: "config \<Rightarrow> goint \<Rightarrow> Request \<Rightarrow> paxos \<Rightarrow> paxos" where
  "Paxos_P2a c now r p =
     (let p1 = p\<lparr>x_slot := x_slot p + 1\<rparr>;
          p2 = x_set_entry (x_slot p1)
                 \<lparr>e_ballot = x_ballot p1, e_command = rCommand r, e_commit = False,
                  e_request = Some r, e_quorum = Some (ACK (x_id p1) NewQuorum), e_timestamp = now\<rparr> p1;
          (p3msg, p3) =
            (if x_p3PendingBallot p2 > 0
             then (P3 (x_p3PendingBallot p2) (x_p3pendingSlots p2),
                   p2\<lparr>x_p3pendingSlots := [], x_lastP3Time := CurrentTimeInMS now\<rparr>)
             else (P3 0 [], p2));
          m = X_P2a (P2a (x_ballot p3) (x_slot p3) (x_globalExecuted p3) (rCommand r) p3msg)
      in if cfg_Thrifty c then x_emit (XMulticastQuorum (cfg_n c sdiv 2 + 1) m) p3
         else x_emit (XBroadcast m) p3)"

definition Paxos_HandleRequest :: "config \<Rightarrow> goint \<Rightarrow> Request \<Rightarrow> paxos \<Rightarrow> paxos" where
  "Paxos_HandleRequest c now r p =
     (if \<not> x_active p then
        let p1 = p\<lparr>x_requests := x_requests p @ [r]\<rparr>
        in if Ballot_ID (x_ballot p1) \<noteq> x_id p1 then Paxos_P1a p1 else p1
      else Paxos_P2a c now r p)"

section \<open>Phase 1\<close>

definition Paxos_forward :: "paxos \<Rightarrow> paxos" where
  "Paxos_forward p =
     (fold (\<lambda>m p. x_emit (XForward (Ballot_ID (x_ballot p)) m) p) (x_requests p) p)\<lparr>x_requests := []\<rparr>"

definition Paxos_uncommitted_log :: "paxos \<Rightarrow> (goint \<times> CommandBallot) list" where
  "Paxos_uncommitted_log p =
     List.map_filter
       (\<lambda>s. case fmlookup (x_log p) s of
              None \<Rightarrow> None
            | Some e \<Rightarrow> if e_commit e then None
                        else Some (s, CommandBallot (e_command e) (e_ballot e)))
       [x_execute p .. x_slot p]"

definition Paxos_HandleP1a :: "P1a \<Rightarrow> paxos \<Rightarrow> paxos" where
  "Paxos_HandleP1a m p =
     (let p1 = (if P1a_Ballot m > x_ballot p
                then Paxos_forward (p\<lparr>x_ballot := P1a_Ballot m, x_active := False\<rparr>) else p)
      in x_emit (XSend (Ballot_ID (P1a_Ballot m))
           (X_P1b (P1b (x_id p1) (x_ballot p1) (Paxos_uncommitted_log p1)))) p1)"

fun Paxos_update_slot :: "goint \<times> CommandBallot \<Rightarrow> paxos \<Rightarrow> paxos" where
  "Paxos_update_slot (s, cb) p =
     (let p1 = p\<lparr>x_slot := goMax (x_slot p) s\<rparr>
      in case fmlookup (x_log p1) s of
           Some e \<Rightarrow>
             if \<not> e_commit e \<and> cbBallot cb > e_ballot e
             then x_set_entry s (e\<lparr>e_ballot := cbBallot cb, e_command := cbCommand cb\<rparr>) p1 else p1
         | None \<Rightarrow> x_set_entry s (follower_entry (cbBallot cb) (cbCommand cb)) p1)"

definition Paxos_update :: "(goint \<times> CommandBallot) list \<Rightarrow> paxos \<Rightarrow> paxos" where
  "Paxos_update scb p = fold Paxos_update_slot scb p"

definition Paxos_repropose :: "goint \<Rightarrow> paxos \<Rightarrow> paxos" where
  "Paxos_repropose i p =
     (case fmlookup (x_log p) i of
        None \<Rightarrow> p
      | Some e \<Rightarrow>
          if e_commit e then p
          else x_emit (XBroadcast (X_P2a (P2a (x_ballot p) i (x_globalExecuted p) (e_command e) (P3 0 []))))
                 (x_set_entry i (e\<lparr>e_ballot := x_ballot p, e_quorum := Some (ACK (x_id p) NewQuorum)\<rparr>) p))"

definition Paxos_become_leader :: "config \<Rightarrow> goint \<Rightarrow> paxos \<Rightarrow> paxos" where
  "Paxos_become_leader c now p =
     (let p1 = p\<lparr>x_active := True, x_p3PendingBallot := x_ballot p\<rparr>;
          p2 = fold Paxos_repropose [x_execute p1 .. x_slot p1] p1;
          p3 = fold (Paxos_P2a c now) (x_requests p2) p2
      in p3\<lparr>x_requests := []\<rparr>)"

definition Paxos_HandleP1b :: "config \<Rightarrow> goint \<Rightarrow> P1b \<Rightarrow> paxos \<Rightarrow> paxos" where
  "Paxos_HandleP1b c now m p =
     (if P1b_Ballot m < x_ballot p \<or> x_active p then p
      else
        let p1 = Paxos_update (P1b_Log m) p;
            p2 = (if P1b_Ballot m > x_ballot p1
                  then Paxos_forward (p1\<lparr>x_ballot := P1b_Ballot m, x_active := False\<rparr>) else p1)
        in if Ballot_ID (P1b_Ballot m) = x_id p2 \<and> P1b_Ballot m = x_ballot p2
           then let p3 = p2\<lparr>x_quorum := ACK (P1b_ID m) (x_quorum p2)\<rparr>
                in if Majority c (x_quorum p3) then Paxos_become_leader c now p3 else p3
           else p2)"

section \<open>Phases 2 and 3\<close>

definition Paxos_p3_slot :: "Ballot \<Rightarrow> goint \<Rightarrow> paxos \<Rightarrow> paxos" where
  "Paxos_p3_slot b s p =
     (let p0 = p\<lparr>x_slot := goMax (x_slot p) s\<rparr>;
          p1 = (case fmlookup (x_log p0) s of
                  Some e \<Rightarrow>
                    if e_ballot e = b then x_set_entry s (e\<lparr>e_commit := True\<rparr>) p0
                    else (case e_request e of
                            Some r \<Rightarrow>
                              Paxos_sendRecoverRequest b [s]
                                (x_set_entry s (e\<lparr>e_request := None\<rparr>)
                                  (x_emit (XForward (Ballot_ID b) r) p0))
                          | None \<Rightarrow> p0)
                | None \<Rightarrow> x_set_entry s placeholder p0)
      in if x_ReplyWhenCommit p1 then
           (case fmlookup (x_log p1) s of
              None \<Rightarrow> p1
            | Some e \<Rightarrow> (case e_request e of
                           None \<Rightarrow> p1
                         | Some r \<Rightarrow> x_emit (XReply r (mk_Reply (rCommand r) None (rTimestamp r))) p1))
         else p1)"

definition Paxos_HandleP3 :: "P3 \<Rightarrow> paxos \<Rightarrow> paxos" where
  "Paxos_HandleP3 m p = Paxos_exec (fold (Paxos_p3_slot (P3_Ballot m)) (P3_Slot m) p)"

definition Paxos_accept_entry :: "P2a \<Rightarrow> paxos \<Rightarrow> paxos" where
  "Paxos_accept_entry m p =
     (case fmlookup (x_log p) (P2a_Slot m) of
        Some e \<Rightarrow>
          if \<not> e_commit e \<and> P2a_Ballot m > e_ballot e then
            (case (if \<not> Command_Equal (e_command e) (P2a_Command m) then e_request e else None) of
               Some r \<Rightarrow>
                 x_set_entry (P2a_Slot m)
                   (e\<lparr>e_request := None, e_command := P2a_Command m, e_ballot := P2a_Ballot m\<rparr>)
                   (x_emit (XForward (Ballot_ID (P2a_Ballot m)) r) p)
             | None \<Rightarrow>
                 x_set_entry (P2a_Slot m) (e\<lparr>e_command := P2a_Command m, e_ballot := P2a_Ballot m\<rparr>) p)
          else if e_commit e \<and> e_ballot e = 0 then
            x_set_entry (P2a_Slot m) (e\<lparr>e_command := P2a_Command m, e_ballot := P2a_Ballot m\<rparr>) p
          else p
      | None \<Rightarrow> x_set_entry (P2a_Slot m) (follower_entry (P2a_Ballot m) (P2a_Command m)) p)"

definition Paxos_HandleP2a :: "P2a \<Rightarrow> paxos \<Rightarrow> paxos" where
  "Paxos_HandleP2a m p =
     (let p1 = (if P2a_Ballot m \<ge> x_ballot p
                then Paxos_accept_entry m
                       (p\<lparr>x_ballot := P2a_Ballot m, x_globalExecuted := P2a_GlobalExecute m,
                          x_active := False, x_slot := goMax (x_slot p) (P2a_Slot m)\<rparr>)
                else p);
          p2 = x_emit (XSend (Ballot_ID (P2a_Ballot m))
                 (X_P2b (Paxos_P2b (x_ballot p1) (x_id p1) (P2a_Slot m) (x_execute p1)))) p1
      in if P3_Slot (P2a_P3msg m) \<noteq> [] then Paxos_HandleP3 (P2a_P3msg m) p2 else p2)"

definition Paxos_step_down :: "goint \<Rightarrow> Ballot \<Rightarrow> paxos \<Rightarrow> paxos" where
  "Paxos_step_down now b p =
     (x_emit (XBroadcast (X_P3 (P3 (x_p3PendingBallot p) (x_p3pendingSlots p))))
        (p\<lparr>x_ballot := b, x_active := False\<rparr>))
       \<lparr>x_lastP3Time := CurrentTimeInMS now, x_p3pendingSlots := [], x_p3PendingBallot := 0\<rparr>"

definition Paxos_commit_slot :: "goint \<Rightarrow> entry \<Rightarrow> paxos \<Rightarrow> paxos go" where
  "Paxos_commit_slot s e p =
     (let p1 = x_set_entry s (e\<lparr>e_commit := True\<rparr>) p;
          p2 = p1\<lparr>x_p3pendingSlots := x_p3pendingSlots p1 @ [s]\<rparr>
      in if x_ReplyWhenCommit p2 then
           (case e_request e of
              None \<Rightarrow> Inl NilDeref
            | Some r \<Rightarrow> Inr (x_emit (XReply r (mk_Reply (rCommand r) None (rTimestamp r))) p2))
         else Inr (Paxos_exec p2))"

definition Paxos_HandleP2b :: "config \<Rightarrow> goint \<Rightarrow> Paxos_P2b \<Rightarrow> paxos \<Rightarrow> paxos go" where
  "Paxos_HandleP2b c now m p =
     (case fmlookup (x_log p) (V_Slot m) of
        None \<Rightarrow> Inr p
      | Some e \<Rightarrow>
          if V_Ballot m < e_ballot e \<or> e_commit e then Inr p
          else
            let p0 = UpdateLastExecutedByNode (V_ID m) (V_LastExecutedSlot m) p;
                p1 = (if V_Ballot m > x_ballot p0 then Paxos_step_down now (V_Ballot m) p0 else p0)
            in if Ballot_ID (V_Ballot m) = x_id p1 \<and> V_Ballot m = e_ballot e then
                 (case e_quorum e of
                    None \<Rightarrow> Inl NilDeref
                  | Some q \<Rightarrow>
                      let e1 = e\<lparr>e_quorum := Some (ACK (V_ID m) q)\<rparr>;
                          p2 = x_set_entry (V_Slot m) e1 p1
                      in if Majority c (ACK (V_ID m) q) then Paxos_commit_slot (V_Slot m) e1 p2
                         else Inr p2)
               else Inr p1)"

section \<open>Recovery of slots\<close>

definition Paxos_committed :: "paxos \<Rightarrow> goint \<Rightarrow> (goint \<times> Command) option" where
  "Paxos_committed p s =
     (case fmlookup (x_log p) s of
        None \<Rightarrow> None | Some e \<Rightarrow> if e_commit e then Some (s, e_command e) else None)"

definition Paxos_HandleP3RecoverRequest :: "Paxos_RecoverRequest \<Rightarrow> paxos \<Rightarrow> paxos" where
  "Paxos_HandleP3RecoverRequest m p =
     (let found = List.map_filter (Paxos_committed p) (Q_Slots m)
      in x_emit (XSend (Q_NodeId m)
           (X_RecoverReply (Paxos_RecoverReply (x_ballot p) (map fst found) (map snd found)))) p)"

definition recovered_entry :: "goint \<Rightarrow> Ballot \<Rightarrow> Command \<Rightarrow> entry" where
  "recovered_entry now b cmd =
     \<lparr>e_ballot = b, e_command = cmd, e_commit = True, e_request = None, e_quorum = None,
      e_timestamp = now\<rparr>"

text \<open>The loop indexes \<open>m.Commands[i]\<close> for every position \<open>i\<close> of \<open>m.Slots\<close>.\<close>

definition Paxos_HandleP3RecoverReply :: "goint \<Rightarrow> Paxos_RecoverReply \<Rightarrow> paxos \<Rightarrow> paxos go" where
  "Paxos_HandleP3RecoverReply now m p =
     go_bind
       (go_fold (\<lambda>(i, s) p.
            let p1 = p\<lparr>x_slot := goMax (x_slot p) s\<rparr>
            in go_bind (slice_at (A_Commands m) (int i))
                 (\<lambda>cmd. Inr (x_set_entry s (recovered_entry now (A_Ballot m) cmd) p1)))
          (List.enumerate 0 (A_Slots m)) p)
       (\<lambda>p1. Inr (Paxos_exec p1))"

section \<open>The replica\<close>

record paxos_env =
  v_config :: config
  v_ephemeralLeader :: bool
  v_read :: string

text \<open>One tick of the loop of \<open>startTicker\<close>: \<open>n\<close> is the value of \<open>ticks\<close>, \<open>now\<close> the clock.\<close>

definition cleanupMultiplier :: nat where
  "cleanupMultiplier = 3"

definition Paxos_tick :: "nat \<Rightarrow> goint \<Rightarrow> paxos \<Rightarrow> paxos" where
  "Paxos_tick n now p =
     (let p1 = (if n mod cleanupMultiplier = 0 then Paxos_CleanupLog p else p)
      in if Paxos_IsLeader p1 then P3Sync (now sdiv 1000000) p1 else CheckNeedForRecovery p1)"

text \<open>The loop of \<open>readInProgress\<close> runs from the highest slot down to the next one to execute.\<close>

fun in_progress :: "paxos \<Rightarrow> Key \<Rightarrow> goint list \<Rightarrow> Value option" where
  "in_progress p k [] = None"
| "in_progress p k (i # is) =
     (case fmlookup (x_log p) i of
        Some e \<Rightarrow> if cKey (e_command e) = k then Some (cValue (e_command e)) else in_progress p k is
      | None \<Rightarrow> in_progress p k is)"

definition readInProgress :: "Request \<Rightarrow> paxos \<Rightarrow> Value \<times> bool \<times> paxos" where
  "readInProgress m p =
     (case in_progress p (cKey (rCommand m)) (rev [x_execute p .. x_slot p]) of
        Some v \<Rightarrow> (v, True, p)
      | None \<Rightarrow> (let (d, v) = Execute (rCommand m) (x_db p) in (v, False, p\<lparr>x_db := d\<rparr>)))"

definition FormatBool :: "bool \<Rightarrow> string" where
  "FormatBool b = (if b then ''true'' else ''false'')"

definition Paxos_handleRequest :: "paxos_env \<Rightarrow> goint \<Rightarrow> Request \<Rightarrow> paxos \<Rightarrow> paxos" where
  "Paxos_handleRequest E now m p =
     (if IsRead (rCommand m) \<and> v_read E \<noteq> [] then
        let (v, inProgress, p1) = readInProgress m p
        in x_emit (XReply m
             \<lparr>yCommand = rCommand m, yValue = v,
              yProperties = [(''Slot'', Itoa (x_slot p1)), (''Ballot'', Ballot_String (x_ballot p1)),
                (''Execute'', Itoa (x_execute p1 - 1)), (''Inprogress'', FormatBool inProgress)],
              yTimestamp = now sdiv 1000000000\<rparr>) p1
      else if v_ephemeralLeader E \<or> Paxos_IsLeader p \<or> x_ballot p = 0
      then Paxos_HandleRequest (v_config E) now m p
      else x_emit (XForward (Paxos_Leader p) m) p)"

text \<open>What a node reacts to; every event carries the clock, a tick also the number of the tick.\<close>

datatype paxos_event = XMsg paxos_msg | XRequest Request | XTick nat

fun paxos_handle :: "paxos_env \<Rightarrow> goint \<Rightarrow> paxos_event \<Rightarrow> paxos \<Rightarrow> paxos go" where
  "paxos_handle E now (XMsg (X_P1a m)) p = Inr (Paxos_HandleP1a m p)"
| "paxos_handle E now (XMsg (X_P1b m)) p = Inr (Paxos_HandleP1b (v_config E) now m p)"
| "paxos_handle E now (XMsg (X_P2a m)) p = Inr (Paxos_HandleP2a m p)"
| "paxos_handle E now (XMsg (X_P2b m)) p = Paxos_HandleP2b (v_config E) now m p"
| "paxos_handle E now (XMsg (X_P3 m)) p = Inr (Paxos_HandleP3 m p)"
| "paxos_handle E now (XMsg (X_RecoverRequest m)) p = Inr (Paxos_HandleP3RecoverRequest m p)"
| "paxos_handle E now (XMsg (X_RecoverReply m)) p = Paxos_HandleP3RecoverReply now m p"
| "paxos_handle E now (XRequest r) p = Inr (Paxos_handleRequest E now r p)"
| "paxos_handle E now (XTick n) p = Inr (Paxos_tick n now p)"

definition paxos_run :: "paxos_env \<Rightarrow> (goint \<times> paxos_event) list \<Rightarrow> paxos \<Rightarrow> paxos go" where
  "paxos_run E evs p = go_fold (\<lambda>(now, ev) p. paxos_handle E now ev p) evs p"

end
