(* ===== verification/PaxosFacts.thy ===== *)
theory PaxosFacts
  imports Paxos
begin

text \<open>
  What plain Paxos does: the execute loop, the cleanup of the log, the commit of a slot, the
  round of recovery between a follower and a leader, and how an announcement that overtakes its proposal loses the command.
\<close>

section \<open>Field lemmas\<close>

lemma x_emit_simps [simp]:
  "x_id (x_emit c p) = x_id p" "x_db (x_emit c p) = x_db p" "x_log (x_emit c p) = x_log p"
  "x_execute (x_emit c p) = x_execute p" "x_active (x_emit c p) = x_active p"
  "x_ballot (x_emit c p) = x_ballot p" "x_slot (x_emit c p) = x_slot p"
  "x_p3PendingBallot (x_emit c p) = x_p3PendingBallot p"
  "x_p3pendingSlots (x_emit c p) = x_p3pendingSlots p"
  "x_lastCleanupMarker (x_emit c p) = x_lastCleanupMarker p"
  "x_globalExecuted (x_emit c p) = x_globalExecuted p"
  "x_executeByNode (x_emit c p) = x_executeByNode p" "x_quorum (x_emit c p) = x_quorum p"
  "x_requests (x_emit c p) = x_requests p" "x_ReplyWhenCommit (x_emit c p) = x_ReplyWhenCommit p"
  "x_calls (x_emit c p) = x_calls p @ [c]"
  by (simp_all add: x_emit_def)

lemma x_set_entry_simps [simp]:
  "x_id (x_set_entry s e p) = x_id p" "x_db (x_set_entry s e p) = x_db p"
  "x_log (x_set_entry s e p) = fmupd s e (x_log p)"
  "x_execute (x_set_entry s e p) = x_execute p" "x_active (x_set_entry s e p) = x_active p"
  "x_ballot (x_set_entry s e p) = x_ballot p" "x_slot (x_set_entry s e p) = x_slot p"
  "x_p3PendingBallot (x_set_entry s e p) = x_p3PendingBallot p"
  "x_p3pendingSlots (x_set_entry s e p) = x_p3pendingSlots p"
  "x_lastCleanupMarker (x_set_entry s e p) = x_lastCleanupMarker p"
  "x_globalExecuted (x_set_entry s e p) = x_globalExecuted p"
  "x_executeByNode (x_set_entry s e p) = x_executeByNode p"
  "x_quorum (x_set_entry s e p) = x_quorum p"
  "x_requests (x_set_entry s e p) = x_requests p"
  "x_ReplyWhenCommit (x_set_entry s e p) = x_ReplyWhenCommit p"
  "x_calls (x_set_entry s e p) = x_calls p"
  by (simp_all add: x_set_entry_def)

lemma map_of_AList_update: "map_of (AList.update k v al) k' = (if k' = k then Some v else map_of al k')"
  by (simp add: update_conv')

lemma Paxos_sendRecoverRequest_eq:
  "Paxos_sendRecoverRequest b ss p =
     x_emit (XSend (Ballot_ID b) (X_RecoverRequest (Paxos_RecoverRequest b ss (x_id p)))) p"
  by (simp add: Paxos_sendRecoverRequest_def)

section \<open>Executing\<close>

definition x_committed :: "paxos \<Rightarrow> goint \<Rightarrow> bool" where
  "x_committed p s \<longleftrightarrow> (\<exists>e. fmlookup (x_log p) s = Some e \<and> e_commit e)"

definition x_command :: "paxos \<Rightarrow> goint \<Rightarrow> Command" where
  "x_command p s = (case fmlookup (x_log p) s of None \<Rightarrow> zero_command | Some e \<Rightarrow> e_command e)"

definition x_executed :: "paxos \<Rightarrow> goint list" where
  "x_executed p = [x_execute p .. x_execute (Paxos_exec p) - 1]"

definition x_reply :: "paxos \<Rightarrow> goint \<times> Value \<Rightarrow> paxos_call list" where
  "x_reply p = (\<lambda>(s, v). case fmlookup (x_log p) s of
     None \<Rightarrow> []
   | Some e \<Rightarrow> (case e_request e of None \<Rightarrow> [] | Some r \<Rightarrow> [XReply r (paxos_reply s e v)]))"

lemma Paxos_exec_step:
  "fmlookup (x_log p) (x_execute p) = Some e \<Longrightarrow> e_commit e \<Longrightarrow>
     Paxos_exec p = Paxos_exec (Paxos_exec_entry e p)"
  by (subst Paxos_exec.simps) simp

lemma Paxos_exec_stop: "\<not> x_committed p (x_execute p) \<Longrightarrow> Paxos_exec p = p"
  by (subst Paxos_exec.simps) (auto simp: x_committed_def split: option.splits)

lemma Paxos_exec_none: "fmlookup (x_log p) (x_execute p) = None \<Longrightarrow> Paxos_exec p = p"
  and Paxos_exec_uncommitted:
    "fmlookup (x_log p) (x_execute p) = Some e \<Longrightarrow> \<not> e_commit e \<Longrightarrow> Paxos_exec p = p"
  by (simp_all add: Paxos_exec_stop x_committed_def)

lemma Paxos_exec_induct [case_names stop step]:
  assumes "\<And>p. \<not> x_committed p (x_execute p) \<Longrightarrow> P p p"
    and "\<And>p e. fmlookup (x_log p) (x_execute p) = Some e \<Longrightarrow> e_commit e \<Longrightarrow>
           P (Paxos_exec_entry e p) (Paxos_exec (Paxos_exec_entry e p)) \<Longrightarrow>
           P p (Paxos_exec (Paxos_exec_entry e p))"
  shows "P p (Paxos_exec p)"
proof (induction p rule: Paxos_exec.induct)
  case (1 p)
  show ?case
  proof (cases "x_committed p (x_execute p)")
    case False
    then show ?thesis using assms(1) by (simp add: Paxos_exec_stop)
  next
    case True
    then obtain e where e: "fmlookup (x_log p) (x_execute p) = Some e" "e_commit e"
      by (auto simp: x_committed_def)
    then have "P (Paxos_exec_entry e p) (Paxos_exec (Paxos_exec_entry e p))"
      using 1 [OF e(1)] by simp
    with e show ?thesis using assms(2) by (simp add: Paxos_exec_step)
  qed
qed

lemma Paxos_exec_entry_fields [simp]:
  "x_id (Paxos_exec_entry e p) = x_id p" "x_active (Paxos_exec_entry e p) = x_active p"
  "x_ballot (Paxos_exec_entry e p) = x_ballot p" "x_slot (Paxos_exec_entry e p) = x_slot p"
  "x_p3PendingBallot (Paxos_exec_entry e p) = x_p3PendingBallot p"
  "x_p3pendingSlots (Paxos_exec_entry e p) = x_p3pendingSlots p"
  "x_lastCleanupMarker (Paxos_exec_entry e p) = x_lastCleanupMarker p"
  "x_globalExecuted (Paxos_exec_entry e p) = x_globalExecuted p"
  "x_executeByNode (Paxos_exec_entry e p) = x_executeByNode p"
  "x_quorum (Paxos_exec_entry e p) = x_quorum p" "x_requests (Paxos_exec_entry e p) = x_requests p"
  "x_ReplyWhenCommit (Paxos_exec_entry e p) = x_ReplyWhenCommit p"
  "x_db (Paxos_exec_entry e p) = fst (Execute (e_command e) (x_db p))"
  "x_log (Paxos_exec_entry e p) = (if e_request e = None then x_log p
      else fmupd (x_execute p) (e\<lparr>e_request := None\<rparr>) (x_log p))"
  "x_calls (Paxos_exec_entry e p) = x_calls p @ (case e_request e of None \<Rightarrow> []
      | Some r \<Rightarrow> [XReply r (paxos_reply (x_execute p) e (snd (Execute (e_command e) (x_db p))))])"
  by (auto simp: Paxos_exec_entry_def Let_def split: prod.splits option.splits)

lemma Paxos_exec_fields [simp]:
  "x_id (Paxos_exec p) = x_id p" "x_active (Paxos_exec p) = x_active p"
  "x_ballot (Paxos_exec p) = x_ballot p" "x_slot (Paxos_exec p) = x_slot p"
  "x_p3PendingBallot (Paxos_exec p) = x_p3PendingBallot p"
  "x_p3pendingSlots (Paxos_exec p) = x_p3pendingSlots p"
  "x_lastCleanupMarker (Paxos_exec p) = x_lastCleanupMarker p"
  "x_globalExecuted (Paxos_exec p) = x_globalExecuted p"
  "x_executeByNode (Paxos_exec p) = x_executeByNode p"
  "x_quorum (Paxos_exec p) = x_quorum p" "x_requests (Paxos_exec p) = x_requests p"
  "x_ReplyWhenCommit (Paxos_exec p) = x_ReplyWhenCommit p"
  by (induction p rule: Paxos_exec_induct, simp_all)+

lemma Paxos_exec_mono: "x_execute p \<le> x_execute (Paxos_exec p)"
  by (induction p rule: Paxos_exec_induct) simp_all

lemma x_executed_step:
  "fmlookup (x_log p) (x_execute p) = Some e \<Longrightarrow> e_commit e \<Longrightarrow>
     x_executed p = x_execute p # x_executed (Paxos_exec_entry e p)"
  using Paxos_exec_mono [of "Paxos_exec_entry e p"]
  by (simp add: x_executed_def Paxos_exec_step upto_rec1)

lemma x_executed_stop: "\<not> x_committed p (x_execute p) \<Longrightarrow> x_executed p = []"
  by (simp add: x_executed_def Paxos_exec_stop)

lemma x_lookups:
  assumes "fmlookup (x_log p) (x_execute p) = Some e" "e_commit e"
  shows "fmlookup (x_log (Paxos_exec_entry e p)) s =
      (if s = x_execute p then Some (e\<lparr>e_request := None\<rparr>) else fmlookup (x_log p) s)"
    and "x_command (Paxos_exec_entry e p) s = x_command p s"
    and "x_committed (Paxos_exec_entry e p) s = x_committed p s"
    and "s \<noteq> x_execute p \<Longrightarrow> x_reply (Paxos_exec_entry e p) (s, v) = x_reply p (s, v)"
  using assms by (auto simp: x_command_def x_committed_def x_reply_def)

lemma Paxos_exec_all: "\<forall>s \<in> set (x_executed p). x_committed p s"
proof (induction p rule: Paxos_exec.induct)
  case (1 p)
  show ?case
  proof (cases "x_committed p (x_execute p)")
    case True
    then obtain e where e: "fmlookup (x_log p) (x_execute p) = Some e" "e_commit e"
      by (auto simp: x_committed_def)
    then have "\<forall>s \<in> set (x_executed (Paxos_exec_entry e p)). x_committed (Paxos_exec_entry e p) s"
      using 1 [OF e(1)] by simp
    with True e show ?thesis by (simp add: x_executed_step x_lookups)
  qed (simp add: x_executed_stop)
qed

lemma Paxos_exec_stops: "\<not> x_committed (Paxos_exec p) (x_execute (Paxos_exec p))"
  by (induction p rule: Paxos_exec_induct) auto

lemma Paxos_exec_effect:
  "x_db (Paxos_exec p) = fst (Execute_all (map (x_command p) (x_executed p)) (x_db p)) \<and>
   x_calls (Paxos_exec p) = x_calls p
     @ concat (map (x_reply p)
         (zip (x_executed p) (snd (Execute_all (map (x_command p) (x_executed p)) (x_db p))))) \<and>
   (\<forall>s. fmlookup (x_log (Paxos_exec p)) s =
     map_option (\<lambda>e. if s \<in> set (x_executed p) then e\<lparr>e_request := None\<rparr> else e) (fmlookup (x_log p) s))"
proof (induction p rule: Paxos_exec.induct)
  case (1 p)
  show ?case
  proof (cases "x_committed p (x_execute p)")
    case False
    then show ?thesis by (simp add: Paxos_exec_stop x_executed_stop option.map_ident)
  next
    case True
    then obtain e where e: "fmlookup (x_log p) (x_execute p) = Some e" "e_commit e"
      by (auto simp: x_committed_def)
    let ?q = "Paxos_exec_entry e p" and ?ss = "x_executed (Paxos_exec_entry e p)"
    have IH: "x_db (Paxos_exec ?q) = fst (Execute_all (map (x_command ?q) ?ss) (x_db ?q))"
      "x_calls (Paxos_exec ?q) = x_calls ?q @ concat (map (x_reply ?q)
         (zip ?ss (snd (Execute_all (map (x_command ?q) ?ss) (x_db ?q)))))"
      "\<And>s. fmlookup (x_log (Paxos_exec ?q)) s =
         map_option (\<lambda>e. if s \<in> set ?ss then e\<lparr>e_request := None\<rparr> else e) (fmlookup (x_log ?q) s)"
      using 1 [OF e(1)] e by auto
    have c: "map (x_command ?q) ?ss = map (x_command p) ?ss"
      by (simp add: x_lookups [OF e])
    have r: "map (x_reply ?q) (zip ?ss vs) = map (x_reply p) (zip ?ss vs)" for vs
    proof (rule map_cong [OF refl])
      fix x assume "x \<in> set (zip ?ss vs)"
      then have "fst x \<in> set ?ss" by (metis in_set_zipE prod.collapse)
      then have "fst x \<noteq> x_execute p" by (auto simp: x_executed_def)
      then show "x_reply ?q x = x_reply p x"
        by (cases x) (simp add: x_lookups [OF e])
    qed
    have ss: "x_executed p = x_execute p # ?ss" by (rule x_executed_step [OF e])
    have sc: "x_command p (x_execute p) = e_command e"
      by (simp add: x_command_def e)
    have sr: "x_reply p (x_execute p, v) = (case e_request e of None \<Rightarrow> []
        | Some r \<Rightarrow> [XReply r (paxos_reply (x_execute p) e v)])" for v
      by (simp add: x_reply_def e)
    have l: "\<forall>s. fmlookup (x_log (Paxos_exec ?q)) s =
        map_option (\<lambda>e. if s \<in> set (x_execute p # ?ss) then e\<lparr>e_request := None\<rparr> else e)
          (fmlookup (x_log p) s)"
      using IH(3) e by (auto simp: x_lookups(1) [OF e] simp del: Paxos_exec_entry_fields(14))
    show ?thesis
      unfolding Paxos_exec_step [OF e] ss
      using IH(1,2) l
      by (simp add: c r sc sr fst_Execute_all_Cons snd_Execute_all_Cons del: Execute_all.simps(2))
  qed
qed

lemma x_committed_exec: "x_committed (Paxos_exec p) s = x_committed p s"
  using Paxos_exec_effect [of p] by (cases "fmlookup (x_log p) s") (auto simp: x_committed_def)

lemma x_command_exec: "x_command (Paxos_exec p) s = x_command p s"
  using Paxos_exec_effect [of p] by (auto simp: x_command_def split: option.splits)

text \<open>The execute loop of plain Paxos runs exactly the maximal block of consecutive committed
  slots from the next slot to execute, whatever the ballot of their entries: the store becomes the
  one reached by their commands in slot order, every waiting client gets the value its command
  returned together with the slot and the ballot, and nothing else in the log changes.\<close>

theorem paxos_executes_committed_prefix:
  "list_all (x_committed p) (x_executed p)
   \<and> \<not> x_committed p (x_execute (Paxos_exec p))
   \<and> x_execute (Paxos_exec p) = x_execute p + int (length (x_executed p))
   \<and> x_db (Paxos_exec p) = fst (Execute_all (map (x_command p) (x_executed p)) (x_db p))
   \<and> x_calls (Paxos_exec p) = x_calls p
       @ concat (map (x_reply p)
           (zip (x_executed p) (snd (Execute_all (map (x_command p) (x_executed p)) (x_db p)))))
   \<and> fmlookup (x_log (Paxos_exec p)) s =
       map_option (\<lambda>e. if s \<in> set (x_executed p) then e\<lparr>e_request := None\<rparr> else e)
         (fmlookup (x_log p) s)"
  using Paxos_exec_effect [of p] Paxos_exec_all [of p] Paxos_exec_mono [of p] Paxos_exec_stops [of p]
  by (simp add: list_all_iff x_committed_exec) (simp add: x_executed_def)

lemma Execute_zero_command: "fst (Execute zero_command d) = d"
  by (simp add: Execute_eq zero_command_def IsRead_def IsWrite_def)

text \<open>C7: An announcement that overtakes its proposal makes a replica execute the empty command. At any replica that waits for the
  next slot and has nothing after it, for any ballot that is not overtaken: when the announcement
  comes first, the slot counts as executed, and the proposal fills in its command afterwards, which is
  never applied; when the proposal comes first, the command is applied. The two replicas then hold the same
  command, committed, have executed the same slots, and differ in their stores if it writes; and no announcement
  makes up for it.\<close>

theorem overtaken_proposal_is_lost:
  fixes cmd :: Command and g :: goint and k :: Ballot
  assumes "fmlookup (x_log p) (x_execute p) = None" "fmlookup (x_log p) (x_execute p + 1) = None"
    and "x_ballot p \<le> b" "0 < b"
  defines "s \<equiv> x_execute p"
  defines "late \<equiv> Paxos_HandleP2a (P2a b s g cmd (P3 k [])) (Paxos_HandleP3 (P3 b [s]) p)"
    and "first \<equiv> Paxos_HandleP3 (P3 b [s]) (Paxos_HandleP2a (P2a b s g cmd (P3 k [])) p)"
  shows "(\<forall>q \<in> {late, first}. x_execute q = s + 1 \<and> x_command q s = cmd \<and> x_committed q s)
    \<and> x_db late = x_db p \<and> x_db first = fst (Execute cmd (x_db p))
    \<and> (cValue cmd \<noteq> None \<longrightarrow> x_db late \<noteq> x_db first)
    \<and> x_db (Paxos_HandleP3 (P3 b [s]) late) = x_db late"
proof -
  define e where "e = \<lparr>e_ballot = b, e_command = cmd, e_commit = True, e_request = None, e_quorum = None, e_timestamp = 0\<rparr>"
  have nxt: "fmlookup (x_log p) (s + 1) = None" "fmlookup (x_log p) s = None"
    using assms(1,2) by (simp_all add: s_def)
  note open_simps = late_def first_def s_def Paxos_HandleP2a_def Paxos_HandleP3_def
    Paxos_accept_entry_def Paxos_p3_slot_def Let_def follower_entry_def placeholder_def
    Paxos_exec_step Paxos_exec_none Paxos_exec_uncommitted Execute_zero_command
  have p: "x_execute late = s + 1" "x_db late = x_db p" "fmlookup (x_log late) s = Some e" "fmlookup (x_log late) (s + 1) = None"
    using assms(1-4) by (simp_all add: open_simps e_def)
  have q: "x_execute first = s + 1" "x_db first = fst (Execute cmd (x_db p))" "fmlookup (x_log first) s = Some e"
    using assms(1-4) by (simp_all add: open_simps e_def)
  have "x_command late s = cmd" "x_committed late s" "x_command first s = cmd" "x_committed first s"
    using p(3) q(3) by (simp_all add: x_command_def x_committed_def e_def)
  moreover have "cValue cmd \<noteq> None \<Longrightarrow> db_version (x_db late) \<noteq> db_version (x_db first)"
    unfolding p(2) q(2) by (simp add: Execute_eq IsWrite_def)
  then have "cValue cmd \<noteq> None \<longrightarrow> x_db late \<noteq> x_db first" by metis
  moreover have "x_db (Paxos_HandleP3 (P3 b [s]) late) = x_db late"
    using p by (simp add: Paxos_HandleP3_def Paxos_p3_slot_def Let_def e_def Paxos_exec_none)
  ultimately show ?thesis
    using p(1,2) q(1,2) by simp
qed

theorem overtaken_proposal_is_lost_witness:
  "x_execute (Paxos_HandleP2a (P2a 1 0 0 (zero_command\<lparr>cValue := Some [7]\<rparr>) (P3 0 []))
     (Paxos_HandleP3 (P3 1 [0]) (NewPaxos default_config [1, 2, 3] 2))) = 1"
proof -
  let ?p = "NewPaxos default_config [1, 2, 3] 2"
  have "fmlookup (x_log ?p) (x_execute ?p) = None" "fmlookup (x_log ?p) (x_execute ?p + 1) = None" "x_ballot ?p \<le> 1" "x_execute ?p = 0"
    by (simp_all add: NewPaxos_def)
  from overtaken_proposal_is_lost [OF this(1-3), of 0 "zero_command\<lparr>cValue := Some [7]\<rparr>" 0] this(4) show ?thesis
    by simp
qed

section \<open>Deciding a slot\<close>

lemma Paxos_step_down_fields [simp]:
  "x_id (Paxos_step_down now b p) = x_id p" "x_ballot (Paxos_step_down now b p) = b"
  "x_log (Paxos_step_down now b p) = x_log p" "x_execute (Paxos_step_down now b p) = x_execute p"
  "x_slot (Paxos_step_down now b p) = x_slot p" "\<not> x_active (Paxos_step_down now b p)"
  "x_globalExecuted (Paxos_step_down now b p) = x_globalExecuted p"
  "x_executeByNode (Paxos_step_down now b p) = x_executeByNode p"
  "x_calls (Paxos_step_down now b p) = x_calls p
     @ [XBroadcast (X_P3 (P3 (x_p3PendingBallot p) (x_p3pendingSlots p)))]"
  by (simp_all add: Paxos_step_down_def)

lemma UpdateLastExecutedByNode_fields [simp]:
  "x_id (UpdateLastExecutedByNode i v p) = x_id p" "x_ballot (UpdateLastExecutedByNode i v p) = x_ballot p"
  "x_log (UpdateLastExecutedByNode i v p) = x_log p"
  "x_execute (UpdateLastExecutedByNode i v p) = x_execute p"
  "x_slot (UpdateLastExecutedByNode i v p) = x_slot p"
  "x_active (UpdateLastExecutedByNode i v p) = x_active p"
  "x_globalExecuted (UpdateLastExecutedByNode i v p) = x_globalExecuted p"
  "x_ReplyWhenCommit (UpdateLastExecutedByNode i v p) = x_ReplyWhenCommit p"
  "x_p3pendingSlots (UpdateLastExecutedByNode i v p) = x_p3pendingSlots p"
  "x_executeByNode (UpdateLastExecutedByNode i v p) = AList.update i v (x_executeByNode p)"
  "x_calls (UpdateLastExecutedByNode i v p) = x_calls p"
  by (simp_all add: UpdateLastExecutedByNode_def)

text \<open>A single vote for the leader's own proposal commits the slot exactly when the distinct voters,
  the leader included, are more than half of the configured nodes; the position the voter reports
  is recorded in either case, and a committed slot waits for the next announcement.\<close>

theorem paxos_vote_commits_iff_majority:
  assumes "fmlookup (x_log p) (V_Slot m) = Some e" "\<not> e_commit e" "e_quorum e = Some Q" "wf_quorum Q"
    and "Ballot_ID (V_Ballot m) = x_id p" "V_Ballot m = e_ballot e" "V_Ballot m \<le> x_ballot p"
    and "\<not> x_ReplyWhenCommit p" "0 \<le> cfg_n c"
  shows "\<exists>q e'. Paxos_HandleP2b c now m p = Inr q \<and> fmlookup (x_log q) (V_Slot m) = Some e' \<and>
    e_command e' = e_command e \<and> e_ballot e' = e_ballot e \<and>
    x_ballot q = x_ballot p \<and> x_active q = x_active p \<and>
    (e_commit e' \<longleftrightarrow> cfg_n c < 2 * int (card (insert (V_ID m) (acks Q)))) \<and>
    map_option acks (e_quorum e') = Some (insert (V_ID m) (acks Q)) \<and>
    x_p3pendingSlots q = x_p3pendingSlots p @ (if e_commit e' then [V_Slot m] else []) \<and>
    map_of (x_executeByNode q) (V_ID m) = Some (V_LastExecutedSlot m)"
proof -
  let ?s = "V_Slot m" and ?Q = "ACK (V_ID m) Q" and ?A = "insert (V_ID m) (acks Q)"
  let ?e = "e\<lparr>e_quorum := Some ?Q\<rparr>"
  let ?p = "x_set_entry ?s ?e (UpdateLastExecutedByNode (V_ID m) (V_LastExecutedSlot m) p)"
  have nl: "\<not> x_ballot p < e_ballot e"
    using assms(6,7) by simp
  have maj: "Majority c ?Q \<longleftrightarrow> cfg_n c < 2 * int (card ?A)"
    using assms(4,9) by (simp add: Majority_iff)
  show ?thesis
  proof (cases "Majority c ?Q")
    case False
    then have "Paxos_HandleP2b c now m p = Inr ?p"
      using assms nl by (simp add: Paxos_HandleP2b_def Let_def)
    then show ?thesis
      using assms(2) False maj by (intro exI [of _ ?p] exI [of _ ?e]) (simp add: map_of_AList_update)
  next
    case True
    let ?r = "(x_set_entry ?s (?e\<lparr>e_commit := True\<rparr>) ?p)\<lparr>x_p3pendingSlots := x_p3pendingSlots p @ [?s]\<rparr>"
    have q: "Paxos_HandleP2b c now m p = Inr (Paxos_exec ?r)"
      using assms True nl by (simp add: Paxos_HandleP2b_def Let_def Paxos_commit_slot_def)
    let ?e' = "if ?s \<in> set (x_executed ?r) then ?e\<lparr>e_commit := True, e_request := None\<rparr>
        else ?e\<lparr>e_commit := True\<rparr>"
    have l: "fmlookup (x_log (Paxos_exec ?r)) ?s = Some ?e'"
      using Paxos_exec_effect [of ?r] by simp
    have f: "x_ballot (Paxos_exec ?r) = x_ballot p" "x_active (Paxos_exec ?r) = x_active p"
      "x_p3pendingSlots (Paxos_exec ?r) = x_p3pendingSlots p @ [?s]"
      "map_of (x_executeByNode (Paxos_exec ?r)) (V_ID m) = Some (V_LastExecutedSlot m)"
      by (simp_all add: map_of_AList_update)
    have e': "e_command ?e' = e_command e" "e_ballot ?e' = e_ballot e" "e_commit ?e'"
      "map_option acks (e_quorum ?e') = Some ?A"
      by simp_all
    show ?thesis
      using q l f e' True maj by (intro exI [of _ "Paxos_exec ?r"] exI [of _ ?e']) presburger
  qed
qed

section \<open>Recovery\<close>

text \<open>The slots a lagging follower asks for: those without a committed entry from the next slot to
  execute to ten below the highest slot seen.\<close>

definition x_missing :: "paxos \<Rightarrow> goint list" where
  "x_missing p = filter (\<lambda>s. \<not> x_committed p s) [x_execute p .. x_slot p - ExecuteSlack - 1]"

lemma CheckNeedForRecovery_eq:
  "CheckNeedForRecovery p =
     (if x_execute p + 10 < x_slot p
      then x_emit (XSend (Ballot_ID (x_ballot p))
             (X_RecoverRequest (Paxos_RecoverRequest (x_ballot p) (x_missing p) (x_id p)))) p
      else p)"
proof -
  have "(case fmlookup (x_log p) s of None \<Rightarrow> True | Some e \<Rightarrow> \<not> e_commit e) = (\<not> x_committed p s)" for s
    by (simp add: x_committed_def split: option.split)
  then show ?thesis
    by (simp add: CheckNeedForRecovery_def Paxos_sendRecoverRequest_eq x_missing_def ExecuteSlack_def)
qed

definition install :: "goint \<Rightarrow> Ballot \<Rightarrow> goint \<times> Command \<Rightarrow> paxos \<Rightarrow> paxos" where
  "install now b = (\<lambda>(s, cmd) p.
     x_set_entry s (recovered_entry now b cmd) (p\<lparr>x_slot := max (x_slot p) s\<rparr>))"

lemma install_fields [simp]:
  "x_execute (install now b sc p) = x_execute p" "x_db (install now b sc p) = x_db p"
  "x_slot (install now b sc p) = max (x_slot p) (fst sc)"
  "x_log (install now b sc p) = fmupd (fst sc) (recovered_entry now b (snd sc)) (x_log p)"
  "x_id (install now b sc p) = x_id p" "x_ballot (install now b sc p) = x_ballot p"
  "x_globalExecuted (install now b sc p) = x_globalExecuted p"
  "x_executeByNode (install now b sc p) = x_executeByNode p"
  "x_calls (install now b sc p) = x_calls p"
  by (simp_all add: install_def split: prod.split)

lemma recover_loop:
  "k + length ss \<le> length cmds \<Longrightarrow>
     go_fold (\<lambda>(i, s) p.
            let p1 = p\<lparr>x_slot := goMax (x_slot p) s\<rparr>
            in go_bind (slice_at cmds (int i))
                 (\<lambda>cmd. Inr (x_set_entry s (recovered_entry now b cmd) p1)))
          (List.enumerate k ss) p
     = Inr (fold (install now b) (zip ss (drop k cmds)) p)"
proof (induction ss arbitrary: k p)
  case (Cons s ss)
  then have "drop k cmds = cmds ! k # drop (Suc k) cmds" "slice_at cmds (int k) = Inr (cmds ! k)"
    by (simp_all add: Cons_nth_drop_Suc)
  with Cons show ?case
    by (simp add: Let_def install_def)
qed simp

lemma HandleP3RecoverReply_eq:
  "length (A_Slots m) \<le> length (A_Commands m) \<Longrightarrow>
     Paxos_HandleP3RecoverReply now m p =
       Inr (Paxos_exec (fold (install now (A_Ballot m)) (zip (A_Slots m) (A_Commands m)) p))"
  using recover_loop [of 0 "A_Slots m" "A_Commands m" now "A_Ballot m" p]
  by (simp add: Paxos_HandleP3RecoverReply_def)

lemma fold_install_lookup:
  "distinct (map fst scs) \<Longrightarrow> fmlookup (x_log (fold (install now b) scs p)) s =
     (case map_of scs s of None \<Rightarrow> fmlookup (x_log p) s | Some cmd \<Rightarrow> Some (recovered_entry now b cmd))"
proof (induction scs arbitrary: p)
  case (Cons x scs)
  then have "map_of scs (fst x) = None"
    by (simp add: map_of_eq_None_iff)
  with Cons show ?case
    by (cases x) (auto split: option.splits)
qed simp

lemma fold_install_execute [simp]: "x_execute (fold (install now b) scs p) = x_execute p"
  by (induction scs arbitrary: p) simp_all

lemma map_filter_committed:
  "map fst (List.map_filter (Paxos_committed q) ss) = filter (x_committed q) ss"
  "map_of (List.map_filter (Paxos_committed q) ss) s =
     (if s \<in> set ss \<and> x_committed q s then Some (x_command q s) else None)"
  by (induction ss)
    (auto simp: List.map_filter_simps Paxos_committed_def x_committed_def x_command_def split: option.splits)

lemma filled_runs:
  assumes "\<And>s. x_execute p \<le> s \<Longrightarrow> s < n \<Longrightarrow> x_committed p s"
  shows "n \<le> x_execute (Paxos_exec p)"
proof (rule ccontr)
  assume "\<not> n \<le> x_execute (Paxos_exec p)"
  then have "x_committed p (x_execute (Paxos_exec p))"
    using assms Paxos_exec_mono by auto
  then show False
    using Paxos_exec_stops [of p] by (simp add: x_committed_exec)
qed

text \<open>C17: One round of recovery. A follower that is more than ten slots behind sends one request to the
  owner of its ballot, which answers with what it has committed among the missing slots; handling
  the answer gives the follower exactly these commands, as committed entries, and leaves every
  other slot as it was. If the answering node has the whole window committed, the follower executes
  at least up to ten below the highest slot, so it is no longer behind.\<close>

theorem recovery_round_fills_the_gap:
  assumes "x_execute p + 10 < x_slot p"
  shows "\<exists>req rep r.
    x_calls (CheckNeedForRecovery p) = x_calls p @ [XSend (Ballot_ID (x_ballot p)) (X_RecoverRequest req)]
    \<and> x_calls (Paxos_HandleP3RecoverRequest req q) = x_calls q @ [XSend (x_id p) (X_RecoverReply rep)]
    \<and> Paxos_HandleP3RecoverReply now rep p = Inr r
    \<and> x_committed r s = (x_committed p s \<or> s \<in> set (x_missing p) \<and> x_committed q s)
    \<and> x_command r s =
        (if s \<in> set (x_missing p) \<and> x_committed q s then x_command q s else x_command p s)
    \<and> x_execute p \<le> x_execute r
    \<and> ((\<forall>t \<in> set (x_missing p). x_committed q t) \<longrightarrow> x_slot p - 10 \<le> x_execute r)"
proof -
  let ?req = "Paxos_RecoverRequest (x_ballot p) (x_missing p) (x_id p)"
  define found where "found = List.map_filter (Paxos_committed q) (x_missing p)"
  let ?rep = "Paxos_RecoverReply (x_ballot q) (map fst found) (map snd found)"
  define p1 where "p1 = fold (install now (x_ballot q)) found p"
  have d: "distinct (map fst found)"
    by (simp add: found_def map_filter_committed x_missing_def)
  have r: "Paxos_HandleP3RecoverReply now ?rep p = Inr (Paxos_exec p1)"
    by (simp add: HandleP3RecoverReply_eq zip_map_fst_snd p1_def)
  have l: "fmlookup (x_log p1) t = (if t \<in> set (x_missing p) \<and> x_committed q t
      then Some (recovered_entry now (x_ballot q) (x_command q t)) else fmlookup (x_log p) t)" for t
    unfolding p1_def fold_install_lookup [OF d] by (simp add: found_def map_filter_committed)
  have c: "x_committed p1 t = (x_committed p t \<or> t \<in> set (x_missing p) \<and> x_committed q t)" for t
    by (auto simp: x_committed_def [of p1] x_committed_def [of p] l recovered_entry_def)
  have k: "x_command p1 t = (if t \<in> set (x_missing p) \<and> x_committed q t then x_command q t
      else x_command p t)" for t
    by (simp add: x_command_def [of p1] x_command_def [of p] l recovered_entry_def)
  have x: "x_execute p1 = x_execute p"
    by (simp add: p1_def)
  have "x_slot p - 10 \<le> x_execute (Paxos_exec p1)" if "\<forall>t \<in> set (x_missing p). x_committed q t"
    using that by (intro filled_runs) (auto simp: c x x_missing_def ExecuteSlack_def)
  moreover have "x_calls (CheckNeedForRecovery p) =
      x_calls p @ [XSend (Ballot_ID (x_ballot p)) (X_RecoverRequest ?req)]"
    using assms by (simp add: CheckNeedForRecovery_eq)
  moreover have "x_calls (Paxos_HandleP3RecoverRequest ?req q) =
      x_calls q @ [XSend (x_id p) (X_RecoverReply ?rep)]"
    by (simp add: Paxos_HandleP3RecoverRequest_def found_def Let_def)
  ultimately show ?thesis
    using r c k x Paxos_exec_mono [of p1]
    by (intro exI [of _ ?req] exI [of _ ?rep] exI [of _ "Paxos_exec p1"])
      (simp add: x_committed_exec x_command_exec)
qed

definition lagging :: paxos where
  "lagging = (NewPaxos default_config [1, 2, 3] 2)\<lparr>x_slot := 11, x_ballot := NewBallot 1 1\<rparr>"

definition informed :: paxos where
  "informed = x_set_entry 0 (recovered_entry 0 5 (zero_command\<lparr>cKey := 4\<rparr>))
     (NewPaxos default_config [1, 2, 3] 1)"

theorem recovery_round_fills_the_gap_witness:
  "\<exists>req rep r. Paxos_HandleP3RecoverReply 9 rep lagging = Inr r \<and> x_execute r \<ge> 1
     \<and> x_calls (CheckNeedForRecovery lagging) = [XSend 1 (X_RecoverRequest req)]
     \<and> x_calls (Paxos_HandleP3RecoverRequest req informed) = [XSend 2 (X_RecoverReply rep)]
     \<and> x_command r 0 = zero_command\<lparr>cKey := 4\<rparr>"
proof -
  have m: "x_missing lagging = [0]"
    by (simp add: x_missing_def lagging_def ExecuteSlack_def NewPaxos_def x_committed_def)
  have c: "x_committed informed 0" "x_command informed 0 = zero_command\<lparr>cKey := 4\<rparr>"
    by (simp_all add: informed_def x_committed_def x_command_def recovered_entry_def)
  have n: "x_calls lagging = []" "x_calls informed = []" "x_id lagging = 2" "x_slot lagging = 11"
    "Ballot_ID (x_ballot lagging) = 1" "x_execute lagging = 0"
    by (simp_all add: lagging_def informed_def NewPaxos_def)
  show ?thesis
    using recovery_round_fills_the_gap [of lagging informed 9 0] m c n by force
qed

section \<open>The cleanup marker\<close>

text \<open>What a proposal in flight says about the marker, and what a node keeps from one event to the
  next when every proposal it hears carries a marker of at most 0 and no vote has its own
  identifier. \<open>executeByNode\<close> holds the node's own identifier with the initial 0, which nothing ever
  overwrites, so the minimum over all nodes stays at most 0.\<close>

fun low_msg :: "paxos_msg \<Rightarrow> bool" where
  "low_msg (X_P2a m) \<longleftrightarrow> P2a_GlobalExecute m \<le> 0"
| "low_msg _ \<longleftrightarrow> True"

fun low_call :: "paxos_call \<Rightarrow> bool" where
  "low_call (XSend to m) \<longleftrightarrow> low_msg m"
| "low_call (XBroadcast m) \<longleftrightarrow> low_msg m"
| "low_call (XMulticastQuorum n m) \<longleftrightarrow> low_msg m"
| "low_call _ \<longleftrightarrow> True"

definition retains :: "paxos \<Rightarrow> paxos \<Rightarrow> bool" where
  [wf_defs]: "retains p0 p \<longleftrightarrow>
     x_id p = x_id p0 \<and> x_execute p0 \<le> x_execute p \<and> x_slot p0 \<le> x_slot p \<and>
     x_globalExecuted p \<le> 0 \<and>
     (\<exists>v \<le> 0. map_of (x_executeByNode p) (x_id p0) = Some v) \<and>
     (\<forall>s \<ge> 0. fmlookup (x_log p0) s \<noteq> None \<longrightarrow> fmlookup (x_log p) s \<noteq> None) \<and>
     list_all low_call (x_calls p)"

fun low_event :: "ID \<Rightarrow> paxos_event \<Rightarrow> bool" where
  "low_event i (XMsg (X_P2b m)) \<longleftrightarrow> V_ID m \<noteq> i"
| "low_event i (XMsg m) \<longleftrightarrow> low_msg m"
| "low_event i _ \<longleftrightarrow> True"

lemma retains_updates [simp]:
  "retains p0 (p\<lparr>x_ballot := b\<rparr>) = retains p0 p" "retains p0 (p\<lparr>x_active := a\<rparr>) = retains p0 p"
  "retains p0 (p\<lparr>x_quorum := Q\<rparr>) = retains p0 p" "retains p0 (p\<lparr>x_requests := rs\<rparr>) = retains p0 p"
  "retains p0 (p\<lparr>x_db := d\<rparr>) = retains p0 p"
  "retains p0 (p\<lparr>x_p3PendingBallot := b\<rparr>) = retains p0 p"
  "retains p0 (p\<lparr>x_p3pendingSlots := ss\<rparr>) = retains p0 p"
  "retains p0 (p\<lparr>x_lastP3Time := t\<rparr>) = retains p0 p"
  by (simp_all add: retains_def)

lemma retains_emit [simp]: "retains p0 (x_emit c p) \<longleftrightarrow> retains p0 p \<and> low_call c"
  by (auto simp: retains_def)

lemma retains_set_entry [simp]: "retains p0 p \<Longrightarrow> retains p0 (x_set_entry s e p)"
  by (auto simp: retains_def)

lemma retains_slot [simp]: "retains p0 p \<Longrightarrow> x_slot p \<le> s \<Longrightarrow> retains p0 (p\<lparr>x_slot := s\<rparr>)"
  by (auto simp: retains_def)

lemma retains_global: "retains p0 p \<Longrightarrow> v \<le> 0 \<Longrightarrow> retains p0 (p\<lparr>x_globalExecuted := v\<rparr>)"
  by (simp add: retains_def)

lemma retains_global_le: "retains p0 p \<Longrightarrow> x_globalExecuted p \<le> 0"
  by (simp add: retains_def)

lemma retains_id: "retains p0 p \<Longrightarrow> x_id p = x_id p0"
  by (simp add: retains_def)

lemma retains_exec_entry: "retains p0 p \<Longrightarrow> retains p0 (Paxos_exec_entry e p)"
  by (auto simp: retains_def split: option.split)

lemma retains_exec [simp]: "retains p0 p \<Longrightarrow> retains p0 (Paxos_exec p)"
  by (induction p rule: Paxos_exec_induct) (simp_all add: retains_exec_entry)

lemma retains_report: "retains p0 p \<Longrightarrow> i \<noteq> x_id p0 \<Longrightarrow> retains p0 (UpdateLastExecutedByNode i v p)"
  by (auto simp: retains_def map_of_AList_update)

lemma retains_step_down [simp]: "retains p0 p \<Longrightarrow> retains p0 (Paxos_step_down now b p)"
  by (simp add: Paxos_step_down_def)

lemma retains_recover [simp]: "retains p0 p \<Longrightarrow> retains p0 (Paxos_sendRecoverRequest b ss p)"
  by (simp add: Paxos_sendRecoverRequest_eq)

lemma retains_forward [simp]: "retains p0 p \<Longrightarrow> retains p0 (Paxos_forward p)"
  unfolding Paxos_forward_def by (simp add: fold_invariant [where P = "retains p0"])

lemma retains_P1a [simp]: "retains p0 p \<Longrightarrow> retains p0 (Paxos_P1a p)"
  by (simp add: Paxos_P1a_def Let_def)

lemma retains_P2a [simp]: "retains p0 p \<Longrightarrow> retains p0 (Paxos_P2a c now r p)"
  by (simp add: Paxos_P2a_def Let_def retains_global_le)

lemma retains_update [simp]: "retains p0 p \<Longrightarrow> retains p0 (Paxos_update l p)"
  unfolding Paxos_update_def
  by (rule fold_invariant) (auto simp: Let_def split: option.splits)

lemma retains_repropose: "retains p0 p \<Longrightarrow> retains p0 (Paxos_repropose i p)"
  by (auto simp: Paxos_repropose_def retains_global_le split: option.split)

lemma retains_become_leader [simp]: "retains p0 p \<Longrightarrow> retains p0 (Paxos_become_leader c now p)"
  unfolding Paxos_become_leader_def Let_def
  by (simp add: fold_invariant [where P = "retains p0"] retains_repropose)

lemma retains_p3_slot: "retains p0 p \<Longrightarrow> retains p0 (Paxos_p3_slot b s p)"
  by (auto simp: Paxos_p3_slot_def Let_def split: option.splits)

lemma retains_HandleP3 [simp]: "retains p0 p \<Longrightarrow> retains p0 (Paxos_HandleP3 m p)"
  by (simp add: Paxos_HandleP3_def fold_invariant [where P = "retains p0"] retains_p3_slot)

lemma retains_accept_entry [simp]: "retains p0 p \<Longrightarrow> retains p0 (Paxos_accept_entry m p)"
  by (auto simp: Paxos_accept_entry_def split: option.split)

lemma retains_accept_ballot:
  "retains p0 p \<Longrightarrow> v \<le> 0 \<Longrightarrow> x_slot p \<le> s \<Longrightarrow>
     retains p0 (p\<lparr>x_ballot := b, x_globalExecuted := v, x_active := False, x_slot := s\<rparr>)"
  by (auto simp: retains_def)

lemma retains_HandleP2a: "retains p0 p \<Longrightarrow> P2a_GlobalExecute m \<le> 0 \<Longrightarrow> retains p0 (Paxos_HandleP2a m p)"
  by (auto simp: Paxos_HandleP2a_def Let_def intro!: retains_accept_entry retains_accept_ballot retains_HandleP3)

lemma retains_commit: "retains p0 p \<Longrightarrow> Paxos_commit_slot s e p = Inr q \<Longrightarrow> retains p0 q"
  by (auto simp: Paxos_commit_slot_def Let_def split: if_splits option.splits)

lemma retains_HandleP2b:
  assumes "retains p0 p" "V_ID m \<noteq> x_id p0" "Paxos_HandleP2b c now m p = Inr q"
  shows "retains p0 q"
  using assms retains_report [OF assms(1,2)]
  by (auto simp: Paxos_HandleP2b_def Let_def intro: retains_commit [rotated]
      split: option.splits if_splits)

lemma retains_CleanupLog: "retains p0 p \<Longrightarrow> retains p0 (Paxos_CleanupLog p)"
proof -
  assume k: "retains p0 p"
  then obtain v where v: "map_of (x_executeByNode p) (x_id p0) = Some v" "v \<le> 0"
    by (auto simp: retains_def)
  then have "v \<in> snd ` set (x_executeByNode p)"
    by (force dest: map_of_SomeD)
  then have "Min (insert (x_execute p) (snd ` set (x_executeByNode p))) \<le> 0"
    using v(2) by (intro order.trans [OF Min_le v(2)]) auto
  then have "fst (GetGlobalExecuteMarker p) \<le> 0"
    using k by (simp add: GetGlobalExecuteMarker_def Let_def fold_running_min retains_global_le)
  with k show ?thesis
    by (auto simp: Paxos_CleanupLog_def retains_def fmlookup_fold_fmdrop GetGlobalExecuteMarker_def Let_def
        fold_running_min)
qed

lemma retains_tick: "retains p0 p \<Longrightarrow> retains p0 (Paxos_tick n now p)"
  by (auto simp: Paxos_tick_def Let_def P3Sync_def CheckNeedForRecovery_def retains_CleanupLog)

lemma retains_request: "retains p0 p \<Longrightarrow> retains p0 (Paxos_handleRequest E now m p)"
  by (auto simp: Paxos_handleRequest_def Paxos_HandleRequest_def readInProgress_def Let_def
      split: prod.splits option.splits)

lemma retains_handle:
  "retains p0 p \<Longrightarrow> low_event (x_id p0) ev \<Longrightarrow> paxos_handle E now ev p = Inr q \<Longrightarrow> retains p0 q"
proof (induction E now ev p rule: paxos_handle.induct)
  case (7 E now m p)
  then obtain p1 where p1: "q = Paxos_exec p1" and
    "go_fold (\<lambda>(i, s) p.
            let p1 = p\<lparr>x_slot := goMax (x_slot p) s\<rparr>
            in go_bind (slice_at (A_Commands m) (int i))
                 (\<lambda>cmd. Inr (x_set_entry s (recovered_entry now (A_Ballot m) cmd) p1)))
          (List.enumerate 0 (A_Slots m)) p = Inr p1"
    by (auto simp: Paxos_HandleP3RecoverReply_def)
  from this(2) 7(1) have "retains p0 p1"
    by (rule go_fold_invariant) (auto simp: Let_def split: prod.splits)
  then show ?case by (simp add: p1)
qed (auto simp: Paxos_HandleP1a_def Paxos_HandleP1b_def Paxos_HandleP3RecoverRequest_def Let_def
    retains_HandleP2a retains_tick retains_request intro: retains_HandleP2b)

lemma retains_run:
  assumes "paxos_run E evs p = Inr q" "retains p0 p" "\<And>t ev. (t, ev) \<in> set evs \<Longrightarrow> low_event (x_id p0) ev"
  shows "retains p0 q"
  using assms(1,2) unfolding paxos_run_def
  by (rule go_fold_invariant) (auto intro: retains_handle assms(3))

lemma paxos_run_append:
  "paxos_run E (evs @ evs') p = Inr q \<longleftrightarrow> (\<exists>r. paxos_run E evs p = Inr r \<and> paxos_run E evs' r = Inr q)"
  by (simp add: paxos_run_def go_fold_append)

lemma map_of_fold_update: "map_of (fold (\<lambda>i. AList.update i v) ids al) k =
  (if k \<in> set ids then Some v else map_of al k)"
  by (induction ids arbitrary: al) (auto simp: map_of_AList_update)

lemma retains_New: "self \<in> set ids \<Longrightarrow> retains (NewPaxos c ids self) (NewPaxos c ids self)"
  by (simp add: retains_def NewPaxos_def map_of_fold_update)

lemma retains_rebase: "retains p0 p \<Longrightarrow> retains p p"
  by (auto simp: retains_def)

text \<open>C16: The log of plain Paxos is never truncated. The leader computes the cleanup marker as the
  minimum over all configured nodes, itself included, but no vote of its own ever updates its own
  position, which stays 0. So a node that starts fresh and hears only proposals with a marker of
  at most 0 and no vote from itself sends only such proposals, and whatever happens, across ticks,
  elections and cleanups, no slot that ever was in its log disappears.\<close>

theorem paxos_log_is_never_truncated:
  assumes "self \<in> set ids" and "\<forall>(t, ev) \<in> set (evs @ evs'). low_event self ev"
    and "paxos_run E (evs @ evs') (NewPaxos c ids self) = Inr q"
  shows "\<exists>p. paxos_run E evs (NewPaxos c ids self) = Inr p \<and> paxos_run E evs' p = Inr q \<and>
    x_globalExecuted q \<le> 0 \<and> list_all low_call (x_calls q) \<and>
    (0 \<le> s \<and> s |\<in>| fmdom (x_log p) \<longrightarrow> s |\<in>| fmdom (x_log q))"
proof -
  obtain p where p: "paxos_run E evs (NewPaxos c ids self) = Inr p" "paxos_run E evs' p = Inr q"
    using assms(3) by (auto simp: paxos_run_append)
  have i: "x_id (NewPaxos c ids self) = self"
    by (simp add: NewPaxos_def)
  have k: "retains (NewPaxos c ids self) p"
    using assms(2) by (intro retains_run [OF p(1) retains_New [OF assms(1)]]) (auto simp: i)
  moreover have "retains p q"
    using assms(2) k
    by (intro retains_run [OF p(2) retains_rebase [OF k]]) (auto simp: i retains_id)
  ultimately show ?thesis
    using p by (auto simp: retains_def fmlookup_dom_iff)
qed

definition late_P2a :: "Ballot \<Rightarrow> Command \<Rightarrow> P2a" where
  "late_P2a b cmd = P2a b 0 0 cmd (P3 0 [])"

definition example_env :: paxos_env where
  "example_env = \<lparr>v_config = default_config, v_ephemeralLeader = False, v_read = []\<rparr>"

theorem paxos_log_is_never_truncated_witness:
  "\<exists>q. paxos_run example_env [(0, XMsg (X_P2a (late_P2a (NewBallot 1 2) zero_command))), (0, XTick 3), (0, XTick 6)]
      (NewPaxos default_config [1, 2] 1) = Inr q \<and> 0 |\<in>| fmdom (x_log q)"
proof -
  let ?p = "Paxos_HandleP2a (late_P2a (NewBallot 1 2) zero_command) (NewPaxos default_config [1, 2] 1)"
  have "0 |\<in>| fmdom (x_log ?p)"
    by (simp add: Paxos_HandleP2a_def late_P2a_def Paxos_accept_entry_def NewPaxos_def Let_def NewBallot_def)
  then show ?thesis
    using paxos_log_is_never_truncated [of 1 "[1, 2]"
        "[(0, XMsg (X_P2a (late_P2a (NewBallot 1 2) zero_command)))]" "[(0, XTick 3), (0, XTick 6)]"
        example_env default_config _ 0]
    by (simp add: paxos_run_def late_P2a_def)
qed

section \<open>Reads from the log\<close>

lemma in_progress_eq:
  "in_progress p k is =
     map_option (\<lambda>s. cValue (x_command p s))
       (List.find (\<lambda>s. \<exists>e. fmlookup (x_log p) s = Some e \<and> cKey (e_command e) = k) is)"
  by (induction "is") (auto simp: x_command_def split: option.split)

lemma find_downwards:
  "List.find P (rev [a..b]) =
     (if {s. a \<le> s \<and> s \<le> b \<and> P s} = {} then None else Some (Max {s. a \<le> s \<and> s \<le> b \<and> P s}))"
proof (induction "nat (b - a + 1)" arbitrary: b)
  case (Suc n)
  let ?S = "\<lambda>b. {s. a \<le> s \<and> s \<le> b \<and> P s}"
  have ab: "a \<le> b" using Suc.hyps(2) by simp
  have fin: "finite (?S b)" by (rule finite_subset [of _ "{a..b}"]) auto
  show ?case
  proof (cases "P b")
    case True
    then have "Max (?S b) = b" using fin ab by (intro Max_eqI) auto
    then show ?thesis using True ab by (auto simp: upto_rec2)
  next
    case False
    then have "s \<le> b \<and> P s \<longleftrightarrow> s \<le> b - 1 \<and> P s" for s by (cases "s = b") auto
    then have "?S b = ?S (b - 1)" by auto
    then show ?thesis using False ab Suc.hyps by (simp add: upto_rec2)
  qed
qed auto

definition key_hits :: "Key \<Rightarrow> paxos \<Rightarrow> goint set" where
  "key_hits k p = {s. x_execute p \<le> s \<and> s \<le> x_slot p \<and>
     (\<exists>e. fmlookup (x_log p) s = Some e \<and> cKey (e_command e) = k)}"

text \<open>A read outside the log: if some slot from the next one to execute up to the highest holds a
  command on the key, committed or not, the value of the highest such slot is returned and marked
  as in progress; otherwise the value is the one in the store, and the store does not change.\<close>

theorem read_in_progress:
  assumes "IsRead (rCommand m)"
  shows "readInProgress m p =
     (if key_hits (cKey (rCommand m)) p = {}
      then (db_data (x_db p) (cKey (rCommand m)), False, p)
      else (cValue (x_command p (Max (key_hits (cKey (rCommand m)) p))), True, p))"
proof -
  have "Execute (rCommand m) (x_db p) = (x_db p, db_data (x_db p) (cKey (rCommand m)))"
    using assms by (intro prod_eqI) (simp_all add: Execute_eq IsRead_def IsWrite_def)
  then show ?thesis
    by (simp add: readInProgress_def in_progress_eq find_downwards key_hits_def)
qed

definition read_example :: paxos where
  "read_example = (x_set_entry 0 (follower_entry 5 (zero_command\<lparr>cKey := 4, cValue := Some [7]\<rparr>))
     (NewPaxos default_config [1, 2] 1))\<lparr>x_slot := 0\<rparr>"

definition read_request :: Request where
  "read_request = \<lparr>rCommand = zero_command\<lparr>cKey := 4\<rparr>, rProperties = [], rTimestamp = 0, rNodeID = 0\<rparr>"

theorem read_in_progress_witness:
  "readInProgress read_request read_example = (Some [7], True, read_example)"
proof -
  have "key_hits 4 read_example = {0}"
    by (auto simp: key_hits_def read_example_def NewPaxos_def follower_entry_def)
  then show ?thesis
    using read_in_progress [of read_request read_example]
    by (simp add: read_request_def IsRead_def zero_command_def x_command_def)
      (simp add: read_example_def follower_entry_def)
qed

end
