(* ===== verification/Containers.thy ===== *)
theory Containers
  imports Go_Prelude
begin

text \<open>
  The containers of \<open>lib\<close>: the ring buffer of \<open>queue.go\<close>, the linked stack of \<open>stack.go\<close>, the sets of
  \<open>set.go\<close> and \<open>cset.go\<close> and the maps of \<open>cmap.go\<close> and \<open>mmap.go\<close>, with the contracts they implement as
  locales: a buffer of elements, a set of keys, a map.

  A value of type \<open>interface{}\<close> is an \<open>'a option\<close> where the code returns or stores \<open>nil\<close>. A Go map is
  the list of its entries in iteration order, which is not specified, so facts about every such
  list are facts about every order.
\<close>

section \<open>Buffers\<close>

text \<open>A buffer holds a sequence of elements; \<open>place\<close> says where a push puts the new one, and a pop
  takes the first. The operations of a run and its results:\<close>

datatype 'a buffer_op = BPush "'a option" | BPop

fun buffer_run ::
  "('a option \<Rightarrow> 'q \<Rightarrow> 'q go) \<Rightarrow> ('q \<Rightarrow> ('a option \<times> 'q) go) \<Rightarrow> 'a buffer_op list \<Rightarrow> 'q
   \<Rightarrow> ('a option list \<times> 'q) go" where
  "buffer_run push pop [] q = Inr ([], q)"
| "buffer_run push pop (BPush e # ops) q = go_bind (push e q) (buffer_run push pop ops)"
| "buffer_run push pop (BPop # ops) q =
     go_bind (pop q) (\<lambda>(e, q1).
       go_bind (buffer_run push pop ops q1) (\<lambda>(es, q2). Inr (e # es, q2)))"

text \<open>The same on a list: a pop of the empty list returns \<open>nil\<close> and changes nothing.\<close>

fun list_pop :: "'a option list \<Rightarrow> 'a option \<times> 'a option list" where
  "list_pop [] = (None, [])"
| "list_pop (x # xs) = (x, xs)"

fun list_run ::
  "('a option \<Rightarrow> 'a option list \<Rightarrow> 'a option list) \<Rightarrow> 'a buffer_op list \<Rightarrow> 'a option list
   \<Rightarrow> 'a option list \<times> 'a option list" where
  "list_run place [] xs = ([], xs)"
| "list_run place (BPush e # ops) xs = list_run place ops (place e xs)"
| "list_run place (BPop # ops) xs =
     (let (e, ys) = list_pop xs; (es, zs) = list_run place ops ys in (e # es, zs))"

locale buffer =
  fixes inv :: "'q \<Rightarrow> bool"
    and contents :: "'q \<Rightarrow> 'a option list"
    and place :: "'a option \<Rightarrow> 'a option list \<Rightarrow> 'a option list"
    and push :: "'a option \<Rightarrow> 'q \<Rightarrow> 'q go"
    and pop :: "'q \<Rightarrow> ('a option \<times> 'q) go"
  assumes push_spec: "inv q \<Longrightarrow> \<exists>q'. push e q = Inr q' \<and> inv q' \<and> contents q' = place e (contents q)"
    and pop_spec: "inv q \<Longrightarrow> \<exists>e q'. pop q = Inr (e, q') \<and> inv q' \<and> (e, contents q') = list_pop (contents q)"
begin

lemma run_refines:
  "inv q \<Longrightarrow> \<exists>q'. buffer_run push pop ops q = Inr (fst (list_run place ops (contents q)), q') \<and> inv q' \<and>
     contents q' = snd (list_run place ops (contents q))"
proof (induction ops arbitrary: q)
  case (Cons op ops)
  show ?case
  proof (cases op)
    case (BPush e)
    obtain q1 where q1: "push e q = Inr q1" "inv q1" "contents q1 = place e (contents q)"
      using push_spec [OF Cons.prems] by blast
    then show ?thesis
      using Cons.IH [OF q1(2)] by (simp add: BPush)
  next
    case BPop
    obtain e q1 where q1: "pop q = Inr (e, q1)" "inv q1" "(e, contents q1) = list_pop (contents q)"
      using pop_spec [OF Cons.prems] by blast
    obtain q2 where "buffer_run push pop ops q1 = Inr (fst (list_run place ops (contents q1)), q2)" "inv q2"
      "contents q2 = snd (list_run place ops (contents q1))"
      using Cons.IH [OF q1(2)] by blast
    then show ?thesis
      using q1 by (simp add: BPop split: prod.split flip: q1(3))
  qed
qed simp

end

section \<open>The queue\<close>

record 'a Queue =
  q_queue :: "'a option list"
  q_size :: nat
  q_head :: nat
  q_tail :: nat

definition NewQueue :: "'a Queue" where
  "NewQueue = \<lparr>q_queue = replicate 100 None, q_size = 0, q_head = 0, q_tail = 0\<rparr>"

definition Queue_Size :: "'a Queue \<Rightarrow> nat" where
  "Queue_Size q = q_size q"

text \<open>\<open>copy(dst[off:], src)\<close>.\<close>

definition copy_at :: "'a list \<Rightarrow> nat \<Rightarrow> 'a list \<Rightarrow> 'a list" where
  "copy_at dst off src = take off dst @ take (length dst - off) src @ drop (off + length src) dst"

definition Queue_grow :: "'a Queue \<Rightarrow> 'a Queue" where
  "Queue_grow q =
     (if q_head q = q_tail q \<and> q_size q > 0 then
        let n = length (q_queue q);
            queue = replicate (n * 2) None;
            queue = copy_at queue 0 (drop (q_head q) (q_queue q));
            queue = copy_at queue (n - q_head q) (take (q_head q) (q_queue q))
        in q\<lparr>q_head := 0, q_tail := n, q_queue := queue\<rparr>
      else q)"

definition Queue_Push :: "'a option \<Rightarrow> 'a Queue \<Rightarrow> 'a Queue go" where
  "Queue_Push e q =
     (let q1 = Queue_grow q
      in if q_tail q1 < length (q_queue q1)
         then Inr (q1\<lparr>q_queue := (q_queue q1)[q_tail q1 := e],
                      q_tail := (q_tail q1 + 1) mod length (q_queue q1), q_size := q_size q1 + 1\<rparr>)
         else Inl IndexOutOfRange)"

definition Queue_Pop :: "'a Queue \<Rightarrow> ('a option \<times> 'a Queue) go" where
  "Queue_Pop q =
     (if q_size q = 0 then Inr (None, q)
      else if q_head q < length (q_queue q)
      then Inr (q_queue q ! q_head q,
                q\<lparr>q_head := (q_head q + 1) mod length (q_queue q), q_size := q_size q - 1\<rparr>)
      else Inl IndexOutOfRange)"

text \<open>The ring: \<open>size\<close> elements from \<open>head\<close> on, wrapping around.\<close>

definition ring :: "'a Queue \<Rightarrow> 'a option list" where
  "ring q = map (\<lambda>i. q_queue q ! ((q_head q + i) mod length (q_queue q))) [0..<q_size q]"

definition queue_inv :: "'a Queue \<Rightarrow> bool" where
  [wf_defs]: "queue_inv q \<longleftrightarrow>
     q_head q < length (q_queue q) \<and> q_size q \<le> length (q_queue q) \<and>
     q_tail q = (q_head q + q_size q) mod length (q_queue q)"

lemma queue_inv_New: "queue_inv NewQueue" "ring NewQueue = []"
  by (simp_all add: queue_inv_def NewQueue_def ring_def)

lemma ring_mod: "h < n \<Longrightarrow> i \<le> n \<Longrightarrow> (h + i) mod n = (if h + i < n then h + i else h + i - (n :: nat))"
  by (simp add: le_mod_geq)

lemma wrapped: "h < n \<Longrightarrow> s \<le> n \<Longrightarrow> 0 < s \<Longrightarrow> (h + s) mod n = h \<Longrightarrow> s = (n :: nat)"
  by (simp add: ring_mod split: if_splits)

lemma ring_full: "queue_inv q \<Longrightarrow> q_size q = length (q_queue q) \<Longrightarrow> ring q = rotate (q_head q) (q_queue q)"
  by (intro nth_equalityI) (simp_all add: ring_def nth_rotate)

lemma grown_queue:
  assumes "h < length xs"
  shows "copy_at (copy_at (replicate (length xs * 2) None) 0 (drop h xs)) (length xs - h) (take h xs) =
    rotate h xs @ replicate (length xs) None"
proof -
  have "length xs * 2 - (length xs - h) = length xs + h" using assms by simp
  then have "copy_at (replicate (length xs * 2) None) 0 (drop h xs) = drop h xs @ replicate (length xs + h) None"
    using assms by (simp add: copy_at_def)
  moreover have "copy_at (drop h xs @ replicate (length xs + h) None) (length xs - h) (take h xs) =
      drop h xs @ take h xs @ replicate (length xs) None"
    using assms by (simp add: copy_at_def)
  ultimately show ?thesis
    using assms by (simp add: rotate_drop_take)
qed

lemma grow_inv:
  assumes "queue_inv q"
  shows "queue_inv (Queue_grow q)" and "ring (Queue_grow q) = ring q"
    and "q_size (Queue_grow q) = q_size q" and "q_size q < length (q_queue (Queue_grow q))"
proof -
  let ?n = "length (q_queue q)"
  have "queue_inv (Queue_grow q) \<and> ring (Queue_grow q) = ring q \<and> q_size (Queue_grow q) = q_size q \<and>
      q_size q < length (q_queue (Queue_grow q))"
  proof (cases "q_head q = q_tail q \<and> q_size q > 0")
    case True
    have "q_head q < ?n" "q_size q \<le> ?n" "(q_head q + q_size q) mod ?n = q_tail q"
      using assms by (simp_all add: queue_inv_def)
    then have size: "q_size q = ?n"
      using True wrapped by metis
    have g: "Queue_grow q = q\<lparr>q_head := 0, q_tail := ?n, q_queue := rotate (q_head q) (q_queue q) @ replicate ?n None\<rparr>"
      using True assms by (simp add: Queue_grow_def Let_def grown_queue queue_inv_def)
    have "0 < ?n" using True size by simp
    then have "ring (Queue_grow q) = rotate (q_head q) (q_queue q)"
      unfolding g by (intro nth_equalityI) (simp_all add: ring_def nth_append size)
    moreover have "queue_inv (Queue_grow q)"
      unfolding g using \<open>0 < ?n\<close> by (simp add: queue_inv_def size)
    ultimately show ?thesis
      using ring_full [OF assms size] \<open>0 < ?n\<close> size by (simp add: g)
  next
    case False
    then have "q_size q \<noteq> ?n"
      using assms by (auto simp: queue_inv_def)
    moreover have "Queue_grow q = q"
      using False by (auto simp: Queue_grow_def)
    ultimately show ?thesis
      using assms by (simp add: queue_inv_def)
  qed
  then show "queue_inv (Queue_grow q)" "ring (Queue_grow q) = ring q"
    "q_size (Queue_grow q) = q_size q" "q_size q < length (q_queue (Queue_grow q))"
    by blast+
qed

lemma ring_index_inj:
  "h < n \<Longrightarrow> i < n \<Longrightarrow> j < n \<Longrightarrow> (h + i) mod n = (h + j) mod n \<Longrightarrow> i = (j :: nat)"
  by (simp add: ring_mod split: if_splits)

lemma push_spec:
  assumes "queue_inv q"
  shows "\<exists>q'. Queue_Push e q = Inr q' \<and> queue_inv q' \<and> ring q' = ring q @ [e] \<and> Queue_Size q' = Queue_Size q + 1"
proof -
  let ?g = "Queue_grow q" and ?n = "length (q_queue (Queue_grow q))"
  note g = grow_inv [OF assms]
  have t: "q_tail ?g = (q_head ?g + q_size q) mod ?n" "q_tail ?g < ?n"
    using g by (auto simp: queue_inv_def intro!: mod_less_divisor)
  let ?q = "?g\<lparr>q_queue := (q_queue ?g)[q_tail ?g := e], q_tail := (q_tail ?g + 1) mod ?n, q_size := q_size ?g + 1\<rparr>"
  have h: "q_head ?g < ?n"
    using g(1) by (simp add: queue_inv_def)
  have ne: "(q_head ?g + i) mod ?n \<noteq> q_tail ?g" if "i < q_size q" for i
    using that g(4) ring_index_inj [OF h, of i "q_size q"] t(1) by auto
  have "ring ?q = map (\<lambda>i. q_queue ?g ! ((q_head ?g + i) mod ?n)) [0..<q_size q] @ [e]"
    using t(2) g(3) by (auto simp: ring_def simp flip: t(1) intro!: nth_list_update_neq ne [symmetric])
  then have "ring ?q = ring ?g @ [e]"
    by (simp add: ring_def g(3))
  moreover have "queue_inv ?q"
    using g t by (simp add: queue_inv_def mod_Suc_eq)
  ultimately show ?thesis
    using t(2) g(2,3) by (simp add: Queue_Push_def Let_def Queue_Size_def)
qed

lemma pop_spec:
  assumes "queue_inv q"
  shows "\<exists>e q'. Queue_Pop q = Inr (e, q') \<and> queue_inv q' \<and> (e, ring q') = list_pop (ring q)
    \<and> Queue_Size q' = Queue_Size q - 1"
proof (cases "q_size q")
  case 0
  then show ?thesis
    using assms by (simp add: Queue_Pop_def ring_def Queue_Size_def)
next
  case (Suc k)
  let ?n = "length (q_queue q)"
  let ?q = "q\<lparr>q_head := (q_head q + 1) mod ?n, q_size := k\<rparr>"
  have h: "q_head q < ?n" using assms by (simp add: queue_inv_def)
  have "ring q = q_queue q ! q_head q # ring ?q"
    using h unfolding ring_def Suc
    by (simp add: upt_conv_Cons mod_simps map_Suc_upt [symmetric] del: upt_Suc)
  moreover have "0 < ?n" using h by linarith
  then have "Suc (q_head q) mod ?n < ?n" by (rule mod_less_divisor)
  then have "queue_inv ?q"
    using assms Suc by (simp add: queue_inv_def mod_simps)
  ultimately show ?thesis
    using Suc h by (simp add: Queue_Pop_def Queue_Size_def)
qed

interpretation queue: buffer queue_inv ring "\<lambda>e xs. xs @ [e]" Queue_Push Queue_Pop
  using push_spec pop_spec by unfold_locales blast+

text \<open>C18: any sequence of pushes and pops on a new queue gives exactly the results of a first-in
  first-out list: nothing panics, the ring keeps the order across every wrap-around and every
  growth beyond its initial 100 cells, a pop of the empty queue returns \<open>nil\<close>, and \<open>Size\<close> is the
  number of elements in the list.\<close>

theorem queue_is_first_in_first_out:
  "\<exists>q. buffer_run Queue_Push Queue_Pop ops NewQueue = Inr (fst (list_run (\<lambda>e xs. xs @ [e]) ops []), q)
    \<and> ring q = snd (list_run (\<lambda>e xs. xs @ [e]) ops [])
    \<and> Queue_Size q = length (snd (list_run (\<lambda>e xs. xs @ [e]) ops []))"
proof -
  have "Queue_Size q = length (ring q)" for q :: "'a Queue"
    by (simp add: Queue_Size_def ring_def)
  then show ?thesis
    using queue.run_refines [OF queue_inv_New(1), of ops] unfolding queue_inv_New(2) by metis
qed

section \<open>The stack\<close>

text \<open>The nodes of the linked list; a pointer to a node is an \<open>option\<close>.\<close>

datatype 'a stackNode = stackNode (node_value: "'a option") (node_prev: "'a stackNode option")

record 'a Stack =
  st_top :: "'a stackNode option"
  st_length :: nat

definition NewStack :: "'a Stack" where
  "NewStack = \<lparr>st_top = None, st_length = 0\<rparr>"

definition Stack_Len :: "'a Stack \<Rightarrow> nat" where
  "Stack_Len s = st_length s"

definition Stack_Peek :: "'a Stack \<Rightarrow> 'a option go" where
  "Stack_Peek s = (if st_length s = 0 then Inr None else go_bind (deref (st_top s)) (\<lambda>n. Inr (node_value n)))"

definition Stack_Pop :: "'a Stack \<Rightarrow> ('a option \<times> 'a Stack) go" where
  "Stack_Pop s =
     (if st_length s = 0 then Inr (None, s)
      else go_bind (deref (st_top s)) (\<lambda>n.
        Inr (node_value n, s\<lparr>st_top := node_prev n, st_length := st_length s - 1\<rparr>)))"

definition Stack_Push :: "'a option \<Rightarrow> 'a Stack \<Rightarrow> 'a Stack" where
  "Stack_Push v s = s\<lparr>st_top := Some (stackNode v (st_top s)), st_length := st_length s + 1\<rparr>"

definition Stack_Empty :: "'a Stack \<Rightarrow> bool" where
  "Stack_Empty s \<longleftrightarrow> st_length s = 0"

text \<open>The values from the top down, for a stack whose length is that of its list.\<close>

primrec node_list :: "'a stackNode \<Rightarrow> 'a option list" where
  "node_list (stackNode v p) = v # (case map_option node_list p of None \<Rightarrow> [] | Some xs \<Rightarrow> xs)"

definition stack_list :: "'a Stack \<Rightarrow> 'a option list" where
  "stack_list s = (case st_top s of None \<Rightarrow> [] | Some n \<Rightarrow> node_list n)"

definition stack_inv :: "'a Stack \<Rightarrow> bool" where
  [wf_defs]: "stack_inv s \<longleftrightarrow> st_length s = length (stack_list s)"

lemma stack_Push: "stack_inv s \<Longrightarrow> stack_inv (Stack_Push v s) \<and> stack_list (Stack_Push v s) = v # stack_list s"
  by (simp add: stack_inv_def stack_list_def Stack_Push_def split: option.split)

lemma stack_Pop:
  "stack_inv s \<Longrightarrow> \<exists>e s'. Stack_Pop s = Inr (e, s') \<and> stack_inv s' \<and> (e, stack_list s') = list_pop (stack_list s)"
proof (cases "st_top s")
  case (Some n)
  then show "stack_inv s \<Longrightarrow> ?thesis"
    by (cases n) (auto simp: stack_inv_def stack_list_def Stack_Pop_def split: option.split)
qed (simp add: stack_inv_def stack_list_def Stack_Pop_def)

interpretation stack: buffer stack_inv stack_list Cons "\<lambda>v s. Inr (Stack_Push v s)" Stack_Pop
  using stack_Push stack_Pop by unfold_locales blast+

lemma stack_inv_New: "stack_inv NewStack" "stack_list NewStack = []"
  by (simp_all add: stack_inv_def stack_list_def NewStack_def)

text \<open>any sequence of pushes and pops on a new stack gives exactly the results of a last-in
  first-out list; \<open>Len\<close> and \<open>Empty\<close> read the length of that list and \<open>Peek\<close> its first element, \<open>nil\<close>
  when it is empty, and none of them dereferences a null pointer.\<close>

theorem stack_is_last_in_first_out:
  "\<exists>s. buffer_run (\<lambda>v s. Inr (Stack_Push v s)) Stack_Pop ops NewStack = Inr (fst (list_run Cons ops []), s)
    \<and> Stack_Len s = length (snd (list_run Cons ops []))
    \<and> Stack_Empty s = (snd (list_run Cons ops []) = [])
    \<and> Stack_Peek s = Inr (fst (list_pop (snd (list_run Cons ops []))))"
proof -
  have "Stack_Len s = length (stack_list s) \<and> Stack_Empty s = (stack_list s = []) \<and>
      Stack_Peek s = Inr (fst (list_pop (stack_list s)))" if "stack_inv s" for s :: "'a Stack"
  proof (cases "st_top s")
    case None
    then show ?thesis
      using that by (simp add: stack_inv_def stack_list_def Stack_Len_def Stack_Empty_def Stack_Peek_def)
  next
    case (Some n)
    then show ?thesis
      using that by (cases n) (simp add: stack_inv_def stack_list_def Stack_Len_def Stack_Empty_def Stack_Peek_def)
  qed
  then show ?thesis
    using stack.run_refines [OF stack_inv_New(1), of ops] unfolding stack_inv_New(2) by metis
qed

section \<open>Sets\<close>

text \<open>A Go map used as a set; \<open>range\<close> visits the keys in the order of the list.\<close>

type_synonym 'a goset = "'a list"

definition NewSet :: "'a goset" where
  "NewSet = []"

definition Set_Add :: "'a \<Rightarrow> 'a goset \<Rightarrow> 'a goset" where
  "Set_Add e s = (if e \<in> set s then s else s @ [e])"

definition Set_Has :: "'a \<Rightarrow> 'a goset \<Rightarrow> bool" where
  "Set_Has e s \<longleftrightarrow> e \<in> set s"

definition Set_Remove :: "'a \<Rightarrow> 'a goset \<Rightarrow> 'a goset" where
  "Set_Remove e s = removeAll e s"

definition Set_Slice :: "'a goset \<Rightarrow> 'a list" where
  "Set_Slice s = fold (\<lambda>e slice. slice @ [e]) s []"

definition Set_Clear :: "'a goset \<Rightarrow> 'a goset" where
  "Set_Clear s = fold Set_Remove s s"

definition Set_Clone :: "'a goset \<Rightarrow> 'a goset" where
  "Set_Clone s = fold Set_Add s NewSet"

text \<open>The contract of a set of keys, and what every implementation then gives: a run of additions and
  removals is the run on sets.\<close>

datatype 'a set_op = SAdd 'a | SRemove 'a

fun set_step :: "'a set_op \<Rightarrow> 'a set \<Rightarrow> 'a set" where
  "set_step (SAdd e) A = insert e A"
| "set_step (SRemove e) A = A - {e}"

fun apply_set_op :: "('a \<Rightarrow> 's \<Rightarrow> 's) \<Rightarrow> ('a \<Rightarrow> 's \<Rightarrow> 's) \<Rightarrow> 'a set_op \<Rightarrow> 's \<Rightarrow> 's" where
  "apply_set_op add remove (SAdd e) s = add e s"
| "apply_set_op add remove (SRemove e) s = remove e s"

locale key_set =
  fixes inv :: "'s \<Rightarrow> bool"
    and elems :: "'s \<Rightarrow> 'a set"
    and empty :: 's
    and add :: "'a \<Rightarrow> 's \<Rightarrow> 's"
    and remove :: "'a \<Rightarrow> 's \<Rightarrow> 's"
  assumes empty: "inv empty" "elems empty = {}"
    and add: "inv s \<Longrightarrow> inv (add e s)" "inv s \<Longrightarrow> elems (add e s) = insert e (elems s)"
    and remove: "inv s \<Longrightarrow> inv (remove e s)" "inv s \<Longrightarrow> elems (remove e s) = elems s - {e}"
begin

lemma run_refines:
  "inv (fold (apply_set_op add remove) ops empty) \<and>
   elems (fold (apply_set_op add remove) ops empty) = fold set_step ops {}"
proof (induction ops rule: rev_induct)
  case (snoc op ops)
  then show ?case
    by (cases op) (simp_all add: add remove)
qed (simp add: empty)

end

lemma distinct_Add: "distinct s \<Longrightarrow> distinct (Set_Add e s)" "set (Set_Add e s) = insert e (set s)"
  by (auto simp: Set_Add_def)

interpretation goset: key_set distinct set NewSet Set_Add Set_Remove
  by unfold_locales (auto simp: distinct_Add NewSet_def Set_Remove_def distinct_removeAll)

lemma Set_Slice_eq [simp]: "Set_Slice s = s"
proof -
  have "fold (\<lambda>e slice. slice @ [e]) s a = a @ s" for a
    by (induction s arbitrary: a) simp_all
  then show ?thesis by (simp add: Set_Slice_def)
qed

lemma Set_Clear_eq [simp]: "Set_Clear s = []"
proof -
  have "set (fold Set_Remove es s) = set s - set es" for es
    by (induction es arbitrary: s) (auto simp: Set_Remove_def)
  from this [of s] show ?thesis by (simp add: Set_Clear_def)
qed

lemma Set_Clone_eq: "distinct s \<Longrightarrow> Set_Clone s = s"
proof -
  have "fold Set_Add s a = a @ s" if "distinct (a @ s)" for a
    using that by (induction s arbitrary: a) (simp_all add: Set_Add_def)
  from this [of "[]"] show "distinct s \<Longrightarrow> ?thesis" by (simp add: Set_Clone_def NewSet_def)
qed

text \<open>after any additions and removals a set holds exactly the elements that the same run of
  mathematical insertions and deletions leaves: \<open>Has\<close> tests membership, \<open>Slice\<close> lists every element
  once, \<open>Clone\<close> has the same elements and \<open>Clear\<close> none.\<close>

theorem set_operations:
  "\<exists>s A. fold (apply_set_op Set_Add Set_Remove) ops NewSet = s \<and> fold set_step ops {} = A
    \<and> set (Set_Slice s) = A \<and> length (Set_Slice s) = card A
    \<and> Set_Has e s = (e \<in> A) \<and> set (Set_Clone s) = A \<and> set (Set_Clear s) = {}"
proof -
  let ?s = "fold (apply_set_op Set_Add Set_Remove) ops NewSet"
  have "distinct ?s" "set ?s = fold set_step ops {}"
    using goset.run_refines [of ops] by blast+
  then show ?thesis
    by (simp add: Set_Has_def Set_Clone_eq flip: distinct_card)
qed

section \<open>The set and the maps with a lock\<close>

text \<open>\<open>sync.RWMutex\<close>: \<open>Lock\<close> waits while it is held in any way, \<open>RLock\<close> while it is held by a
  writer; unlocking what is not locked is a fatal error. One goroutine runs at a time, so a call
  that would wait never returns.\<close>

record RWMutex =
  readers :: nat
  writer :: bool

definition unlocked :: RWMutex where
  "unlocked = \<lparr>readers = 0, writer = False\<rparr>"

definition mLock :: "RWMutex \<Rightarrow> RWMutex go" where
  "mLock m = (if writer m \<or> readers m > 0 then Inl Hang else Inr (m\<lparr>writer := True\<rparr>))"

definition mUnlock :: "RWMutex \<Rightarrow> RWMutex go" where
  "mUnlock m = (if writer m then Inr (m\<lparr>writer := False\<rparr>) else Inl UnlockOfUnlocked)"

definition mRLock :: "RWMutex \<Rightarrow> RWMutex go" where
  "mRLock m = (if writer m then Inl Hang else Inr (m\<lparr>readers := readers m + 1\<rparr>))"

definition mRUnlock :: "RWMutex \<Rightarrow> RWMutex go" where
  "mRUnlock m = (if readers m > 0 then Inr (m\<lparr>readers := readers m - 1\<rparr>) else Inl UnlockOfUnlocked)"

text \<open>A body between taking and releasing a lock.\<close>

definition locked :: "(RWMutex \<Rightarrow> RWMutex go) \<Rightarrow> (RWMutex \<Rightarrow> RWMutex go) \<Rightarrow> ('d \<Rightarrow> 'r \<times> 'd)
  \<Rightarrow> 'd \<times> RWMutex \<Rightarrow> ('r \<times> 'd \<times> RWMutex) go" where
  "locked lock unlock body = (\<lambda>(d, m).
     go_bind (lock m) (\<lambda>m1. let (r, d1) = body d in go_bind (unlock m1) (\<lambda>m2. Inr (r, d1, m2))))"

lemma locked_write [simp]: "locked mLock mUnlock body (d, unlocked) = Inr (fst (body d), snd (body d), unlocked)"
  by (simp add: locked_def mLock_def mUnlock_def unlocked_def split: prod.split)

lemma locked_read [simp]: "locked mRLock mRUnlock body (d, unlocked) = Inr (fst (body d), snd (body d), unlocked)"
  by (simp add: locked_def mRLock_def mRUnlock_def unlocked_def split: prod.split)

type_synonym 'a CSet = "'a goset \<times> RWMutex"

definition NewCSet :: "'a CSet" where
  "NewCSet = ([], unlocked)"

definition CSet_Put :: "'a \<Rightarrow> 'a CSet \<Rightarrow> (unit \<times> 'a CSet) go" where
  "CSet_Put e = locked mLock mUnlock (\<lambda>data. ((), Set_Add e data))"

text \<open>\<open>Get\<close> takes the read lock and defers the release of the write lock.\<close>

definition CSet_Get :: "'a CSet \<Rightarrow> ('a option \<times> 'a CSet) go" where
  "CSet_Get = locked mRLock mUnlock (\<lambda>data. (case data of [] \<Rightarrow> None | e # _ \<Rightarrow> Some e, data))"

definition CSet_Contains :: "'a \<Rightarrow> 'a CSet \<Rightarrow> (bool \<times> 'a CSet) go" where
  "CSet_Contains e = locked mRLock mRUnlock (\<lambda>data. (e \<in> set data, data))"

definition CSet_Remove :: "'a \<Rightarrow> 'a CSet \<Rightarrow> (unit \<times> 'a CSet) go" where
  "CSet_Remove e = locked mLock mUnlock (\<lambda>data. ((), Set_Remove e data))"

definition CSet_Size :: "'a CSet \<Rightarrow> (nat \<times> 'a CSet) go" where
  "CSet_Size = locked mRLock mRUnlock (\<lambda>data. (length data, data))"

definition CSet_Array :: "'a CSet \<Rightarrow> ('a list \<times> 'a CSet) go" where
  "CSet_Array = locked mRLock mRUnlock (\<lambda>data. (fold (\<lambda>e array. array @ [e]) data [], data))"

type_synonym ('k, 'v) gomap = "('k \<times> 'v) list"

type_synonym ('k, 'v) CMap = "('k, 'v) gomap \<times> RWMutex"

definition NewCMap :: "('k, 'v) CMap" where
  "NewCMap = ([], unlocked)"

definition CMap_Get :: "'k \<Rightarrow> ('k, 'v) CMap \<Rightarrow> ('v option \<times> ('k, 'v) CMap) go" where
  "CMap_Get k = locked mRLock mRUnlock (\<lambda>data. (map_of data k, data))"

definition CMap_Put :: "'k \<Rightarrow> 'v \<Rightarrow> ('k, 'v) CMap \<Rightarrow> (unit \<times> ('k, 'v) CMap) go" where
  "CMap_Put k v = locked mLock mUnlock (\<lambda>data. ((), AList.update k v data))"

definition CMap_Contains :: "'k \<Rightarrow> ('k, 'v) CMap \<Rightarrow> (bool \<times> ('k, 'v) CMap) go" where
  "CMap_Contains k = locked mRLock mRUnlock (\<lambda>data. (map_of data k \<noteq> None, data))"

definition CMap_Size :: "('k, 'v) CMap \<Rightarrow> (nat \<times> ('k, 'v) CMap) go" where
  "CMap_Size = locked mRLock mRUnlock (\<lambda>data. (length data, data))"

text \<open>The loop that stores the keys of a map at the successive indices of a slice.\<close>

fun store_keys :: "'k list \<Rightarrow> nat \<Rightarrow> 'k option list \<Rightarrow> 'k option list go" where
  "store_keys [] i keys = Inr keys"
| "store_keys (k # ks) i keys =
     (if i < length keys then store_keys ks (i + 1) (keys[i := Some k]) else Inl IndexOutOfRange)"

definition CMap_Keys :: "('k, 'v) CMap \<Rightarrow> ('k option list go \<times> ('k, 'v) CMap) go" where
  "CMap_Keys = locked mRLock mRUnlock
     (\<lambda>data. (store_keys (map fst data) 0 (replicate (length data) None), data))"

type_synonym ('k, 'l, 'v) MMap = "('k, ('l, 'v) gomap option) gomap"

definition NewMMap :: "('k, 'l, 'v) MMap" where
  "NewMMap = []"

text \<open>Reading a missing key of a map of maps gives the \<open>nil\<close> map, which can be read but not written.\<close>

definition MMap_inner :: "'k \<Rightarrow> ('k, 'l, 'v) MMap \<Rightarrow> ('l, 'v) gomap option" where
  "MMap_inner k m = (case map_of m k of None \<Rightarrow> None | Some inner \<Rightarrow> inner)"

definition MMap_Keys :: "('k, 'l, 'v) MMap \<Rightarrow> 'k option list go" where
  "MMap_Keys m = store_keys (map fst m) 0 (replicate (length m) None)"

definition MMap_SecondaryKeys :: "'k \<Rightarrow> ('k, 'l, 'v) MMap \<Rightarrow> 'l option list go" where
  "MMap_SecondaryKeys k m =
     store_keys (case MMap_inner k m of None \<Rightarrow> [] | Some inner \<Rightarrow> map fst inner) 0
       (replicate (length m) None)"

definition MMap_Get :: "'k \<Rightarrow> 'l \<Rightarrow> ('k, 'l, 'v) MMap \<Rightarrow> 'v option" where
  "MMap_Get k version m = (case MMap_inner k m of None \<Rightarrow> None | Some inner \<Rightarrow> map_of inner version)"

definition MMap_Put :: "'k \<Rightarrow> 'l \<Rightarrow> 'v \<Rightarrow> ('k, 'l, 'v) MMap \<Rightarrow> ('k, 'l, 'v) MMap go" where
  "MMap_Put k k2 v m =
     (case MMap_inner k m of
        None \<Rightarrow> Inl NilMapWrite
      | Some inner \<Rightarrow> Inr (AList.update k (Some (AList.update k2 v inner)) m))"

lemma store_keys_eq:
  "store_keys ks i keys =
     (if i + length ks \<le> length keys then Inr (take i keys @ map Some ks @ drop (i + length ks) keys)
      else if ks = [] then Inr keys else Inl IndexOutOfRange)"
proof (induction ks arbitrary: i keys)
  case (Cons k ks)
  then show ?case
    by (auto simp: take_Suc_conv_app_nth upd_conv_take_nth_drop add.commute)
qed simp

definition set_put_remove :: "'a set_op \<Rightarrow> 'a CSet \<Rightarrow> (unit \<times> 'a CSet) go" where
  "set_put_remove op = (case op of SAdd e \<Rightarrow> CSet_Put e | SRemove e \<Rightarrow> CSet_Remove e)"

text \<open>from a new \<open>CSet\<close> every run of \<open>Put\<close> and \<open>Remove\<close> returns with the lock free and the elements
  of the run on sets, and the queries agree with that set; but \<open>Get\<close> releases a lock it does not
  hold, so every call of it ends in a fatal error, whatever the set.\<close>

theorem cset_get_always_fails:
  "\<exists>s. go_fold (\<lambda>op c. go_bind (set_put_remove op c) (\<lambda>(_, c1). Inr c1)) ops NewCSet = Inr (s, unlocked)
    \<and> distinct s \<and> set s = fold set_step ops {}
    \<and> CSet_Contains e (s, unlocked) = Inr (e \<in> fold set_step ops {}, s, unlocked)
    \<and> CSet_Size (s, unlocked) = Inr (card (fold set_step ops {}), s, unlocked)
    \<and> CSet_Array (s, unlocked) = Inr (s, s, unlocked)
    \<and> CSet_Get (s, unlocked) = Inl UnlockOfUnlocked"
proof -
  have "go_fold (\<lambda>op c. go_bind (set_put_remove op c) (\<lambda>(_, c1). Inr c1)) ops (s0, unlocked) =
      Inr (fold (apply_set_op Set_Add Set_Remove) ops s0, unlocked)" for s0
  proof (induction ops arbitrary: s0)
    case (Cons op ops)
    then show ?case
      by (cases op) (simp_all add: set_put_remove_def CSet_Put_def CSet_Remove_def)
  qed simp
  from this [of "[]"] have run: "go_fold (\<lambda>op c. go_bind (set_put_remove op c) (\<lambda>(_, c1). Inr c1)) ops NewCSet =
      Inr (fold (apply_set_op Set_Add Set_Remove) ops NewSet, unlocked)"
    by (simp add: NewCSet_def NewSet_def)
  have d: "distinct (fold (apply_set_op Set_Add Set_Remove) ops NewSet)"
    "set (fold (apply_set_op Set_Add Set_Remove) ops NewSet) = fold set_step ops {}"
    using goset.run_refines [of ops] by blast+
  have "fold (\<lambda>e array. array @ [e]) s [] = s" for s :: "'a list"
    by (rule Set_Slice_eq [unfolded Set_Slice_def])
  then show ?thesis
    using run d by (intro exI [of _ "fold (apply_set_op Set_Add Set_Remove) ops NewSet"])
      (simp add: CSet_Contains_def CSet_Size_def CSet_Array_def CSet_Get_def distinct_card [symmetric],
       simp add: locked_def mRLock_def mUnlock_def unlocked_def split: prod.split)
qed

text \<open>The contract of a table: a lookup returns what was stored last under the key.\<close>

locale lookup_table =
  fixes inv :: "'m \<Rightarrow> bool"
    and empty :: 'm
    and get :: "'m \<Rightarrow> 'k \<Rightarrow> 'v option"
    and put :: "'k \<Rightarrow> 'v \<Rightarrow> 'm \<Rightarrow> 'm"
  assumes empty: "inv empty" "get empty k = None"
    and put: "inv m \<Longrightarrow> inv (put k v m)" "inv m \<Longrightarrow> get (put k v m) k' = (if k' = k then Some v else get m k')"
begin

lemma puts: "inv (fold (\<lambda>(k, v). put k v) kvs empty) \<and> get (fold (\<lambda>(k, v). put k v) kvs empty) k = map_of (rev kvs) k"
proof (induction kvs rule: rev_induct)
  case (snoc kv kvs)
  then show ?case
    by (cases kv) (simp add: put)
qed (simp add: empty)

end

interpretation gomap: lookup_table "\<lambda>m. distinct (map fst m)" "[]" map_of AList.update
  by unfold_locales (auto simp: distinct_update update_conv')

text \<open>after any sequence of \<open>Put\<close>s on a new \<open>CMap\<close> the lock is free and \<open>Get\<close> returns the value
  stored last under the key, \<open>nil\<close> for a key never stored; \<open>Contains\<close>, \<open>Size\<close> and \<open>Keys\<close> read the set
  of the keys stored, and the loop of \<open>Keys\<close> never leaves its slice. A \<open>Put\<close> on an \<open>MMap\<close> whose first
  key is new writes to a nil map and panics, so no entry can ever be stored in one made by \<open>NewMMap\<close>.\<close>

theorem cmap_returns_the_last_value:
  "\<exists>m. go_fold (\<lambda>(k, v) c. go_bind (CMap_Put k v c) (\<lambda>(_, c1). Inr c1)) kvs NewCMap = Inr (m, unlocked)
    \<and> CMap_Get k (m, unlocked) = Inr (map_of (rev kvs) k, m, unlocked)
    \<and> CMap_Contains k (m, unlocked) = Inr (k \<in> fst ` set kvs, m, unlocked)
    \<and> CMap_Size (m, unlocked) = Inr (card (fst ` set kvs), m, unlocked)
    \<and> (\<exists>ks. CMap_Keys (m, unlocked) = Inr (Inr (map Some ks), m, unlocked) \<and> distinct ks \<and>
         set ks = fst ` set kvs)
    \<and> MMap_Put k1 k2 v NewMMap = Inl NilMapWrite"
proof -
  let ?m = "fold (\<lambda>(k, v). AList.update k v) kvs []"
  have "go_fold (\<lambda>(k, v) c. go_bind (CMap_Put k v c) (\<lambda>(_, c1). Inr c1)) kvs (m0, unlocked) =
      Inr (fold (\<lambda>(k, v). AList.update k v) kvs m0, unlocked)" for m0
    by (induction kvs arbitrary: m0) (auto simp: CMap_Put_def)
  then have run: "go_fold (\<lambda>(k, v) c. go_bind (CMap_Put k v c) (\<lambda>(_, c1). Inr c1)) kvs NewCMap = Inr (?m, unlocked)"
    by (simp add: NewCMap_def)
  have d: "distinct (map fst ?m)" and get: "map_of ?m k = map_of (rev kvs) k" for k
    using gomap.puts [of kvs] by blast+
  have dom: "fst ` set ?m = fst ` set kvs"
  proof -
    have "map_of ?m = map_of (rev kvs)" by (rule ext) (rule get)
    then have "dom (map_of ?m) = dom (map_of (rev kvs))" by (rule arg_cong)
    then show ?thesis by (simp add: dom_map_of_conv_image_fst)
  qed
  then have "length ?m = card (fst ` set kvs)"
    using distinct_card [OF d] by simp
  moreover have "map_of ?m k \<noteq> None \<longleftrightarrow> k \<in> fst ` set kvs"
    unfolding map_of_eq_None_iff dom [symmetric] by simp
  moreover have "\<exists>ks. CMap_Keys (?m, unlocked) = Inr (Inr (map Some ks), ?m, unlocked) \<and> distinct ks \<and>
      set ks = fst ` set kvs"
    using d dom by (intro exI [of _ "map fst ?m"]) (simp add: CMap_Keys_def store_keys_eq)
  ultimately show ?thesis
    using run get by (intro exI [of _ ?m])
      (simp add: CMap_Get_def CMap_Contains_def CMap_Size_def MMap_Put_def MMap_inner_def NewMMap_def)
qed

end
