(* ===== verification/EPaxos.thy ===== *)
theory EPaxos
  imports PigMessages
begin

text \<open>
  The leaderless protocol of \<open>epaxos/replica.go\<close>, \<open>epaxos/instance.go\<close> and \<open>epaxos/msg.go\<close>. Every
  replica has a log per node; an instance carries a sequence number and dependencies. The maps that
  a handler iterates over are association lists in iteration order, a map that may be nil is an
  \<open>option\<close>, and \<open>graph\<close>, which no method uses, is left out.
\<close>

section \<open>Messages and state\<close>

datatype status = NONE | PREACCEPTED | ACCEPTED | COMMITTED | EXECUTED

type_synonym deps = "(ID \<times> goint) list option"

record instance_t =
  i_cmd :: Command
  i_ballot :: Ballot
  i_status :: status
  i_seq :: goint
  i_dep :: deps
  i_request :: "Request option"
  i_quorum :: "quorum option"
  i_changed :: bool

definition zero_instance :: instance_t where
  "zero_instance = \<lparr>i_cmd = zero_command, i_ballot = 0, i_status = NONE, i_seq = 0, i_dep = None,
     i_request = None, i_quorum = None, i_changed = False\<rparr>"

datatype PreAccept =
  PreAccept (pa_Ballot: Ballot) (pa_Replica: ID) (pa_Slot: goint) (pa_Command: Command)
    (pa_Seq: goint) (pa_Dep: deps)

datatype PreAcceptReply =
  PreAcceptReply (par_Ballot: Ballot) (par_Replica: ID) (par_Slot: goint) (par_Seq: goint)
    (par_Dep: deps) (par_Committed: "(ID \<times> goint) list")

datatype Accept =
  Accept (ac_Ballot: Ballot) (ac_Replica: ID) (ac_Slot: goint) (ac_Seq: goint) (ac_Dep: deps)

datatype AcceptReply = AcceptReply (ar_Ballot: Ballot) (ar_Replica: ID) (ar_Slot: goint)

datatype Commit =
  Commit (co_Ballot: Ballot) (co_Replica: ID) (co_Slot: goint) (co_Command: Command)
    (co_Seq: goint) (co_Dep: deps)

datatype epaxos_msg =
    E_PreAccept PreAccept
  | E_PreAcceptReply PreAcceptReply
  | E_Accept Accept
  | E_AcceptReply AcceptReply
  | E_Commit Commit

datatype epaxos_call =
    ESend ID epaxos_msg
  | EBroadcast epaxos_msg
  | EReply Request Reply
  | ERetry Request

record epaxos =
  e_id :: ID
  e_db :: database
  e_log :: "(ID \<times> (goint, instance_t) fmap) list"
  e_slot :: "(ID \<times> goint) list"
  e_committed :: "(ID \<times> goint) list"
  e_executed :: "(ID \<times> goint) list"
  e_conflicts :: "(ID \<times> (Key, goint) fmap) list"
  e_maxSeqPerKey :: "(Key, goint) fmap"
  e_fast :: goint
  e_slow :: goint
  e_calls :: "epaxos_call list"

definition NewEPaxos :: "config \<Rightarrow> ID list \<Rightarrow> ID \<Rightarrow> epaxos" where
  "NewEPaxos c addrs self =
     \<lparr>e_id = self, e_db = NewDatabase c,
      e_log = fold (\<lambda>i. AList.update i fmempty) addrs [],
      e_slot = fold (\<lambda>i. AList.update i (- 1)) addrs [],
      e_committed = fold (\<lambda>i. AList.update i (- 1)) addrs [],
      e_executed = fold (\<lambda>i. AList.update i (- 1)) addrs [],
      e_conflicts = fold (\<lambda>i. AList.update i fmempty) addrs [],
      e_maxSeqPerKey = fmempty, e_fast = 0, e_slow = 0, e_calls = []\<rparr>"

definition e_emit :: "epaxos_call \<Rightarrow> epaxos \<Rightarrow> epaxos" where
  "e_emit x r = r\<lparr>e_calls := e_calls r @ [x]\<rparr>"

text \<open>\<open>r.log[id][s]\<close>: reading goes through a nil inner map, writing to one panics.\<close>

definition inst :: "epaxos \<Rightarrow> ID \<Rightarrow> goint \<Rightarrow> instance_t option" where
  "inst r i s = (case map_of (e_log r) i of None \<Rightarrow> None | Some m \<Rightarrow> fmlookup m s)"

definition put_inst :: "ID \<Rightarrow> goint \<Rightarrow> instance_t \<Rightarrow> epaxos \<Rightarrow> epaxos go" where
  "put_inst i s x r =
     (case map_of (e_log r) i of
        None \<Rightarrow> Inl NilMapWrite
      | Some m \<Rightarrow> Inr (r\<lparr>e_log := AList.update i (fmupd s x m) (e_log r)\<rparr>))"

section \<open>Instances\<close>

text \<open>The loop over the received dependencies; the instance's own map may be nil.\<close>

fun merge_dep :: "ID \<times> goint \<Rightarrow> instance_t \<Rightarrow> instance_t go" where
  "merge_dep (k, d) x =
     (if d > get0 (case i_dep x of None \<Rightarrow> [] | Some m \<Rightarrow> m) k then
        (case i_dep x of
           None \<Rightarrow> Inl NilMapWrite
         | Some m \<Rightarrow> Inr (x\<lparr>i_dep := Some (AList.update k d m), i_changed := True\<rparr>))
      else Inr x)"

definition merge :: "goint \<Rightarrow> deps \<Rightarrow> instance_t \<Rightarrow> instance_t go" where
  "merge seq dep x =
     (let x1 = (if seq > i_seq x then x\<lparr>i_seq := seq, i_changed := True\<rparr> else x)
      in go_fold merge_dep (case dep of None \<Rightarrow> [] | Some m \<Rightarrow> m) x1)"

definition copyDep :: "instance_t \<Rightarrow> deps" where
  "copyDep x =
     Some (fold (\<lambda>(k, d). AList.update k d) (case i_dep x of None \<Rightarrow> [] | Some m \<Rightarrow> m) [])"

section \<open>Attributes and conflicts\<close>

text \<open>One round of the loop over \<open>r.conflicts\<close>; \<open>dep\<close> starts empty, so a missing entry reads as 0.\<close>

fun attr_step :: "epaxos \<Rightarrow> Key \<Rightarrow> ID \<times> (Key, goint) fmap \<Rightarrow> goint \<times> (ID \<times> goint) list
  \<Rightarrow> (goint \<times> (ID \<times> goint) list) go" where
  "attr_step r k (i, m) (seq, dep) =
     (case fmlookup m k of
        None \<Rightarrow> Inr (seq, dep)
      | Some d \<Rightarrow>
          if d > get0 dep i then
            go_bind (deref (inst r i d))
              (\<lambda>x. Inr (if seq \<le> i_seq x then i_seq x + 1 else seq, AList.update i d dep))
          else Inr (seq, dep))"

definition attributes :: "Command \<Rightarrow> epaxos \<Rightarrow> (goint \<times> (ID \<times> goint) list) go" where
  "attributes cmd r =
     go_bind (go_fold (attr_step r (cKey cmd)) (e_conflicts r) (0, []))
       (\<lambda>(seq, dep).
          Inr (case fmlookup (e_maxSeqPerKey r) (cKey cmd) of
                 Some s \<Rightarrow> if seq \<le> s then s + 1 else seq
               | None \<Rightarrow> seq, dep))"

definition e_update :: "Command \<Rightarrow> ID \<Rightarrow> goint \<Rightarrow> goint \<Rightarrow> epaxos \<Rightarrow> epaxos go" where
  "e_update cmd i s seq r =
     (let k = cKey cmd;
          m = (case map_of (e_conflicts r) i of None \<Rightarrow> fmempty | Some m \<Rightarrow> m);
          r1 = (case fmlookup m k of
                  Some d \<Rightarrow> if d < s then Inr (r\<lparr>e_conflicts := AList.update i (fmupd k s m) (e_conflicts r)\<rparr>)
                            else Inr r
                | None \<Rightarrow> if map_of (e_conflicts r) i = None then Inl NilMapWrite
                          else Inr (r\<lparr>e_conflicts := AList.update i (fmupd k s m) (e_conflicts r)\<rparr>))
      in go_bind r1 (\<lambda>r1. Inr
           (case fmlookup (e_maxSeqPerKey r1) k of
              Some t \<Rightarrow> if t < seq then r1\<lparr>e_maxSeqPerKey := fmupd k seq (e_maxSeqPerKey r1)\<rparr> else r1
            | None \<Rightarrow> r1\<lparr>e_maxSeqPerKey := fmupd k seq (e_maxSeqPerKey r1)\<rparr>)))"

section \<open>Executing\<close>

definition mark_executed :: "ID \<Rightarrow> goint \<Rightarrow> epaxos \<Rightarrow> epaxos" where
  "mark_executed i s r =
     (if s = get0 (e_executed r) i + 1 then r\<lparr>e_executed := AList.update i s (e_executed r)\<rparr> else r)"

definition execute_instance :: "instance_t \<Rightarrow> epaxos \<Rightarrow> epaxos" where
  "execute_instance x r =
     (let (d, v) = Execute (i_cmd x) (e_db r); r1 = r\<lparr>e_db := d\<rparr>
      in case i_request x of None \<Rightarrow> r1 | Some q \<Rightarrow> e_emit (EReply q (mk_Reply (i_cmd x) v 0)) r1)"

text \<open>The inner loop of \<open>execute\<close> over the slots of one node; \<open>break\<close> ends it. \<open>execute2\<close>, which no
  method calls, goes on where \<open>execute\<close> breaks and clears the request of an executed instance.\<close>

fun execute_log :: "(goint, instance_t) fmap \<Rightarrow> ID \<Rightarrow> goint list \<Rightarrow> epaxos \<Rightarrow> epaxos" where
  "execute_log m i [] r = r"
| "execute_log m i (s # ss) r =
     (case fmlookup m s of
        None \<Rightarrow> execute_log m i ss r
      | Some x \<Rightarrow>
          if i_status x = EXECUTED then execute_log m i ss (mark_executed i s r)
          else if i_status x \<noteq> COMMITTED then r
          else execute_log m i ss (mark_executed i s (execute_instance x r)))"

definition e_execute :: "epaxos \<Rightarrow> epaxos" where
  "e_execute r =
     fold (\<lambda>(i, m) r. execute_log m i [get0 (e_executed r) i + 1 .. get0 (e_slot r) i] r) (e_log r) r"

fun execute2_log :: "ID \<Rightarrow> goint list \<Rightarrow> epaxos \<Rightarrow> epaxos go" where
  "execute2_log i [] r = Inr r"
| "execute2_log i (s # ss) r =
     (case inst r i s of
        None \<Rightarrow> execute2_log i ss r
      | Some x \<Rightarrow>
          if i_status x = EXECUTED then execute2_log i ss (mark_executed i s r)
          else if i_status x \<noteq> COMMITTED then execute2_log i ss r
          else go_bind (put_inst i s (x\<lparr>i_request := None\<rparr>) (execute_instance x r))
                 (\<lambda>r1. execute2_log i ss (mark_executed i s r1)))"

definition e_execute2 :: "epaxos \<Rightarrow> epaxos go" where
  "e_execute2 r =
     go_fold (\<lambda>(i, m) r. execute2_log i [get0 (e_executed r) i + 1 .. get0 (e_slot r) i] r) (e_log r) r"

text \<open>The loop of \<open>updateCommit\<close>: the frontier of the committed prefix.\<close>

function frontier :: "(goint, instance_t) fmap \<Rightarrow> goint \<Rightarrow> goint" where
  "frontier m s =
     (case fmlookup m (s + 1) of
        None \<Rightarrow> s
      | Some x \<Rightarrow> if i_status x = COMMITTED \<or> i_status x = EXECUTED then frontier m (s + 1) else s)"
  by pat_completeness auto
termination
proof (relation "measure (\<lambda>(m, s). card {k \<in> fset (fmdom m). s < k})", goal_cases)
  case (2 m s x)
  let ?A = "{k \<in> fset (fmdom m). s < k}"
  have dom: "s + 1 \<in> fset (fmdom m)"
    using 2(1) by (rule fmdomI)
  then have "{k \<in> fset (fmdom m). s + 1 < k} \<subseteq> ?A - {s + 1}"
    by auto
  moreover have "s + 1 \<in> ?A"
    using dom by simp
  then have "?A - {s + 1} \<subset> ?A"
    by blast
  ultimately have "{k \<in> fset (fmdom m). s + 1 < k} \<subset> ?A"
    by (rule subset_psubset_trans)
  then show ?case
    by (simp add: psubset_card_mono)
qed simp

declare frontier.simps [simp del]

definition updateCommit :: "ID \<Rightarrow> epaxos \<Rightarrow> epaxos" where
  "updateCommit i r =
     (let m = (case map_of (e_log r) i of None \<Rightarrow> fmempty | Some m \<Rightarrow> m);
          s = get0 (e_committed r) i; t = frontier m s
      in e_execute (if t = s then r else r\<lparr>e_committed := AList.update i t (e_committed r)\<rparr>))"

section \<open>Handlers\<close>

definition e_handleRequest :: "Request \<Rightarrow> epaxos \<Rightarrow> epaxos go" where
  "e_handleRequest m r =
     (let i = e_id r; b = NewBallot 0 i; s = get0 (e_slot r) i + 1;
          r1 = r\<lparr>e_slot := AList.update i s (e_slot r)\<rparr>
      in go_bind (attributes (rCommand m) r1) (\<lambda>(seq, dep).
         let x = \<lparr>i_cmd = rCommand m, i_ballot = b, i_status = PREACCEPTED, i_seq = seq, i_dep = Some dep,
                  i_request = Some m, i_quorum = Some (ACK i NewQuorum), i_changed = False\<rparr>
         in go_bind (put_inst i s x r1) (\<lambda>r2.
            go_bind (e_update (rCommand m) i s seq r2) (\<lambda>r3.
            Inr (e_emit (EBroadcast (E_PreAccept (PreAccept b i s (rCommand m) seq (copyDep x)))) r3)))))"

text \<open>The entry of a slot, made first when it is missing.\<close>

definition ensure_inst :: "ID \<Rightarrow> goint \<Rightarrow> epaxos \<Rightarrow> (instance_t \<times> epaxos) go" where
  "ensure_inst i s r =
     (case inst r i s of
        Some x \<Rightarrow> Inr (x, r)
      | None \<Rightarrow> go_bind (put_inst i s zero_instance r) (\<lambda>r1. Inr (zero_instance, r1)))"

definition raise_slot :: "ID \<Rightarrow> goint \<Rightarrow> epaxos \<Rightarrow> epaxos" where
  "raise_slot i s r = (if s > get0 (e_slot r) i then r\<lparr>e_slot := AList.update i s (e_slot r)\<rparr> else r)"

definition handlePreAccept :: "PreAccept \<Rightarrow> epaxos \<Rightarrow> epaxos go" where
  "handlePreAccept m r =
     (let i = pa_Replica m; s = pa_Slot m
      in go_bind (ensure_inst i s r) (\<lambda>(x, r1).
         if i_status x = COMMITTED \<or> i_status x = ACCEPTED then
           (if Empty (i_cmd x)
            then go_bind (put_inst i s (x\<lparr>i_cmd := pa_Command m\<rparr>) r1)
                   (e_update (pa_Command m) i s (pa_Seq m))
            else Inr r1)
         else
           let r2 = raise_slot i s r1
           in go_bind (attributes (pa_Command m) r2) (\<lambda>(seq, dep).
              let x1 = (if pa_Ballot m \<ge> i_ballot x
                        then x\<lparr>i_ballot := pa_Ballot m, i_cmd := pa_Command m, i_status := PREACCEPTED,
                               i_seq := seq, i_dep := Some dep\<rparr>
                        else x)
              in go_bind (put_inst i s x1 r2) (\<lambda>r3.
                 go_bind (e_update (pa_Command m) i s seq r3) (\<lambda>r4.
                 Inr (e_emit (ESend (pa_Replica m) (E_PreAcceptReply
                        (PreAcceptReply (i_ballot x1) (e_id r4) s seq (copyDep x1)
                           (fold (\<lambda>(k, d). AList.update k d) (e_committed r4) [])))) r4))))))"

text \<open>The loop over the reported commits: raises the own knowledge and tests the dependencies.\<close>

definition learn_commits ::
  "(ID \<times> goint) list \<Rightarrow> instance_t \<Rightarrow> (ID \<times> goint) list \<Rightarrow> (ID \<times> goint) list \<times> bool" where
  "learn_commits reported x committed =
     fold (\<lambda>(k, d) (committed, ok).
         let committed = (if d > get0 committed k then AList.update k d committed else committed)
         in (committed,
             if get0 committed k \<ge> 0 \<and>
                get0 committed k < get0 (case i_dep x of None \<Rightarrow> [] | Some m \<Rightarrow> m) k
             then False else ok))
       reported (committed, True)"

definition reply_on_commit :: "bool \<Rightarrow> instance_t \<Rightarrow> epaxos \<Rightarrow> epaxos go" where
  "reply_on_commit replyWhenCommit x r =
     (if replyWhenCommit then
        go_bind (deref (i_request x)) (\<lambda>q. Inr (e_emit (EReply q (mk_Reply (i_cmd x) None 0)) r))
      else Inr r)"

definition handlePreAcceptReply :: "config \<Rightarrow> bool \<Rightarrow> PreAcceptReply \<Rightarrow> epaxos \<Rightarrow> epaxos go" where
  "handlePreAcceptReply c replyWhenCommit m r =
     (let i = e_id r; s = par_Slot m
      in go_bind (deref (inst r i s)) (\<lambda>x.
         if i_status x \<noteq> PREACCEPTED then Inr r
         else if par_Ballot m > i_ballot x then Inr r
         else
           go_bind (deref (i_quorum x)) (\<lambda>q.
           let q1 = ACK (par_Replica m) q
           in go_bind (merge (par_Seq m) (par_Dep m) (x\<lparr>i_quorum := Some q1\<rparr>)) (\<lambda>x1.
              let (committed, ok) = learn_commits (par_Committed m) x1 (e_committed r);
                  r1 = r\<lparr>e_committed := committed\<rparr>
              in if FastQuorum c q1 then
                   if \<not> i_changed x1 \<and> ok then
                     let x2 = x1\<lparr>i_status := COMMITTED\<rparr>
                     in go_bind (put_inst i s x2 (r1\<lparr>e_fast := e_fast r1 + 1\<rparr>)) (\<lambda>r2.
                        reply_on_commit replyWhenCommit x2
                          (e_emit (EBroadcast (E_Commit (Commit (i_ballot x2) i s (i_cmd x2) (i_seq x2) (copyDep x2))))
                            (updateCommit i r2)))
                   else
                     let x2 = x1\<lparr>i_status := ACCEPTED, i_quorum := Some (ACK i (Reset q1))\<rparr>
                     in go_bind (put_inst i s x2 (r1\<lparr>e_slow := e_slow r1 + 1\<rparr>)) (\<lambda>r2.
                        Inr (e_emit (EBroadcast (E_Accept (Accept (i_ballot x2) i s (i_seq x2) (copyDep x2)))) r2))
                 else put_inst i s x1 r1))))"

definition handleAccept :: "Accept \<Rightarrow> epaxos \<Rightarrow> epaxos go" where
  "handleAccept m r =
     (let i = ac_Replica m; s = ac_Slot m
      in go_bind (ensure_inst i s r) (\<lambda>(x, r1).
         if i_status x = COMMITTED \<or> i_status x = EXECUTED then Inr r1
         else
           let r2 = raise_slot i s r1;
               x1 = (if ac_Ballot m \<ge> i_ballot x
                     then x\<lparr>i_status := ACCEPTED, i_ballot := ac_Ballot m, i_seq := ac_Seq m, i_dep := ac_Dep m\<rparr>
                     else x)
           in go_bind (put_inst i s x1 r2) (\<lambda>r3.
              Inr (e_emit (ESend i (E_AcceptReply (AcceptReply (i_ballot x1) (e_id r3) s))) r3))))"

definition handleAcceptReply :: "config \<Rightarrow> bool \<Rightarrow> AcceptReply \<Rightarrow> epaxos \<Rightarrow> epaxos go" where
  "handleAcceptReply c replyWhenCommit m r =
     (let i = e_id r; s = ar_Slot m
      in go_bind (deref (inst r i s)) (\<lambda>x.
         if i_status x \<noteq> ACCEPTED then Inr r
         else if i_ballot x < ar_Ballot m then put_inst i s (x\<lparr>i_ballot := ar_Ballot m\<rparr>) r
         else
           go_bind (deref (i_quorum x)) (\<lambda>q.
           let q1 = ACK (ar_Replica m) q
           in if Majority c q1 then
                let x1 = x\<lparr>i_quorum := Some q1, i_status := COMMITTED\<rparr>
                in go_bind (put_inst i s x1 r) (\<lambda>r1.
                   go_bind (reply_on_commit replyWhenCommit x1 (updateCommit i r1)) (\<lambda>r2.
                   Inr (e_emit (EBroadcast (E_Commit (Commit (i_ballot x1) i s (i_cmd x1) (i_seq x1) (copyDep x1)))) r2)))
              else put_inst i s (x\<lparr>i_quorum := Some q1\<rparr>) r)))"

definition handleCommit :: "Commit \<Rightarrow> epaxos \<Rightarrow> epaxos go" where
  "handleCommit m r =
     (let i = co_Replica m; s = co_Slot m; r1 = raise_slot i s r
      in go_bind (ensure_inst i s r1) (\<lambda>(x, r2).
         let x1 = (if co_Ballot m \<ge> i_ballot x
                   then x\<lparr>i_ballot := co_Ballot m, i_cmd := co_Command m, i_status := COMMITTED,
                          i_seq := co_Seq m, i_dep := co_Dep m\<rparr>
                   else x)
         in go_bind (put_inst i s x1 r2) (\<lambda>r3.
            go_bind (if co_Ballot m \<ge> i_ballot x then e_update (co_Command m) i s (co_Seq m) r3 else Inr r3)
              (\<lambda>r4. case i_request x1 of
                       None \<Rightarrow> Inr (updateCommit i r4)
                     | Some q \<Rightarrow>
                         go_bind (put_inst i s (x1\<lparr>i_request := None\<rparr>) (e_emit (ERetry q) r4))
                           (\<lambda>r5. Inr (updateCommit i r5))))))"

fun epaxos_handle :: "config \<Rightarrow> bool \<Rightarrow> epaxos_msg \<Rightarrow> epaxos \<Rightarrow> epaxos go" where
  "epaxos_handle c w (E_PreAccept m) r = handlePreAccept m r"
| "epaxos_handle c w (E_PreAcceptReply m) r = handlePreAcceptReply c w m r"
| "epaxos_handle c w (E_Accept m) r = handleAccept m r"
| "epaxos_handle c w (E_AcceptReply m) r = handleAcceptReply c w m r"
| "epaxos_handle c w (E_Commit m) r = handleCommit m r"

end
