(* ===== verification/EPaxosFacts.thy ===== *)
theory EPaxosFacts
  imports EPaxos
begin

text \<open>
  What the leaderless protocol does: the attributes of a command, the two paths to a commit, the
  stability of committed instances, and the executions in which the order of arrival of the commits
  decides what is executed.
\<close>

section \<open>The log\<close>

lemma put_inst_eq:
  "put_inst i s x r = Inr r' \<longleftrightarrow>
     (\<exists>m. map_of (e_log r) i = Some m \<and> r' = r\<lparr>e_log := AList.update i (fmupd s x m) (e_log r)\<rparr>)"
  by (auto simp: put_inst_def split: option.split)

lemma put_inst_inst:
  "put_inst i s x r = Inr r' \<Longrightarrow> inst r' j t = (if j = i \<and> t = s then Some x else inst r j t)"
  by (cases "j = i") (auto simp: put_inst_eq inst_def update_conv' split: option.split)

lemma put_inst_fields [dest]:
  "put_inst i s x r = Inr r' \<Longrightarrow> e_id r' = e_id r \<and> e_slot r' = e_slot r \<and> e_committed r' = e_committed r \<and>
     e_conflicts r' = e_conflicts r \<and> e_calls r' = e_calls r \<and> e_db r' = e_db r"
  by (auto simp: put_inst_eq)

lemma inst_simps [simp]:
  "inst (e_emit c r) i s = inst r i s" "inst (r\<lparr>e_slot := x1\<rparr>) i s = inst r i s"
  "inst (r\<lparr>e_committed := x1\<rparr>) i s = inst r i s" "inst (r\<lparr>e_executed := x1\<rparr>) i s = inst r i s"
  "inst (r\<lparr>e_fast := x2\<rparr>) i s = inst r i s" "inst (r\<lparr>e_slow := x2\<rparr>) i s = inst r i s"
  "inst (r\<lparr>e_conflicts := x3\<rparr>) i s = inst r i s" "inst (r\<lparr>e_maxSeqPerKey := x4\<rparr>) i s = inst r i s"
  "inst (r\<lparr>e_db := x5\<rparr>) i s = inst r i s"
  by (simp_all add: inst_def e_emit_def)

lemma inst_raise_slot [simp]: "inst (raise_slot j t r) i s = inst r i s"
  by (simp add: raise_slot_def)

lemma inst_e_update: "e_update cmd j t seq r = Inr r' \<Longrightarrow> inst r' i s = inst r i s"
  by (auto simp: e_update_def Let_def split: option.splits if_splits)

lemma inst_execute_log [simp]: "inst (execute_log m j ss r) i s = inst r i s"
  by (induction m j ss r rule: execute_log.induct)
    (auto simp: mark_executed_def execute_instance_def Let_def split: option.split prod.splits)

lemma inst_updateCommit [simp]: "inst (updateCommit j r) i s = inst r i s"
proof -
  have "inst (e_execute r) i s = inst r i s" for r
    unfolding e_execute_def
    by (rule fold_invariant [where P = "\<lambda>r'. inst r' i s = inst r i s"]) auto
  then show ?thesis by (simp add: updateCommit_def Let_def)
qed

lemma inst_reply_on_commit: "reply_on_commit w x r = Inr r' \<Longrightarrow> inst r' i s = inst r i s"
  by (auto simp: reply_on_commit_def split: if_splits)

lemma ensure_inst_cases:
  assumes "ensure_inst i s r = Inr (x, r1)"
  shows "inst r1 i s = Some x" and "inst r i s = Some y \<Longrightarrow> x = y \<and> r1 = r"
    and "(j, t) \<noteq> (i, s) \<Longrightarrow> inst r1 j t = inst r j t"
  using assms by (auto simp: ensure_inst_def put_inst_inst split: option.splits)

section \<open>The frontier of commits\<close>

definition e_done :: "(goint, instance_t) fmap \<Rightarrow> goint \<Rightarrow> bool" where
  "e_done m s \<longleftrightarrow> (\<exists>x. fmlookup m s = Some x \<and> (i_status x = COMMITTED \<or> i_status x = EXECUTED))"

lemma frontier_step: "frontier m s = (if e_done m (s + 1) then frontier m (s + 1) else s)"
  by (subst frontier.simps) (auto simp: e_done_def split: option.split)

lemma frontier_prefix:
  "s \<le> frontier m s \<and> (\<forall>t \<in> {s + 1 .. frontier m s}. e_done m t) \<and> \<not> e_done m (frontier m s + 1)"
proof (induction m s rule: frontier.induct)
  case (1 m s)
  show ?case
  proof (cases "e_done m (s + 1)")
    case True
    then have f: "frontier m s = frontier m (s + 1)"
      by (simp add: frontier_step [of m s])
    have IH: "s + 1 \<le> frontier m (s + 1)" "\<forall>t \<in> {s + 1 + 1 .. frontier m (s + 1)}. e_done m t"
      "\<not> e_done m (frontier m (s + 1) + 1)"
      using True 1 by (auto simp: e_done_def)
    have "e_done m t" if "s + 1 \<le> t" "t \<le> frontier m (s + 1)" for t
      using that True IH(2) by (cases "t = s + 1") auto
    then show ?thesis
      using IH(1,3) f by simp
  qed (simp add: frontier_step [of m s])
qed

section \<open>Attributes\<close>

text \<open>The slot of the last conflicting instance of a node.\<close>

definition conflict_slot :: "epaxos \<Rightarrow> Command \<Rightarrow> ID \<Rightarrow> goint option" where
  "conflict_slot r cmd i = (case map_of (e_conflicts r) i of None \<Rightarrow> None | Some m \<Rightarrow> fmlookup m (cKey cmd))"

lemma attributes_loop:
  assumes "go_fold (attr_step r k) cs (seq0, dep0) = Inr (seq, dep)"
    and "distinct (map fst cs)" "fst ` set cs \<inter> fst ` set dep0 = {}"
  shows "seq0 \<le> seq \<and>
    map_of dep i = (case map_of cs i of
           None \<Rightarrow> map_of dep0 i
         | Some m \<Rightarrow> (case fmlookup m k of Some d \<Rightarrow> if 0 < d then Some d else None | None \<Rightarrow> None)) \<and>
    (\<forall>m d. map_of cs i = Some m \<and> fmlookup m k = Some d \<and> 0 < d \<longrightarrow>
           (\<exists>x. inst r i d = Some x \<and> i_seq x < seq))"
  using assms
proof (induction cs arbitrary: seq0 dep0)
  case (Cons c cs)
  obtain j m where c: "c = (j, m)" by fastforce
  obtain seq1 dep1 where step: "attr_step r k (j, m) (seq0, dep0) = Inr (seq1, dep1)"
    and rest: "go_fold (attr_step r k) cs (seq1, dep1) = Inr (seq, dep)"
    using Cons.prems(1) by (auto simp: c simp del: attr_step.simps)
  have j: "map_of dep0 j = None" "map_of cs j = None"
    using Cons.prems(2,3) by (auto simp: c map_of_eq_None_iff)
  have "dep1 = dep0 \<or> (\<exists>d. dep1 = AList.update j d dep0)"
    using step by (auto split: option.splits if_splits)
  then have sub: "fst ` set dep1 \<subseteq> insert j (fst ` set dep0)"
    by (elim disjE exE) (auto simp only: AList.dom_update)
  have one: "seq0 \<le> seq1 \<and>
      map_of dep1 i = (if i = j then (case fmlookup m k of Some d \<Rightarrow> if 0 < d then Some d else None | None \<Rightarrow> None)
        else map_of dep0 i) \<and>
      (\<forall>d. fmlookup m k = Some d \<and> 0 < d \<longrightarrow> (\<exists>x. inst r j d = Some x \<and> i_seq x < seq1))"
    using step j(1) by (auto simp: get0_def update_conv' split: option.splits if_splits)
  have "fst ` set cs \<inter> fst ` set dep1 = {}"
    using sub Cons.prems(2,3) by (simp add: c) blast
  from Cons.IH [OF rest _ this] Cons.prems(2) one j show ?case
    by (auto simp: c split: option.splits)
qed simp

text \<open>C19: the attributes of a command. Its dependencies are, for every node, the last slot of that node
  with a command on the same key, and its sequence number exceeds that of each of these instances
  and the largest one seen for the key. A conflict in slot 0, the first slot of a node, is missed:
  the code compares it with the missing dependency, which reads as 0.\<close>

theorem attributes_cover_conflicts:
  assumes "attributes cmd r = Inr (seq, dep)" and "distinct (map fst (e_conflicts r))"
  shows "map_of dep i = (case conflict_slot r cmd i of
      None \<Rightarrow> None | Some d \<Rightarrow> if 0 < d then Some d else None)
    \<and> (\<forall>d. map_of dep i = Some d \<longrightarrow> (\<exists>x. inst r i d = Some x \<and> i_seq x < seq))
    \<and> (\<forall>s. fmlookup (e_maxSeqPerKey r) (cKey cmd) = Some s \<longrightarrow> s < seq)"
proof -
  obtain seq1 where loop: "go_fold (attr_step r (cKey cmd)) (e_conflicts r) (0, []) = Inr (seq1, dep)"
    and seq: "seq = (case fmlookup (e_maxSeqPerKey r) (cKey cmd) of
      Some s \<Rightarrow> if seq1 \<le> s then s + 1 else seq1 | None \<Rightarrow> seq1)"
    using assms(1) by (auto simp: attributes_def)
  have l: "map_of dep i = (case conflict_slot r cmd i of
      None \<Rightarrow> None | Some d \<Rightarrow> if 0 < d then Some d else None)"
    "\<forall>m d. map_of (e_conflicts r) i = Some m \<and> fmlookup m (cKey cmd) = Some d \<and> 0 < d \<longrightarrow>
           (\<exists>x. inst r i d = Some x \<and> i_seq x < seq1)"
    using attributes_loop [OF loop assms(2), of i] by (auto simp: conflict_slot_def split: option.splits)
  have "seq1 \<le> seq" and "\<forall>s. fmlookup (e_maxSeqPerKey r) (cKey cmd) = Some s \<longrightarrow> s < seq"
    by (auto simp: seq split: option.split)
  moreover from this l have "\<forall>d. map_of dep i = Some d \<longrightarrow> (\<exists>x. inst r i d = Some x \<and> i_seq x < seq)"
    by (fastforce simp: conflict_slot_def split: option.splits if_splits)
  ultimately show ?thesis
    using l(1) by blast
qed

definition attributes_example :: epaxos where
  "attributes_example = (NewEPaxos default_config [1, 2] 1)
     \<lparr>e_log := [(1, fmempty), (2, fmupd 3 (zero_instance\<lparr>i_seq := 6\<rparr>) fmempty)],
      e_conflicts := [(1, fmupd 7 0 fmempty), (2, fmupd 7 3 fmempty)]\<rparr>"

theorem attributes_cover_conflicts_witness:
  "attributes (zero_command\<lparr>cKey := 7\<rparr>) attributes_example = Inr (7, [(2, 3)])
   \<and> map_of [(2 :: ID, 3 :: goint)] 1 = None \<and> conflict_slot attributes_example (zero_command\<lparr>cKey := 7\<rparr>) 1 = Some 0"
proof -
  have "attributes (zero_command\<lparr>cKey := 7\<rparr>) attributes_example = Inr (7, [(2, 3)])"
    by (simp add: attributes_def attributes_example_def NewEPaxos_def get0_def inst_def zero_instance_def)
  moreover have "distinct (map fst (e_conflicts attributes_example))"
    by (simp add: attributes_example_def)
  ultimately show ?thesis
    using attributes_cover_conflicts [of "zero_command\<lparr>cKey := 7\<rparr>" attributes_example 7 "[(2, 3)]" 1]
    by (simp add: conflict_slot_def attributes_example_def)
qed

section \<open>Two paths to a commit\<close>

text \<open>Whether the dependencies of an instance are covered by the commits known after a report.\<close>

definition deps_committed :: "(ID \<times> goint) list \<Rightarrow> instance_t \<Rightarrow> epaxos \<Rightarrow> bool" where
  "deps_committed reported x r \<longleftrightarrow> snd (learn_commits reported x (e_committed r))"

text \<open>the leader of a pre-accepted instance counts the reply, merges the reported sequence number
  and dependencies, and when the fast quorum is reached decides: the instance is committed at once
  if no reply changed its attributes and its dependencies are committed, otherwise it goes through
  the accept phase with a fresh quorum of its own vote; below the fast quorum it stays
  pre-accepted. The command and the ballot stay, and a commit or an accept is broadcast.\<close>

theorem fast_path_decision:
  assumes "inst r (e_id r) (par_Slot m) = Some x" and "i_status x = PREACCEPTED" and "i_quorum x = Some q"
    and "par_Ballot m \<le> i_ballot x"
    and "merge (par_Seq m) (par_Dep m) (x\<lparr>i_quorum := Some (ACK (par_Replica m) q)\<rparr>) = Inr x1"
  shows "\<exists>r' x'. handlePreAcceptReply c False m r = Inr r' \<and> inst r' (e_id r) (par_Slot m) = Some x' \<and>
    i_cmd x' = i_cmd x1 \<and> i_ballot x' = i_ballot x1 \<and> i_seq x' = i_seq x1 \<and> i_dep x' = i_dep x1 \<and>
    (i_status x', i_quorum x') =
      (if \<not> FastQuorum c (ACK (par_Replica m) q) then (i_status x1, i_quorum x1)
       else if \<not> i_changed x1 \<and> deps_committed (par_Committed m) x1 r then (COMMITTED, i_quorum x1)
       else (ACCEPTED, Some (ACK (e_id r) (Reset (ACK (par_Replica m) q)))))"
proof -
  let ?i = "e_id r" and ?s = "par_Slot m" and ?fast = "FastQuorum c (ACK (par_Replica m) q)"
  obtain committed ok where l: "learn_commits (par_Committed m) x1 (e_committed r) = (committed, ok)"
    by fastforce
  have put: "\<exists>r'. put_inst ?i ?s y r1 = Inr r' \<and> inst r' ?i ?s = Some y" if log: "e_log r1 = e_log r" for y r1
  proof -
    obtain r' where r': "put_inst ?i ?s y r1 = Inr r'"
      using assms(1) log by (auto simp: inst_def put_inst_def split: option.splits)
    then show ?thesis
      using put_inst_inst [OF r'] by simp
  qed
  have ok: "deps_committed (par_Committed m) x1 r = ok"
    by (simp add: deps_committed_def l)
  note h = handlePreAcceptReply_def Let_def assms l ok reply_on_commit_def
  consider (wait) "\<not> ?fast" | (fast) "?fast" "\<not> i_changed x1 \<and> ok" | (slow) "?fast" "\<not> (\<not> i_changed x1 \<and> ok)"
    by blast
  then show ?thesis
  proof cases
    case wait
    obtain r' where "put_inst ?i ?s x1 (r\<lparr>e_committed := committed\<rparr>) = Inr r'" "inst r' ?i ?s = Some x1"
      using put [of "r\<lparr>e_committed := committed\<rparr>" x1] by auto
    then show ?thesis
      using wait assms(4) by (intro exI [of _ r'] exI [of _ x1]) (simp add: h leD)
  next
    case fast
    let ?y = "x1\<lparr>i_status := COMMITTED\<rparr>"
    obtain r2 where r2: "put_inst ?i ?s ?y (r\<lparr>e_committed := committed, e_fast := e_fast r + 1\<rparr>) = Inr r2"
      "inst r2 ?i ?s = Some ?y"
      using put [of "r\<lparr>e_committed := committed, e_fast := e_fast r + 1\<rparr>" ?y] by auto
    let ?r = "e_emit (EBroadcast (E_Commit (Commit (i_ballot ?y) ?i ?s (i_cmd ?y) (i_seq ?y) (copyDep ?y))))
        (updateCommit ?i r2)"
    show ?thesis
      using r2 fast assms(4) by (intro exI [of _ ?r] exI [of _ ?y]) (simp add: h leD)
  next
    case slow
    let ?y = "x1\<lparr>i_status := ACCEPTED, i_quorum := Some (ACK ?i (Reset (ACK (par_Replica m) q)))\<rparr>"
    obtain r2 where r2: "put_inst ?i ?s ?y (r\<lparr>e_committed := committed, e_slow := e_slow r + 1\<rparr>) = Inr r2"
      "inst r2 ?i ?s = Some ?y"
      using put [of "r\<lparr>e_committed := committed, e_slow := e_slow r + 1\<rparr>" ?y] by auto
    let ?r = "e_emit (EBroadcast (E_Accept (Accept (i_ballot ?y) ?i ?s (i_seq ?y) (copyDep ?y)))) r2"
    have "handlePreAcceptReply c False m r = Inr ?r"
      using r2 slow assms(4) by (auto simp: h leD)
    then show ?thesis
      using r2(2) slow ok by (intro exI [of _ ?r] exI [of _ ?y]) auto
  qed
qed

section \<open>Committed instances\<close>

definition commit_for :: "ID \<Rightarrow> goint \<Rightarrow> epaxos_msg \<Rightarrow> bool" where
  "commit_for i s m \<longleftrightarrow> (case m of E_Commit c \<Rightarrow> co_Replica c = i \<and> co_Slot c = s | _ \<Rightarrow> False)"

lemma stable_PreAccept:
  assumes "inst r i s = Some x" "i_status x = COMMITTED" "\<not> Empty (i_cmd x)" "handlePreAccept m r = Inr r'"
  shows "inst r' i s = Some x"
proof -
  obtain y r1 where e: "ensure_inst (pa_Replica m) (pa_Slot m) r = Inr (y, r1)"
    using assms(4) by (auto simp: handlePreAccept_def Let_def)
  show ?thesis
  proof (cases "(i, s) = (pa_Replica m, pa_Slot m)")
    case True
    then have "y = x" "r1 = r"
      using ensure_inst_cases(2) [OF e] assms(1) by auto
    then show ?thesis
      using assms e True by (simp add: handlePreAccept_def)
  next
    case False
    then have "inst r1 i s = Some x"
      using ensure_inst_cases(3) [OF e] assms(1) by simp
    then show ?thesis
      using assms(4) e False
      by (auto simp: handlePreAccept_def Let_def inst_e_update dest!: put_inst_inst [where j = i and t = s]
          split: if_splits)
  qed
qed

lemma stable_Accept:
  assumes "inst r i s = Some x" "i_status x = COMMITTED" "handleAccept m r = Inr r'"
  shows "inst r' i s = Some x"
proof -
  obtain y r1 where e: "ensure_inst (ac_Replica m) (ac_Slot m) r = Inr (y, r1)"
    using assms(3) by (auto simp: handleAccept_def Let_def)
  show ?thesis
  proof (cases "(i, s) = (ac_Replica m, ac_Slot m)")
    case True
    then have "y = x" "r1 = r"
      using ensure_inst_cases(2) [OF e] assms(1) by auto
    then show ?thesis
      using assms e True by (simp add: handleAccept_def)
  next
    case False
    then have "inst r1 i s = Some x"
      using ensure_inst_cases(3) [OF e] assms(1) by simp
    then show ?thesis
      using assms(3) e False
      by (auto simp: handleAccept_def Let_def dest!: put_inst_inst [where j = i and t = s] split: if_splits)
  qed
qed

lemma stable_Commit:
  assumes "inst r i s = Some x" "(i, s) \<noteq> (co_Replica m, co_Slot m)" "handleCommit m r = Inr r'"
  shows "inst r' i s = Some x"
proof -
  obtain y r1 where e: "ensure_inst (co_Replica m) (co_Slot m) (raise_slot (co_Replica m) (co_Slot m) r) = Inr (y, r1)"
    using assms(3) by (auto simp: handleCommit_def Let_def)
  have "inst r1 i s = Some x"
    using ensure_inst_cases(3) [OF e assms(2)] assms(1) by simp
  then show ?thesis
    using assms(2,3) e
    by (auto simp: handleCommit_def Let_def inst_e_update dest!: put_inst_inst [where j = i and t = s]
        split: if_splits option.splits)
qed

lemma stable_replies:
  assumes "inst r i s = Some x" "i_status x = COMMITTED"
  shows "handlePreAcceptReply c w m r = Inr r' \<Longrightarrow> inst r' i s = Some x"
    and "handleAcceptReply c w n r = Inr r' \<Longrightarrow> inst r' i s = Some x"
proof -
  assume h: "handlePreAcceptReply c w m r = Inr r'"
  show "inst r' i s = Some x"
  proof (cases "(i, s) = (e_id r, par_Slot m)")
    case False
    with h assms(1) show ?thesis
      by (auto simp: handlePreAcceptReply_def Let_def case_prod_beta
          dest!: put_inst_inst [where j = i and t = s] inst_reply_on_commit [where i = i and s = s]
          split: if_splits)
  qed (use h assms in \<open>simp add: handlePreAcceptReply_def\<close>)
next
  assume h: "handleAcceptReply c w n r = Inr r'"
  show "inst r' i s = Some x"
  proof (cases "(i, s) = (e_id r, ar_Slot n)")
    case False
    with h assms(1) show ?thesis
      by (auto simp: handleAcceptReply_def Let_def
          dest!: put_inst_inst [where j = i and t = s] inst_reply_on_commit [where i = i and s = s]
          split: if_splits)
  qed (use h assms in \<open>simp add: handleAcceptReply_def\<close>)
qed


definition fast_example :: epaxos where
  "fast_example = (NewEPaxos (members_config [1, 2, 3]) [1, 2, 3] 1)
     \<lparr>e_log := [(1, fmupd 0 (zero_instance\<lparr>i_cmd := zero_command\<lparr>cKey := 7\<rparr>, i_status := PREACCEPTED, i_dep := Some [],
        i_quorum := Some (ACK 1 NewQuorum)\<rparr>) fmempty)]\<rparr>"

definition fast_reply :: PreAcceptReply where
  "fast_reply = PreAcceptReply 0 2 0 0 (Some []) []"

theorem fast_path_decision_witness:
  "\<exists>r' x'. handlePreAcceptReply (members_config [1, 2, 3]) False fast_reply fast_example = Inr r' \<and>
     inst r' 1 0 = Some x' \<and> i_status x' = COMMITTED \<and> cKey (i_cmd x') = 7"
proof -
  let ?x = "zero_instance\<lparr>i_cmd := zero_command\<lparr>cKey := 7\<rparr>, i_status := PREACCEPTED, i_dep := Some [],
        i_quorum := Some (ACK 1 NewQuorum)\<rparr>"
  have i: "e_id fast_example = 1" "inst fast_example 1 0 = Some ?x"
    by (simp_all add: fast_example_def NewEPaxos_def inst_def)
  have m: "par_Slot fast_reply = 0" "par_Replica fast_reply = 2" "par_Ballot fast_reply = 0"
    "par_Seq fast_reply = 0" "par_Dep fast_reply = Some []" "par_Committed fast_reply = []"
    by (simp_all add: fast_reply_def)
  have q: "FastQuorum (members_config [1, 2, 3]) (ACK 2 (ACK 1 NewQuorum))"
    by (simp add: FastQuorum_def members_config_counts ACK_def NewQuorum_def)
  show ?thesis
    using fast_path_decision [of fast_example fast_reply ?x "ACK 1 NewQuorum"
        "?x\<lparr>i_quorum := Some (ACK 2 (ACK 1 NewQuorum))\<rparr>" "members_config [1, 2, 3]"] q
    by (simp add: i m) (force simp: merge_def zero_instance_def deps_committed_def learn_commits_def)
qed

definition settled_example :: epaxos where
  "settled_example = (NewEPaxos default_config [1, 2] 1)
     \<lparr>e_log := [(1, fmempty), (2, fmupd 0 (zero_instance\<lparr>i_cmd := zero_command\<lparr>cKey := 7\<rparr>, i_status := COMMITTED\<rparr>) fmempty)]\<rparr>"


section \<open>Executions\<close>

definition run_commits :: "Commit list \<Rightarrow> epaxos go" where
  "run_commits ms = go_fold handleCommit ms (NewEPaxos default_config [1, 2, 3] 3)"

definition write_cmd :: "Key \<Rightarrow> 8 word \<Rightarrow> Command" where
  "write_cmd k v = zero_command\<lparr>cKey := k, cValue := Some [v]\<rparr>"

text \<open>an instance is executed as soon as the commit arrives, whatever its dependencies and its
  sequence number, so two replicas that receive the commits of two conflicting writes in different
  orders hold the same committed instances and different values.\<close>

theorem order_of_commits_decides_the_store:
  "let m1 = Commit (NewBallot 0 1) 1 0 (write_cmd 5 1) 0 (Some []);
       m2 = Commit (NewBallot 0 2) 2 0 (write_cmd 5 2) 1 (Some [(1, 0)])
   in case (run_commits [m1, m2], run_commits [m2, m1]) of
        (Inr r, Inr r') \<Rightarrow>
          map_option i_cmd (inst r 1 0) = map_option i_cmd (inst r' 1 0) \<and>
          map_option i_cmd (inst r 2 0) = map_option i_cmd (inst r' 2 0) \<and>
          map_option i_seq (inst r 2 0) = Some 1 \<and> map_option i_seq (inst r' 2 0) = Some 1 \<and>
          db_data (e_db r) 5 = Some [2] \<and> db_data (e_db r') 5 = Some [1]
      | _ \<Rightarrow> False"
  by code_simp

text \<open>an executed instance is not marked as executed, so while an earlier slot of its node is
  missing it is executed again at every commit: after the commits of slots 1 and 2 the store has
  taken three writes, and after a third commit six.\<close>

theorem commits_after_a_gap_are_repeated:
  "let m = (\<lambda>s. Commit (NewBallot 0 1) 1 s (write_cmd s 1) 0 (Some []))
   in case (run_commits [m 1, m 2], run_commits [m 1, m 2, m 3]) of
        (Inr r, Inr r') \<Rightarrow> db_version (e_db r) = 3 \<and> db_version (e_db r') = 6 \<and> get0 (e_executed r') 1 = - 1
      | _ \<Rightarrow> False"
  by code_simp

text \<open>\<open>updateCommit\<close> moves the commit index of a node to the end of the maximal run of committed
  instances and leaves every instance as it is.\<close>

theorem commit_index_is_the_frontier:
  assumes "map_of (e_log r) i = Some m"
  shows "\<exists>t. get0 (e_committed (updateCommit i r)) i = t \<and> get0 (e_committed r) i \<le> t \<and>
    list_all (e_done m) [get0 (e_committed r) i + 1 .. t] \<and> \<not> e_done m (t + 1) \<and>
    inst (updateCommit i r) j s = inst r j s"
proof -
  have c: "e_committed (execute_log m j ss r) = e_committed r" for m j ss and r :: epaxos
    by (induction m j ss r rule: execute_log.induct)
      (auto simp: mark_executed_def execute_instance_def Let_def e_emit_def split: option.split prod.splits)
  have "e_committed (e_execute r) = e_committed r" for r
    unfolding e_execute_def
    by (rule fold_invariant [where P = "\<lambda>r'. e_committed r' = e_committed r"]) (auto simp: c)
  then have "get0 (e_committed (updateCommit i r)) i = frontier m (get0 (e_committed r) i)"
    using assms by (simp add: updateCommit_def Let_def get0_def update_conv')
  then show ?thesis
    using frontier_prefix [of "get0 (e_committed r) i" m] by (simp add: list_all_iff)
qed

theorem commit_index_is_the_frontier_witness:
  "get0 (e_committed (updateCommit 2 settled_example)) 2 = 0"
proof -
  let ?m = "fmupd 0 (zero_instance\<lparr>i_cmd := zero_command\<lparr>cKey := 7\<rparr>, i_status := COMMITTED\<rparr>) fmempty"
  have m: "map_of (e_log settled_example) 2 = Some ?m" and c: "get0 (e_committed settled_example) 2 = - 1"
    by (simp_all add: settled_example_def NewEPaxos_def get0_def)
  have d: "e_done ?m t \<longleftrightarrow> t = 0" for t
    by (simp add: e_done_def)
  obtain t where t: "get0 (e_committed (updateCommit 2 settled_example)) 2 = t" "- 1 \<le> t"
    "list_all (e_done ?m) [0..t]" "\<not> e_done ?m (t + 1)"
    using commit_index_is_the_frontier [OF m, of 2 0] c by auto
  then have "t \<in> set [0..t] \<longrightarrow> t = 0" "t \<noteq> - 1"
    by (auto simp: list_all_iff d)
  with t show ?thesis by auto
qed

end
