(* ===== verification/EPaxosSystem.thy ===== *)
theory EPaxosSystem
  imports EPaxosFacts
begin

text \<open>
  A cluster of replicas of \<open>epaxos\<close> over an asynchronous network. A step runs one handler of one replica without
  interruption. Every message ever sent stays deliverable, to the node it was sent to or, for a broadcast,
  to every other node, in any order and any number of times; a handler that panics takes no step. Shown
  is that an instance never has two commands in the cluster.
\<close>

section \<open>Steps of a cluster\<close>

datatype e_event = EV_Request ID Request | EV_Message ID ID epaxos_msg

type_synonym e_sys = "ID \<Rightarrow> epaxos"

fun e_event_node :: "e_event \<Rightarrow> ID" where
  "e_event_node (EV_Request n q) = n" | "e_event_node (EV_Message src n m) = n"

definition e_deliverable :: "ID \<Rightarrow> ID \<Rightarrow> epaxos_msg \<Rightarrow> e_sys \<Rightarrow> bool" where
  "e_deliverable src n m S \<longleftrightarrow>
     (n \<noteq> src \<and> EBroadcast m \<in> set (e_calls (S src))) \<or> ESend n m \<in> set (e_calls (S src))"

fun e_handle :: "config \<Rightarrow> bool \<Rightarrow> e_event \<Rightarrow> epaxos \<Rightarrow> epaxos go" where
  "e_handle c w (EV_Request n q) r = e_handleRequest q r"
| "e_handle c w (EV_Message src n m) r = epaxos_handle c w m r"

definition e_deliver :: "config \<Rightarrow> bool \<Rightarrow> ID list \<Rightarrow> e_event \<Rightarrow> e_sys \<Rightarrow> e_sys option" where
  "e_deliver c w ms ev S =
     (let n = e_event_node ev in
      if n \<in> set ms \<and> (case ev of EV_Request _ _ \<Rightarrow> True | EV_Message src n m \<Rightarrow> src \<in> set ms \<and> e_deliverable src n m S)
      then (case e_handle c w ev (S n) of Inl _ \<Rightarrow> None | Inr r \<Rightarrow> Some (S(n := r)))
      else None)"

definition e_init :: "config \<Rightarrow> ID list \<Rightarrow> e_sys" where
  "e_init c ms = (\<lambda>n. NewEPaxos c ms n)"

inductive e_step :: "config \<Rightarrow> bool \<Rightarrow> ID list \<Rightarrow> e_sys \<Rightarrow> e_sys \<Rightarrow> bool" for c w ms where
  deliver: "e_deliver c w ms ev S = Some T \<Longrightarrow> e_step c w ms S T"

section \<open>What the handlers send, and whose commands they keep\<close>

definition cmd_at :: "epaxos \<Rightarrow> ID \<Rightarrow> goint \<Rightarrow> Command option" where
  "cmd_at r i s = map_option i_cmd (inst r i s)"

definition bcasts :: "epaxos \<Rightarrow> epaxos_msg set" where
  "bcasts r = {m. EBroadcast m \<in> set (e_calls r)}"

definition sends :: "epaxos \<Rightarrow> epaxos_msg set" where
  "sends r = {m. \<exists>n. ESend n m \<in> set (e_calls r)}"

text \<open>The parts that the invariant reads.\<close>

definition face :: "epaxos \<Rightarrow> ID \<times> (ID \<times> goint) list \<times> epaxos_msg set \<times> epaxos_msg set" where
  "face r = (e_id r, e_slot r, bcasts r, sends r)"

lemma face_simps [simp]:
  "face (r\<lparr>e_committed := x1\<rparr>) = face r" "face (r\<lparr>e_executed := x1\<rparr>) = face r" "face (r\<lparr>e_db := x5\<rparr>) = face r"
  "face (r\<lparr>e_fast := x2\<rparr>) = face r" "face (r\<lparr>e_slow := x2\<rparr>) = face r" "face (r\<lparr>e_log := x6\<rparr>) = face r"
  "face (r\<lparr>e_conflicts := x3\<rparr>) = face r" "face (r\<lparr>e_maxSeqPerKey := x4\<rparr>) = face r"
  "face (e_emit (EReply q a) r) = face r" "face (e_emit (ERetry q) r) = face r"
  by (auto simp: face_def bcasts_def sends_def e_emit_def)

lemma face_put: "put_inst i s x r = Inr r' \<Longrightarrow> face r' = face r"
  by (auto simp: put_inst_eq)

lemma face_update: "e_update cmd j t seq r = Inr r' \<Longrightarrow> face r' = face r"
  by (auto simp: e_update_def Let_def split: option.splits if_splits)

lemma face_execute_log [simp]: "face (execute_log m j ss r) = face r"
  by (induction m j ss r rule: execute_log.induct)
    (auto simp: mark_executed_def execute_instance_def Let_def split: option.split prod.splits)

lemma face_updateCommit [simp]: "face (updateCommit j r) = face r"
proof -
  have "face (e_execute r) = face r" for r
    unfolding e_execute_def by (rule fold_invariant [where P = "\<lambda>r'. face r' = face r"]) auto
  then show ?thesis by (simp add: updateCommit_def Let_def)
qed

lemma face_reply: "reply_on_commit w x r = Inr r' \<Longrightarrow> face r' = face r"
  by (auto simp: reply_on_commit_def split: if_splits)

lemma face_ensure: "ensure_inst i s r = Inr (x, r1) \<Longrightarrow> face r1 = face r"
  by (auto simp: ensure_inst_def dest: face_put split: option.splits)

lemma inst_put: "put_inst i s x r = Inr r' \<Longrightarrow> inst r' = (\<lambda>j t. if j = i \<and> t = s then Some x else inst r j t)"
  by (intro ext) (rule put_inst_inst)

lemma inst_update: "e_update cmd j t seq r = Inr r' \<Longrightarrow> inst r' = inst r"
  by (intro ext) (rule inst_e_update)

lemma inst_commit [simp]: "inst (updateCommit j r) = inst r"
  by (intro ext) simp

lemma inst_reply: "reply_on_commit w x r = Inr r' \<Longrightarrow> inst r' = inst r"
  by (intro ext) (rule inst_reply_on_commit)

lemmas quiet = face_put face_update face_reply face_ensure
lemmas logs = inst_put inst_update inst_reply

text \<open>The messages of a replica about its own instances carry their commands; all else it sends are replies.\<close>

fun tells :: "ID \<Rightarrow> (goint \<Rightarrow> Command option) \<Rightarrow> epaxos_msg \<Rightarrow> bool" where
  "tells i f (E_PreAccept m) \<longleftrightarrow> pa_Replica m = i \<and> f (pa_Slot m) = Some (pa_Command m)"
| "tells i f (E_Accept m) \<longleftrightarrow> ac_Replica m = i"
| "tells i f (E_Commit m) \<longleftrightarrow> co_Replica m = i \<and> f (co_Slot m) = Some (co_Command m)"
| "tells i f m \<longleftrightarrow> False"

fun is_reply :: "epaxos_msg \<Rightarrow> bool" where
  "is_reply (E_PreAcceptReply m) \<longleftrightarrow> True" | "is_reply (E_AcceptReply m) \<longleftrightarrow> True" | "is_reply m \<longleftrightarrow> False"

definition owner_ok :: "epaxos \<Rightarrow> bool" where
  [wf_defs]: "owner_ok r \<longleftrightarrow>
     (\<forall>s. inst r (e_id r) s \<noteq> None \<longrightarrow> s \<le> get0 (e_slot r) (e_id r)) \<and>
     (\<forall>m \<in> bcasts r. tells (e_id r) (cmd_at r (e_id r)) m) \<and> (\<forall>m \<in> sends r. is_reply m)"

lemma tells_mono: "tells i f m \<Longrightarrow> (\<And>s c. f s = Some c \<Longrightarrow> g s = Some c) \<Longrightarrow> tells i g m"
  by (cases m) auto


lemma cmd_at_some: "cmd_at r i s = None \<longleftrightarrow> inst r i s = None"
  by (simp add: cmd_at_def)

lemma owner_ok_step:
  assumes "owner_ok r" "e_id r' = e_id r" "get0 (e_slot r') (e_id r) = get0 (e_slot r) (e_id r)"
    "cmd_at r' (e_id r) = cmd_at r (e_id r)" "\<forall>m \<in> bcasts r'. m \<in> bcasts r \<or> tells (e_id r) (cmd_at r (e_id r)) m"
    "\<forall>m \<in> sends r'. m \<in> sends r \<or> is_reply m"
  shows "owner_ok r'"
proof -
  have "inst r' (e_id r) s \<noteq> None \<longleftrightarrow> inst r (e_id r) s \<noteq> None" for s
    using assms(4) by (metis cmd_at_some)
  then show ?thesis
    using assms by (auto simp: owner_ok_def)
qed

lemma get0_raise: "j \<noteq> i \<Longrightarrow> get0 (e_slot (raise_slot i s r)) j = get0 (e_slot r) j"
  by (simp add: raise_slot_def get0_def update_conv')

lemma face_raise [simp]:
  "e_id (raise_slot i s r) = e_id r" "bcasts (raise_slot i s r) = bcasts r" "sends (raise_slot i s r) = sends r"
  by (simp_all add: raise_slot_def bcasts_def sends_def)

lemma face_emit [simp]:
  "e_id (e_emit x r) = e_id r" "e_slot (e_emit x r) = e_slot r"
  "bcasts (e_emit (EBroadcast m) r) = insert m (bcasts r)" "bcasts (e_emit (ESend n m) r) = bcasts r"
  "sends (e_emit (EBroadcast m) r) = sends r" "sends (e_emit (ESend n m) r) = insert m (sends r)"
  by (auto simp: e_emit_def bcasts_def sends_def)

lemma face_parts: "face r' = face r \<Longrightarrow> e_id r' = e_id r \<and> e_slot r' = e_slot r \<and> bcasts r' = bcasts r \<and> sends r' = sends r"
  by (simp add: face_def)

text \<open>Handling a message about another node's instance: what becomes known comes from the message.\<close>

definition follows :: "(ID \<times> goint \<times> Command) set \<Rightarrow> epaxos \<Rightarrow> epaxos \<Rightarrow> bool" where
  "follows told r r' \<longleftrightarrow> e_id r' = e_id r \<and> owner_ok r' \<and>
     (\<forall>j t. cmd_at r' j t = cmd_at r j t \<or>
        (j \<noteq> e_id r \<and> (cmd_at r j t = None \<and> cmd_at r' j t = Some zero_command \<or>
           (\<exists>c. (j, t, c) \<in> told \<and> cmd_at r' j t = Some c))))"

lemma request_step:
  assumes "owner_ok r" "e_handleRequest q r = Inr r'"
  shows "\<exists>s. cmd_at r (e_id r) s = None \<and> e_id r' = e_id r \<and> owner_ok r' \<and>
    cmd_at r' = (\<lambda>j t. if j = e_id r \<and> t = s then Some (rCommand q) else cmd_at r j t)"
proof -
  let ?i = "e_id r" and ?s = "get0 (e_slot r) (e_id r) + 1"
  define r1 where "r1 = r\<lparr>e_slot := AList.update ?i ?s (e_slot r)\<rparr>"
  obtain seq dep x r2 r3 where h: "put_inst ?i ?s x r1 = Inr r2" "e_update (rCommand q) ?i ?s seq r2 = Inr r3" "i_cmd x = rCommand q"
    "r' = e_emit (EBroadcast (E_PreAccept (PreAccept (NewBallot 0 ?i) ?i ?s (rCommand q) seq (copyDep x)))) r3"
    using assms(2) by (auto simp: e_handleRequest_def Let_def r1_def)
  have new: "cmd_at r ?i ?s = None"
    using assms(1) by (fastforce simp: owner_ok_def cmd_at_some)
  have r3: "e_id r3 = ?i" "e_slot r3 = e_slot r1" "bcasts r3 = bcasts r" "sends r3 = sends r"
    using face_parts [OF face_update [OF h(2)]] face_parts [OF face_put [OF h(1)]]
    by (simp_all add: r1_def bcasts_def sends_def)
  have "inst r' = (\<lambda>j t. if j = ?i \<and> t = ?s then Some x else inst r j t)"
    using inst_put [OF h(1)] inst_update [OF h(2)] by (auto simp: h(4) r1_def fun_eq_iff)
  then have cmd: "cmd_at r' = (\<lambda>j t. if j = ?i \<and> t = ?s then Some (rCommand q) else cmd_at r j t)"
    using h(3) by (auto simp: cmd_at_def fun_eq_iff)
  have id: "e_id r' = ?i" using r3(1) by (simp add: h(4))
  have "owner_ok r'"
    unfolding owner_ok_def
  proof (intro conjI ballI allI impI)
    fix t assume "inst r' (e_id r') t \<noteq> None"
    then have "cmd_at r' ?i t \<noteq> None"
      using r3(1) by (simp add: cmd_at_some h(4))
    then have "t = ?s \<or> inst r ?i t \<noteq> None"
      unfolding cmd cmd_at_some [symmetric] by (simp split: if_splits)
    then show "t \<le> get0 (e_slot r') (e_id r')"
      using assms(1) r3 by (auto simp: owner_ok_def h(4) r1_def get0_def update_conv')
  next
    fix m assume "m \<in> bcasts r'"
    then consider "m \<in> bcasts r" | "m = E_PreAccept (PreAccept (NewBallot 0 ?i) ?i ?s (rCommand q) seq (copyDep x))"
      using r3 by (auto simp: h(4))
    then show "tells (e_id r') (cmd_at r' (e_id r')) m"
    proof cases
      case 1
      then have "tells ?i (cmd_at r ?i) m" using assms(1) by (simp add: owner_ok_def)
      then show ?thesis
        unfolding id cmd by (rule tells_mono) (use new in \<open>auto split: if_splits\<close>)
    qed (use r3 cmd in \<open>simp add: h(4)\<close>)
  qed (use assms(1) r3 in \<open>simp add: owner_ok_def h(4)\<close>)
  then show ?thesis
    using new cmd r3(1) by (auto simp: h(4))
qed

lemma ensure_cmd:
  assumes "ensure_inst i s r = Inr (x, r1)"
  shows "inst r1 = (\<lambda>j t. if j = i \<and> t = s then Some x else inst r j t)"
    "inst r i s = Some x \<or> (inst r i s = None \<and> x = zero_instance)"
  using assms by (auto simp: ensure_inst_def fun_eq_iff dest: inst_put split: option.splits)

lemma zero_instance_cmd [simp]: "i_cmd zero_instance = zero_command"
  by (simp add: zero_instance_def)


text \<open>Only the one slot changes in a handler; its instance is described by the command.\<close>

lemma follows_one:
  assumes "owner_ok r" "e_id r' = e_id r" "i \<noteq> e_id r" "get0 (e_slot r') (e_id r) = get0 (e_slot r) (e_id r)"
    "bcasts r' = bcasts r" "\<forall>m \<in> sends r'. m \<in> sends r \<or> is_reply m"
    "inst r' = (\<lambda>j t. if j = i \<and> t = s then Some x else inst r j t)"
    "cmd_at r i s = Some (i_cmd x) \<or> (cmd_at r i s = None \<and> i_cmd x = zero_command) \<or> (i, s, i_cmd x) \<in> told"
  shows "follows told r r'"
proof -
  have "cmd_at r' = (\<lambda>j t. if j = i \<and> t = s then Some (i_cmd x) else cmd_at r j t)"
    using assms(7) by (auto simp: cmd_at_def fun_eq_iff)
  moreover from this have "owner_ok r'"
    using assms by (intro owner_ok_step [OF assms(1,2,4)]) auto
  ultimately show ?thesis
    using assms(2,3,8) by (auto simp: follows_def)
qed

lemma PreAccept_step:
  assumes "owner_ok r" "pa_Replica m \<noteq> e_id r" "handlePreAccept m r = Inr r'"
  shows "follows {(pa_Replica m, pa_Slot m, pa_Command m)} r r'"
proof -
  let ?i = "pa_Replica m" and ?s = "pa_Slot m"
  obtain x r1 where e: "ensure_inst ?i ?s r = Inr (x, r1)"
    using assms(3) by (auto simp: handlePreAccept_def Let_def)
  have f1: "e_id r1 = e_id r \<and> e_slot r1 = e_slot r \<and> bcasts r1 = bcasts r \<and> sends r1 = sends r"
    using face_parts [OF face_ensure [OF e]] .
  have x: "cmd_at r ?i ?s = Some (i_cmd x) \<or> (cmd_at r ?i ?s = None \<and> i_cmd x = zero_command)"
    using ensure_cmd(2) [OF e] by (auto simp: cmd_at_def)
  note one = follows_one [OF assms(1) _ assms(2)]
  consider (stays) "r' = r1" | (fills) r2 where "put_inst ?i ?s (x\<lparr>i_cmd := pa_Command m\<rparr>) r1 = Inr r2"
      "e_update (pa_Command m) ?i ?s (pa_Seq m) r2 = Inr r'"
    | (accepts) seq x1 r3 r4 reply where "put_inst ?i ?s x1 (raise_slot ?i ?s r1) = Inr r3" "e_update (pa_Command m) ?i ?s seq r3 = Inr r4"
      "r' = e_emit (ESend ?i (E_PreAcceptReply reply)) r4" "i_cmd x1 = i_cmd x \<or> i_cmd x1 = pa_Command m"
    using assms(3) e by (auto simp: handlePreAccept_def Let_def split: if_splits)
  then show ?thesis
  proof cases
    case stays
    then show ?thesis
      using f1 x ensure_cmd(1) [OF e] by (intro one [of _ ?s x]) auto
  next
    case (fills r2)
    have "inst r' = (\<lambda>j t. if j = ?i \<and> t = ?s then Some (x\<lparr>i_cmd := pa_Command m\<rparr>) else inst r j t)"
      using inst_put [OF fills(1)] inst_update [OF fills(2)] ensure_cmd(1) [OF e] by (auto simp: fun_eq_iff)
    then show ?thesis
      using f1 face_parts [OF face_update [OF fills(2)]] face_parts [OF face_put [OF fills(1)]]
      by (intro one [of _ ?s "x\<lparr>i_cmd := pa_Command m\<rparr>"]) auto
  next
    case (accepts seq x1 r3 r4 reply)
    have "inst r' = (\<lambda>j t. if j = ?i \<and> t = ?s then Some x1 else inst r j t)"
      using inst_put [OF accepts(1)] inst_update [OF accepts(2)] ensure_cmd(1) [OF e] by (auto simp: accepts(3) fun_eq_iff)
    then show ?thesis
      using f1 x accepts(3,4) face_parts [OF face_update [OF accepts(2)]] face_parts [OF face_put [OF accepts(1)]] assms(2)
      by (intro one [of _ ?s x1]) (auto simp: get0_raise)
  qed
qed

lemma Accept_step:
  assumes "owner_ok r" "ac_Replica m \<noteq> e_id r" "handleAccept m r = Inr r'"
  shows "follows {} r r'"
proof -
  let ?i = "ac_Replica m" and ?s = "ac_Slot m"
  obtain x r1 where e: "ensure_inst ?i ?s r = Inr (x, r1)"
    using assms(3) by (auto simp: handleAccept_def Let_def)
  have f1: "e_id r1 = e_id r \<and> e_slot r1 = e_slot r \<and> bcasts r1 = bcasts r \<and> sends r1 = sends r"
    using face_parts [OF face_ensure [OF e]] .
  have x: "cmd_at r ?i ?s = Some (i_cmd x) \<or> (cmd_at r ?i ?s = None \<and> i_cmd x = zero_command)"
    using ensure_cmd(2) [OF e] by (auto simp: cmd_at_def)
  note one = follows_one [OF assms(1) _ assms(2)]
  consider (stays) "r' = r1" | (accepts) x1 r3 reply where "put_inst ?i ?s x1 (raise_slot ?i ?s r1) = Inr r3"
      "r' = e_emit (ESend ?i (E_AcceptReply reply)) r3" "i_cmd x1 = i_cmd x"
    using assms(3) e by (auto simp: handleAccept_def Let_def split: if_splits)
  then show ?thesis
  proof cases
    case stays
    then show ?thesis
      using f1 x ensure_cmd(1) [OF e] by (intro one [of _ ?s x]) auto
  next
    case (accepts x1 r3 reply)
    have "inst r' = (\<lambda>j t. if j = ?i \<and> t = ?s then Some x1 else inst r j t)"
      using inst_put [OF accepts(1)] ensure_cmd(1) [OF e] by (auto simp: accepts(2) fun_eq_iff)
    then show ?thesis
      using f1 x accepts(2,3) face_parts [OF face_put [OF accepts(1)]] assms(2)
      by (intro one [of _ ?s x1]) (auto simp: get0_raise)
  qed
qed

lemma Commit_step:
  assumes "owner_ok r" "co_Replica m \<noteq> e_id r" "handleCommit m r = Inr r'"
  shows "follows {(co_Replica m, co_Slot m, co_Command m)} r r'"
proof -
  let ?i = "co_Replica m" and ?s = "co_Slot m"
  obtain x r1 where e: "ensure_inst ?i ?s (raise_slot ?i ?s r) = Inr (x, r1)"
    using assms(3) by (auto simp: handleCommit_def Let_def)
  have f1: "e_id r1 = e_id r \<and> get0 (e_slot r1) (e_id r) = get0 (e_slot r) (e_id r) \<and> bcasts r1 = bcasts r \<and> sends r1 = sends r"
    using face_parts [OF face_ensure [OF e]] assms(2) by (simp add: get0_raise)
  have i1: "inst r1 = (\<lambda>j t. if j = ?i \<and> t = ?s then Some x else inst r j t)"
    using ensure_cmd(1) [OF e] by (auto simp: fun_eq_iff)
  have x: "cmd_at r ?i ?s = Some (i_cmd x) \<or> (cmd_at r ?i ?s = None \<and> i_cmd x = zero_command)"
    using ensure_cmd(2) [OF e] by (auto simp: cmd_at_def)
  define x1 where "x1 = (if co_Ballot m \<ge> i_ballot x
    then x\<lparr>i_ballot := co_Ballot m, i_cmd := co_Command m, i_status := COMMITTED, i_seq := co_Seq m, i_dep := co_Dep m\<rparr> else x)"
  obtain r3 r4 where h: "put_inst ?i ?s x1 r1 = Inr r3"
    "(if co_Ballot m \<ge> i_ballot x then e_update (co_Command m) ?i ?s (co_Seq m) r3 else Inr r3) = Inr r4"
    "(case i_request x1 of None \<Rightarrow> Inr (updateCommit ?i r4)
      | Some q \<Rightarrow> go_bind (put_inst ?i ?s (x1\<lparr>i_request := None\<rparr>) (e_emit (ERetry q) r4)) (\<lambda>r5. Inr (updateCommit ?i r5))) = Inr r'"
    using assms(3) unfolding handleCommit_def Let_def e go_bind_simps prod.case x1_def [symmetric] go_bind_eq_Inr
    by (elim exE conjE) (rule that)
  have h: "put_inst ?i ?s x1 r1 = Inr r3" "face r4 = face r3 \<and> inst r4 = inst r3" "i_cmd x1 = i_cmd x \<or> i_cmd x1 = co_Command m"
      "r' = updateCommit ?i r4 \<or> (\<exists>q r5. put_inst ?i ?s (x1\<lparr>i_request := None\<rparr>) (e_emit (ERetry q) r4) = Inr r5 \<and> r' = updateCommit ?i r5)"
    using h by (auto simp: x1_def dest: face_update inst_update split: if_splits option.splits)
  have "\<exists>y. i_cmd y = i_cmd x1 \<and> face r' = face r3 \<and> inst r' = (\<lambda>j t. if j = ?i \<and> t = ?s then Some y else inst r j t)"
    using h(4)
  proof (elim disjE exE conjE)
    fix q r5 assume p: "put_inst ?i ?s (x1\<lparr>i_request := None\<rparr>) (e_emit (ERetry q) r4) = Inr r5" "r' = updateCommit ?i r5"
    show ?thesis
      using inst_put [OF p(1)] face_put [OF p(1)] inst_put [OF h(1)] h(2) i1 p(2)
      by (intro exI [of _ "x1\<lparr>i_request := None\<rparr>"]) (auto simp: fun_eq_iff)
  qed (use inst_put [OF h(1)] h(2) i1 in \<open>auto simp: fun_eq_iff\<close>)
  then obtain y where y: "i_cmd y = i_cmd x1" "face r' = face r3" "inst r' = (\<lambda>j t. if j = ?i \<and> t = ?s then Some y else inst r j t)"
    by blast
  show ?thesis
    using f1 x h(3) y face_parts [OF y(2)] face_parts [OF face_put [OF h(1)]]
    by (intro follows_one [OF assms(1) _ assms(2), of r' ?s y]) auto
qed


lemma merge_cmd: "merge seq dep x = Inr x1 \<Longrightarrow> i_cmd x1 = i_cmd x"
proof -
  have "go_fold merge_dep ds y = Inr z \<Longrightarrow> i_cmd z = i_cmd y" for ds y z
    by (induction ds arbitrary: y) (fastforce split: if_splits option.splits)+
  then show "merge seq dep x = Inr x1 \<Longrightarrow> i_cmd x1 = i_cmd x"
    by (fastforce simp: merge_def Let_def split: if_splits)
qed

lemma inst_fields [simp]:
  "inst (e_emit z r) = inst r" "inst (r\<lparr>e_committed := x1, e_fast := x2\<rparr>) = inst r"
  "inst (r\<lparr>e_committed := x1, e_slow := x2\<rparr>) = inst r" "inst (r\<lparr>e_committed := x1\<rparr>) = inst r"
  by (intro ext; simp)+

lemma follows_refl: "owner_ok r \<Longrightarrow> follows told r r"
  by (simp add: follows_def)

lemma follows_own:
  assumes "owner_ok r" "inst r (e_id r) s = Some x" "e_id r' = e_id r" "e_slot r' = e_slot r" "sends r' = sends r"
    "bcasts r' \<subseteq> bcasts r \<union> {m. tells (e_id r) (cmd_at r (e_id r)) m}"
    "inst r' = (\<lambda>j t. if j = e_id r \<and> t = s then Some y else inst r j t)" "i_cmd y = i_cmd x"
  shows "follows {} r r'"
proof -
  have "cmd_at r' = cmd_at r"
    using assms(2,7,8) by (auto simp: cmd_at_def fun_eq_iff)
  moreover from this have "owner_ok r'"
    using assms by (intro owner_ok_step [OF assms(1,3)]) auto
  ultimately show ?thesis
    using assms(3) by (simp add: follows_def)
qed

lemma PreAcceptReply_step:
  assumes "owner_ok r" "handlePreAcceptReply c w m r = Inr r'"
  shows "follows {} r r'"
proof -
  let ?i = "e_id r" and ?s = "par_Slot m"
  obtain x where x: "inst r ?i ?s = Some x"
    using assms(2) by (auto simp: handlePreAcceptReply_def Let_def)
  show ?thesis
  proof (cases "i_status x \<noteq> PREACCEPTED \<or> par_Ballot m > i_ballot x")
    case True
    then have "r' = r"
      using assms(2) x by (auto simp: handlePreAcceptReply_def Let_def split: if_splits)
    then show ?thesis using assms(1) by (simp add: follows_refl)
  next
    case False
    obtain q x1 where x1: "i_quorum x = Some q" "merge (par_Seq m) (par_Dep m) (x\<lparr>i_quorum := Some (ACK (par_Replica m) q)\<rparr>) = Inr x1"
      using assms(2) x False by (auto simp: handlePreAcceptReply_def Let_def split: if_splits)
    obtain committed ok where l: "learn_commits (par_Committed m) x1 (e_committed r) = (committed, ok)"
      by fastforce
    have cmd: "i_cmd x1 = i_cmd x" using merge_cmd [OF x1(2)] by simp
    note h = assms(2) [unfolded handlePreAcceptReply_def Let_def x deref_simps(1) go_bind_simps x1 l prod.case]
    have fields: "e_id r2 = e_id r \<and> e_slot r2 = e_slot r \<and> bcasts r2 = bcasts r \<and> sends r2 = sends r"
      if "face r2 = face r" for r2
      using that by (simp add: face_def)
    let ?fast = "FastQuorum c (ACK (par_Replica m) q)"
    consider (wait) "\<not> ?fast" | (fast) "?fast" "\<not> i_changed x1 \<and> ok" | (slow) "?fast" "\<not> (\<not> i_changed x1 \<and> ok)"
      by blast
    then show ?thesis
    proof cases
      case wait
      then have "put_inst ?i ?s x1 (r\<lparr>e_committed := committed\<rparr>) = Inr r'"
        using h False by simp
      then show ?thesis
        using fields [of r'] face_put inst_put cmd by (intro follows_own [OF assms(1) x, of r' x1]) fastforce+
    next
      case fast
      define x2 where "x2 = x1\<lparr>i_status := COMMITTED\<rparr>"
      obtain r2 where r2: "put_inst ?i ?s x2 (r\<lparr>e_committed := committed, e_fast := e_fast r + 1\<rparr>) = Inr r2"
        "reply_on_commit w x2 (e_emit (EBroadcast (E_Commit (Commit (i_ballot x2) ?i ?s (i_cmd x2) (i_seq x2) (copyDep x2)))) (updateCommit ?i r2)) = Inr r'"
        using h False fast by (auto simp: x2_def)
      have f: "e_id r2 = e_id r \<and> e_slot r2 = e_slot r \<and> bcasts r2 = bcasts r \<and> sends r2 = sends r"
        using face_put [OF r2(1)] by (intro fields) simp
      have "inst r' = (\<lambda>j t. if j = ?i \<and> t = ?s then Some x2 else inst r j t)"
        using inst_reply [OF r2(2)] inst_put [OF r2(1)] by (simp add: fun_eq_iff)
      then show ?thesis
        using face_parts [OF face_reply [OF r2(2)]] face_parts [OF face_updateCommit [of ?i r2]] f cmd x
        by (intro follows_own [OF assms(1) x, of r' x2]) (auto simp: cmd_at_def x2_def)
    next
      case slow
      define x2 where "x2 = x1\<lparr>i_status := ACCEPTED, i_quorum := Some (ACK ?i (Reset (ACK (par_Replica m) q)))\<rparr>"
      obtain r2 where r2: "put_inst ?i ?s x2 (r\<lparr>e_committed := committed, e_slow := e_slow r + 1\<rparr>) = Inr r2"
        "r' = e_emit (EBroadcast (E_Accept (Accept (i_ballot x2) ?i ?s (i_seq x2) (copyDep x2)))) r2"
        using h False slow by (auto simp: x2_def)
      have f: "e_id r2 = e_id r \<and> e_slot r2 = e_slot r \<and> bcasts r2 = bcasts r \<and> sends r2 = sends r"
        using face_put [OF r2(1)] by (intro fields) simp
      have "inst r' = (\<lambda>j t. if j = ?i \<and> t = ?s then Some x2 else inst r j t)"
        using inst_put [OF r2(1)] r2(2) by (simp add: fun_eq_iff)
      then show ?thesis
        using f cmd r2(2) by (intro follows_own [OF assms(1) x, of r' x2]) (auto simp: x2_def)
    qed
  qed
qed

lemma AcceptReply_step:
  assumes "owner_ok r" "handleAcceptReply c w m r = Inr r'"
  shows "follows {} r r'"
proof -
  let ?i = "e_id r" and ?s = "ar_Slot m"
  obtain x where x: "inst r ?i ?s = Some x"
    using assms(2) by (auto simp: handleAcceptReply_def Let_def)
  note h = assms(2) [unfolded handleAcceptReply_def Let_def x deref_simps(1) go_bind_simps]
  show ?thesis
  proof (cases "i_status x \<noteq> ACCEPTED")
    case True
    then have "r' = r" using h by simp
    then show ?thesis using assms(1) by (simp add: follows_refl)
  next
    case False
    have puts: "follows {} r r'" if "put_inst ?i ?s y r = Inr r'" "i_cmd y = i_cmd x" for y
      using face_parts [OF face_put [OF that(1)]] inst_put [OF that(1)] that(2)
      by (intro follows_own [OF assms(1) x, of r' y]) auto
    show ?thesis
    proof (cases "i_ballot x < ar_Ballot m")
      case True
      then show ?thesis using h False by (intro puts [of "x\<lparr>i_ballot := ar_Ballot m\<rparr>"]) simp_all
    next
      case ballot: False
      then obtain q where q: "i_quorum x = Some q"
        using h False by (auto split: if_splits)
      show ?thesis
      proof (cases "Majority c (ACK (ar_Replica m) q)")
        case no: False
        then show ?thesis
          using h False ballot q by (intro puts [of "x\<lparr>i_quorum := Some (ACK (ar_Replica m) q)\<rparr>"]) simp_all
      next
        case True
        define y where "y = x\<lparr>i_quorum := Some (ACK (ar_Replica m) q), i_status := COMMITTED\<rparr>"
        obtain r1 r2 where r: "put_inst ?i ?s y r = Inr r1" "reply_on_commit w y (updateCommit ?i r1) = Inr r2"
          "r' = e_emit (EBroadcast (E_Commit (Commit (i_ballot y) ?i ?s (i_cmd y) (i_seq y) (copyDep y)))) r2"
          using h False ballot q True by (auto simp: y_def)
        have "inst r' = (\<lambda>j t. if j = ?i \<and> t = ?s then Some y else inst r j t)"
          using inst_reply [OF r(2)] inst_put [OF r(1)] r(3) by (simp add: fun_eq_iff)
        then show ?thesis
          using face_parts [OF face_reply [OF r(2)]] face_parts [OF face_put [OF r(1)]] face_parts [OF face_updateCommit [of ?i r1]] r(3) x
          by (intro follows_own [OF assms(1) x, of r' y]) (auto simp: cmd_at_def y_def)
      qed
    qed
  qed
qed

section \<open>The cluster\<close>

text \<open>What a message tells of commands.\<close>

fun told_by :: "epaxos_msg \<Rightarrow> (ID \<times> goint \<times> Command) set" where
  "told_by (E_PreAccept m) = {(pa_Replica m, pa_Slot m, pa_Command m)}"
| "told_by (E_Commit m) = {(co_Replica m, co_Slot m, co_Command m)}"
| "told_by m = {}"

definition one_command :: "ID list \<Rightarrow> e_sys \<Rightarrow> bool" where
  [wf_defs]: "one_command ms S \<longleftrightarrow>
     (\<forall>n \<in> set ms. e_id (S n) = n \<and> owner_ok (S n) \<and>
        (\<forall>i s c. cmd_at (S n) i s = Some c \<longrightarrow> c = zero_command \<or> (i \<in> set ms \<and> cmd_at (S i) i s = Some c)))"

lemma known_command:
  "one_command ms S \<Longrightarrow> n \<in> set ms \<Longrightarrow> cmd_at (S n) i s = Some k \<Longrightarrow> k = zero_command \<or> (i \<in> set ms \<and> cmd_at (S i) i s = Some k)"
  unfolding one_command_def by blast

lemma message_step:
  assumes "one_command ms S" "n \<in> set ms" "src \<in> set ms" "e_deliverable src n m S" "epaxos_handle c w m (S n) = Inr r"
  shows "follows (told_by m) (S n) r \<and> (\<forall>(i, s, k) \<in> told_by m. i = src \<and> cmd_at (S src) src s = Some k)"
proof -
  have ok: "owner_ok (S n)" "e_id (S n) = n" "owner_ok (S src)" "e_id (S src) = src"
    using assms(1-3) by (auto simp: one_command_def)
  consider (all) "n \<noteq> src" "tells src (cmd_at (S src) src) m" | (one) "is_reply m"
    using assms(4) ok(3,4) by (auto simp: e_deliverable_def owner_ok_def bcasts_def sends_def)
  then show ?thesis
  proof cases
    case all
    then show ?thesis
      using assms(5) ok(2)
      by (cases m) (auto intro!: PreAccept_step [OF ok(1)] Accept_step [OF ok(1)] Commit_step [OF ok(1)])
  next
    case one
    then show ?thesis
      using assms(5) by (cases m) (auto intro: PreAcceptReply_step [OF ok(1)] AcceptReply_step [OF ok(1)])
  qed
qed


definition owners_keep :: "ID list \<Rightarrow> e_sys \<Rightarrow> e_sys \<Rightarrow> bool" where
  "owners_keep ms S T \<longleftrightarrow> (\<forall>i \<in> set ms. \<forall>s k. cmd_at (S i) i s = Some k \<longrightarrow> cmd_at (T i) i s = Some k)"

lemma e_step_cases:
  assumes "e_step c w ms S T"
  obtains (request) n q r where "n \<in> set ms" "e_handleRequest q (S n) = Inr r" "T = S(n := r)"
  | (message) n src m r where "n \<in> set ms" "src \<in> set ms" "e_deliverable src n m S" "epaxos_handle c w m (S n) = Inr r" "T = S(n := r)"
  using assms
proof cases
  case (deliver ev)
  then show ?thesis
    by (cases ev) (auto simp: e_deliver_def Let_def split: if_splits sum.splits intro: request message)
qed

lemma e_step_keeps:
  assumes "e_step c w ms S T" "one_command ms S"
  shows "one_command ms T \<and> owners_keep ms S T"
  using assms(1)
proof (cases rule: e_step_cases)
  case (request n q r)
  obtain s where s: "cmd_at (S n) n s = None" "e_id r = n" "owner_ok r"
    "cmd_at r = (\<lambda>j t. if j = n \<and> t = s then Some (rCommand q) else cmd_at (S n) j t)"
    using request_step [OF _ request(2)] request(1) assms(2) by (auto simp: one_command_def)
  have keep: "owners_keep ms S T"
    using s(1,4) by (auto simp: owners_keep_def request(3))
  then show ?thesis
    using assms(2) s(2,3,4) request(1) unfolding one_command_def owners_keep_def request(3)
    by (auto split: if_splits) (metis option.distinct(1))+
next
  case (message n src m r)
  have f: "follows (told_by m) (S n) r" "\<forall>(i, s, k) \<in> told_by m. i = src \<and> cmd_at (S src) src s = Some k" "e_id (S n) = n"
    using message_step [OF assms(2) message(1-4)] assms(2) message(1) by (auto simp: one_command_def)
  have own: "cmd_at r n s = cmd_at (S n) n s" for s
    using f(1,3) by (auto simp: follows_def)
  then have keep: "owners_keep ms S T"
    by (auto simp: owners_keep_def message(5))
  have "k = zero_command \<or> (i \<in> set ms \<and> cmd_at (T i) i s = Some k)" if known: "cmd_at r i s = Some k" for i s k
  proof -
    consider "cmd_at (S n) i s = Some k" | "k = zero_command" | "(i, s, k) \<in> told_by m"
      using f(1) known unfolding follows_def by (metis option.inject)
    then show ?thesis
    proof cases
      case 1
      then have "k = zero_command \<or> (i \<in> set ms \<and> cmd_at (S i) i s = Some k)"
        using assms(2) message(1) by (auto simp: one_command_def)
      then show ?thesis using keep by (auto simp: owners_keep_def)
    next
      case 3
      then show ?thesis using f(2) message(2) keep by (auto simp: owners_keep_def)
    qed simp
  qed
  moreover have "k = zero_command \<or> (i \<in> set ms \<and> cmd_at (T i) i s = Some k)"
    if "l \<in> set ms" "cmd_at (S l) i s = Some k" for l i s k
    using known_command [OF assms(2) that] keep by (auto simp: owners_keep_def)
  ultimately have "one_command ms T"
    using assms(2) f(1,3) unfolding one_command_def by (auto simp: message(5) follows_def)
  then show ?thesis using keep by simp
qed

lemma e_run_keeps:
  "(e_step c w ms)\<^sup>*\<^sup>* S T \<Longrightarrow> one_command ms S \<Longrightarrow> one_command ms T \<and> owners_keep ms S T"
proof (induction rule: rtranclp_induct)
  case (step T U)
  then show ?case
    using e_step_keeps [OF step.hyps(2)] by (auto simp: owners_keep_def)
qed (simp add: owners_keep_def)

lemma e_init_ok: "one_command ms (e_init c ms)"
proof -
  have nil: "v = fmempty" if "map_of (fold (\<lambda>i. AList.update i fmempty) ms []) k = Some v" for k and v :: "(goint, instance_t) fmap"
  proof -
    have "\<forall>k v. map_of (fold (\<lambda>i. AList.update i fmempty) ms []) k = Some v \<longrightarrow> v = (fmempty :: (goint, instance_t) fmap)"
      by (rule fold_invariant [where P = "\<lambda>m. \<forall>k v. map_of m k = Some v \<longrightarrow> v = fmempty"]) (auto simp: update_conv')
    then show ?thesis using that by blast
  qed
  have "inst (e_init c ms n) i s = None" for n i s
    by (auto simp: inst_def e_init_def NewEPaxos_def dest!: nil split: option.split)
  then show ?thesis
    by (auto simp: one_command_def owner_ok_def cmd_at_def bcasts_def sends_def) (simp_all add: e_init_def NewEPaxos_def)
qed

text \<open>C4: an instance has one command in the whole cluster and for ever: in every execution, whatever messages are lost,
  repeated or reordered, two replicas that know a command for a slot of a node, at the same time or one
  of them later, know the same command, the one that its node has given to the slot.\<close>

theorem one_command_per_instance:
  assumes "(e_step c w ms)\<^sup>*\<^sup>* (e_init c ms) S" "(e_step c w ms)\<^sup>*\<^sup>* S T" "a \<in> set ms" "b \<in> set ms"
    and "inst (S a) i s = Some x" "inst (T b) i s = Some y" "i_cmd x \<noteq> zero_command" "i_cmd y \<noteq> zero_command"
  shows "i_cmd x = i_cmd y \<and> i \<in> set ms \<and> map_option i_cmd (inst (T i) i s) = Some (i_cmd x)"
proof -
  have S: "one_command ms S"
    using e_run_keeps [OF assms(1) e_init_ok] by simp
  then have T: "one_command ms T" "owners_keep ms S T"
    using e_run_keeps [OF assms(2)] by simp_all
  have "i \<in> set ms \<and> cmd_at (S i) i s = Some (i_cmd x)"
    using S assms(3,5,7) by (fastforce simp: one_command_def cmd_at_def)
  then have "i \<in> set ms" "cmd_at (T i) i s = Some (i_cmd x)"
    using T(2) by (simp_all add: owners_keep_def)
  moreover have "cmd_at (T i) i s = Some (i_cmd y)"
    using T(1) assms(4,6,8) by (fastforce simp: one_command_def cmd_at_def)
  ultimately show ?thesis
    by (auto simp: cmd_at_def)
qed

fun e_run :: "config \<Rightarrow> bool \<Rightarrow> ID list \<Rightarrow> e_event list \<Rightarrow> e_sys \<Rightarrow> e_sys option" where
  "e_run c w ms [] S = Some S"
| "e_run c w ms (ev # evs) S = Option.bind (e_deliver c w ms ev S) (e_run c w ms evs)"

lemma e_run_steps: "e_run c w ms evs S = Some T \<Longrightarrow> (e_step c w ms)\<^sup>*\<^sup>* S T"
proof (induction evs arbitrary: S)
  case (Cons ev evs)
  then obtain U where "e_deliver c w ms ev S = Some U" "e_run c w ms evs U = Some T"
    by (auto split: bind_splits)
  then show ?case
    using Cons.IH by (meson converse_rtranclp_into_rtranclp e_step.deliver)
qed simp

definition example_request :: Request where
  "example_request = \<lparr>rCommand = write_cmd 5 7, rProperties = [], rTimestamp = 0, rNodeID = 1\<rparr>"

definition example_events :: "e_event list" where
  "example_events =
     [EV_Request 1 example_request, EV_Message 1 2 (E_PreAccept (PreAccept (NewBallot 0 1) 1 0 (write_cmd 5 7) 0 (Some [])))]"

lemma one_command_per_instance_witness:
  "\<exists>T x y. e_run default_config False [1, 2] example_events (e_init default_config [1, 2]) = Some T \<and>
     inst (T 1) 1 0 = Some x \<and> inst (T 2) 1 0 = Some y \<and> i_cmd x = write_cmd 5 7 \<and> i_cmd y = i_cmd x"
proof -
  have "case e_run default_config False [1, 2] example_events (e_init default_config [1, 2]) of None \<Rightarrow> False
    | Some T \<Rightarrow> map_option i_cmd (inst (T 1) 1 0) = Some (write_cmd 5 7) \<and>
        map_option i_cmd (inst (T 2) 1 0) \<notin> {None, Some zero_command}"
    by code_simp
  then obtain T x y where T: "e_run default_config False [1, 2] example_events (e_init default_config [1, 2]) = Some T"
    "inst (T 1) 1 0 = Some x" "inst (T 2) 1 0 = Some y" "i_cmd x = write_cmd 5 7" "i_cmd y \<noteq> zero_command"
    by (auto split: option.splits)
  have "i_cmd x \<noteq> zero_command"
    by (simp add: T(4) write_cmd_def zero_command_def)
  from one_command_per_instance [OF e_run_steps [OF T(1)] rtranclp.rtrancl_refl _ _ T(2,3) this T(5)] T show ?thesis
    by auto
qed

end
