(* ===== verification/Graph.thy ===== *)
theory Graph
  imports Containers
begin

text \<open>
  The directed graphs of \<open>lib/graph.go\<close>: vertices and adjacency maps, the two searches, the
  transposition and the detection of cycles. The queue and the stack of the searches are
  lists, as the contracts of the containers allow; the colours of the cycle detection are a map whose
  missing entries read as white. The neighbours of a vertex are a set in its iteration order.
\<close>

section \<open>Graphs\<close>

record 'a Graph =
  g_vertices :: "'a goset"
  g_from :: "('a, 'a goset) gomap"
  g_to :: "('a, 'a goset) gomap"

definition NewGraph :: "'a Graph" where
  "NewGraph = \<lparr>g_vertices = NewSet, g_from = [], g_to = []\<rparr>"

text \<open>Reading the set of a vertex; a missing one is nil, which can be read but not written.\<close>

definition adjacent :: "('a, 'a goset) gomap \<Rightarrow> 'a \<Rightarrow> 'a goset" where
  "adjacent m v = (case map_of m v of None \<Rightarrow> [] | Some s \<Rightarrow> s)"

definition add_to_set :: "'a \<Rightarrow> 'a \<Rightarrow> ('a, 'a goset) gomap \<Rightarrow> ('a, 'a goset) gomap go" where
  "add_to_set v e m =
     (case map_of m v of None \<Rightarrow> Inl NilMapWrite | Some s \<Rightarrow> Inr (AList.update v (Set_Add e s) m))"

definition remove_from_set :: "'a \<Rightarrow> 'a \<Rightarrow> ('a, 'a goset) gomap \<Rightarrow> ('a, 'a goset) gomap" where
  "remove_from_set v e m =
     (case map_of m v of None \<Rightarrow> m | Some s \<Rightarrow> AList.update v (Set_Remove e s) m)"

definition Graph_Size :: "'a Graph \<Rightarrow> nat" where
  "Graph_Size g = length (g_vertices g)"

definition Graph_Has :: "'a Graph \<Rightarrow> 'a \<Rightarrow> bool" where
  "Graph_Has g v = Set_Has v (g_vertices g)"

definition Graph_Add :: "'a \<Rightarrow> 'a Graph \<Rightarrow> 'a Graph" where
  "Graph_Add v g =
     (if \<not> Graph_Has g v
      then \<lparr>g_vertices = Set_Add v (g_vertices g), g_from = AList.update v NewSet (g_from g),
            g_to = AList.update v NewSet (g_to g)\<rparr>
      else g)"

definition Graph_Remove :: "'a \<Rightarrow> 'a Graph \<Rightarrow> 'a Graph" where
  "Graph_Remove v g =
     (if \<not> Graph_Has g v then g
      else
        let g1 = g\<lparr>g_vertices := Set_Remove v (g_vertices g)\<rparr>;
            g2 = fold (\<lambda>u g. g\<lparr>g_from := remove_from_set u v (g_from g), g_to := remove_from_set u v (g_to g)\<rparr>)
                   (g_vertices g1) g1
        in g2\<lparr>g_from := AList.delete v (g_from g2), g_to := AList.delete v (g_to g2)\<rparr>)"

definition AddEdge :: "'a \<Rightarrow> 'a \<Rightarrow> 'a Graph \<Rightarrow> 'a Graph go" where
  "AddEdge a b g =
     (if a = b then Inl SelfEdge
      else
        let g1 = (if \<not> Graph_Has g a then Graph_Add a g else g);
            g2 = (if \<not> Graph_Has g1 b then Graph_Add b g1 else g1)
        in go_bind (add_to_set a b (g_from g2)) (\<lambda>f.
           go_bind (add_to_set b a (g_to g2)) (\<lambda>t. Inr (g2\<lparr>g_from := f, g_to := t\<rparr>))))"

definition RemoveEdge :: "'a \<Rightarrow> 'a \<Rightarrow> 'a Graph \<Rightarrow> 'a Graph" where
  "RemoveEdge a b g =
     (if \<not> Graph_Has g a \<or> \<not> Graph_Has g b then g
      else g\<lparr>g_from := remove_from_set a b (g_from g), g_to := remove_from_set b a (g_to g)\<rparr>)"

definition Vertices :: "'a Graph \<Rightarrow> 'a goset" where
  "Vertices g = g_vertices g"

definition From :: "'a Graph \<Rightarrow> 'a \<Rightarrow> 'a goset" where
  "From g v = adjacent (g_from g) v"

definition To :: "'a Graph \<Rightarrow> 'a \<Rightarrow> 'a goset" where
  "To g v = adjacent (g_to g) v"

section \<open>Searches\<close>

text \<open>The vertices that some adjacency list names; the searches visit no others.\<close>

definition targets :: "('a, 'a goset) gomap \<Rightarrow> 'a set" where
  "targets m = (\<Union>s \<in> snd ` set m. set s)"

lemma finite_targets [simp]: "finite (targets m)"
  by (auto simp: targets_def)

lemma adjacent_targets: "set (adjacent m v) \<subseteq> targets m"
proof (cases "map_of m v")
  case (Some s)
  then have "(v, s) \<in> set m" by (rule map_of_SomeD)
  then show ?thesis
    using Some by (force simp: adjacent_def targets_def)
qed (simp add: adjacent_def)

text \<open>The inner loop of the breadth-first search: unvisited neighbours are marked and appended.\<close>

definition enqueue :: "'a list \<Rightarrow> 'a list \<times> 'a list \<Rightarrow> 'a list \<times> 'a list" where
  "enqueue ts = fold (\<lambda>t (visited, queue). if t \<in> set visited then (visited, queue)
      else (t # visited, queue @ [t])) ts"

lemma enqueue_eq:
  "\<exists>new. enqueue ts (visited, queue) = (rev new @ visited, queue @ new) \<and> distinct new \<and>
     set new = set ts - set visited"
proof (induction ts arbitrary: visited queue)
  case (Cons t ts)
  show ?case
  proof (cases "t \<in> set visited")
    case True
    then show ?thesis
      using Cons.IH [of visited queue] by (auto simp: enqueue_def)
  next
    case False
    obtain new where new: "enqueue ts (t # visited, queue @ [t]) = (rev new @ t # visited, (queue @ [t]) @ new)"
      "distinct new" "set new = set ts - set (t # visited)"
      using Cons.IH [of "t # visited" "queue @ [t]"] by blast
    have "enqueue (t # ts) (visited, queue) = enqueue ts (t # visited, queue @ [t])"
      using False by (simp add: enqueue_def)
    then show ?thesis
      using new False by (intro exI [of _ "t # new"]) auto
  qed
qed (simp add: enqueue_def)

function bfs_loop :: "('a, 'a goset) gomap \<Rightarrow> 'a list \<Rightarrow> 'a list \<Rightarrow> 'a list \<Rightarrow> 'a list" where
  "bfs_loop m visited [] result = result"
| "bfs_loop m visited (s # queue) result =
     (let (visited', queue') = enqueue (adjacent m s) (visited, queue)
      in bfs_loop m visited' queue' (result @ [s]))"
  by pat_completeness auto
termination
proof (relation "measure (\<lambda>(m, visited, queue, result). card (targets m - set visited) + length queue)", goal_cases)
  case (2 m visited s queue result x visited' queue')
  obtain new where new: "visited' = rev new @ visited" "queue' = queue @ new" "distinct new"
    "set new = set (adjacent m s) - set visited"
    using enqueue_eq [of "adjacent m s" visited queue] 2 by auto
  have "set new \<subseteq> targets m - set visited"
    using new(4) adjacent_targets [of m s] by blast
  moreover have "targets m - set visited' = (targets m - set visited) - set new"
    using new(1) by auto
  ultimately have "card (targets m - set visited') = card (targets m - set visited) - length new"
      "length new \<le> card (targets m - set visited)"
    using new(3) by (simp_all add: card_Diff_subset distinct_card card_mono flip: distinct_card)
  then show ?case
    using new(2) by simp
qed simp

definition BFS :: "'a Graph \<Rightarrow> 'a \<Rightarrow> 'a list" where
  "BFS g v = bfs_loop (g_from g) [v] [v] []"

definition BFSReverse :: "'a Graph \<Rightarrow> 'a \<Rightarrow> 'a list" where
  "BFSReverse g v = bfs_loop (g_to g) [v] [v] []"

text \<open>The depth-first search; the top of the stack is the head of the list. A vertex popped again
  still pushes its unvisited neighbours, so the measure is the number of unvisited vertices and, for
  a visited top, the height of the stack.\<close>

function dfs_loop :: "('a, 'a goset) gomap \<Rightarrow> 'a goset \<Rightarrow> 'a list \<Rightarrow> 'a list \<Rightarrow> 'a list" where
  "dfs_loop m visited [] result = result"
| "dfs_loop m visited (s # stack) result =
     (let (visited', result') = (if Set_Has s visited then (visited, result)
            else (Set_Add s visited, result @ [s]));
          stack' = fold (\<lambda>i stack. if Set_Has i visited' then stack else i # stack) (adjacent m s) stack
      in dfs_loop m visited' stack' result')"
  by pat_completeness auto

lemma push_all: "fold (\<lambda>i stack. if Set_Has i vis then stack else i # stack) ts st =
    rev (filter (\<lambda>i. i \<notin> set vis) ts) @ st"
  by (induction ts arbitrary: st) (auto simp: Set_Has_def)

termination dfs_loop
proof (relation "measures [\<lambda>(m, visited, stack, result). card ((targets m \<union> set stack) - set visited),
    \<lambda>(m, visited, stack, result). if stack \<noteq> [] \<and> hd stack \<notin> set visited then 0 else length stack]",
    goal_cases)
  case (2 m visited s stack result x visited' result' stack')
  let ?new = "rev (filter (\<lambda>i. i \<notin> set visited') (adjacent m s))"
  have "stack' = ?new @ stack"
    using 2(3) by (simp only: push_all)
  moreover have "visited' = (if s \<in> set visited then visited else visited @ [s])"
    using 2(1,2) by (auto simp: Set_Has_def Set_Add_def split: if_splits)
  ultimately have x: "visited' = (if s \<in> set visited then visited else visited @ [s])" "stack' = ?new @ stack"
    by blast+
  let ?A = "(targets m \<union> set stack') - set visited'" and ?B = "(targets m \<union> set (s # stack)) - set visited"
  have sub: "?A \<subseteq> ?B"
    using adjacent_targets [of m s] by (auto simp: x)
  show ?case
  proof (cases "s \<in> set visited")
    case True
    have v: "visited' = visited" using True by (simp add: x(1))
    have "card ?A \<le> card ?B"
      using sub by (intro card_mono) auto
    moreover have "hd stack' \<notin> set visited" if "?new \<noteq> []"
    proof -
      have "hd stack' = hd ?new" using that by (simp add: x(2))
      moreover have "hd ?new \<in> set ?new" using that by (rule hd_in_set)
      ultimately show ?thesis using v by simp
    qed
    ultimately show ?thesis
      using True unfolding v by (cases "filter (\<lambda>i. i \<notin> set visited) (adjacent m s) = []")
        (auto simp: x(2) v order.strict_iff_order)
  next
    case False
    then have "s \<in> ?B" "s \<notin> ?A"
      by (auto simp: x(1))
    with sub have "?A \<subset> ?B" by blast
    then have "card ?A < card ?B"
      by (intro psubset_card_mono) auto
    then show ?thesis by simp
  qed
qed simp

definition DFS :: "'a Graph \<Rightarrow> 'a \<Rightarrow> 'a list" where
  "DFS g v = dfs_loop (g_from g) NewSet [v] []"

definition Transpose :: "'a Graph \<Rightarrow> 'a Graph" where
  "Transpose g =
     fold (\<lambda>v t. t\<lparr>g_from := AList.update v (Set_Clone (adjacent (g_to g) v)) (g_from t),
                  g_to := AList.update v (Set_Clone (adjacent (g_from g) v)) (g_to t)\<rparr>)
       (g_vertices g) (NewGraph\<lparr>g_vertices := Set_Clone (g_vertices g)\<rparr>)"

section \<open>Cycles\<close>

datatype color = white | gray | black

text \<open>The recursion of \<open>visit\<close> with the loop over the neighbours; the fuel bounds the depth.\<close>

fun visit :: "nat \<Rightarrow> ('a, 'a goset) gomap \<Rightarrow> 'a \<Rightarrow> ('a \<Rightarrow> color) \<Rightarrow> (bool \<times> ('a \<Rightarrow> color)) go"
  and visit_all :: "nat \<Rightarrow> ('a, 'a goset) gomap \<Rightarrow> 'a list \<Rightarrow> ('a \<Rightarrow> color) \<Rightarrow> (bool \<times> ('a \<Rightarrow> color)) go"
where
  "visit 0 m v colors = Inl StackOverflow"
| "visit (Suc n) m v colors =
     go_bind (visit_all n m (Set_Slice (adjacent m v)) (colors(v := gray)))
       (\<lambda>(found, colors). Inr (if found then (True, colors) else (False, colors(v := black))))"
| "visit_all n m [] colors = Inr (False, colors)"
| "visit_all n m (u # us) colors =
     (if colors u = gray then Inr (True, colors)
      else if colors u = white then
        go_bind (visit n m u colors)
          (\<lambda>(found, colors). if found then Inr (True, colors) else visit_all n m us colors)
      else visit_all n m us colors)"

text \<open>The loop over the vertices that \<open>Cyclic\<close> and \<open>Cycle\<close> share.\<close>

fun search_cycle :: "nat \<Rightarrow> ('a, 'a goset) gomap \<Rightarrow> 'a list \<Rightarrow> ('a \<Rightarrow> color) \<Rightarrow> (bool \<times> ('a \<Rightarrow> color)) go" where
  "search_cycle n m [] colors = Inr (False, colors)"
| "search_cycle n m (v # vs) colors =
     (if colors v = white then
        go_bind (visit n m v colors)
          (\<lambda>(found, colors). if found then Inr (True, colors) else search_cycle n m vs colors)
      else search_cycle n m vs colors)"

definition search_depth :: "'a Graph \<Rightarrow> nat" where
  "search_depth g = length (g_vertices g) + 1"

definition Cyclic :: "'a Graph \<Rightarrow> bool go" where
  "Cyclic g =
     go_bind (search_cycle (search_depth g) (g_from g) (g_vertices g) (\<lambda>_. white)) (\<lambda>(found, _). Inr found)"

text \<open>\<open>Cycle\<close> returns the vertices left gray, nil when there is no cycle.\<close>

definition Cycle :: "'a Graph \<Rightarrow> 'a list option go" where
  "Cycle g =
     go_bind (search_cycle (search_depth g) (g_from g) (g_vertices g) (\<lambda>_. white)) (\<lambda>(found, colors).
       Inr (if found then Some (filter (\<lambda>v. colors v = gray) (g_vertices g)) else None))"

end
