(* ===== verification/GraphFacts.thy ===== *)
theory GraphFacts
  imports Graph
begin

text \<open>
  What the graph library does: every operation refines the operation on a set of vertices and a set
  of edges, both searches visit exactly the reachable vertices, and the cycle detection decides
  whether there is a cycle.
\<close>

section \<open>Edges\<close>

definition edges :: "('a, 'a goset) gomap \<Rightarrow> ('a \<times> 'a) set" where
  "edges m = {(a, b). b \<in> set (adjacent m a)}"

lemma edges_iff [simp]: "(a, b) \<in> edges m \<longleftrightarrow> b \<in> set (adjacent m a)"
  by (simp add: edges_def)

lemma reach_closed:
  assumes "v \<in> A" "\<And>a b. a \<in> A \<Longrightarrow> b \<in> set (adjacent m a) \<Longrightarrow> b \<in> A" "(v, u) \<in> (edges m)\<^sup>*"
  shows "u \<in> A"
  using assms(3,1) by (induction rule: rtrancl_induct) (auto intro: assms(2))

lemma reach_eq:
  assumes "v \<in> A" "A \<subseteq> (edges m)\<^sup>* `` {v}" "\<And>a. a \<in> A \<Longrightarrow> set (adjacent m a) \<subseteq> A"
  shows "A = (edges m)\<^sup>* `` {v}"
  using assms(2) reach_closed [of v A m] assms(1,3) by blast

section \<open>Searches\<close>

lemma bfs_loop_visits:
  assumes "distinct (result @ queue)" "set visited = set (result @ queue)"
    and "v \<in> set visited" "set visited \<subseteq> (edges m)\<^sup>* `` {v}"
    and "\<And>s. s \<in> set result \<Longrightarrow> set (adjacent m s) \<subseteq> set visited"
  shows "distinct (bfs_loop m visited queue result) \<and>
    set (bfs_loop m visited queue result) = (edges m)\<^sup>* `` {v}"
  using assms
proof (induction m visited queue result rule: bfs_loop.induct)
  case (1 m visited result)
  have vis: "set visited = set result" using 1(2) by simp
  have "set result = (edges m)\<^sup>* `` {v}"
  proof (rule reach_eq)
    show "v \<in> set result" "set result \<subseteq> (edges m)\<^sup>* `` {v}"
      using 1(3,4) vis by simp_all
    show "set (adjacent m a) \<subseteq> set result" if "a \<in> set result" for a
      using 1(5) [of a] that vis by simp
  qed
  then show ?case
    using 1(1) unfolding bfs_loop.simps append_Nil2 by blast
next
  case (2 m visited s queue result)
  obtain new where new: "enqueue (adjacent m s) (visited, queue) = (rev new @ visited, queue @ new)"
    "distinct new" "set new = set (adjacent m s) - set visited"
    using enqueue_eq [of "adjacent m s" visited queue] by blast
  have "s \<in> (edges m)\<^sup>* `` {v}"
    using "2.prems"(2,4) by auto
  then have "set new \<subseteq> (edges m)\<^sup>* `` {v}"
    using new(3) by (auto intro: rtrancl_into_rtrancl)
  then have "distinct (bfs_loop m (rev new @ visited) (queue @ new) (result @ [s])) \<and>
    set (bfs_loop m (rev new @ visited) (queue @ new) (result @ [s])) = (edges m)\<^sup>* `` {v}"
    using "2.prems" new(2,3) by (intro "2.IH" [OF new(1) [symmetric] refl]) auto
  then show ?case
    by (simp add: new(1))
qed

lemma dfs_loop_visits:
  assumes "distinct result" "set visited = set result"
    and "v \<in> set (visited @ stack)" "set (visited @ stack) \<subseteq> (edges m)\<^sup>* `` {v}"
    and "\<And>s. s \<in> set visited \<Longrightarrow> set (adjacent m s) \<subseteq> set (visited @ stack)"
  shows "distinct (dfs_loop m visited stack result) \<and>
    set (dfs_loop m visited stack result) = (edges m)\<^sup>* `` {v}"
  using assms
proof (induction m visited stack result rule: dfs_loop.induct)
  case (1 m visited result)
  have vis: "set visited = set result" using 1(2) by simp
  have "set result = (edges m)\<^sup>* `` {v}"
  proof (rule reach_eq)
    show "v \<in> set result" "set result \<subseteq> (edges m)\<^sup>* `` {v}"
      using 1(3,4) vis by simp_all
    show "set (adjacent m a) \<subseteq> set result" if "a \<in> set result" for a
      using 1(5) [of a] that vis by simp
  qed
  then show ?case
    using 1(1) unfolding dfs_loop.simps by blast
next
  case (2 m visited s stack result)
  let ?vis = "if Set_Has s visited then visited else Set_Add s visited"
  let ?res = "if Set_Has s visited then result else result @ [s]"
  let ?stack = "fold (\<lambda>i stack. if Set_Has i ?vis then stack else i # stack) (adjacent m s) stack"
  have step: "dfs_loop m visited (s # stack) result = dfs_loop m ?vis ?stack ?res"
    by (simp add: Let_def)
  have vis: "set ?vis = insert s (set visited)"
    by (auto simp: Set_Has_def Set_Add_def)
  have st: "set ?stack = (set (adjacent m s) - insert s (set visited)) \<union> set stack"
    unfolding push_all by (auto simp: Set_Has_def Set_Add_def)
  have "s \<in> (edges m)\<^sup>* `` {v}"
    using "2.prems"(4) by auto
  then have a: "set (adjacent m s) \<subseteq> (edges m)\<^sup>* `` {v}"
    by (auto intro: rtrancl_into_rtrancl)
  have "distinct (dfs_loop m ?vis ?stack ?res) \<and> set (dfs_loop m ?vis ?stack ?res) = (edges m)\<^sup>* `` {v}"
  proof (rule "2.IH" [OF _ refl refl])
    show "(?vis, ?res) = (if Set_Has s visited then (visited, result) else (Set_Add s visited, result @ [s]))"
      by simp
    show "distinct ?res" "set ?vis = set ?res"
      using "2.prems"(1,2) by (auto simp: Set_Has_def Set_Add_def)
    show "v \<in> set (?vis @ ?stack)"
      unfolding set_append vis st using "2.prems"(3) by auto
    show "set (?vis @ ?stack) \<subseteq> (edges m)\<^sup>* `` {v}"
      unfolding set_append vis st using "2.prems"(4) a by auto
    show "set (adjacent m t) \<subseteq> set (?vis @ ?stack)" if "t \<in> set ?vis" for t
      unfolding set_append vis st using that "2.prems"(5) [of t] unfolding vis by auto
  qed
  then show ?case
    unfolding step .
qed

text \<open>C21: both searches return every vertex that can be reached from the source along the edges, and
  no other, each once, and they terminate on every graph, cycles included; the reverse search
  does so along the incoming edges.\<close>

theorem searches_visit_the_reachable:
  "distinct (BFS g v) \<and> set (BFS g v) = {u. (v, u) \<in> (edges (g_from g))\<^sup>*}
   \<and> distinct (DFS g v) \<and> set (DFS g v) = {u. (v, u) \<in> (edges (g_from g))\<^sup>*}
   \<and> distinct (BFSReverse g v) \<and> set (BFSReverse g v) = {u. (v, u) \<in> (edges (g_to g))\<^sup>*}"
proof -
  have "distinct (bfs_loop m [v] [v] []) \<and> set (bfs_loop m [v] [v] []) = (edges m)\<^sup>* `` {v}" for m
    by (rule bfs_loop_visits) auto
  moreover have "distinct (dfs_loop (g_from g) NewSet [v] []) \<and>
      set (dfs_loop (g_from g) NewSet [v] []) = (edges (g_from g))\<^sup>* `` {v}"
    by (rule dfs_loop_visits) (auto simp: NewSet_def)
  ultimately show ?thesis
    by (auto simp: BFS_def DFS_def BFSReverse_def)
qed

section \<open>Cycles\<close>

text \<open>What the cycle detection keeps: black vertices have only black successors and lie on no cycle.\<close>

definition settled :: "('a, 'a goset) gomap \<Rightarrow> ('a \<Rightarrow> color) \<Rightarrow> bool" where
  [wf_defs]: "settled m c \<longleftrightarrow>
     (\<forall>b. c b = black \<longrightarrow> (\<forall>u \<in> set (adjacent m b). c u = black) \<and> (b, b) \<notin> (edges m)\<^sup>+)"

definition whites :: "'a set \<Rightarrow> ('a \<Rightarrow> color) \<Rightarrow> 'a set" where
  "whites U c = {x \<in> U. c x = white}"

text \<open>The outcome of a visit that found no cycle.\<close>

definition extends :: "('a, 'a goset) gomap \<Rightarrow> ('a \<Rightarrow> color) \<Rightarrow> ('a \<Rightarrow> color) \<Rightarrow> bool" where
  "extends m c c' \<longleftrightarrow> settled m c' \<and> (\<forall>x. c' x = gray \<longleftrightarrow> c x = gray) \<and> (\<forall>x. c x = black \<longrightarrow> c' x = black)"

lemma extends_whites: "extends m c c' \<Longrightarrow> whites U c' \<subseteq> whites U c"
  unfolding extends_def whites_def by (auto, metis color.exhaust)

lemma black_reach: "settled m c \<Longrightarrow> c b = black \<Longrightarrow> (b, u) \<in> (edges m)\<^sup>* \<Longrightarrow> c u = black"
  using reach_closed [of b "{x. c x = black}" m u] by (auto simp: settled_def)

lemma settled_blacken:
  assumes "settled m c" "c v = gray" "\<forall>u \<in> set (adjacent m v). c u = black"
  shows "settled m (c(v := black))"
proof -
  have "(v, v) \<notin> (edges m)\<^sup>+"
  proof
    assume "(v, v) \<in> (edges m)\<^sup>+"
    then obtain u where "(v, u) \<in> edges m" "(u, v) \<in> (edges m)\<^sup>*"
      by (auto dest: tranclD)
    then have "c v = black"
      using assms(1,3) black_reach by fastforce
    then show False using assms(2) by simp
  qed
  then show ?thesis
    using assms by (auto simp: settled_def)
qed

lemma visit_outcome:
  "finite U \<Longrightarrow> targets m \<subseteq> U \<Longrightarrow> v \<in> U \<Longrightarrow> c v = white \<Longrightarrow> settled m c \<Longrightarrow> card (whites U c) \<le> n \<Longrightarrow>
     (\<forall>x. c x = gray \<longrightarrow> (x, v) \<in> (edges m)\<^sup>+) \<Longrightarrow>
     \<exists>found c'. visit n m v c = Inr (found, c') \<and>
       (if found then \<exists>x. (x, x) \<in> (edges m)\<^sup>+ else extends m c c' \<and> c' v = black)"
  "finite U \<Longrightarrow> targets m \<subseteq> U \<Longrightarrow> set us \<subseteq> set (adjacent m w) \<Longrightarrow> settled m c \<Longrightarrow> card (whites U c) \<le> n \<Longrightarrow>
     (\<forall>x. c x = gray \<longrightarrow> (x, w) \<in> (edges m)\<^sup>*) \<Longrightarrow>
     \<exists>found c'. visit_all n m us c = Inr (found, c') \<and>
       (if found then \<exists>x. (x, x) \<in> (edges m)\<^sup>+ else extends m c c' \<and> (\<forall>u \<in> set us. c' u = black))"
proof (induction n m v c and n m us c arbitrary: and w rule: visit_visit_all.induct)
  case (1 m v c)
  then have "v \<in> whites U c" "finite (whites U c)"
    by (auto simp: whites_def)
  then show ?case using 1 by auto
next
  case (2 n m v c)
  let ?c = "c(v := gray)"
  have "whites U ?c = whites U c - {v}" "v \<in> whites U c" "finite (whites U c)"
    using "2.prems" by (auto simp: whites_def)
  then have n: "card (whites U ?c) \<le> n"
    using "2.prems"(6) by simp
  have s: "settled m ?c"
    using "2.prems"(4,5) by (auto simp: settled_def)
  have g: "\<forall>x. ?c x = gray \<longrightarrow> (x, v) \<in> (edges m)\<^sup>*"
    using "2.prems"(7) by auto
  have "\<exists>found c'. visit_all n m (Set_Slice (adjacent m v)) ?c = Inr (found, c') \<and>
      (if found then \<exists>x. (x, x) \<in> (edges m)\<^sup>+
       else extends m ?c c' \<and> (\<forall>u \<in> set (Set_Slice (adjacent m v)). c' u = black))"
    by (rule "2.IH" [OF "2.prems"(1,2) _ s n g]) simp
  then obtain found c' where r: "visit_all n m (adjacent m v) ?c = Inr (found, c')"
    "if found then \<exists>x. (x, x) \<in> (edges m)\<^sup>+ else extends m ?c c' \<and> (\<forall>u \<in> set (adjacent m v). c' u = black)"
    unfolding Set_Slice_eq by blast
  show ?case
  proof (cases found)
    case True
    then show ?thesis using r by auto
  next
    case False
    then have e: "extends m ?c c'" "\<forall>u \<in> set (adjacent m v). c' u = black"
      using r(2) by auto
    then have "c' v = gray"
      by (simp add: extends_def)
    then have "settled m (c'(v := black))"
      using e by (intro settled_blacken) (auto simp: extends_def)
    then have "extends m c (c'(v := black))"
      using e(1) "2.prems"(4) by (auto simp: extends_def)
    then show ?thesis
      using r(1) False by auto
  qed
next
  case (3 n m c)
  then show ?case by (auto simp: extends_def)
next
  case (4 n m u us c)
  have wu: "(w, u) \<in> edges m"
    using "4.prems"(3) by auto
  consider (gray) "c u = gray" | (white) "c u = white" | (black) "c u = black"
    by (cases "c u") auto
  then show ?case
  proof cases
    case gray
    then have "(w, w) \<in> (edges m)\<^sup>+"
      using "4.prems"(6) wu by (meson rtrancl_into_trancl2)
    then show ?thesis using gray by auto
  next
    case white
    have u: "u \<in> U"
      using wu "4.prems"(2) adjacent_targets [of m w] by auto
    have gu: "\<forall>x. c x = gray \<longrightarrow> (x, u) \<in> (edges m)\<^sup>+"
      using "4.prems"(6) wu by (meson rtrancl_into_trancl1)
    obtain found c1 where r: "visit n m u c = Inr (found, c1)"
      "if found then \<exists>x. (x, x) \<in> (edges m)\<^sup>+ else extends m c c1 \<and> c1 u = black"
      using "4.IH"(1) [OF _ white "4.prems"(1,2) u white "4.prems"(4,5) gu] white by auto
    show ?thesis
    proof (cases found)
      case True
      then show ?thesis using r white by auto
    next
      case False
      then have e: "extends m c c1" "c1 u = black"
        using r(2) by auto
      have fin: "finite (whites U c)"
        using "4.prems"(1) by (auto simp: whites_def)
      have n: "card (whites U c1) \<le> n"
        using card_mono [OF fin extends_whites [OF e(1)]] "4.prems"(5) by simp
      obtain found' c' where r': "visit_all n m us c1 = Inr (found', c')"
        "if found' then \<exists>x. (x, x) \<in> (edges m)\<^sup>+ else extends m c1 c' \<and> (\<forall>u \<in> set us. c' u = black)"
        using "4.IH"(2) [of found w c1] white False "4.prems"(1-3,6) n e(1) r(1)
        by (auto simp: extends_def)
      show ?thesis
      proof (cases found')
        case True
        then show ?thesis using r r' white False by auto
      next
        case False
        then have e': "extends m c1 c'" "\<forall>u \<in> set us. c' u = black"
          using r'(2) by auto
        then have "extends m c c'" "c' u = black"
          using e by (auto simp: extends_def)
        then show ?thesis
          using r r' white False e'(2) \<open>\<not> found\<close> by auto
      qed
    qed
  next
    case black
    then obtain found c' where r: "visit_all n m us c = Inr (found, c')"
      "if found then \<exists>x. (x, x) \<in> (edges m)\<^sup>+ else extends m c c' \<and> (\<forall>u \<in> set us. c' u = black)"
      using "4.IH"(3) [of w] "4.prems" by auto
    then show ?thesis
      using black by (auto simp: extends_def)
  qed
qed

lemma search_cycle_outcome:
  "finite U \<Longrightarrow> targets m \<subseteq> U \<Longrightarrow> set vs \<subseteq> U \<Longrightarrow> settled m c \<Longrightarrow> card (whites U c) \<le> n \<Longrightarrow>
     \<forall>x. c x \<noteq> gray \<Longrightarrow>
     \<exists>found c'. search_cycle n m vs c = Inr (found, c') \<and>
       (if found then \<exists>x. (x, x) \<in> (edges m)\<^sup>+ else settled m c' \<and> (\<forall>v \<in> set vs. c' v = black) \<and>
         (\<forall>x. c x = black \<longrightarrow> c' x = black))"
proof (induction n m vs c rule: search_cycle.induct)
  case (2 n m v vs c)
  show ?case
  proof (cases "c v = white")
    case True
    obtain found c1 where r: "visit n m v c = Inr (found, c1)"
      "if found then \<exists>x. (x, x) \<in> (edges m)\<^sup>+ else extends m c c1 \<and> c1 v = black"
      using visit_outcome(1) [OF "2.prems"(1,2) _ True "2.prems"(4,5)] "2.prems"(3,6) by auto
    show ?thesis
    proof (cases found)
      case False
      then have e: "extends m c c1" "c1 v = black"
        using r(2) by auto
      have fin: "finite (whites U c)"
        using "2.prems"(1) by (auto simp: whites_def)
      have "card (whites U c1) \<le> n"
        using card_mono [OF fin extends_whites [OF e(1)]] "2.prems"(5) by simp
      then obtain found' c' where "search_cycle n m vs c1 = Inr (found', c')"
        "if found' then \<exists>x. (x, x) \<in> (edges m)\<^sup>+ else settled m c' \<and> (\<forall>v \<in> set vs. c' v = black) \<and>
          (\<forall>x. c1 x = black \<longrightarrow> c' x = black)"
        using "2.IH"(1) [OF True _ "2.prems"(1,2), of found c1] False r(1) "2.prems"(3,6) e(1)
        by (auto simp: extends_def)
      then show ?thesis
        using r(1) True False e by (auto simp: extends_def)
    qed (use r True in auto)
  next
    case False
    then have "c v = black"
      using "2.prems"(6) by (cases "c v") auto
    moreover obtain found c' where "search_cycle n m vs c = Inr (found, c')"
      "if found then \<exists>x. (x, x) \<in> (edges m)\<^sup>+ else settled m c' \<and> (\<forall>v \<in> set vs. c' v = black) \<and>
         (\<forall>x. c x = black \<longrightarrow> c' x = black)"
      using "2.IH"(2) [OF False "2.prems"(1,2)] "2.prems"(3-6) by auto
    ultimately show ?thesis
      using False by (intro exI [of _ found] exI [of _ c']) auto
  qed
qed auto

text \<open>What every operation keeps: adjacency sets for exactly the vertices, no self edges, and incoming edges
  that mirror the outgoing ones.\<close>

definition graph_ok :: "'a Graph \<Rightarrow> bool" where
  [wf_defs]: "graph_ok g \<longleftrightarrow>
     distinct (g_vertices g) \<and> distinct (map fst (g_from g)) \<and> distinct (map fst (g_to g)) \<and>
     dom (map_of (g_from g)) = set (g_vertices g) \<and> dom (map_of (g_to g)) = set (g_vertices g) \<and>
     (\<forall>a. distinct (adjacent (g_from g) a)) \<and> (\<forall>a. distinct (adjacent (g_to g) a)) \<and>
     (\<forall>a b. b \<in> set (adjacent (g_from g) a) \<longleftrightarrow> a \<in> set (adjacent (g_to g) b)) \<and>
     (\<forall>a. a \<notin> set (adjacent (g_from g) a))"

section \<open>The operations\<close>

text \<open>The operations of a run, on the graph of the code and on a set of vertices and a set of edges.\<close>

datatype 'a graph_op = GAdd 'a | GRemove 'a | GAddEdge 'a 'a | GRemoveEdge 'a 'a

fun graph_step :: "'a graph_op \<Rightarrow> 'a Graph \<Rightarrow> 'a Graph go" where
  "graph_step (GAdd v) g = Inr (Graph_Add v g)"
| "graph_step (GRemove v) g = Inr (Graph_Remove v g)"
| "graph_step (GAddEdge a b) g = AddEdge a b g"
| "graph_step (GRemoveEdge a b) g = Inr (RemoveEdge a b g)"

fun spec_step :: "'a graph_op \<Rightarrow> 'a set \<times> ('a \<times> 'a) set \<Rightarrow> 'a set \<times> ('a \<times> 'a) set" where
  "spec_step (GAdd v) (V, E) = (insert v V, E)"
| "spec_step (GRemove v) (V, E) = (V - {v}, {(a, b) \<in> E. a \<noteq> v \<and> b \<noteq> v})"
| "spec_step (GAddEdge a b) (V, E) = (insert a (insert b V), insert (a, b) E)"
| "spec_step (GRemoveEdge a b) (V, E) = (V, E - {(a, b)})"

definition self_edge :: "'a graph_op \<Rightarrow> bool" where
  "self_edge op \<longleftrightarrow> (case op of GAddEdge a b \<Rightarrow> a = b | _ \<Rightarrow> False)"

definition graph_abs :: "'a Graph \<Rightarrow> 'a set \<times> ('a \<times> 'a) set" where
  "graph_abs g = (set (g_vertices g), edges (g_from g))"

lemma targets_adjacent: "distinct (map fst m) \<Longrightarrow> targets m = (\<Union>v. set (adjacent m v))"
proof
  assume d: "distinct (map fst m)"
  show "targets m \<subseteq> (\<Union>v. set (adjacent m v))"
  proof
    fix x assume "x \<in> targets m"
    then obtain v s where "(v, s) \<in> set m" "x \<in> set s"
      by (auto simp: targets_def)
    then have "x \<in> set (adjacent m v)"
      using d by (simp add: adjacent_def)
    then show "x \<in> (\<Union>v. set (adjacent m v))" by blast
  qed
qed (rule UN_least, rule adjacent_targets)

lemma adjacent_dom: "b \<in> set (adjacent m a) \<Longrightarrow> a \<in> dom (map_of m)"
  by (cases "map_of m a") (auto simp: adjacent_def)

lemma ok_edge: "graph_ok g \<Longrightarrow> b \<in> set (adjacent (g_from g) a) \<Longrightarrow> a \<in> set (g_vertices g) \<and> b \<in> set (g_vertices g)"
  unfolding graph_ok_def using adjacent_dom by (metis (no_types))

lemma graph_ok_targets: "graph_ok g \<Longrightarrow> targets (g_from g) \<subseteq> set (g_vertices g)"
proof
  fix x assume ok: "graph_ok g" and "x \<in> targets (g_from g)"
  then obtain v where "x \<in> set (adjacent (g_from g) v)"
    by (auto simp: graph_ok_def targets_adjacent)
  then have "v \<in> set (adjacent (g_to g) x)"
    using ok by (simp add: graph_ok_def)
  then show "x \<in> set (g_vertices g)"
    using ok adjacent_dom unfolding graph_ok_def by fast
qed

lemma adjacent_simps [simp]:
  "adjacent [] a = []"
  "adjacent (AList.update v s m) a = (if a = v then s else adjacent m a)"
  "adjacent (AList.delete v m) a = (if a = v then [] else adjacent m a)"
  by (auto simp: adjacent_def update_conv' delete_conv' split: option.split)

lemma dom_AList_simps:
  "dom (map_of (AList.update k v m)) = insert k (dom (map_of m))"
  "dom (map_of (AList.delete k m)) = dom (map_of m) - {k}"
  by (auto simp: update_conv' delete_conv')

lemma remove_from_set_simps [simp]:
  "adjacent (remove_from_set v e m) a = (if a = v then removeAll e (adjacent m a) else adjacent m a)"
  "dom (map_of (remove_from_set v e m)) = dom (map_of m)"
  "distinct (map fst m) \<Longrightarrow> distinct (map fst (remove_from_set v e m))"
  by (auto simp: remove_from_set_def adjacent_def Set_Remove_def update_conv' distinct_update
      split: option.splits if_splits)

lemma add_to_set_simps:
  assumes "v \<in> dom (map_of m)"
  obtains m' where "add_to_set v e m = Inr m'"
    "\<And>a. adjacent m' a = (if a = v then Set_Add e (adjacent m a) else adjacent m a)"
    "dom (map_of m') = dom (map_of m)" "distinct (map fst m) \<longrightarrow> distinct (map fst m')"
proof -
  obtain s where s: "map_of m v = Some s" using assms by auto
  show ?thesis
    using s assms by (intro that [of "AList.update v (Set_Add e s) m"])
      (auto simp: add_to_set_def adjacent_def update_conv' distinct_update)
qed

lemma Graph_Add_ok:
  "graph_ok g \<Longrightarrow> graph_ok (Graph_Add v g) \<and> graph_abs (Graph_Add v g) = spec_step (GAdd v) (graph_abs g)"
proof (cases "v \<in> set (g_vertices g)")
  case False
  assume ok: "graph_ok g"
  then have e: "adjacent (g_from g) v = []" "adjacent (g_to g) v = []"
    "\<And>a. v \<notin> set (adjacent (g_from g) a)" "\<And>a. v \<notin> set (adjacent (g_to g) a)"
    using False unfolding graph_ok_def by (metis adjacent_dom list.set_intros(1) neq_Nil_conv)+
  show ?thesis
    using ok False e
    by (auto simp: graph_ok_def Graph_Add_def Graph_Has_def Set_Has_def Set_Add_def graph_abs_def NewSet_def
        dom_AList_simps distinct_update edges_def split: if_splits)
qed (auto simp: Graph_Add_def Graph_Has_def Set_Has_def graph_abs_def insert_absorb)

lemma RemoveEdge_ok:
  "graph_ok g \<Longrightarrow> graph_ok (RemoveEdge a b g) \<and>
     graph_abs (RemoveEdge a b g) = spec_step (GRemoveEdge a b) (graph_abs g)"
proof (cases "a \<in> set (g_vertices g) \<and> b \<in> set (g_vertices g)")
  case True
  then show "graph_ok g \<Longrightarrow> ?thesis"
    by (auto simp: graph_ok_def RemoveEdge_def Graph_Has_def Set_Has_def graph_abs_def edges_def
        distinct_removeAll split: if_splits)
next
  case False
  moreover have "(a, b) \<notin> edges (g_from g)" if "graph_ok g"
    using ok_edge [OF that, of b a] False by auto
  ultimately show "graph_ok g \<Longrightarrow> ?thesis"
    by (auto simp: RemoveEdge_def Graph_Has_def Set_Has_def graph_abs_def)
qed

lemma fold_remove_from_set [simp]:
  "adjacent (fold (\<lambda>u. remove_from_set u v) us m) a =
     (if a \<in> set us then removeAll v (adjacent m a) else adjacent m a)"
  "dom (map_of (fold (\<lambda>u. remove_from_set u v) us m)) = dom (map_of m)"
  "distinct (map fst m) \<Longrightarrow> distinct (map fst (fold (\<lambda>u. remove_from_set u v) us m))"
  by (induction us arbitrary: m) auto

lemma Graph_Remove_ok:
  "graph_ok g \<Longrightarrow> graph_ok (Graph_Remove v g) \<and>
     graph_abs (Graph_Remove v g) = spec_step (GRemove v) (graph_abs g)"
proof -
  assume ok: "graph_ok g"
  let ?vs = "removeAll v (g_vertices g)"
  let ?f = "fold (\<lambda>u. remove_from_set u v) ?vs (g_from g)" and ?t = "fold (\<lambda>u. remove_from_set u v) ?vs (g_to g)"
  have sweep: "fold (\<lambda>u g. g\<lparr>g_from := remove_from_set u v (g_from g), g_to := remove_from_set u v (g_to g)\<rparr>) us h
      = h\<lparr>g_from := fold (\<lambda>u. remove_from_set u v) us (g_from h),
          g_to := fold (\<lambda>u. remove_from_set u v) us (g_to h)\<rparr>" for us and h :: "'a Graph"
    by (induction us arbitrary: h) simp_all
  have ends: "a \<in> set (g_vertices g)" if "b \<in> set (adjacent (g_from g) a) \<or> b \<in> set (adjacent (g_to g) a)" for a b
    using that ok adjacent_dom unfolding graph_ok_def by fast
  show ?thesis
  proof (cases "v \<in> set (g_vertices g)")
    case True
    then have r: "Graph_Remove v g = \<lparr>g_vertices = ?vs, g_from = AList.delete v ?f, g_to = AList.delete v ?t\<rparr>"
      by (simp add: Graph_Remove_def Graph_Has_def Set_Has_def Set_Remove_def sweep Let_def)
    have adj: "set (adjacent (AList.delete v ?f) a) = (if a = v then {} else set (adjacent (g_from g) a) - {v})"
      "set (adjacent (AList.delete v ?t) a) = (if a = v then {} else set (adjacent (g_to g) a) - {v})" for a
      using ends by auto
    have dist: "distinct (adjacent (AList.delete v ?f) a)" "distinct (adjacent (AList.delete v ?t) a)" for a
      using ok by (simp_all add: graph_ok_def distinct_removeAll)
    have "graph_ok (Graph_Remove v g)"
      unfolding r using ok
      by (auto simp: graph_ok_def adj dist distinct_removeAll distinct_delete dom_AList_simps simp del: adjacent_simps(3))
    moreover have "graph_abs (Graph_Remove v g) = spec_step (GRemove v) (graph_abs g)"
      unfolding r by (auto simp: graph_abs_def edges_def adj split: if_splits simp del: adjacent_simps(3))
    ultimately show ?thesis by blast
  next
    case False
    then have "Graph_Remove v g = g"
      by (simp add: Graph_Remove_def Graph_Has_def Set_Has_def)
    moreover have "{(a, b) \<in> edges (g_from g). a \<noteq> v \<and> b \<noteq> v} = edges (g_from g)"
      using ok_edge [OF ok] False by auto
    ultimately show ?thesis
      using ok False by (simp add: graph_abs_def)
  qed
qed

lemma AddEdge_ok:
  assumes "graph_ok g" "a \<noteq> b"
  shows "\<exists>g'. AddEdge a b g = Inr g' \<and> graph_ok g' \<and> graph_abs g' = spec_step (GAddEdge a b) (graph_abs g)"
proof -
  let ?g = "Graph_Add b (Graph_Add a g)"
  have ok: "graph_ok ?g" and abs: "graph_abs ?g = (insert b (insert a (set (g_vertices g))), edges (g_from g))"
    using Graph_Add_ok [OF assms(1), of a] Graph_Add_ok [of "Graph_Add a g" b]
    by (auto simp: graph_abs_def)
  have d: "a \<in> dom (map_of (g_from ?g))" "b \<in> dom (map_of (g_to ?g))"
    using ok abs by (auto simp: graph_ok_def graph_abs_def)
  obtain f where f: "add_to_set a b (g_from ?g) = Inr f"
    "\<And>x. adjacent f x = (if x = a then Set_Add b (adjacent (g_from ?g) x) else adjacent (g_from ?g) x)"
    "dom (map_of f) = dom (map_of (g_from ?g))" "distinct (map fst (g_from ?g)) \<longrightarrow> distinct (map fst f)"
    using add_to_set_simps [OF d(1), of b] by blast
  obtain t where t: "add_to_set b a (g_to ?g) = Inr t"
    "\<And>x. adjacent t x = (if x = b then Set_Add a (adjacent (g_to ?g) x) else adjacent (g_to ?g) x)"
    "dom (map_of t) = dom (map_of (g_to ?g))" "distinct (map fst (g_to ?g)) \<longrightarrow> distinct (map fst t)"
    using add_to_set_simps [OF d(2), of a] by blast
  have idem: "(if \<not> Graph_Has h v then Graph_Add v h else h) = Graph_Add v h" for v and h :: "'a Graph"
    by (simp add: Graph_Add_def)
  have run: "AddEdge a b g = Inr (?g\<lparr>g_from := f, g_to := t\<rparr>)"
    using assms(2) f(1) t(1) by (simp add: AddEdge_def Let_def idem)
  have "graph_ok (?g\<lparr>g_from := f, g_to := t\<rparr>)"
    using ok f(2-4) t(2-4) assms(2) by (auto simp: graph_ok_def distinct_Add)
  moreover have "edges f = insert (a, b) (edges (g_from ?g))"
    by (auto simp: edges_def f(2) distinct_Add split: if_splits)
  then have "graph_abs (?g\<lparr>g_from := f, g_to := t\<rparr>) = spec_step (GAddEdge a b) (graph_abs g)"
    using abs by (auto simp: graph_abs_def)
  ultimately show ?thesis
    using run by blast
qed

text \<open>The search over a well-formed graph returns, and finds a cycle when there is one.\<close>

lemma search_cycle_decides:
  assumes "graph_ok g"
  shows "\<exists>found c. search_cycle (search_depth g) (g_from g) (g_vertices g) (\<lambda>_. white) = Inr (found, c)
    \<and> (found \<longleftrightarrow> (\<exists>v. (v, v) \<in> (edges (g_from g))\<^sup>+))"
proof -
  let ?m = "g_from g" and ?vs = "g_vertices g"
  have fin: "finite (set ?vs)" and t: "targets ?m \<subseteq> set ?vs"
    using assms graph_ok_targets by auto
  have s: "settled ?m (\<lambda>_. white)"
    by (simp add: settled_def)
  have w: "card (whites (set ?vs) (\<lambda>_. white)) \<le> search_depth g"
    using card_length [of ?vs] by (simp add: whites_def search_depth_def)
  obtain found c where r: "search_cycle (search_depth g) ?m ?vs (\<lambda>_. white) = Inr (found, c)"
    "if found then \<exists>x. (x, x) \<in> (edges ?m)\<^sup>+ else settled ?m c \<and> (\<forall>v \<in> set ?vs. c v = black)"
    using search_cycle_outcome [OF fin t order_refl s w] by auto
  have "found \<longleftrightarrow> (\<exists>v. (v, v) \<in> (edges ?m)\<^sup>+)"
  proof (cases found)
    case False
    have "(v, v) \<notin> (edges ?m)\<^sup>+" for v
    proof
      assume c: "(v, v) \<in> (edges ?m)\<^sup>+"
      then obtain u where "(u, v) \<in> edges ?m"
        by (auto dest: tranclD2)
      then have "v \<in> set ?vs"
        using t adjacent_targets [of ?m u] by auto
      then show False
        using c r(2) False by (auto simp: settled_def)
    qed
    then show ?thesis using False by simp
  qed (use r in simp)
  then show ?thesis
    using r(1) by auto
qed

lemma Cycle_acyclic: "graph_ok g \<Longrightarrow> acyclic (edges (g_from g)) \<Longrightarrow> Cycle g = Inr None"
  using search_cycle_decides [of g] by (auto simp: Cycle_def acyclic_def)

text \<open>C22: on a well-formed graph \<open>Cyclic\<close> returns, with a recursion no deeper than the number of
  vertices, and says whether some vertex can reach itself along the edges; \<open>Cycle\<close> returns nil
  exactly when none can.\<close>

theorem cyclic_decides:
  assumes "graph_ok g"
  shows "Cyclic g = Inr (\<exists>v. (v, v) \<in> (edges (g_from g))\<^sup>+)
    \<and> (\<exists>c. Cycle g = Inr c \<and> (c = None \<longleftrightarrow> acyclic (edges (g_from g))))"
proof -
  obtain found c where "search_cycle (search_depth g) (g_from g) (g_vertices g) (\<lambda>_. white) = Inr (found, c)"
    "found \<longleftrightarrow> (\<exists>v. (v, v) \<in> (edges (g_from g))\<^sup>+)"
    using search_cycle_decides [OF assms] by blast
  then show ?thesis
    by (cases found) (auto simp: Cyclic_def Cycle_def acyclic_def)
qed

lemma cyclic_decides_witness:
  "\<exists>g. AddEdge (2 :: nat) 1 (Graph_Add 3 NewGraph) = Inr g \<and> (\<exists>c. Cycle g = Inr c)
    \<and> Cyclic g = Inr (\<exists>v. (v, v) \<in> (edges (g_from g))\<^sup>+)"
proof -
  have "graph_ok (NewGraph :: nat Graph)"
    by (simp add: graph_ok_def NewGraph_def NewSet_def)
  then obtain g where "AddEdge (2 :: nat) 1 (Graph_Add 3 NewGraph) = Inr g" "graph_ok g"
    using AddEdge_ok [of "Graph_Add 3 NewGraph" 2 "1 :: nat"] Graph_Add_ok [of NewGraph "3 :: nat"] by auto
  then show ?thesis
    using cyclic_decides [of g] by auto
qed

section \<open>Runs\<close>

fun graph_run :: "'a graph_op list \<Rightarrow> 'a Graph \<Rightarrow> 'a Graph go" where
  "graph_run [] g = Inr g"
| "graph_run (op # ops) g = go_bind (graph_step op g) (graph_run ops)"

lemma NewGraph_ok: "graph_ok NewGraph" "graph_abs NewGraph = ({}, {})"
  by (auto simp: graph_ok_def graph_abs_def edges_def NewGraph_def NewSet_def)

lemma graph_step_refines:
  assumes "graph_ok g"
  shows "if self_edge op then graph_step op g = Inl SelfEdge
    else \<exists>g'. graph_step op g = Inr g' \<and> graph_ok g' \<and> graph_abs g' = spec_step op (graph_abs g)"
proof (cases op)
  case (GAddEdge a b)
  then show ?thesis
    using AddEdge_ok [OF assms, of a b] by (auto simp: self_edge_def AddEdge_def)
qed (simp_all add: self_edge_def Graph_Add_ok Graph_Remove_ok RemoveEdge_ok assms)

lemma graph_run_refines:
  assumes "graph_ok g"
  shows "if list_ex self_edge ops then graph_run ops g = Inl SelfEdge
    else \<exists>g'. graph_run ops g = Inr g' \<and> graph_ok g' \<and> graph_abs g' = fold spec_step ops (graph_abs g)"
  using assms
proof (induction ops arbitrary: g)
  case (Cons op ops)
  show ?case
  proof (cases "self_edge op")
    case True
    then show ?thesis
      using graph_step_refines [OF Cons.prems, of op] by simp
  next
    case False
    then obtain g' where "graph_step op g = Inr g'" "graph_ok g'" "graph_abs g' = spec_step op (graph_abs g)"
      using graph_step_refines [OF Cons.prems, of op] by auto
    then show ?thesis
      using Cons.IH [of g'] False by (simp split: if_splits)
  qed
qed simp

text \<open>C23: any sequence of additions and removals of vertices and edges, from the empty graph, keeps
  the adjacency maps consistent and refines the same sequence on a set of vertices and a set of
  edges; it panics exactly when it adds a self edge.\<close>

theorem graph_refines_sets:
  "if list_ex self_edge ops then graph_run ops NewGraph = Inl SelfEdge
   else \<exists>g. graph_run ops NewGraph = Inr g \<and> graph_ok g \<and> graph_abs g = fold spec_step ops ({}, {})"
  by (rule graph_run_refines [OF NewGraph_ok(1), unfolded NewGraph_ok(2)])

end
