(* ===== verification/RetroLog.thy ===== *)
theory RetroLog
  imports Hlc Ident Containers
begin

text \<open>
  The retroscope log of \<open>retro_log/retro_log.go\<close> and \<open>retro_log/timer_rql_set.go\<close>: transactions that
  collect variables and set elements and end in one line of text, sets whose elements expire, and
  snapshots. Strings are lists of characters, the maps of the log are association lists in
  iteration order, and the log file is the list of the lines written. A floating-point number enters
  with its \<open>%f\<close> text. \<open>txLock\<close>, which a transaction holds from \<open>StartTx\<close> to \<open>Commit\<close>, is a field.
\<close>

section \<open>Variables, structs and sets\<close>

record RetroVar =
  v_name :: "string option"
  v_valstr :: string

definition varToStr :: "RetroVar \<Rightarrow> string" where
  "varToStr v = (case v_name v of None \<Rightarrow> v_valstr v | Some n \<Rightarrow> n @ '':'' @ v_valstr v)"

text \<open>The loops that write a comma after every item but the last.\<close>

fun commas :: "string list \<Rightarrow> string" where
  "commas [] = []"
| "commas [x] = x"
| "commas (x # xs) = x @ '','' @ commas xs"

definition quoted :: "string \<Rightarrow> string" where
  "quoted s = [CHR 0x22] @ s @ [CHR 0x22]"

record RqlStruct =
  st_name :: "string option"
  st_vars :: "RetroVar list"

definition NewRqlStruct :: "string option \<Rightarrow> RqlStruct" where
  "NewRqlStruct structName = \<lparr>st_name = structName, st_vars = []\<rparr>"

definition structToStr :: "RqlStruct \<Rightarrow> string" where
  "structToStr s =
     (case st_name s of None \<Rightarrow> [] | Some n \<Rightarrow> n @ '':'') @ ''['' @ commas (map varToStr (st_vars s)) @ '']''"

definition addVar :: "RetroVar \<Rightarrow> RqlStruct \<Rightarrow> RqlStruct" where
  "addVar v s = s\<lparr>st_vars := st_vars s @ [v]\<rparr>"

definition AddVarStr :: "string \<Rightarrow> string \<Rightarrow> RqlStruct \<Rightarrow> RqlStruct" where
  "AddVarStr name val s = addVar \<lparr>v_name = Some name, v_valstr = quoted val\<rparr> s"

definition AddVarInt32 :: "string \<Rightarrow> goint \<Rightarrow> RqlStruct \<Rightarrow> RqlStruct" where
  "AddVarInt32 name val s = addVar \<lparr>v_name = Some name, v_valstr = Itoa val\<rparr> s"

definition AddVarInt :: "string \<Rightarrow> 64 word \<Rightarrow> RqlStruct \<Rightarrow> RqlStruct" where
  "AddVarInt name val s = addVar \<lparr>v_name = Some name, v_valstr = Itoa (sint val)\<rparr> s"

definition AddVarFloat :: "string \<Rightarrow> string \<Rightarrow> RqlStruct \<Rightarrow> RqlStruct" where
  "AddVarFloat name strval s = addVar \<lparr>v_name = Some name, v_valstr = strval\<rparr> s"

record RqlSet =
  s_name :: string
  s_vars :: "string goset"
  s_isAdd :: bool

definition NewRqlSet :: "string \<Rightarrow> bool \<Rightarrow> RqlSet" where
  "NewRqlSet setName isAdd = \<lparr>s_name = setName, s_vars = NewSet, s_isAdd = isAdd\<rparr>"

definition writeRqlSet :: "bool \<Rightarrow> RqlSet \<Rightarrow> string \<times> RqlSet" where
  "writeRqlSet erase s =
     (s_name s @ '':'' @ (if s_isAdd s then ''...{'' else ''--{'') @ commas (s_vars s) @ ''}'',
      if erase then s\<lparr>s_vars := NewSet\<rparr> else s)"

definition addVal :: "string \<Rightarrow> RqlSet \<Rightarrow> RqlSet" where
  "addVal val s = s\<lparr>s_vars := Set_Add val (s_vars s)\<rparr>"

definition removeVal :: "string \<Rightarrow> RqlSet \<Rightarrow> RqlSet" where
  "removeVal val s = s\<lparr>s_vars := Set_Remove val (s_vars s)\<rparr>"

definition addAllVal :: "string list \<Rightarrow> RqlSet \<Rightarrow> RqlSet" where
  "addAllVal val s = fold addVal val s"

definition removeAllVal :: "string list \<Rightarrow> RqlSet \<Rightarrow> RqlSet" where
  "removeAllVal val s = fold removeVal val s"

section \<open>Sets whose elements expire\<close>

record TimerRqlSet =
  t_name :: string
  expireTime :: "64 word"
  bucketTs :: "64 word list"
  buckets :: "string list list"

definition NewTimerRqlSet :: "string \<Rightarrow> 64 word \<Rightarrow> TimerRqlSet" where
  "NewTimerRqlSet name expire = \<lparr>t_name = name, expireTime = expire, bucketTs = [], buckets = []\<rparr>"

definition Timer_Add :: "string \<Rightarrow> 64 word \<Rightarrow> TimerRqlSet \<Rightarrow> TimerRqlSet go" where
  "Timer_Add val ts t =
     (let t1 = (if bucketTs t = [] \<or> last (bucketTs t) \<noteq> ts
                then t\<lparr>bucketTs := bucketTs t @ [ts], buckets := buckets t @ [[]]\<rparr> else t)
      in if buckets t1 = [] then Inl IndexOutOfRange
         else Inr (t1\<lparr>buckets := butlast (buckets t1) @ [last (buckets t1) @ [val]]\<rparr>))"

text \<open>The loop over the buckets, with their index: the values that expire and \<open>lastExpiredIndex\<close>.\<close>

definition expire_step ::
  "TimerRqlSet \<Rightarrow> 64 word \<Rightarrow> nat \<times> 64 word \<Rightarrow> RqlSet \<times> goint \<Rightarrow> (RqlSet \<times> goint) go" where
  "expire_step t ts = (\<lambda>(index, bts) (removeSet, lastExpiredIndex).
     if bts + expireTime t \<le>s ts then
       go_bind (slice_at (buckets t) (int index))
         (\<lambda>bucket. Inr (addAllVal bucket removeSet, int index))
     else Inr (removeSet, lastExpiredIndex))"

definition ExpireItems :: "64 word \<Rightarrow> TimerRqlSet \<Rightarrow> (RqlSet \<times> TimerRqlSet) go" where
  "ExpireItems ts t =
     go_bind (go_fold (expire_step t ts) (enumerate 0 (bucketTs t)) (NewRqlSet (t_name t) False, - 1))
       (\<lambda>(removeSet, lastExpiredIndex).
          Inr (removeSet,
               if lastExpiredIndex \<ge> 0
               then t\<lparr>bucketTs := drop (nat lastExpiredIndex + 1) (bucketTs t),
                      buckets := drop (nat lastExpiredIndex + 1) (buckets t)\<rparr>
               else t))"

definition Timer_Snapshot :: "TimerRqlSet \<Rightarrow> RqlSet" where
  "Timer_Snapshot t = fold addAllVal (buckets t) (NewRqlSet (t_name t) True)"

section \<open>The log\<close>

record RetroLog =
  rl_name :: string
  nodeIdStr :: string
  logfile :: "string list"
  sb :: string
  txTs :: "Timestamp option"
  tempVars :: "RetroVar list"
  tempAddSet :: "(string \<times> RqlSet) list"
  tempRemoveSet :: "(string \<times> RqlSet) list"
  snapVars :: "(string \<times> RetroVar) list"
  snapSets :: "(string \<times> RqlSet) list"
  expireSets :: "(string \<times> TimerRqlSet) list"
  blockSize :: goint
  lastBlockTime :: "64 word"
  takeSnapshots :: bool
  txLocked :: bool

definition NewRetroLog :: "string \<Rightarrow> goint \<Rightarrow> goint \<Rightarrow> bool \<Rightarrow> RetroLog" where
  "NewRetroLog name i block snapshots =
     \<lparr>rl_name = name, nodeIdStr = Itoa i, logfile = [], sb = [], txTs = None, tempVars = [],
      tempAddSet = [], tempRemoveSet = [],
      snapVars = [(''retrolog_go'', \<lparr>v_name = Some ''retrolog_go'', v_valstr = ''1''\<rparr>)],
      snapSets = [], expireSets = [], blockSize = block, lastBlockTime = 0,
      takeSnapshots = snapshots, txLocked = False\<rparr>"

definition put_str :: "string \<Rightarrow> RetroLog \<Rightarrow> RetroLog" where
  "put_str s l = l\<lparr>sb := sb l @ s\<rparr>"

text \<open>\<open>strings.Trim(s, ",")\<close>\<close>

definition trim_commas :: "string \<Rightarrow> string" where
  "trim_commas s = rev (dropWhile (\<lambda>c. c = CHR '','') (rev (dropWhile (\<lambda>c. c = CHR '','') s)))"

definition write_line :: "RetroLog \<Rightarrow> RetroLog" where
  "write_line l = l\<lparr>logfile := logfile l @ [trim_commas (sb l) @ [CHR 0x0A]]\<rparr>"

definition getBlockTime :: "64 word \<Rightarrow> RetroLog \<Rightarrow> (64 word) go" where
  "getBlockTime time l =
     (let b = word_of_int (blockSize l) :: 64 word
      in if b = 0 then Inl DivByZero else Inr (word_of_int (sint time sdiv sint b) * b))"

definition writeHeader :: "Timestamp \<Rightarrow> bool \<Rightarrow> RetroLog \<Rightarrow> RetroLog" where
  "writeHeader t isSnapshot l =
     put_str ((if isSnapshot then ''<snapt'' else ''<t'') @ Itoa (sint (PhysicalTime t)) @ '','' @
       Itoa (sint (ToInt64 t)) @ '','' @ nodeIdStr l @ ''>:'') l"

text \<open>\<open>writeSnapVars\<close> decides on the commas with the number of the temporary variables.\<close>

fun snap_items :: "goint \<Rightarrow> goint \<Rightarrow> RetroVar list \<Rightarrow> string" where
  "snap_items n k [] = []"
| "snap_items n k (v # vs) = varToStr v @ (if k < n - 1 then '','' else []) @ snap_items n (k + 1) vs"

definition writeSnapVars :: "RetroLog \<Rightarrow> bool \<times> RetroLog" where
  "writeSnapVars l =
     (snapVars l \<noteq> [], put_str (snap_items (int (length (tempVars l))) 1 (map snd (snapVars l))) l)"

definition writeVars :: "RetroLog \<Rightarrow> bool \<times> RetroLog" where
  "writeVars l = (tempVars l \<noteq> [], (put_str (commas (map varToStr (tempVars l))) l)\<lparr>tempVars := []\<rparr>)"

text \<open>The loop that writes and erases the sets of one map.\<close>

fun write_sets :: "(string \<times> RqlSet) list \<Rightarrow> string \<times> (string \<times> RqlSet) list" where
  "write_sets [] = ([], [])"
| "write_sets ((k, s) # m) =
     (let (out, m1) = write_sets m
      in if s_vars s \<noteq> []
         then let (str, s1) = writeRqlSet True s in (str @ '','' @ out, (k, s1) # m1)
         else (out, (k, s) # m1))"

fun snapshot_timers :: "(string \<times> TimerRqlSet) list \<Rightarrow> string" where
  "snapshot_timers [] = []"
| "snapshot_timers ((k, es) # m) =
     (let s = Timer_Snapshot es
      in (if s_vars s \<noteq> [] then fst (writeRqlSet False s) @ '','' else []) @ snapshot_timers m)"

fun expire_timers ::
  "64 word \<Rightarrow> (string \<times> TimerRqlSet) list \<Rightarrow> (string \<times> (string \<times> TimerRqlSet) list) go" where
  "expire_timers now [] = Inr ([], [])"
| "expire_timers now ((k, es) # m) =
     go_bind (ExpireItems now es) (\<lambda>(s, es1).
     go_bind (expire_timers now m) (\<lambda>(out, m1).
       Inr ((if s_vars s \<noteq> [] then fst (writeRqlSet True s) @ '','' else []) @ out, (k, es1) # m1)))"

definition writeSnapSets :: "RetroLog \<Rightarrow> RetroLog" where
  "writeSnapSets l =
     (let (out, m) = write_sets (snapSets l)
      in put_str (out @ snapshot_timers (expireSets l)) (l\<lparr>snapSets := m\<rparr>))"

definition writeSets :: "RetroLog \<Rightarrow> RetroLog go" where
  "writeSets l =
     (let (out1, m1) = write_sets (tempAddSet l); (out2, m2) = write_sets (tempRemoveSet l)
      in go_bind (deref (txTs l)) (\<lambda>t.
         go_bind (expire_timers (PhysicalTime t) (expireSets l)) (\<lambda>(out3, m3).
         Inr (put_str (out1 @ out2 @ out3) (l\<lparr>tempAddSet := m1, tempRemoveSet := m2, expireSets := m3\<rparr>)))))"

definition WriteSnap :: "64 word \<Rightarrow> RetroLog \<Rightarrow> RetroLog" where
  "WriteSnap blockTime l =
     (let (ok, l1) = writeSnapVars (writeHeader (NewTimestamp blockTime 0) True l);
          l2 = writeSnapSets (if ok then put_str '','' l1 else l1)
      in (write_line l2)\<lparr>sb := []\<rparr>)"

text \<open>\<open>now\<close> is the reading of the wall clock, \<open>h\<close> the process-wide hybrid clock.\<close>

definition StartTx :: "goint \<Rightarrow> HLC \<times> RetroLog \<Rightarrow> (HLC \<times> RetroLog) go" where
  "StartTx now = (\<lambda>(h, l).
     if txLocked l then Inl Hang
     else
       let (t, h1) = Now now h;
           l1 = l\<lparr>txLocked := True, sb := [], txTs := Some t\<rparr>
       in if takeSnapshots l1 then
            go_bind (getBlockTime (PhysicalTime t) l1) (\<lambda>blockTime.
              Inr (h1, if lastBlockTime l1 <s blockTime
                       then WriteSnap blockTime (l1\<lparr>lastBlockTime := blockTime\<rparr>) else l1))
          else Inr (h1, l1))"

definition AppendVar :: "string \<Rightarrow> string \<Rightarrow> RetroLog \<Rightarrow> RetroLog" where
  "AppendVar varName valstr l = l\<lparr>tempVars := tempVars l @ [\<lparr>v_name = Some varName, v_valstr = valstr\<rparr>]\<rparr>"

definition AppendVarStr :: "string \<Rightarrow> string \<Rightarrow> RetroLog \<Rightarrow> RetroLog" where
  "AppendVarStr varName varVal = AppendVar varName (quoted varVal)"

definition AppendVarInt :: "string \<Rightarrow> 64 word \<Rightarrow> RetroLog \<Rightarrow> RetroLog" where
  "AppendVarInt varName varVal = AppendVar varName (Itoa (sint varVal))"

definition AppendVarInt32 :: "string \<Rightarrow> goint \<Rightarrow> RetroLog \<Rightarrow> RetroLog" where
  "AppendVarInt32 varName varVal = AppendVar varName (Itoa varVal)"

definition AppendVarFloat :: "string \<Rightarrow> string \<Rightarrow> RetroLog \<Rightarrow> RetroLog" where
  "AppendVarFloat varName s = AppendVar varName s"

definition CreateTimerSet :: "string \<Rightarrow> 64 word \<Rightarrow> RetroLog \<Rightarrow> RetroLog" where
  "CreateTimerSet setName expire l =
     l\<lparr>expireSets := AList.update setName (NewTimerRqlSet setName expire) (expireSets l)\<rparr>"

definition appendSet :: "string \<Rightarrow> string \<Rightarrow> RetroLog \<Rightarrow> RetroLog go" where
  "appendSet setName setVal l =
     go_bind
       (case map_of (expireSets l) setName of
          None \<Rightarrow> Inr l
        | Some expSet \<Rightarrow>
            go_bind (deref (txTs l)) (\<lambda>t.
            go_bind (Timer_Add setVal (PhysicalTime t) expSet) (\<lambda>expSet1.
            Inr (l\<lparr>expireSets := AList.update setName expSet1 (expireSets l)\<rparr>))))
       (\<lambda>l1. let addSet = (case map_of (tempAddSet l1) setName of
                              None \<Rightarrow> NewRqlSet setName True | Some s \<Rightarrow> s)
             in Inr (l1\<lparr>tempAddSet := AList.update setName (addVal setVal addSet) (tempAddSet l1)\<rparr>))"

definition AppendSetStr :: "string \<Rightarrow> string \<Rightarrow> RetroLog \<Rightarrow> RetroLog go" where
  "AppendSetStr setName setVal = appendSet setName (quoted setVal)"

definition AppendSetInt32 :: "string \<Rightarrow> goint \<Rightarrow> RetroLog \<Rightarrow> RetroLog go" where
  "AppendSetInt32 setName setVal = appendSet setName (Itoa setVal)"

definition AppendSetInt :: "string \<Rightarrow> 64 word \<Rightarrow> RetroLog \<Rightarrow> RetroLog go" where
  "AppendSetInt setName setVal = appendSet setName (Itoa (sint setVal))"

definition AppendSetFloat :: "string \<Rightarrow> string \<Rightarrow> RetroLog \<Rightarrow> RetroLog go" where
  "AppendSetFloat setName valStr = appendSet setName valStr"

definition AppendSetStruct :: "string \<Rightarrow> RqlStruct \<Rightarrow> RetroLog \<Rightarrow> RetroLog go" where
  "AppendSetStruct setName setVal = appendSet setName (structToStr setVal)"

text \<open>The set that \<open>removeSet\<close> makes is stored with the additions, under the same name; when
  \<open>tempRemoveSet\<close> has one, that set is changed in place.\<close>

definition removeSet :: "string \<Rightarrow> string \<Rightarrow> RetroLog \<Rightarrow> RetroLog" where
  "removeSet setName setVal l =
     (let snapSet = (case map_of (snapSets l) setName of None \<Rightarrow> NewRqlSet setName True | Some s \<Rightarrow> s);
          l1 = l\<lparr>snapSets := AList.update setName (removeVal setVal snapSet) (snapSets l)\<rparr>
      in case map_of (tempRemoveSet l1) setName of
           None \<Rightarrow> l1\<lparr>tempAddSet := AList.update setName (addVal setVal (NewRqlSet setName False)) (tempAddSet l1)\<rparr>
         | Some s \<Rightarrow> l1\<lparr>tempRemoveSet := AList.update setName (addVal setVal s) (tempRemoveSet l1)\<rparr>)"

definition RemoveSetStr :: "string \<Rightarrow> string \<Rightarrow> RetroLog \<Rightarrow> RetroLog" where
  "RemoveSetStr setName setVal = removeSet setName (quoted setVal)"

definition RemoveSetInt :: "string \<Rightarrow> 64 word \<Rightarrow> RetroLog \<Rightarrow> RetroLog" where
  "RemoveSetInt setName setVal = removeSet setName (Itoa (sint setVal))"

definition RemoveSetFloat :: "string \<Rightarrow> string \<Rightarrow> RetroLog \<Rightarrow> RetroLog" where
  "RemoveSetFloat setName valStr = removeSet setName valStr"

definition RemoveSetStruct :: "string \<Rightarrow> RqlStruct \<Rightarrow> RetroLog \<Rightarrow> RetroLog" where
  "RemoveSetStruct setName setVal = removeSet setName (structToStr setVal)"

definition Commit_log :: "RetroLog \<Rightarrow> RetroLog go" where
  "Commit_log l =
     go_bind (deref (txTs l)) (\<lambda>t.
       let (ok, l1) = writeVars (writeHeader t False l)
       in go_bind (writeSets (if ok then put_str '','' l1 else l1)) (\<lambda>l2.
            if txLocked l2 then Inr ((write_line l2)\<lparr>txTs := None, txLocked := False\<rparr>)
            else Inl UnlockOfUnlocked))"

end
