(* ===== verification/RetroFacts.thy ===== *)
theory RetroFacts
  imports RetroLog
begin

text \<open>
  What the retroscope log writes: a timer set reports every value once it has expired and keeps the
  others; a snapshot never shows anything but the version variable and the timer sets; and a removal
  turns the additions to the same set into removals.
\<close>

section \<open>Timer sets\<close>

text \<open>The values of a timer set with the time at which each was added.\<close>

definition timed :: "TimerRqlSet \<Rightarrow> (64 word \<times> string) list" where
  "timed t = concat (map2 (\<lambda>b vs. map (Pair b) vs) (bucketTs t) (buckets t))"

definition timer_ok :: "TimerRqlSet \<Rightarrow> bool" where
  [wf_defs]: "timer_ok t \<longleftrightarrow> length (bucketTs t) = length (buckets t) \<and>
     sorted_wrt (\<lambda>a b. sint a < sint b) (bucketTs t) \<and>
     list_all (\<lambda>b. 0 \<le> sint b \<and> sint b < 2 ^ 62) (bucketTs t) \<and>
     0 \<le> sint (expireTime t) \<and> sint (expireTime t) < 2 ^ 62"

lemma addAllVal_vars: "set (s_vars (addAllVal vs s)) = set (s_vars s) \<union> set vs"
  "s_name (addAllVal vs s) = s_name s" "s_isAdd (addAllVal vs s) = s_isAdd s"
  by (induction vs arbitrary: s) (auto simp: addAllVal_def addVal_def Set_Add_def)

lemma Timer_Add_timed:
  assumes "timer_ok t" "\<forall>b \<in> set (bucketTs t). sint b \<le> sint now" "0 \<le> sint now" "sint now < 2 ^ 62"
  shows "\<exists>t'. Timer_Add v now t = Inr t' \<and> timer_ok t' \<and> timed t' = timed t @ [(now, v)]
    \<and> t_name t' = t_name t \<and> expireTime t' = expireTime t \<and> set (bucketTs t') \<subseteq> insert now (set (bucketTs t))"
proof (cases "bucketTs t = [] \<or> last (bucketTs t) \<noteq> now")
  case True
  have "sint b < sint now" if mem: "b \<in> set (bucketTs t)" for b
  proof -
    have "sint b \<le> sint (last (bucketTs t))"
    proof -
      obtain bs c where l: "bucketTs t = bs @ [c]"
        using mem by (cases "bucketTs t" rule: rev_cases) auto
      then show ?thesis
        using mem assms(1) by (auto simp: timer_ok_def sorted_wrt_append)
    qed
    moreover have "sint (last (bucketTs t)) < sint now"
    proof -
      have ne: "bucketTs t \<noteq> []" using mem by auto
      then have "last (bucketTs t) \<noteq> now" using True by simp
      then have "sint (last (bucketTs t)) \<noteq> sint now" using signed_word_eqI by blast
      moreover have "sint (last (bucketTs t)) \<le> sint now" using assms(2) last_in_set [OF ne] by blast
      ultimately show ?thesis by linarith
    qed
    ultimately show ?thesis by linarith
  qed
  then show ?thesis
    using True assms by (auto simp: Timer_Add_def timer_ok_def timed_def sorted_wrt_append)
next
  case False
  then obtain bs where b: "bucketTs t = bs @ [now]"
    by (metis append_butlast_last_id)
  then obtain vss vs where "buckets t = vss @ [vs]" "length bs = length vss"
    using assms(1) by (cases "buckets t" rule: rev_cases) (auto simp: timer_ok_def)
  then show ?thesis
    using b assms(1) by (auto simp: Timer_Add_def timer_ok_def timed_def)
qed

lemma expired_iff:
  assumes "0 \<le> sint b" "sint b < 2 ^ 62" "0 \<le> sint e" "sint e < 2 ^ 62"
  shows "b + e \<le>s (now :: 64 word) \<longleftrightarrow> sint b + sint e \<le> sint now"
proof -
  have "sint (b + e) = sint b + sint e"
    using assms by (simp add: sint_word_ariths signed_take_bit_int_eq_self)
  then show ?thesis by (simp add: word_sle_eq)
qed


lemma expire_none:
  assumes "list_all (\<lambda>b. \<not> b + expireTime t \<le>s now) bs"
  shows "go_fold (expire_step t now) (enumerate n bs) acc = Inr acc"
  using assms by (induction bs arbitrary: n acc) (auto simp: expire_step_def)

lemma expire_all:
  assumes "list_all (\<lambda>b. b + expireTime t \<le>s now) bs" "n + length bs \<le> length (buckets t)"
  shows "go_fold (expire_step t now) (enumerate n bs) (R, j) =
    Inr (addAllVal (concat (take (length bs) (drop n (buckets t)))) R,
         if bs = [] then j else int n + int (length bs) - 1)"
  using assms
proof (induction bs arbitrary: n R j)
  case Nil
  then show ?case by (simp add: addAllVal_def)
next
  case (Cons b bs)
  have n: "n < length (buckets t)" using Cons.prems by simp
  then have "drop n (buckets t) = buckets t ! n # drop (Suc n) (buckets t)"
    by (simp add: Cons_nth_drop_Suc)
  then show ?case
    using Cons.IH [of "Suc n" "addAllVal (buckets t ! n) R" "int n"] Cons.prems n
    by (auto simp: expire_step_def slice_at_def addAllVal_def)
qed

lemma timed_set: "snd ` set (concat (map2 (\<lambda>b vs. map (Pair b) vs) bs vss)) = set (concat (take (length bs) vss))"
proof (induction bs arbitrary: vss)
  case (Cons b bs)
  then show ?case by (cases vss) (auto simp: image_Un image_image)
qed simp

lemma filter_timed:
  "list_all P bs \<Longrightarrow> filter (\<lambda>(b, v). P b) (concat (map2 (\<lambda>b vs. map (Pair b) vs) bs vss)) =
     concat (map2 (\<lambda>b vs. map (Pair b) vs) bs vss)"
  "list_all (\<lambda>b. \<not> P b) bs \<Longrightarrow> filter (\<lambda>(b, v). P b) (concat (map2 (\<lambda>b vs. map (Pair b) vs) bs vss)) = []"
  by (induction bs vss rule: list_induct2') auto


definition expired :: "64 word \<Rightarrow> TimerRqlSet \<Rightarrow> 64 word \<Rightarrow> bool" where
  "expired now t b \<longleftrightarrow> b + expireTime t \<le>s now"

lemma expired_prefix:
  assumes "timer_ok t"
  obtains bs cs where "bucketTs t = bs @ cs" "list_all (expired now t) bs" "list_all (\<lambda>b. \<not> expired now t b) cs"
proof -
  let ?P = "expired now t"
  have mono: "?P a" if "a \<in> set (bucketTs t)" "b \<in> set (bucketTs t)" "sint a < sint b" "?P b" for a b
  proof -
    have e: "?P c \<longleftrightarrow> sint c + sint (expireTime t) \<le> sint now" if "c \<in> set (bucketTs t)" for c
    proof -
      have "0 \<le> sint c" "sint c < 2 ^ 62" "0 \<le> sint (expireTime t)" "sint (expireTime t) < 2 ^ 62"
        using that assms unfolding timer_ok_def list_all_iff by blast+
      then show ?thesis unfolding expired_def by (rule expired_iff)
    qed
    show ?thesis using that(3,4) by (simp add: e [OF that(1)] e [OF that(2)])
  qed
  have "sorted_wrt (\<lambda>a b. sint a < sint b) bs \<Longrightarrow> set bs \<subseteq> set (bucketTs t) \<Longrightarrow>
    list_all (\<lambda>b. \<not> ?P b) (dropWhile ?P bs)" for bs
  proof (induction bs)
    case (Cons b bs)
    have lt: "sint b < sint c" "c \<in> set (bucketTs t)" "b \<in> set (bucketTs t)" if "c \<in> set bs" for c
      using that Cons.prems by simp_all blast
    show ?case
    proof (cases "?P b")
      case True
      then show ?thesis using Cons by simp
    next
      case False
      then have "\<forall>c \<in> set bs. \<not> ?P c"
        using mono lt by blast
      then show ?thesis using False by (simp add: list_all_iff)
    qed
  qed simp
  then have "list_all (\<lambda>b. \<not> ?P b) (dropWhile ?P (bucketTs t))"
    using assms by (simp add: timer_ok_def)
  moreover have "list_all ?P (takeWhile ?P (bucketTs t))"
    by (auto simp: list_all_iff dest: set_takeWhileD)
  ultimately show ?thesis
    using that [of "takeWhile ?P (bucketTs t)" "dropWhile ?P (bucketTs t)"] by simp
qed

lemma ExpireItems_timed:
  assumes ok: "timer_ok t"
  shows "\<exists>R t'. ExpireItems now t = Inr (R, t') \<and> s_isAdd R = False \<and> s_name R = t_name t
    \<and> set (s_vars R) = snd ` set (filter (\<lambda>(b, v). expired now t b) (timed t))
    \<and> timed t' = filter (\<lambda>(b, v). \<not> expired now t b) (timed t) \<and> timer_ok t' \<and> expireTime t' = expireTime t
    \<and> filter (\<lambda>(b, v). expired now t b) (timed t) @ timed t' = timed t \<and> set (bucketTs t') \<subseteq> set (bucketTs t)"
proof -
  obtain bs cs where b: "bucketTs t = bs @ cs" "list_all (expired now t) bs" "list_all (\<lambda>b. \<not> expired now t b) cs"
    using expired_prefix [OF ok] .
  have len: "length (buckets t) = length bs + length cs"
    using ok b(1) by (simp add: timer_ok_def)
  let ?vs = "take (length bs) (buckets t)" and ?ws = "drop (length bs) (buckets t)"
  let ?R = "addAllVal (concat ?vs) (NewRqlSet (t_name t) False)"
  have map2: "map2 f (bs @ cs) (buckets t) = map2 f bs ?vs @ map2 f cs ?ws" for f :: "64 word \<Rightarrow> string list \<Rightarrow> (64 word \<times> string) list"
  proof -
    have "zip (bs @ cs) (?vs @ ?ws) = zip bs ?vs @ zip cs ?ws"
      using len by (intro zip_append) simp
    then show ?thesis by (simp add: append_take_drop_id)
  qed
  have tm: "timed t = concat (map2 (\<lambda>b vs. map (Pair b) vs) bs ?vs) @ concat (map2 (\<lambda>b vs. map (Pair b) vs) cs ?ws)"
    by (simp add: timed_def b(1) map2)
  have e: "filter (\<lambda>(b, v). expired now t b) (timed t) = concat (map2 (\<lambda>b vs. map (Pair b) vs) bs ?vs)"
      "filter (\<lambda>(b, v). \<not> expired now t b) (timed t) = concat (map2 (\<lambda>b vs. map (Pair b) vs) cs ?ws)"
    using filter_timed(1) [of "expired now t" bs ?vs, OF b(2)] filter_timed(2) [of "expired now t" cs ?ws, OF b(3)]
      filter_timed(1) [of "\<lambda>b. \<not> expired now t b" cs ?ws, OF b(3)]
      filter_timed(2) [of "\<lambda>b. \<not> expired now t b" bs ?vs] b(2)
    unfolding tm filter_append by simp_all
  have run: "go_fold (expire_step t now) (enumerate 0 (bucketTs t)) (NewRqlSet (t_name t) False, - 1) =
      Inr (?R, int (length bs) - 1)"
  proof -
    have "list_all (\<lambda>b. b + expireTime t \<le>s now) bs" "list_all (\<lambda>b. \<not> b + expireTime t \<le>s now) cs"
      using b(2,3) by (simp_all add: list_all_iff expired_def)
    then show ?thesis
      using expire_all [of t now bs 0] expire_none [of t now cs] b(1) len
      by (simp add: enumerate_append_eq go_fold_append)
  qed
  have "ExpireItems now t = Inr (?R, if 0 \<le> int (length bs) - 1
      then t\<lparr>bucketTs := drop (nat (int (length bs) - 1) + 1) (bucketTs t),
             buckets := drop (nat (int (length bs) - 1) + 1) (buckets t)\<rparr> else t)"
    unfolding ExpireItems_def run by simp
  moreover have "t\<lparr>bucketTs := cs, buckets := ?ws\<rparr> = t" if "bs = []"
    using that b(1) by simp
  ultimately have "ExpireItems now t = Inr (?R, t\<lparr>bucketTs := cs, buckets := ?ws\<rparr>)"
    using b(1) by (cases bs) (simp_all del: go_bind_eq_Inr)
  moreover have "set (s_vars ?R) = snd ` set (filter (\<lambda>(b, v). expired now t b) (timed t))"
    unfolding e timed_set by (simp add: addAllVal_vars NewRqlSet_def NewSet_def)
  moreover have "timed (t\<lparr>bucketTs := cs, buckets := ?ws\<rparr>) = filter (\<lambda>(b, v). \<not> expired now t b) (timed t)"
    unfolding e by (simp add: timed_def)
  moreover have "timer_ok (t\<lparr>bucketTs := cs, buckets := ?ws\<rparr>)"
    using ok b(1) len by (simp add: timer_ok_def sorted_wrt_append)
  moreover have "filter (\<lambda>(b, v). expired now t b) (timed t) @ timed (t\<lparr>bucketTs := cs, buckets := ?ws\<rparr>) = timed t"
    unfolding e(1) by (simp add: timed_def b(1) map2)
  ultimately show ?thesis
    using b(1) by (simp add: addAllVal_vars NewRqlSet_def)
qed

lemma Timer_Snapshot_timed:
  assumes "timer_ok t"
  shows "set (s_vars (Timer_Snapshot t)) = snd ` set (timed t)"
proof -
  have "set (s_vars (fold addAllVal vss s)) = set (s_vars s) \<union> set (concat vss)" for vss s
    by (induction vss arbitrary: s) (auto simp: addAllVal_vars)
  then show ?thesis
    using assms timed_set [of "bucketTs t" "buckets t"]
    by (simp add: Timer_Snapshot_def timed_def NewRqlSet_def NewSet_def timer_ok_def)
qed

text \<open>A timer set in use: values are added, and now and then the expired ones are taken out.\<close>

datatype timer_event = TAdd "64 word" string | TExpire "64 word"

fun timer_time :: "timer_event \<Rightarrow> 64 word" where
  "timer_time (TAdd now v) = now" | "timer_time (TExpire now) = now"

fun timer_run :: "timer_event list \<Rightarrow> TimerRqlSet \<Rightarrow> (RqlSet list \<times> TimerRqlSet) go" where
  "timer_run [] t = Inr ([], t)"
| "timer_run (TAdd now v # es) t = go_bind (Timer_Add v now t) (timer_run es)"
| "timer_run (TExpire now # es) t =
     go_bind (ExpireItems now t) (\<lambda>(R, t1). go_bind (timer_run es t1) (\<lambda>(Rs, t2). Inr (R # Rs, t2)))"

fun added :: "timer_event list \<Rightarrow> (64 word \<times> string) list" where
  "added [] = []"
| "added (TAdd now v # es) = (now, v) # added es"
| "added (TExpire now # es) = added es"

fun expiries :: "timer_event list \<Rightarrow> nat" where
  "expiries [] = 0"
| "expiries (TAdd now v # es) = expiries es"
| "expiries (TExpire now # es) = Suc (expiries es)"

text \<open>A set reports these values as removed.\<close>

definition reports :: "RqlSet \<Rightarrow> (64 word \<times> string) list \<Rightarrow> bool" where
  "reports R r \<longleftrightarrow> set (s_vars R) = snd ` set r \<and> \<not> s_isAdd R"

lemma expired_later: "expired now t b \<Longrightarrow> sint now \<le> sint now1 \<Longrightarrow> expired now1 t b"
  by (simp add: expired_def word_sle_eq)

lemma filter_later:
  assumes "sint now \<le> sint now1" "filter (\<lambda>(b, v). expired now t b) xs @ ys = xs"
  shows "filter (\<lambda>(b, v). expired now1 t b) xs = filter (\<lambda>(b, v). expired now t b) xs @ filter (\<lambda>(b, v). expired now1 t b) ys"
proof -
  have "filter (\<lambda>(b, v). expired now1 t b) (filter (\<lambda>(b, v). expired now t b) xs) = filter (\<lambda>(b, v). expired now t b) xs"
    by (rule filter_True) (auto dest: expired_later [OF _ assms(1)])
  then show ?thesis
    using arg_cong [OF assms(2), of "filter (\<lambda>(b, v). expired now1 t b)"] by simp
qed

lemma timer_run_timed:
  assumes "timer_ok t" "sorted (map (sint \<circ> timer_time) evs)"
    and "list_all (\<lambda>e. 0 \<le> sint (timer_time e) \<and> sint (timer_time e) < 2 ^ 62) evs"
    and "\<forall>b \<in> set (bucketTs t). \<forall>e \<in> set evs. sint b \<le> sint (timer_time e)"
  shows "\<exists>Rs t1 rs. timer_run evs t = Inr (Rs, t1) \<and> timer_ok t1 \<and> list_all2 reports Rs rs \<and> concat rs @ timed t1 = timed t @ added evs
    \<and> (\<forall>xs now ys. evs = xs @ TExpire now # ys \<longrightarrow>
         concat (take (Suc (expiries xs)) rs) = filter (\<lambda>(b, v). expired now t b) (timed t @ added xs))"
  using assms
proof (induction evs arbitrary: t)
  case Nil
  then show ?case by auto
next
  case (Cons e es)
  show ?case
  proof (cases e)
    case (TAdd now v)
    then obtain t1 where t1: "Timer_Add v now t = Inr t1" "timer_ok t1" "timed t1 = timed t @ [(now, v)]"
      "expireTime t1 = expireTime t" "set (bucketTs t1) \<subseteq> insert now (set (bucketTs t))"
      using Timer_Add_timed [of t now v] Cons.prems by auto
    have later: "sorted (map (sint \<circ> timer_time) es)"
      "list_all (\<lambda>e. 0 \<le> sint (timer_time e) \<and> sint (timer_time e) < 2 ^ 62) es"
      "\<forall>b \<in> set (bucketTs t1). \<forall>e \<in> set es. sint b \<le> sint (timer_time e)"
      using Cons.prems t1(5) TAdd by (auto simp: o_def)
    obtain Rs t2 rs where r: "timer_run es t1 = Inr (Rs, t2)" "timer_ok t2" "list_all2 reports Rs rs"
      "concat rs @ timed t2 = timed t1 @ added es" and
      cut: "\<And>xs now ys. es = xs @ TExpire now # ys \<Longrightarrow>
         concat (take (Suc (expiries xs)) rs) = filter (\<lambda>(b, v). expired now t1 b) (timed t1 @ added xs)"
      using Cons.IH [OF t1(2) later] by blast
    have "concat (take (Suc (expiries xs)) rs) = filter (\<lambda>(b, v). expired n t b) (timed t @ added xs)"
      if "e # es = xs @ TExpire n # ys" for xs n ys
      using that TAdd cut [of "tl xs" n ys] t1(3,4) by (cases xs) (auto simp: expired_def)
    then show ?thesis
      using r t1 TAdd by auto
  next
    case (TExpire now)
    let ?P = "\<lambda>(b, v). expired now t b"
    obtain R t1 where t1: "ExpireItems now t = Inr (R, t1)" "timer_ok t1" "expireTime t1 = expireTime t"
      "filter ?P (timed t) @ timed t1 = timed t" "set (bucketTs t1) \<subseteq> set (bucketTs t)" and
      R: "reports R (filter ?P (timed t))"
      using ExpireItems_timed [OF Cons.prems(1), of now] by (auto simp: reports_def)
    have later: "sorted (map (sint \<circ> timer_time) es)"
      "list_all (\<lambda>e. 0 \<le> sint (timer_time e) \<and> sint (timer_time e) < 2 ^ 62) es"
      "\<forall>b \<in> set (bucketTs t1). \<forall>e \<in> set es. sint b \<le> sint (timer_time e)"
      using Cons.prems t1(5) by (auto simp: o_def)
    obtain Rs t2 rs where r: "timer_run es t1 = Inr (Rs, t2)" "timer_ok t2" "list_all2 reports Rs rs"
      "concat rs @ timed t2 = timed t1 @ added es" and
      cut: "\<And>xs now ys. es = xs @ TExpire now # ys \<Longrightarrow>
         concat (take (Suc (expiries xs)) rs) = filter (\<lambda>(b, v). expired now t1 b) (timed t1 @ added xs)"
      using Cons.IH [OF t1(2) later] by blast
    have "concat (take (Suc (expiries xs)) (filter ?P (timed t) # rs)) = filter (\<lambda>(b, v). expired n t b) (timed t @ added xs)"
      if s: "e # es = xs @ TExpire n # ys" for xs n ys
    proof (cases xs)
      case Nil
      then show ?thesis using s TExpire by simp
    next
      case (Cons x xs')
      then have x: "xs = TExpire now # xs'" "es = xs' @ TExpire n # ys" "sint now \<le> sint n"
        using s TExpire Cons.prems(2) by auto
      have "expired n t1 = expired n t"
        using t1(3) by (simp add: expired_def fun_eq_iff)
      then show ?thesis
        using cut [OF x(2)] filter_later [OF x(3) t1(4)] x(1) by simp
    qed
    moreover have "concat (filter ?P (timed t) # rs) @ timed t2 = timed t @ added (e # es)"
      using r(4) t1(4) TExpire by simp
    ultimately show ?thesis
      using r R t1(1) TExpire by (intro exI [of _ "R # Rs"] exI [of _ t2] exI [of _ "filter ?P (timed t) # rs"]) auto
  qed
qed

text \<open>C27: a timer set in use, with any sequence of additions and expiries at times that do not go back, never panics and
  reports every value once: the values that the expiries report, one expiry after the other, and then
  the values that a snapshot shows, are all values in the order of their additions; and up to any expiry
  exactly those are reported whose time plus the expiry time has passed.\<close>

theorem timer_set_expires:
  assumes "sorted (map (sint \<circ> timer_time) evs)"
    and "list_all (\<lambda>x. 0 \<le> sint (timer_time x) \<and> sint (timer_time x) < 2 ^ 62) evs"
    and "0 \<le> sint e" "sint e < 2 ^ 62"
  shows "\<exists>Rs t rs rest. timer_run evs (NewTimerRqlSet name e) = Inr (Rs, t) \<and> list_all2 reports Rs rs
    \<and> concat rs @ rest = added evs \<and> set (s_vars (Timer_Snapshot t)) = snd ` set rest
    \<and> (\<forall>xs now ys. evs = xs @ TExpire now # ys \<longrightarrow>
         concat (take (Suc (expiries xs)) rs) = filter (\<lambda>(b, v). sint b + sint e \<le> sint now) (added xs))"
proof -
  let ?t = "NewTimerRqlSet name e"
  have t: "timer_ok ?t" "timed ?t = []" "bucketTs ?t = []" "expireTime ?t = e"
    using assms(3,4) by (simp_all add: timer_ok_def timed_def NewTimerRqlSet_def)
  then obtain Rs t1 rs where r: "timer_run evs ?t = Inr (Rs, t1)" "timer_ok t1" "list_all2 reports Rs rs"
    "concat rs @ timed t1 = added evs" and
    cut: "\<And>xs now ys. evs = xs @ TExpire now # ys \<Longrightarrow>
       concat (take (Suc (expiries xs)) rs) = filter (\<lambda>(b, v). expired now ?t b) (added xs)"
    using timer_run_timed [OF t(1) assms(1,2)] by auto
  have bound: "0 \<le> sint b \<and> sint b < 2 ^ 62" if "(b, v) \<in> set (added es)" "list_all (\<lambda>x. 0 \<le> sint (timer_time x) \<and> sint (timer_time x) < 2 ^ 62) es"
    for b v es
    using that by (induction es rule: added.induct) auto
  have "filter (\<lambda>(b, v). expired now ?t b) (added xs) = filter (\<lambda>(b, v). sint b + sint e \<le> sint now) (added xs)"
    if "evs = xs @ TExpire now # ys" for xs now ys
    using bound [of _ _ xs] assms(2-) that t(4) by (intro filter_cong) (auto simp: expired_def expired_iff)
  then show ?thesis
    using r cut Timer_Snapshot_timed [OF r(2)] by metis
qed

lemma timer_set_expires_witness:
  "\<exists>Rs t rs rest. timer_run [TAdd 10 ''a'', TAdd 10 ''b'', TAdd 12 ''c'', TExpire 15, TAdd 16 ''d'', TExpire 17] (NewTimerRqlSet ''s'' 5) = Inr (Rs, t)
    \<and> list_all2 reports Rs rs \<and> concat rs @ rest = [(10, ''a''), (10, ''b''), (12, ''c''), (16, ''d'')]"
proof -
  let ?evs = "[TAdd 10 ''a'', TAdd 10 ''b'', TAdd 12 ''c'', TExpire 15, TAdd 16 ''d'', TExpire 17]"
  have "sorted (map (sint \<circ> timer_time) ?evs)"
    "list_all (\<lambda>x. 0 \<le> sint (timer_time x) \<and> sint (timer_time x) < 2 ^ 62) ?evs"
    "0 \<le> sint (5 :: 64 word)" "sint (5 :: 64 word) < 2 ^ 62"
    by simp_all
  from timer_set_expires [OF this, of "''s''"] obtain Rs t rs rest where
    r: "timer_run ?evs (NewTimerRqlSet ''s'' 5) = Inr (Rs, t)" "list_all2 reports Rs rs" "concat rs @ rest = added ?evs"
    by (elim exE conjE) (rule that)
  from r(3) have "concat rs @ rest = [(10, ''a''), (10, ''b''), (12, ''c''), (16, ''d'')]"
    by simp
  then show ?thesis
    by (intro exI conjI) (rule r(1), rule r(2))
qed


section \<open>Runs of the log\<close>

datatype retro_op =
    RStart goint
  | RCommit
  | RVar string string
  | RAdd string string
  | RRemove string string
  | RTimer string "64 word"

fun retro_step :: "retro_op \<Rightarrow> HLC \<times> RetroLog \<Rightarrow> (HLC \<times> RetroLog) go" where
  "retro_step (RStart now) (h, l) = StartTx now (h, l)"
| "retro_step RCommit (h, l) = go_bind (Commit_log l) (\<lambda>l. Inr (h, l))"
| "retro_step (RVar n v) (h, l) = Inr (h, AppendVar n v l)"
| "retro_step (RAdd n v) (h, l) = go_bind (appendSet n v l) (\<lambda>l. Inr (h, l))"
| "retro_step (RRemove n v) (h, l) = Inr (h, removeSet n v l)"
| "retro_step (RTimer n e) (h, l) = Inr (h, CreateTimerSet n e l)"

definition retro_run :: "retro_op list \<Rightarrow> HLC \<times> RetroLog \<Rightarrow> (HLC \<times> RetroLog) go" where
  "retro_run = go_fold retro_step"

text \<open>What no operation changes: the variables of a snapshot, and that its sets are empty.\<close>

definition blind :: "RetroLog \<Rightarrow> bool" where
  "blind l \<longleftrightarrow> snapVars l = [(''retrolog_go'', \<lparr>v_name = Some ''retrolog_go'', v_valstr = ''1''\<rparr>)] \<and>
     list_all (\<lambda>(k, s). s_vars s = []) (snapSets l) \<and> tempRemoveSet l = []"

lemma write_sets_empty: "list_all (\<lambda>(k, s). s_vars s = []) m \<Longrightarrow> write_sets m = ([], m)"
  by (induction m rule: write_sets.induct) auto

lemma log_fields [simp]:
  "snapVars (put_str s l) = snapVars l" "snapSets (put_str s l) = snapSets l"
  "tempRemoveSet (put_str s l) = tempRemoveSet l" "expireSets (put_str s l) = expireSets l"
  "tempVars (put_str s l) = tempVars l" "txTs (put_str s l) = txTs l"
  "tempAddSet (put_str s l) = tempAddSet l" "txLocked (put_str s l) = txLocked l"
  "logfile (put_str s l) = logfile l" "sb (put_str s l) = sb l @ s" "nodeIdStr (put_str s l) = nodeIdStr l"
  by (simp_all add: put_str_def)

lemma WriteSnap_blind: "blind l \<Longrightarrow> blind (WriteSnap b l)"
  by (simp add: blind_def WriteSnap_def writeSnapVars_def writeSnapSets_def writeHeader_def write_line_def
      write_sets_empty Let_def)

lemma Commit_blind: "blind l \<Longrightarrow> Commit_log l = Inr l' \<Longrightarrow> blind l'"
  by (auto simp: blind_def Commit_log_def writeVars_def writeSets_def writeHeader_def write_line_def
      Let_def case_prod_beta split: if_splits)

lemma list_all_update:
  "list_all (\<lambda>(k, s). P s) m \<Longrightarrow> P s \<Longrightarrow> list_all (\<lambda>(k, s). P s) (AList.update n s m)"
  by (induction m) auto

lemma step_blind:
  assumes "retro_step op hl = Inr hl'" "blind (snd hl)"
  shows "blind (snd hl')"
proof (cases op)
  case (RStart now)
  obtain h l where hl: "hl = (h, l)" by (cases hl)
  have "blind l" using assms(2) hl by simp
  then have "blind (l\<lparr>txLocked := True, sb := [], txTs := t\<rparr>)"
    "blind (l\<lparr>txLocked := True, sb := [], txTs := t, lastBlockTime := b\<rparr>)" for t b
    by (simp_all add: blind_def)
  then show ?thesis
    using assms(1) WriteSnap_blind
    by (auto simp: RStart hl StartTx_def Let_def case_prod_beta split: if_splits)
next
  case (RRemove n v)
  obtain h l where hl: "hl = (h, l)" by (cases hl)
  have b: "blind l" using assms(2) hl by simp
  let ?s = "case map_of (snapSets l) n of None \<Rightarrow> NewRqlSet n True | Some s \<Rightarrow> s"
  have "s_vars s = []" if "map_of (snapSets l) n = Some s" for s
    using b map_of_SomeD [OF that] by (auto simp: blind_def list_all_iff)
  then have "s_vars (removeVal v ?s) = []"
    by (auto simp: removeVal_def NewRqlSet_def NewSet_def Set_Remove_def split: option.split)
  then show ?thesis
    using assms(1) b by (auto simp: RRemove hl removeSet_def blind_def Let_def list_all_update)
next
  case RCommit
  then show ?thesis using assms Commit_blind by (cases hl) auto
qed (use assms in \<open>cases hl; auto simp: AppendVar_def CreateTimerSet_def appendSet_def blind_def Let_def
      split: option.splits\<close>)+

lemma run_blind: "retro_run ops (h, NewRetroLog name i b snapshots) = Inr (h', l) \<Longrightarrow> blind l"
  unfolding retro_run_def
  by (drule go_fold_invariant [where P = "\<lambda>hl. blind (snd hl)"])
    (auto simp: blind_def NewRetroLog_def dest: step_blind)

definition snap_header :: "64 word \<Rightarrow> string \<Rightarrow> string" where
  "snap_header bt node = ''<snapt'' @ Itoa (sint bt) @ '','' @ Itoa (sint (ToInt64 (NewTimestamp bt 0))) @ '','' @ node @ ''>:''"

lemma trim_tail: "a \<noteq> CHR '','' \<Longrightarrow> c \<noteq> CHR '','' \<Longrightarrow> trim_commas (a # xs @ c # replicate k (CHR '','')) = a # xs @ [c]"
proof -
  assume c: "a \<noteq> CHR '',''" "c \<noteq> CHR '',''"
  have "dropWhile (\<lambda>c. c = CHR '','') (replicate k (CHR '','') @ ys) = dropWhile (\<lambda>c. c = CHR '','') ys" for ys
    by (induction k) simp_all
  then show ?thesis using c by (simp add: trim_commas_def)
qed

text \<open>whatever a program appends to the log, a snapshot of a log without timer sets holds only the
  version variable.\<close>

theorem snapshots_show_no_data:
  assumes "retro_run ops (h, NewRetroLog name i b snapshots) = Inr (h', l)" "expireSets l = []"
  shows "logfile (WriteSnap bt (l\<lparr>sb := []\<rparr>)) =
    logfile l @ [snap_header bt (nodeIdStr l) @ ''retrolog_go:1'' @ [CHR 0x0A]]"
proof -
  have bl: "blind l" using assms(1) by (rule run_blind)
  have "trim_commas (snap_header bt (nodeIdStr l) @ ''retrolog_go:1'' @ replicate k (CHR '','')) =
      snap_header bt (nodeIdStr l) @ ''retrolog_go:1''" for k
    using trim_tail [of "CHR ''<''" "CHR ''1''" "tl (snap_header bt (nodeIdStr l)) @ ''retrolog_go:''" k]
    by (simp add: snap_header_def)
  from this [of 1] this [of 2] show ?thesis
    using bl assms(2)
    by (simp add: blind_def WriteSnap_def writeSnapVars_def writeSnapSets_def writeHeader_def write_line_def
      write_sets_empty Let_def varToStr_def snap_header_def NewTimestamp_def numeral_2_eq_2)
qed


lemma snapshots_show_no_data_witness:
  "\<exists>l. retro_run [RVar ''x'' ''1'', RRemove ''s'' ''b'', RAdd ''s'' ''a''] (NewHLC 7, NewRetroLog ''t'' 1 100 True) = Inr (NewHLC 7, l)
     \<and> logfile (WriteSnap 100 (l\<lparr>sb := []\<rparr>)) = logfile l @ [snap_header 100 (nodeIdStr l) @ ''retrolog_go:1'' @ [CHR 0x0A]]"
proof -
  let ?ops = "[RVar ''x'' ''1'', RRemove ''s'' ''b'', RAdd ''s'' ''a'']"
  obtain l where l: "retro_run ?ops (NewHLC 7, NewRetroLog ''t'' 1 100 True) = Inr (NewHLC 7, l)" "expireSets l = []"
    by (simp add: retro_run_def appendSet_def removeSet_def AppendVar_def NewRetroLog_def)
  then show ?thesis
    using snapshots_show_no_data [OF l] by blast
qed

section \<open>Removals\<close>

lemma retro_run_append: "retro_run (xs @ ys) s = go_bind (retro_run xs s) (retro_run ys)"
  by (simp add: retro_run_def go_fold_append)

lemma retro_run_one: "retro_run [op] s = retro_step op s"
  by (cases "retro_step op s") (simp_all add: retro_run_def)

definition tx_header :: "Timestamp \<Rightarrow> string \<Rightarrow> string" where
  "tx_header t node = ''<t'' @ Itoa (sint (PhysicalTime t)) @ '','' @ Itoa (sint (ToInt64 t)) @ '','' @ node @ ''>:''"

lemma Commit_sets:
  assumes "txTs l = Some t" "tempVars l = []" "tempRemoveSet l = []" "expireSets l = []" "txLocked l" "sb l = []"
    "tempAddSet l = [(n, s)]" "s_vars s \<noteq> []"
  shows "Commit_log l = Inr (l\<lparr>sb := tx_header t (nodeIdStr l) @ fst (writeRqlSet True s) @ '','',
     logfile := logfile l @ [tx_header t (nodeIdStr l) @ fst (writeRqlSet True s) @ [CHR 0x0A]],
     tempAddSet := [(n, snd (writeRqlSet True s))], txTs := None, txLocked := False\<rparr>)"
proof -
  have "trim_commas (tx_header t (nodeIdStr l) @ fst (writeRqlSet True s) @ '','') =
      tx_header t (nodeIdStr l) @ fst (writeRqlSet True s)"
    using trim_tail [of "CHR ''<''" "CHR ''}''" "tl (tx_header t (nodeIdStr l)) @ butlast (fst (writeRqlSet True s))" 1]
    by (simp add: tx_header_def writeRqlSet_def butlast_append)
  then show ?thesis
    using assms by (simp add: Commit_log_def writeVars_def writeSets_def writeHeader_def write_line_def
      put_str_def tx_header_def Let_def case_prod_beta)
qed


text \<open>a removal discards what the transaction has added to the set, and from then on, also in later
  transactions, the log writes the additions to that set as removals.\<close>

theorem removals_swallow_additions:
  assumes "r \<noteq> b"
  shows "let (t0, h1) = Now now0 h; (t1, h2) = Now now1 h1
    in \<exists>l. retro_run [RStart now0, RAdd n a, RRemove n r, RAdd n b, RCommit, RStart now1, RAdd n c, RCommit]
          (h, NewRetroLog name i block False) = Inr (h2, l)
      \<and> logfile l = [tx_header t0 (Itoa i) @ n @ '':--{'' @ r @ '','' @ b @ ''}'' @ [CHR 0x0A],
                    tx_header t1 (Itoa i) @ n @ '':--{'' @ c @ ''}'' @ [CHR 0x0A]]"
proof -
  obtain t0 h1 where n0: "Now now0 h = (t0, h1)" by (cases "Now now0 h")
  obtain t1 h2 where n1: "Now now1 h1 = (t1, h2)" by (cases "Now now1 h1")
  let ?l0 = "NewRetroLog name i block False"
  have pre: "retro_run [RStart now0, RAdd n a, RRemove n r, RAdd n b] (h, ?l0) =
      Inr (h1, ?l0\<lparr>txTs := Some t0, txLocked := True, snapSets := [(n, NewRqlSet n True)],
        tempAddSet := [(n, \<lparr>s_name = n, s_vars = [r, b], s_isAdd = False\<rparr>)]\<rparr>)" (is "_ = Inr (h1, ?l1)")
    using assms by (simp add: retro_run_def StartTx_def n0 NewRetroLog_def appendSet_def removeSet_def addVal_def
      removeVal_def NewRqlSet_def NewSet_def Set_Add_def Set_Remove_def)
  have c1: "Commit_log ?l1 = Inr (?l1\<lparr>sb := tx_header t0 (Itoa i) @ n @ '':--{'' @ r @ '','' @ b @ ''},'',
      logfile := [tx_header t0 (Itoa i) @ n @ '':--{'' @ r @ '','' @ b @ ''}'' @ [CHR 0x0A]],
      tempAddSet := [(n, \<lparr>s_name = n, s_vars = [], s_isAdd = False\<rparr>)], txTs := None, txLocked := False\<rparr>)"
    (is "_ = Inr ?l2")
    using Commit_sets [of ?l1 t0 n "\<lparr>s_name = n, s_vars = [r, b], s_isAdd = False\<rparr>"] by (simp add: NewRetroLog_def writeRqlSet_def NewSet_def)
  have mid: "retro_run [RStart now1, RAdd n c] (h1, ?l2) =
      Inr (h2, ?l2\<lparr>txTs := Some t1, txLocked := True, sb := [],
        tempAddSet := [(n, \<lparr>s_name = n, s_vars = [c], s_isAdd = False\<rparr>)]\<rparr>)" (is "_ = Inr (h2, ?l3)")
    by (simp add: retro_run_def StartTx_def n1 NewRetroLog_def appendSet_def addVal_def Set_Add_def)
  have c2: "\<exists>l4. Commit_log ?l3 = Inr l4 \<and> logfile l4 = logfile ?l2 @
      [tx_header t1 (Itoa i) @ n @ '':--{'' @ c @ ''}'' @ [CHR 0x0A]]"
    using Commit_sets [of ?l3 t1 n "\<lparr>s_name = n, s_vars = [c], s_isAdd = False\<rparr>"] by (simp add: NewRetroLog_def writeRqlSet_def NewSet_def)
  obtain l4 where l4: "Commit_log ?l3 = Inr l4" "logfile l4 = logfile ?l2 @
      [tx_header t1 (Itoa i) @ n @ '':--{'' @ c @ ''}'' @ [CHR 0x0A]]"
    using c2 by blast
  have "retro_run ([RStart now0, RAdd n a, RRemove n r, RAdd n b] @ [RCommit]) (h, ?l0) = Inr (h1, ?l2)"
    unfolding retro_run_append pre go_bind_simps by (simp only: retro_run_one retro_step.simps c1 go_bind_simps)
  moreover have "retro_run ([RStart now1, RAdd n c] @ [RCommit]) (h1, ?l2) = Inr (h2, l4)"
    unfolding retro_run_append mid go_bind_simps by (simp only: retro_run_one retro_step.simps l4(1) go_bind_simps)
  ultimately have "retro_run (([RStart now0, RAdd n a, RRemove n r, RAdd n b] @ [RCommit]) @
      [RStart now1, RAdd n c] @ [RCommit]) (h, ?l0) = Inr (h2, l4)"
    by (simp only: retro_run_append go_bind_simps)
  then show ?thesis
    using l4(2) by (simp add: n0 n1)
qed

lemma removals_swallow_additions_witness:
  "let (t0, h1) = Now 5000000 (NewHLC 1); (t1, h2) = Now 6000000 h1
    in \<exists>l. retro_run [RStart 5000000, RAdd ''s'' ''1'', RRemove ''s'' ''2'', RAdd ''s'' ''3'', RCommit, RStart 6000000, RAdd ''s'' ''4'', RCommit]
          (NewHLC 1, NewRetroLog ''log'' 1 100 False) = Inr (h2, l)
      \<and> logfile l = [tx_header t0 (Itoa 1) @ ''s'' @ '':--{'' @ ''2'' @ '','' @ ''3'' @ ''}'' @ [CHR 0x0A],
                    tx_header t1 (Itoa 1) @ ''s'' @ '':--{'' @ ''4'' @ ''}'' @ [CHR 0x0A]]"
  by (rule removals_swallow_additions) simp

end
