(* ===== verification/LayerReplica.thy ===== *)
theory LayerReplica
  imports PigReplica
begin

text \<open>
  The layered variant. \<open>layerpaxos/layerpaxos.go\<close> repeats the protocol object of
  \<open>pigpaxos/pigpaxos.go\<close> method by method with the receiver renamed, so each method of the copy is
  defined as the method it repeats, over the same state. \<open>layerpaxos/replica.go\<close> differs in the
  relays: a relay answers as soon as a majority of its group has voted, and it always names the
  missing nodes. What depends on that is written out; what the file repeats is again defined as the
  operation it repeats.
\<close>

section \<open>The protocol object\<close>

definition Layer_NewLayerPaxos where "Layer_NewLayerPaxos = NewPigPaxos"
definition Layer_IsLeader where "Layer_IsLeader = IsLeader"
definition Layer_CheckTimeout where "Layer_CheckTimeout = CheckTimeout"
definition Layer_Leader where "Layer_Leader = Leader"
definition Layer_SetActive where "Layer_SetActive = SetActive"
definition Layer_SetBallot where "Layer_SetBallot = SetBallot"
definition Layer_UpdateLastExecuteByNode where "Layer_UpdateLastExecuteByNode = UpdateLastExecuteByNode"
definition Layer_GetSafeLogCleanupMarker where "Layer_GetSafeLogCleanupMarker = GetSafeLogCleanupMarker"
definition Layer_CleanupLog where "Layer_CleanupLog = CleanupLog"
definition Layer_HandleRequest where "Layer_HandleRequest = HandleRequest"
definition Layer_P1a where "Layer_P1a = StartP1a"
definition Layer_RetryP1a where "Layer_RetryP1a = RetryP1a"
definition Layer_P2a where "Layer_P2a = StartP2a"
definition Layer_RetryP2a where "Layer_RetryP2a = RetryP2a"
definition Layer_HandleP1a where "Layer_HandleP1a = HandleP1a"
definition Layer_update where "Layer_update = update_log"
definition Layer_HandleP1b where "Layer_HandleP1b = HandleP1b"
definition Layer_HandleP2a where "Layer_HandleP2a = HandleP2a"
definition Layer_HandleP2b where "Layer_HandleP2b = HandleP2b"
definition Layer_HandleP3 where "Layer_HandleP3 = HandleP3"
definition Layer_sendRecoverRequest where "Layer_sendRecoverRequest = sendRecoverRequest"
definition Layer_HandleP3RecoverRequest where "Layer_HandleP3RecoverRequest = HandleP3RecoverRequest"
definition Layer_HandleP3RecoverReply where "Layer_HandleP3RecoverReply = HandleP3RecoverReply"
definition Layer_exec where "Layer_exec = exec"
definition Layer_forward where "Layer_forward = forward"


section \<open>The replica: what is repeated\<close>

text \<open>The environment of a replica that is started without command-line flags.\<close>

definition layer_flags :: "config \<Rightarrow> (nat \<Rightarrow> nat) \<Rightarrow> (ID \<Rightarrow> bool) \<Rightarrow> env" where
  "layer_flags c draw dial =
     \<lparr>conf = c, stableLeader = False, pg = 2, regionPeerGroups = False, useSmallP2b = True,
      stdPigTimeout = 50, rgSlack = 0, fixedrelay = False, rnd = draw, reachable = dial\<rparr>"

definition Layer_GetRandomNodeId where "Layer_GetRandomNodeId = GetRandomNodeId"
definition Layer_peersToGroups where "Layer_peersToGroups = peersToGroups"
definition Layer_NewReplica where "Layer_NewReplica = NewReplica"
definition Layer_Broadcast where "Layer_Broadcast = Broadcast"
definition Layer_BroadcastToPeerGroup where "Layer_BroadcastToPeerGroup = BroadcastToPeerGroup"
definition Layer_Send where "Layer_Send = loop_Send"
definition Layer_handleP1aRelay where "Layer_handleP1aRelay = handleP1aRelay"
definition Layer_newP2bRelay where "Layer_newP2bRelay = newP2bRelay"
definition Layer_handleP2aRelay where "Layer_handleP2aRelay = handleP2aRelay"
definition Layer_handleP1bLeader where "Layer_handleP1bLeader = handleP1bLeader"
definition Layer_handleP2bAggregated where "Layer_handleP2bAggregated = handleP2bAggregated"
definition Layer_computeMissingIDsForP2b where "Layer_computeMissingIDsForP2b = computeMissingIDsForP2b"
definition Layer_handleRequest where "Layer_handleRequest = handleRequest"

lemmas layer_repeats =
  Layer_HandleP1b_def Layer_HandleP2b_def Layer_HandleP3_def Layer_HandleP3RecoverRequest_def
  Layer_HandleP3RecoverReply_def Layer_IsLeader_def Layer_CheckTimeout_def Layer_CleanupLog_def
  Layer_Send_def Layer_handleP1aRelay_def Layer_handleP2aRelay_def Layer_handleP1bLeader_def
  Layer_handleP2bAggregated_def Layer_computeMissingIDsForP2b_def Layer_handleRequest_def

section \<open>The relays of the layered variant\<close>

definition Layer_readyToRelayP1b :: "Ballot \<Rightarrow> P1b list \<Rightarrow> 'a replica_scheme \<Rightarrow> bool go" where
  "Layer_readyToRelayP1b b p1bs r =
     go_bind (my_group r) (\<lambda>nodes.
       Inr (length p1bs = length nodes div 2 + 1 \<or>
            (length p1bs = length nodes div 2 \<and> Ballot_ID b \<in> set nodes)))"

definition Layer_handleP1bRelay :: "'a sender \<Rightarrow> P1b \<Rightarrow> 'a replica_scheme \<Rightarrow> 'a replica_scheme go" where
  "Layer_handleP1bRelay send m r =
     go_bind (deref (p1bRelayRoutedMsg r)) (\<lambda>rm.
       let p1bs = Payload rm @ [m];
           rm1 = RoutedMsg (Hops rm) (IsForward rm) (Progress rm) p1bs;
           r1 = r\<lparr>p1bRelayRoutedMsg := Some rm1\<rparr>
       in go_bind (Layer_readyToRelayP1b (P1b_Ballot m) p1bs r1) (\<lambda>ready.
            if ready then
              go_bind (GetLastProgressHop rm1) (\<lambda>hop.
                go_bind
                  (if Progress rm1 = 0 then send False hop (M_P1bs p1bs) r1
                   else send True hop (M_Routed (RoutedMsg (Hops rm1) (IsForward rm1) (Progress rm1) (M_P1bs p1bs))) r1)
                  (\<lambda>r2. Inr (r2\<lparr>pendingP1bRelay := 0, p1bRelayDepth := 0, p1bRelayRoutedMsg := None\<rparr>)))
            else Inr r1))"

definition Layer_handleP1b :: "env \<Rightarrow> goint \<Rightarrow> 'a sender \<Rightarrow> P1b \<Rightarrow> 'a replica_scheme \<Rightarrow> 'a replica_scheme go" where
  "Layer_handleP1b E now send m r =
     (if pendingP1bRelay r > 0 \<and> p1bRelayRoutedMsg r \<noteq> None then Layer_handleP1bRelay send m r
      else Inr (Layer_HandleP1b (conf E) now m r))"

definition Layer_readyToRelayP2b :: "goint \<Rightarrow> 'a replica_scheme \<Rightarrow> bool go" where
  "Layer_readyToRelayP2b m r =
     (case map_of (p2bRelaysMapByBalSlot r) m of
        None \<Rightarrow> Inr False
      | Some rm \<Rightarrow>
          go_bind (my_group r) (\<lambda>nodes.
            let n = length (P2b_ID (Payload rm))
            in Inr (n = length nodes div 2 + 1 \<or>
                    (n = length nodes div 2 \<and>
                     group_of r (Ballot_ID (P2b_Ballot (Payload rm))) = myRelayGroup r))))"

definition Layer_handleP2bRelay :: "env \<Rightarrow> 'a sender \<Rightarrow> P2b \<Rightarrow> 'a replica_scheme \<Rightarrow> 'a replica_scheme go" where
  "Layer_handleP2bRelay E send m r =
     (case map_of (p2bRelaysMapByBalSlot r) (P2b_Slot m) of
        None \<Rightarrow> Inr r
      | Some rm \<Rightarrow>
          let p2b = Payload rm in
          if P2b_Ballot p2b = P2b_Ballot m then
            let p2b1 = P2b (P2b_ID p2b @ P2b_ID m) (P2b_Ballot p2b) (P2b_Slot p2b);
                rm1 = RoutedMsg (Hops rm) (IsForward rm) (Progress rm) p2b1;
                r1 = r\<lparr>p2bRelaysMapByBalSlot := AList.update (P2b_Slot m) rm1 (p2bRelaysMapByBalSlot r)\<rparr>
            in go_bind (Layer_readyToRelayP2b (P2b_Slot m) r1) (\<lambda>ready.
                 if ready then
                   go_bind (Layer_computeMissingIDsForP2b p2b1 r1)
                     (\<lambda>missingIds. go_bind (relay_votes E send missingIds rm1 r1)
                        (\<lambda>r2. Inr (drop_relay (P2b_Slot m) r2)))
                 else Inr r1)
          else send True (Ballot_ID (P2b_Ballot p2b)) (M_P2b (P2b [] (P2b_Ballot m) (P2b_Slot m))) r)"

definition Layer_handleP2b :: "env \<Rightarrow> goint \<Rightarrow> 'a sender \<Rightarrow> P2b \<Rightarrow> 'a replica_scheme \<Rightarrow> 'a replica_scheme go" where
  "Layer_handleP2b E now send m r =
     (if Layer_IsLeader r then Layer_HandleP2b (conf E) now (P2b_Slot m) (P2b_Ballot m) (P2b_ID m) r
      else Layer_handleP2bRelay E send m r)"

definition Layer_handleRoutedMsg :: "env \<Rightarrow> goint \<Rightarrow> 'a sender \<Rightarrow> msg RoutedMsg \<Rightarrow> 'a replica_scheme \<Rightarrow> 'a replica_scheme go" where
  "Layer_handleRoutedMsg E now send m r =
     (if IsForward m then
        (case Payload m of
           M_P1a p1a \<Rightarrow>
             go_bind (Layer_handleP1aRelay now send p1a m r) (\<lambda>(need, r1).
               propagate m need (if need then r1\<lparr>p1bRelayDepth := Progress m\<rparr> else r1))
         | M_P2a p2a \<Rightarrow> go_bind (Layer_handleP2aRelay E now send p2a m r) (propagate m True)
         | M_P3 p3 \<Rightarrow> propagate m True (Layer_HandleP3 (conf E) p3 r)
         | _ \<Rightarrow> Inr r)
      else
        (case Payload m of
           M_P1b p1b \<Rightarrow> Layer_handleP1bRelay send p1b r
         | M_P2b p2b \<Rightarrow> Layer_handleP2bRelay E send p2b r
         | _ \<Rightarrow> Inr r))"

section \<open>Dispatch and timer\<close>

definition Layer_dispatch :: "env \<Rightarrow> goint \<Rightarrow> 'a sender \<Rightarrow> msg \<Rightarrow> 'a replica_scheme \<Rightarrow> 'a replica_scheme go" where
  "Layer_dispatch E now send m r =
     (case m of
        M_Request q \<Rightarrow> Inr (Layer_handleRequest E now q r)
      | M_P1b p1b \<Rightarrow> Layer_handleP1b E now send p1b r
      | M_P1bs p1bs \<Rightarrow> Inr (Layer_handleP1bLeader E now p1bs r)
      | M_P2b p2b \<Rightarrow> Layer_handleP2b E now send p2b r
      | M_P2bAggregated a \<Rightarrow> Layer_handleP2bAggregated E now a r
      | M_P3 p3 \<Rightarrow> Inr (Layer_HandleP3 (conf E) p3 r)
      | M_P3RecoverRequest q \<Rightarrow> Inr (Layer_HandleP3RecoverRequest q r)
      | M_P3RecoverReply q \<Rightarrow> Inr (Layer_HandleP3RecoverReply q r)
      | M_Routed rm \<Rightarrow> Layer_handleRoutedMsg E now send rm r
      | M_P1a _ \<Rightarrow> Inl NoHandler
      | M_P2a _ \<Rightarrow> Inl NoHandler)"

primrec Layer_HandleMsg :: "env \<Rightarrow> goint \<Rightarrow> nat \<Rightarrow> msg \<Rightarrow> 'a replica_scheme \<Rightarrow> 'a replica_scheme go" where
  "Layer_HandleMsg E now 0 m r = Inl StackOverflow"
| "Layer_HandleMsg E now (Suc k) m r = Layer_dispatch E now (Layer_Send (Layer_HandleMsg E now k)) m r"

definition Layer_deliver :: "env \<Rightarrow> goint \<Rightarrow> nat \<Rightarrow> msg \<Rightarrow> 'a replica_scheme \<Rightarrow> 'a replica_scheme go" where
  "Layer_deliver E now k m r = go_bind (Layer_HandleMsg E now k m r) (transmit E now (length (calls r)))"

definition Layer_tick :: "env \<Rightarrow> goint \<Rightarrow> goint \<Rightarrow> nat \<Rightarrow> nat \<Rightarrow> 'a replica_scheme \<Rightarrow> 'a replica_scheme go" where
  "Layer_tick E tnow now ticks k r =
     go_bind (tick_timeouts E tnow now (Layer_Send (Layer_HandleMsg E now k)) (tick_gray tnow ticks (tick_cleanup ticks r)))
       (transmit E now (length (calls r)))"

end
