(* ===== verification/LayerFacts.thy ===== *)
theory LayerFacts
  imports PigRelay LayerReplica
begin

text \<open>
  What the layered relays promise: a relay passes on exactly the votes of a majority of its group, the
  reports of all groups together with the leader's own vote make a majority of the nodes, and the
  handlers keep the invariant of the protocol core as those of PigPaxos do.
\<close>

section \<open>What a layered relay reports\<close>

text \<open>A layered relay that has collected votes of distinct members of its group keeps collecting, or,
  when it has those of a majority (or of half of the group when the owner of the ballot is a member,
  whose vote the leader has counted), sends one aggregated vote out of which the leader
  reads exactly the nodes that voted.\<close>

theorem layer_relay_reports_its_votes:
  assumes "map_of (p2bRelaysMapByBalSlot r) s = Some (RoutedMsg (root # hs) False 0 (P2b got b s))"
    and "my_group r = Inr nodes" and "distinct nodes" and "set (got @ new) \<subseteq> set nodes"
    and "useSmallP2b E" and "root \<noteq> pid r"
  shows "\<exists>r'. Layer_handleP2bRelay E (loop_Send H) (P2b new b s) r = Inr r' \<and>
    (if length (got @ new) = length nodes div 2 + 1 \<or>
        (length (got @ new) = length nodes div 2 \<and> group_of r (Ballot_ID b) = myRelayGroup r)
     then map_of (p2bRelaysMapByBalSlot r') s = None \<and>
       (\<exists>a. calls r' = calls r @ [CSend root (M_P2bAggregated a)] \<and> P2bA_Ballot a = b \<and> P2bA_Slot a = s \<and>
          RelayID a = pid r \<and> set (aggregated_ids a nodes) = set (got @ new))
     else map_of (p2bRelaysMapByBalSlot r') s = Some (RoutedMsg (root # hs) False 0 (P2b (got @ new) b s)) \<and>
       calls r' = calls r)"
proof -
  let ?votes = "got @ new"
  let ?rm = "RoutedMsg (root # hs) False 0 (P2b ?votes b s)"
  define r1 where "r1 = r\<lparr>p2bRelaysMapByBalSlot := AList.update s ?rm (p2bRelaysMapByBalSlot r)\<rparr>"
  have r1: "my_group r1 = Inr nodes" "group_of r1 = group_of r" "myRelayGroup r1 = myRelayGroup r"
    "pid r1 = pid r" "calls r1 = calls r" "map_of (p2bRelaysMapByBalSlot r1) s = Some ?rm" "execute r1 = execute r"
    using assms(2) by (auto simp: r1_def my_group_def group_of_def update_conv')
  define rdy where "rdy \<longleftrightarrow> length ?votes = length nodes div 2 + 1 \<or>
    (length ?votes = length nodes div 2 \<and> group_of r (Ballot_ID b) = myRelayGroup r)"
  let ?a = "P2bAggregated (fold swap_remove ?votes nodes) (pid r) (execute r - 1) b s"
  have ready: "Layer_readyToRelayP2b s r1 = Inr rdy"
    by (simp add: Layer_readyToRelayP2b_def r1 Let_def rdy_def)
  have step: "Layer_handleP2bRelay E (loop_Send H) (P2b new b s) r =
      (if rdy then Inr (drop_relay s (emit (CSend root (M_P2bAggregated ?a)) r1)) else Inr r1)"
    using assms(1,5,6) r1
    by (simp add: Layer_handleP2bRelay_def Let_def ready flip: r1_def)
      (cases rdy; simp add: relay_votes_def GetLastProgressHop_def hop_def loop_Send_def
        Layer_computeMissingIDsForP2b_def computeMissingIDsForP2b_def)
  have "map_of (p2bRelaysMapByBalSlot (drop_relay s (emit x r1))) s = None"
    "calls (drop_relay s (emit x r1)) = calls r @ [x]" for x
    using r1 by (simp_all add: drop_relay_def delete_conv emit_def)
  then show ?thesis
    unfolding step rdy_def [symmetric] using aggregated_ids_missing [OF assms(3,4)] r1 by auto
qed

text \<open>Node 2 relays for a group of five, has two votes and gets a third.\<close>

definition layer_example :: replica where
  "layer_example = relay_example\<lparr>relayGroups := [Some [2, 3, 4, 5, 6], Some [1]],
     p2bRelaysMapByBalSlot := [(0, RoutedMsg [1] False 0 (P2b [2, 5] (NewBallot 1 1) 0))]\<rparr>"

lemma layer_relay_reports_its_votes_witness:
  "\<exists>r' a. Layer_handleP2bRelay example_env (loop_Send (\<lambda>_. Inr)) (P2b [3] (NewBallot 1 1) 0) layer_example = Inr r'
    \<and> calls r' = calls layer_example @ [CSend 1 (M_P2bAggregated a)] \<and> set (aggregated_ids a [2, 3, 4, 5, 6]) = {2, 3, 5}"
proof -
  have "map_of (p2bRelaysMapByBalSlot layer_example) 0 = Some (RoutedMsg [1] False 0 (P2b [2, 5] (NewBallot 1 1) 0))"
    "my_group layer_example = Inr [2, 3, 4, 5, 6]" "useSmallP2b example_env" "1 \<noteq> pid layer_example"
    by (simp_all add: layer_example_def my_group_def slice_at_def example_env_def)
  then show ?thesis
    using layer_relay_reports_its_votes [of layer_example 0 1 "[]" "[2, 5]" "NewBallot 1 1" "[2, 3, 4, 5, 6]" "[3]"
        example_env "\<lambda>_. Inr"]
    by (auto simp: insert_commute)
qed

section \<open>A majority of majorities\<close>

text \<open>The votes of about half of a group: a majority, counted with the vote of the owner of the ballot.\<close>

definition about_half :: "ID \<Rightarrow> ID list \<Rightarrow> ID list \<Rightarrow> bool" where
  "about_half leader nodes votes \<longleftrightarrow> distinct votes \<and> set votes \<subseteq> set nodes \<and> leader \<notin> set votes \<and>
     (length votes = length nodes div 2 + 1 \<or> (length votes = length nodes div 2 \<and> leader \<in> set nodes))"

lemma reports_members:
  assumes "list_all2 (about_half leader) gs vss"
  shows "set (concat vss) \<subseteq> set (concat gs)" and "leader \<notin> set (concat vss)"
  using assms by (induction rule: list_all2_induct) (auto simp: about_half_def)

lemma reports_count:
  assumes "list_all2 (about_half leader) gs vss" "distinct (concat gs)"
  shows "distinct (concat vss) \<and>
    length (concat gs) + length gs \<le> 2 * length (concat vss) + (if leader \<in> set (concat gs) then 2 else 0)"
  using assms
proof (induction rule: list_all2_induct)
  case (Cons g gs vs vss)
  have g: "distinct vs" "set vs \<subseteq> set g"
    "length g + 1 \<le> 2 * length vs + (if leader \<in> set g then 2 else 0)"
    using Cons.hyps(1) by (auto simp: about_half_def)
  have d: "set g \<inter> set (concat gs) = {}" "distinct (concat gs)"
    using Cons.prems by (auto simp: distinct_append)
  have ih: "distinct (concat vss)"
    "length (concat gs) + length gs \<le> 2 * length (concat vss) + (if leader \<in> set (concat gs) then 2 else 0)"
    using Cons.IH d(2) by blast+
  have "set vs \<inter> set (concat vss) = {}"
    using g(2) d(1) reports_members(1) [OF Cons.hyps(2)] by blast
  moreover have "\<not> (leader \<in> set g \<and> leader \<in> set (concat gs))"
    using d(1) by blast
  ultimately show ?case
    using g ih by (cases "leader \<in> set g"; cases "leader \<in> set (concat gs)") simp_all
qed simp

text \<open>A relay of the group \<open>i\<close> that has collected votes for the proposal of the ballot \<open>b\<close> in the slot \<open>s\<close>: it knows the
  groups, and the votes are those of distinct members other than the owner of the ballot.\<close>

definition layer_relay :: "ID list option list \<Rightarrow> Ballot \<Rightarrow> goint \<Rightarrow> nat \<Rightarrow> ID list \<Rightarrow> ID list \<Rightarrow> replica \<Rightarrow> bool" where
  "layer_relay groups b s i got new r \<longleftrightarrow>
     relayGroups r = groups \<and> myRelayGroup r = int i \<and>
     (\<forall>k < length groups. \<forall>j \<in> set (the (groups ! k)). group_of r j = int k) \<and>
     (\<exists>root hs. map_of (p2bRelaysMapByBalSlot r) s = Some (RoutedMsg (root # hs) False 0 (P2b got b s)) \<and> root \<noteq> pid r) \<and>
     distinct (got @ new) \<and> set (got @ new) \<subseteq> set (the (groups ! i)) \<and> Ballot_ID b \<notin> set (got @ new)"

lemma distinct_aggregated: "distinct nodes \<Longrightarrow> distinct (aggregated_ids m nodes)"
  by (simp add: aggregated_ids_def set_fold_swap_remove(2))

text \<open>A relay that sends an aggregated vote has the votes of about half of its group.\<close>

lemma layer_relay_sends:
  assumes "layer_relay groups b s i got new r" "Layer_handleP2bRelay E (loop_Send H) (P2b new b s) r = Inr r'" "useSmallP2b E"
    and "calls r' = calls r @ [CSend to (M_P2bAggregated a)]"
    and "groups = map Some gs" "i < length gs" "distinct (concat gs)" "Ballot_ID b \<in> set (concat gs)"
  shows "about_half (Ballot_ID b) (gs ! i) (aggregated_ids a (gs ! i))"
proof -
  let ?g = "gs ! i"
  have d: "distinct ?g"
    using assms(6,7) by (metis distinct_concat_iff nth_mem)
  obtain root hs where r: "map_of (p2bRelaysMapByBalSlot r) s = Some (RoutedMsg (root # hs) False 0 (P2b got b s))" "root \<noteq> pid r"
    using assms(1) by (auto simp: layer_relay_def)
  have g: "my_group r = Inr ?g"
    using assms(1,5,6) by (simp add: layer_relay_def my_group_def slice_at_def)
  have v: "set (got @ new) \<subseteq> set ?g" "distinct (got @ new)" "Ballot_ID b \<notin> set (got @ new)"
    using assms(1,5,6) by (simp_all add: layer_relay_def)
  have own: "Ballot_ID b \<in> set ?g" if in_group: "group_of r (Ballot_ID b) = myRelayGroup r"
  proof -
    obtain k where k: "k < length gs" "Ballot_ID b \<in> set (gs ! k)"
      using assms(8) by (metis in_set_conv_nth set_concat UN_E)
    then have "group_of r (Ballot_ID b) = int k"
      using assms(1,5) by (simp add: layer_relay_def)
    then show ?thesis
      using in_group k(2) assms(1) by (simp add: layer_relay_def)
  qed
  have "set (aggregated_ids a ?g) = set (got @ new) \<and> (length (got @ new) = length ?g div 2 + 1 \<or>
        length (got @ new) = length ?g div 2 \<and> group_of r (Ballot_ID b) = myRelayGroup r)"
    using layer_relay_reports_its_votes [OF r(1) g d v(1) assms(3) r(2), of H] assms(2,4) by (auto split: if_splits)
  moreover from this have "length (aggregated_ids a ?g) = length (got @ new)"
    using v(2) distinct_aggregated [OF d] by (metis distinct_card)
  ultimately show ?thesis
    using v(1,3) own distinct_aggregated [OF d] by (auto simp: about_half_def)
qed

text \<open>C24: a leader splits the nodes into groups, and the relay of every group, given votes of distinct members of its group that
  are not the leader, sends an aggregated vote. Then the nodes that the leader reads out of the aggregated
  votes make a majority with the leader's own vote, although each relay waited for only about half of its
  group.\<close>

theorem layer_reports_make_a_majority:
  assumes "Layer_peersToGroups self num xs my = Inr (groups, my1)" "0 < num" "num \<le> int (length xs)" "distinct xs"
    and "Ballot_ID b \<in> set xs" "cfg_n c = int (length xs)" "useSmallP2b E"
    and "\<And>i. i < nat num \<Longrightarrow> layer_relay groups b s i (got i) (new i) (r i)"
    and "\<And>i. i < nat num \<Longrightarrow> Layer_handleP2bRelay E (loop_Send H) (P2b (new i) b s) (r i) = Inr (r' i)"
    and "\<And>i. i < nat num \<Longrightarrow> calls (r' i) = calls (r i) @ [CSend (to i) (M_P2bAggregated (a i))]"
  shows "Majority c (fold ACK (concat (map (\<lambda>i. aggregated_ids (a i) (the (groups ! i))) [0..<nat num])) (ACK (Ballot_ID b) NewQuorum))"
proof -
  let ?leader = "Ballot_ID b"
  obtain gs where gs: "groups = map Some gs" "int (length gs) = num" "concat gs = xs"
    using peer_groups_partition [OF assms(2,3), of self my] assms(1) by (auto simp: Layer_peersToGroups_def)
  let ?vss = "map (\<lambda>i. aggregated_ids (a i) (the (groups ! i))) [0..<nat num]"
  let ?q = "fold ACK (concat ?vss) (ACK ?leader NewQuorum)"
  have "about_half ?leader (gs ! i) (?vss ! i)" if "i < length gs" for i
    using layer_relay_sends [OF assms(8) assms(9) assms(7) assms(10) gs(1), of i] that gs assms(4,5) by auto
  then have half: "list_all2 (about_half ?leader) gs ?vss"
    using gs(2) by (auto simp: list_all2_conv_all_nth)
  have c: "distinct (concat ?vss)" "length (concat gs) + length gs \<le> 2 * length (concat ?vss) + 2"
    using reports_count [OF half] assms(4,5) gs(3) by auto
  have "wf_quorum ?q" "acks ?q = insert ?leader (set (concat ?vss))"
    by simp_all
  then have "qsize ?q = int (card (insert ?leader (set (concat ?vss))))"
    by (simp only: wf_quorum_def)
  also have "\<dots> = int (length (concat ?vss)) + 1"
    using c(1) reports_members(2) [OF half] distinct_card [OF c(1)] by simp
  finally have "2 * qsize ?q > int (length xs)"
    using c(2) gs(2,3) assms(2) by simp
  then show ?thesis
    using assms(6) by (simp add: Majority_def sdiv_nonneg)
qed

text \<open>Four nodes in two groups, led by node 1: node 2 relays its own vote, node 3 its own and that of node 4.\<close>

definition two_groups :: "nat \<Rightarrow> replica" where
  "two_groups i = relay_example\<lparr>relayGroups := [Some [1, 2], Some [3, 4]], myRelayGroup := int i,
     NodeIdsToGroup := fmap_of_list [(1, 0), (2, 0), (3, 1), (4, 1)],
     p2bRelaysMapByBalSlot := [(0, RoutedMsg [1] False 0 (P2b (if i = 0 then [] else [3]) (NewBallot 1 1) 0))]\<rparr>"

lemma layer_reports_make_a_majority_witness:
  "\<exists>a. Majority (default_config\<lparr>cfg_n := 4\<rparr>) (fold ACK (concat (map (\<lambda>i. aggregated_ids (a i) (the ([Some [1, 2], Some [3, 4]] ! i))) [0..<nat 2]))
     (ACK (1 :: ID) NewQuorum))"
proof -
  let ?groups = "[Some [1, 2], Some [3, 4]] :: ID list option list" and ?b = "NewBallot 1 1"
  let ?got = "\<lambda>i :: nat. if i = 0 then [] else [3]" and ?new = "\<lambda>i :: nat. if i = 0 then [2] else [4]"
  let ?a = "\<lambda>i :: nat. P2bAggregated (if i = 0 then [1] else []) 2 (-1) ?b 0"
  have b: "Ballot_ID ?b = 1" by code_simp
  have g: "Layer_peersToGroups 1 2 [1, 2, 3, 4] 0 = Inr (?groups, 0)"
    by code_simp
  have two: "i = 0 \<or> i = 1" if "i < nat 2" for i :: nat
    using that by auto
  have "\<exists>r' to a. Layer_handleP2bRelay example_env (loop_Send (\<lambda>_. Inr)) (P2b (?new i) ?b 0) (two_groups i) = Inr r' \<and>
      calls r' = calls (two_groups i) @ [CSend to (M_P2bAggregated a)]" if "i < nat 2" for i
  proof -
    have "my_group (two_groups i) = Inr (if i = 0 then [1, 2] else [3, 4])"
      "group_of (two_groups i) 1 = 0" "myRelayGroup (two_groups i) = int i"
      "map_of (p2bRelaysMapByBalSlot (two_groups i)) 0 = Some (RoutedMsg [1] False 0 (P2b (?got i) ?b 0))"
      "useSmallP2b example_env" "1 \<noteq> pid (two_groups i)"
      using two [OF that] by (auto simp: two_groups_def my_group_def slice_at_def group_of_def example_env_def)
    then show ?thesis
      using two [OF that] b layer_relay_reports_its_votes [of "two_groups i" 0 1 "[]" "?got i" ?b "if i = 0 then [1, 2] else [3, 4]" "?new i"
        example_env "\<lambda>_. Inr"] by auto
  qed
  then obtain r' to a where r: "i < nat 2 \<Longrightarrow> Layer_handleP2bRelay example_env (loop_Send (\<lambda>_. Inr)) (P2b (?new i) ?b 0) (two_groups i) = Inr (r' i)"
    "i < nat 2 \<Longrightarrow> calls (r' i) = calls (two_groups i) @ [CSend (to i) (M_P2bAggregated (a i))]" for i
    by metis
  have "layer_relay ?groups ?b 0 i (?got i) (?new i) (two_groups i)" if "i < nat 2" for i
    using two [OF that] b by (auto simp: layer_relay_def two_groups_def group_of_def less_Suc_eq)
  from layer_reports_make_a_majority [OF g _ _ _ _ _ _ this r, of "default_config\<lparr>cfg_n := 4\<rparr>"] show ?thesis
    using b by (auto simp: example_env_def)
qed


section \<open>The invariant\<close>

lemma keeps_Layer_handleP1bRelay:
  assumes "sends_well send" "Layer_handleP1bRelay send m r = Inr r'"
  shows "keeps r (M_P1b m) r'"
proof -
  from assms(2) obtain rm where rm: "p1bRelayRoutedMsg r = Some rm"
    by (auto simp: Layer_handleP1bRelay_def)
  show ?thesis
    using assms(2) keeps_collect_P1b [where m = m, OF assms(1) rm]
    unfolding Layer_handleP1bRelay_def Let_def rm deref_simps go_bind_simps
    by (auto simp: keeps_forget split: if_splits)
qed

lemma keeps_Layer_handleP1b:
  assumes "sends_well send" "Layer_handleP1b E now send m r = Inr r'"
  shows "keeps r (M_P1b m) r'"
proof -
  have "keeps r (M_P1b m) (HandleP1b (conf E) now m r)"
    by (rule keeps_core [OF grows_HandleP1b good_HandleP1b])
  then show ?thesis
    using assms keeps_Layer_handleP1bRelay by (auto simp: Layer_handleP1b_def layer_repeats split: if_splits)
qed

lemma keeps_Layer_handleP2bRelay:
  assumes "sends_well send" "Layer_handleP2bRelay E send m r = Inr r'"
  shows "keeps r (M_P2b m) r'"
proof (cases "map_of (p2bRelaysMapByBalSlot r) (P2b_Slot m)")
  case (Some rm)
  note c = keeps_collect_P2b [OF assms(1) Some] and e = assms(2) [unfolded Layer_handleP2bRelay_def Some option.case Let_def]
  show ?thesis
  proof (cases "P2b_Ballot (Payload rm) = P2b_Ballot m")
    case True
    show ?thesis
      using e [unfolded if_P [OF True] go_bind_eq_Inr] c(1)
      by (auto split: if_splits intro: keeps_drop_relay [OF c(2)])
  next
    case False
    show ?thesis
      using e [unfolded if_not_P [OF False]] c(3) by blast
  qed
qed (use assms in \<open>simp add: Layer_handleP2bRelay_def\<close>)

lemma keeps_Layer_handleP2b:
  assumes "sends_well send" "Layer_handleP2b E now send m r = Inr r'"
  shows "keeps r (M_P2b m) r'"
  using assms keeps_Layer_handleP2bRelay keeps_HandleP2b
  by (auto simp: Layer_handleP2b_def layer_repeats split: if_splits)

text \<open>A message on its way out is handled as by PigPaxos.\<close>

lemma Layer_handleRoutedMsg_forward:
  "IsForward rm \<Longrightarrow> Layer_handleRoutedMsg E now send rm r = handleRoutedMsg E now send rm r"
  by (simp add: Layer_handleRoutedMsg_def handleRoutedMsg_def layer_repeats cong: msg.case_cong)

lemma keeps_Layer_handleRoutedMsg:
  assumes "sends_well send" "Layer_handleRoutedMsg E now send rm r = Inr r'" "own_free (pid r) (M_Routed rm)"
  shows "keeps r (M_Routed rm) r'"
proof (cases "IsForward rm")
  case True
  then show ?thesis
    using assms keeps_handleRoutedMsg Layer_handleRoutedMsg_forward by metis
next
  case False
  have c: "keeps r (M_Routed rm) q" if "keeps r x q" "x = Payload rm" for q x
    by (rule keeps_trans [OF keeps_refl that(1)]) (cases rm; simp add: that(2))
  show ?thesis
    using assms(2) False c keeps_Layer_handleP1bRelay [OF assms(1)] keeps_Layer_handleP2bRelay [OF assms(1)]
    by (cases "Payload rm") (auto simp: Layer_handleRoutedMsg_def)
qed

lemma keeps_Layer_dispatch:
  assumes "sends_well send" "Layer_dispatch E now send m r = Inr r'" "own_free (pid r) m"
    and "\<And>q. m = M_Request q \<Longrightarrow> Ballot_N (ballot r) < 2 ^ 32 - 1"
  shows "keeps r m r'"
proof (cases "(\<exists>x. m = M_P1b x) \<or> (\<exists>x. m = M_P2b x) \<or> (\<exists>x. m = M_Routed x)")
  case True
  then show ?thesis
    using assms keeps_Layer_handleP1b keeps_Layer_handleP2b keeps_Layer_handleRoutedMsg
    by (auto simp: Layer_dispatch_def)
next
  case False
  then have "Layer_dispatch E now send m r = dispatch E now send m r"
    by (cases m) (simp_all add: Layer_dispatch_def dispatch_def layer_repeats)
  then show ?thesis
    using assms keeps_dispatch by metis
qed

lemma Layer_HandleMsg_sends_well: "sends_well (Layer_Send (Layer_HandleMsg E now k))"
proof (induction k)
  case 0
  show ?case unfolding Layer_Send_def by (rule sends_well_loop) simp
next
  case (Suc k)
  show ?case
    unfolding Layer_Send_def
    by (rule sends_well_loop) (use keeps_Layer_dispatch [OF Suc] in \<open>fastforce simp: backward_def\<close>)
qed

interpretation layer: node_send "Layer_Send (Layer_HandleMsg E now k) False" rgood for E now k
  by (rule replica_node_send [OF Layer_HandleMsg_sends_well])

text \<open>handling a message at a layered replica, with everything it sends to itself and with the calls
  carried out on the network, keeps the invariant of the protocol core.\<close>

theorem layer_replica_keeps_the_invariant:
  assumes "rgood Q r" and "msg_ok (Q \<union> proposals r) m" and "own_free (pid r) m"
    and "Ballot_N (ballot r) < 2 ^ 32 - 1" and "Layer_deliver E now k m r = Inr r'"
  shows "rgood Q r' \<and> advances r r'"
proof -
  from assms(5) obtain r1 where r1: "Layer_HandleMsg E now k m r = Inr r1" "transmit E now (length (calls r)) r1 = Inr r'"
    by (auto simp: Layer_deliver_def)
  then obtain j where "k = Suc j"
    by (cases k) auto
  then have "keeps r m r1"
    using keeps_Layer_dispatch [OF Layer_HandleMsg_sends_well _ assms(3,4)] r1(1) by simp
  then have "rgood Q r1" "advances r r1"
    using assms(1,2) by (auto simp: keeps_def)
  then show ?thesis
    using network_only_keeps [OF transmit_network_only [OF r1(2)]] advances_trans by blast
qed

lemma layer_replica_keeps_the_invariant_witness:
  "\<exists>r'. Layer_deliver example_env 5 2 (M_P2b (P2b [3] (NewBallot 1 1) 0)) layer_example = Inr r' \<and> rgood {} r'"
proof -
  let ?m = "M_P2b (P2b [3] (NewBallot 1 1) 0)"
  have "case Layer_deliver example_env 5 2 ?m layer_example of Inl _ \<Rightarrow> False | Inr _ \<Rightarrow> True"
    by code_simp
  then obtain r' where r': "Layer_deliver example_env 5 2 ?m layer_example = Inr r'"
    by (auto split: sum.splits)
  have "rgood {} layer_example"
    by (simp add: layer_example_def rgood_def good_defs relay_example_def pigpaxos.defs NewPigPaxos_def proposals_def sent_def)
  moreover have "Ballot_N (ballot layer_example) < 2 ^ 32 - 1"
    by (simp add: layer_example_def relay_example_def pigpaxos.defs NewPigPaxos_def Ballot_N_def)
  ultimately show ?thesis
    using layer_replica_keeps_the_invariant [of "{}" layer_example ?m example_env 5 2, OF _ _ _ _ r'] r' by auto
qed

end
