(* ===== verification/ChainReplica.thy ===== *)
theory ChainReplica
  imports PigReplica
begin

text \<open>
  The chained variant: inside a group the proposal travels along the nodes in their order, and only the
  last one votes. \<open>chainpaxos/chainpaxos.go\<close> repeats the protocol object of \<open>pigpaxos/pigpaxos.go\<close>
  method by method and adds the two handlers of the chain; \<open>chainpaxos/replica.go\<close> sends the
  chain on its way, follows it and counts its two votes. What is repeated is defined as the operation it
  repeats. The chained messages a replica sends are collected in \<open>chainCalls\<close>, next to \<open>calls\<close>.
\<close>

section \<open>The protocol object: what is repeated\<close>

definition Chain_NewChainPaxos where "Chain_NewChainPaxos = NewPigPaxos"
definition Chain_IsLeader where "Chain_IsLeader = IsLeader"
definition Chain_CheckTimeout where "Chain_CheckTimeout = CheckTimeout"
definition Chain_Leader where "Chain_Leader = Leader"
definition Chain_SetActive where "Chain_SetActive = SetActive"
definition Chain_SetBallot where "Chain_SetBallot = SetBallot"
definition Chain_UpdateLastExecuteByNode where "Chain_UpdateLastExecuteByNode = UpdateLastExecuteByNode"
definition Chain_GetSafeLogCleanupMarker where "Chain_GetSafeLogCleanupMarker = GetSafeLogCleanupMarker"
definition Chain_CleanupLog where "Chain_CleanupLog = CleanupLog"
definition Chain_HandleRequest where "Chain_HandleRequest = HandleRequest"
definition Chain_P1a where "Chain_P1a = StartP1a"
definition Chain_RetryP1a where "Chain_RetryP1a = RetryP1a"
definition Chain_P2a where "Chain_P2a = StartP2a"
definition Chain_RetryP2a where "Chain_RetryP2a = RetryP2a"
definition Chain_HandleP1a where "Chain_HandleP1a = HandleP1a"
definition Chain_update where "Chain_update = update_log"
definition Chain_HandleP1b where "Chain_HandleP1b = HandleP1b"
definition Chain_HandleP2a where "Chain_HandleP2a = HandleP2a"
definition Chain_HandleP2b where "Chain_HandleP2b = HandleP2b"
definition Chain_HandleP3 where "Chain_HandleP3 = HandleP3"
definition Chain_sendRecoverRequest where "Chain_sendRecoverRequest = sendRecoverRequest"
definition Chain_HandleP3RecoverRequest where "Chain_HandleP3RecoverRequest = HandleP3RecoverRequest"
definition Chain_HandleP3RecoverReply where "Chain_HandleP3RecoverReply = HandleP3RecoverReply"
definition Chain_exec where "Chain_exec = exec"
definition Chain_forward where "Chain_forward = forward"

section \<open>The chained proposal\<close>

datatype P2aChain =
  P2aChain (pc_Ballot: Ballot) (pc_Slot: goint) (pc_GlobalExecute: goint) (pc_Command: Command)
    (pc_P3msg: P3) (pc_Hops: "ID list") (pc_PeerGroupNode: "ID list") (pc_msg: "msg RoutedMsg")
    (pc_RelayID: ID)

text \<open>The fields of a proposal, which both handlers read like those of a \<open>P2a\<close>.\<close>

definition carried_P2a :: "P2aChain \<Rightarrow> P2a" where
  "carried_P2a m = P2a (pc_Ballot m) (pc_Slot m) (pc_GlobalExecute m) (pc_Command m) (pc_P3msg m)"

definition HandleP2aChain :: "config \<Rightarrow> P2aChain \<Rightarrow> 'a pigpaxos_scheme \<Rightarrow> 'a pigpaxos_scheme" where
  "HandleP2aChain c m p =
     (let p1 = accept_P2a (carried_P2a m) p
      in if P3_Slot (pc_P3msg m) \<noteq> [] then Chain_HandleP3 c (pc_P3msg m) p1 else p1)"

definition HandleP2aChainTail ::
  "config \<Rightarrow> (ID \<Rightarrow> msg \<Rightarrow> 'a pigpaxos_scheme \<Rightarrow> 'a pigpaxos_scheme go) \<Rightarrow> P2aChain \<Rightarrow> ID
   \<Rightarrow> 'a pigpaxos_scheme \<Rightarrow> 'a pigpaxos_scheme go" where
  "HandleP2aChainTail c send m next p =
     (let p1 = accept_P2a (carried_P2a m) p
      in go_bind (send (pc_RelayID m) (M_P2b (P2b [pid p1] (ballot p1) (pc_Slot m))) p1)
           (\<lambda>p2. Inr (if P3_Slot (pc_P3msg m) \<noteq> [] then Chain_HandleP3 c (pc_P3msg m) p2 else p2)))"

section \<open>The replica: what is repeated\<close>

record chain_replica = replica +
  chainCalls :: "(ID \<times> P2aChain) list"
  chainOutbox :: "(ID \<times> P2aChain) list"

text \<open>The environment of a replica that is started without command-line flags.\<close>

definition chain_flags :: "config \<Rightarrow> (nat \<Rightarrow> nat) \<Rightarrow> (ID \<Rightarrow> bool) \<Rightarrow> env" where
  "chain_flags c draw dial =
     \<lparr>conf = c, stableLeader = True, pg = 1, regionPeerGroups = False, useSmallP2b = True,
      stdPigTimeout = 50, rgSlack = 0, fixedrelay = True, rnd = draw, reachable = dial\<rparr>"

definition Chain_NewReplica :: "env \<Rightarrow> ID \<Rightarrow> ID list \<Rightarrow> chain_replica go" where
  "Chain_NewReplica E self addrs =
     go_bind (NewReplica E self addrs)
       (\<lambda>r. Inr (replica.extend r \<lparr>chainCalls = [], chainOutbox = []\<rparr>))"

definition Chain_GetRandomNodeId where "Chain_GetRandomNodeId = GetRandomNodeId"
definition Chain_peersToGroups where "Chain_peersToGroups = peersToGroups"
definition Chain_Broadcast where "Chain_Broadcast = Broadcast"
definition Chain_BroadcastToPeerGroup where "Chain_BroadcastToPeerGroup = BroadcastToPeerGroup"
definition Chain_handleP1aRelay where "Chain_handleP1aRelay = handleP1aRelay"
definition Chain_newP2bRelay where "Chain_newP2bRelay = newP2bRelay"
definition Chain_handleP1bLeader where "Chain_handleP1bLeader = handleP1bLeader"
definition Chain_handleP1bRelay where "Chain_handleP1bRelay = handleP1bRelay"
definition Chain_readyToRelayP1b where "Chain_readyToRelayP1b = readyToRelayP1b"
definition Chain_handleP1b where "Chain_handleP1b = handleP1b"
definition Chain_handleP2bAggregated where "Chain_handleP2bAggregated = handleP2bAggregated"
definition Chain_computeMissingIDsForP2b where "Chain_computeMissingIDsForP2b = computeMissingIDsForP2b"
definition Chain_handleRequest where "Chain_handleRequest = handleRequest"
definition Chain_Send where "Chain_Send = loop_Send"

lemmas chain_repeats =
  Chain_HandleP1b_def Chain_HandleP2b_def Chain_HandleP2a_def Chain_HandleP3_def
  Chain_HandleP3RecoverRequest_def Chain_HandleP3RecoverReply_def Chain_IsLeader_def
  Chain_CheckTimeout_def Chain_CleanupLog_def Chain_Send_def Chain_BroadcastToPeerGroup_def
  Chain_handleP1aRelay_def Chain_newP2bRelay_def Chain_handleP1bLeader_def Chain_handleP1bRelay_def
  Chain_handleP1b_def Chain_handleP2bAggregated_def Chain_computeMissingIDsForP2b_def
  Chain_handleRequest_def

section \<open>The chain\<close>

type_synonym chain_sender = "bool \<Rightarrow> ID \<Rightarrow> msg \<Rightarrow> chain_replica \<Rightarrow> chain_replica go"

text \<open>\<open>go r.Send(id, p2aChain)\<close> to the first member of the group that is neither the relay nor the source.\<close>

definition SendToChainHead :: "ID list \<Rightarrow> ID \<Rightarrow> msg RoutedMsg \<Rightarrow> chain_replica \<Rightarrow> chain_replica go" where
  "SendToChainHead nodes originalSourceToExclude m r =
     (case Payload m of
        M_P2a p \<Rightarrow>
          go_bind (my_group r) (\<lambda>group.
            let p2aChain = P2aChain (P2a_Ballot p) (P2a_Slot p) (P2a_GlobalExecute p) (P2a_Command p)
                             (P2a_P3msg p) (Hops m) group m (pid r)
            in Inr (case find (\<lambda>i. i \<noteq> pid r \<and> i \<noteq> originalSourceToExclude) nodes of
                      None \<Rightarrow> r
                    | Some i \<Rightarrow> r\<lparr>chainCalls := chainCalls r @ [(i, p2aChain)]\<rparr>))
      | _ \<Rightarrow> Inr r)"

definition contains :: "ID list \<Rightarrow> ID \<Rightarrow> bool" where
  "contains s e = list_ex (\<lambda>a. a = e) s"

text \<open>\<open>handleP2aFollower\<close>: the last node of the group votes, every other one passes the message to the first
  node that is not among the hops.\<close>

definition handleP2aFollower :: "env \<Rightarrow> chain_sender \<Rightarrow> P2aChain \<Rightarrow> chain_replica \<Rightarrow> chain_replica go" where
  "handleP2aFollower E send m r =
     go_bind (my_group r) (\<lambda>nodes.
       if nodes = [] then Inl IndexOutOfRange
       else if pid r = last nodes then
         go_bind (slice_at (fixedRelays r) (myRelayGroup r))
           (\<lambda>next. HandleP2aChainTail (conf E) (send False) m next r)
       else
         let r1 = HandleP2aChain (conf E) m r;
             m1 = P2aChain (pc_Ballot m) (pc_Slot m) (pc_GlobalExecute m) (pc_Command m) (pc_P3msg m)
                    (pc_Hops m @ [pid r1]) (pc_PeerGroupNode m) (pc_msg m) (pc_RelayID m)
         in Inr (case find (\<lambda>node. \<not> contains (pc_Hops m1) node) nodes of
                   None \<Rightarrow> r1
                 | Some i \<Rightarrow> r1\<lparr>chainCalls := chainCalls r1 @ [(i, m1)]\<rparr>))"

section \<open>The relay\<close>

text \<open>At the maximal depth \<open>handleP2aRelay\<close> does nothing: a proposal reaches the members as a chain.\<close>

definition Chain_handleP2aRelay ::
  "env \<Rightarrow> goint \<Rightarrow> 'a sender \<Rightarrow> P2a \<Rightarrow> msg RoutedMsg \<Rightarrow> 'a replica_scheme \<Rightarrow> 'a replica_scheme go" where
  "Chain_handleP2aRelay E now send m routedMsg r =
     (if (Progress routedMsg + 1) mod 256 = maxDepth r then Inr r
      else
        go_bind
          (case map_of (p2bRelaysMapByBalSlot r) (P2a_Slot m) of
             None \<Rightarrow> Inr (Chain_newP2bRelay now m routedMsg r)
           | Some rm \<Rightarrow>
               let b = P2b_Ballot (Payload rm) in
               if b < P2a_Ballot m then
                 go_bind (send True (Ballot_ID b) (M_P2b (P2b [] (P2a_Ballot m) (P2a_Slot m))) r)
                   (\<lambda>r1. Inr (Chain_newP2bRelay now m routedMsg r1))
               else if b > P2a_Ballot m then
                 send True (Ballot_ID b) (M_P2b (P2b [] b (P2a_Slot m))) r
               else Inr r)
          (\<lambda>r1. Chain_HandleP2a (conf E) (send False) m (pid r1) r1))"

definition Chain_readyToRelayP2b :: "goint \<Rightarrow> 'a replica_scheme \<Rightarrow> bool" where
  "Chain_readyToRelayP2b m r =
     (case map_of (p2bRelaysMapByBalSlot r) m of
        None \<Rightarrow> False
      | Some rm \<Rightarrow> int (length (P2b_ID (Payload rm))) = 2 - relaySlack r)"

definition Chain_handleP2bRelay :: "env \<Rightarrow> 'a sender \<Rightarrow> P2b \<Rightarrow> 'a replica_scheme \<Rightarrow> 'a replica_scheme go" where
  "Chain_handleP2bRelay E send m r =
     (case map_of (p2bRelaysMapByBalSlot r) (P2b_Slot m) of
        None \<Rightarrow> Inr r
      | Some rm \<Rightarrow>
          let p2b = Payload rm in
          if P2b_Ballot p2b = P2b_Ballot m then
            let p2b1 = P2b (P2b_ID p2b @ P2b_ID m) (P2b_Ballot p2b) (P2b_Slot p2b);
                rm1 = RoutedMsg (Hops rm) (IsForward rm) (Progress rm) p2b1;
                r1 = r\<lparr>p2bRelaysMapByBalSlot := AList.update (P2b_Slot m) rm1 (p2bRelaysMapByBalSlot r)\<rparr>
            in if Chain_readyToRelayP2b (P2b_Slot m) r1 then
                 go_bind (if relaySlack r1 > 0 then Chain_computeMissingIDsForP2b p2b1 r1 else Inr [])
                   (\<lambda>missingIds. go_bind (relay_votes E send missingIds rm1 r1)
                      (\<lambda>r2. Inr (drop_relay (P2b_Slot m) r2)))
               else Inr r1
          else send True (Ballot_ID (P2b_Ballot p2b)) (M_P2b (P2b [] (P2b_Ballot m) (P2b_Slot m))) r)"

definition Chain_handleP2b ::
  "env \<Rightarrow> goint \<Rightarrow> 'a sender \<Rightarrow> P2b \<Rightarrow> 'a replica_scheme \<Rightarrow> 'a replica_scheme go" where
  "Chain_handleP2b E now send m r =
     (if Chain_IsLeader r then Chain_HandleP2b (conf E) now (P2b_Slot m) (P2b_Ballot m) (P2b_ID m) r
      else Chain_handleP2bRelay E send m r)"

text \<open>The end of \<open>handleRoutedMsg\<close>: a prepare is broadcast to the group, a proposal is sent along the
  chain, and an announcement goes no further.\<close>

definition Chain_propagate :: "msg RoutedMsg \<Rightarrow> bool \<Rightarrow> chain_replica \<Rightarrow> chain_replica go" where
  "Chain_propagate m needToPropagate r =
     (let next = (Progress m + 1) mod 256 in
      if next < maxDepth r \<and> needToPropagate then
        go_bind (slice_at (relayGroups r) (myRelayGroup r)) (\<lambda>pgToBroadcast.
          let m1 = RoutedMsg (Hops m @ [pid r]) (IsForward m) next (Payload m)
          in case Payload m of
               M_P1a _ \<Rightarrow> go_bind (deref pgToBroadcast) (\<lambda>nodes.
                 go_bind (GetPreviousProgressHop m1) (\<lambda>hop. Inr (Chain_BroadcastToPeerGroup nodes hop m1 r)))
             | M_P2a _ \<Rightarrow> go_bind (deref pgToBroadcast) (\<lambda>nodes.
                 go_bind (GetPreviousProgressHop m1) (\<lambda>hop. SendToChainHead nodes hop m1 r))
             | _ \<Rightarrow> Inr r)
      else Inr r)"

definition Chain_handleRoutedMsg ::
  "env \<Rightarrow> goint \<Rightarrow> chain_sender \<Rightarrow> msg RoutedMsg \<Rightarrow> chain_replica \<Rightarrow> chain_replica go" where
  "Chain_handleRoutedMsg E now send m r =
     (if IsForward m then
        (case Payload m of
           M_P1a p1a \<Rightarrow>
             go_bind (Chain_handleP1aRelay now send p1a m r) (\<lambda>(need, r1).
               Chain_propagate m need (if need then r1\<lparr>p1bRelayDepth := Progress m\<rparr> else r1))
         | M_P2a p2a \<Rightarrow> go_bind (Chain_handleP2aRelay E now send p2a m r) (Chain_propagate m True)
         | M_P3 p3 \<Rightarrow> Chain_propagate m True (Chain_HandleP3 (conf E) p3 r)
         | _ \<Rightarrow> Inr r)
      else
        (case Payload m of
           M_P1b p1b \<Rightarrow> Chain_handleP1bRelay send p1b r
         | M_P2b p2b \<Rightarrow> Chain_handleP2bRelay E send p2b r
         | _ \<Rightarrow> Inr r))"

section \<open>Dispatch and timer\<close>

definition Chain_dispatch ::
  "env \<Rightarrow> goint \<Rightarrow> chain_sender \<Rightarrow> msg \<Rightarrow> chain_replica \<Rightarrow> chain_replica go" where
  "Chain_dispatch E now send m r =
     (case m of
        M_Request q \<Rightarrow> Inr (Chain_handleRequest E now q r)
      | M_P1b p1b \<Rightarrow> Chain_handleP1b E now send p1b r
      | M_P1bs p1bs \<Rightarrow> Inr (Chain_handleP1bLeader E now p1bs r)
      | M_P2b p2b \<Rightarrow> Chain_handleP2b E now send p2b r
      | M_P2bAggregated a \<Rightarrow> Chain_handleP2bAggregated E now a r
      | M_P3 p3 \<Rightarrow> Inr (Chain_HandleP3 (conf E) p3 r)
      | M_P3RecoverRequest q \<Rightarrow> Inr (Chain_HandleP3RecoverRequest q r)
      | M_P3RecoverReply q \<Rightarrow> Inr (Chain_HandleP3RecoverReply q r)
      | M_Routed rm \<Rightarrow> Chain_handleRoutedMsg E now send rm r
      | M_P1a _ \<Rightarrow> Inl NoHandler
      | M_P2a _ \<Rightarrow> Inl NoHandler)"

primrec Chain_HandleMsg :: "env \<Rightarrow> goint \<Rightarrow> nat \<Rightarrow> msg \<Rightarrow> chain_replica \<Rightarrow> chain_replica go" where
  "Chain_HandleMsg E now 0 m r = Inl StackOverflow"
| "Chain_HandleMsg E now (Suc k) m r = Chain_dispatch E now (Chain_Send (Chain_HandleMsg E now k)) m r"

text \<open>The handler of a \<open>P2aChain\<close>, which arrives from the network only.\<close>

definition Chain_HandleChain :: "env \<Rightarrow> goint \<Rightarrow> nat \<Rightarrow> P2aChain \<Rightarrow> chain_replica \<Rightarrow> chain_replica go" where
  "Chain_HandleChain E now k m r = handleP2aFollower E (Chain_Send (Chain_HandleMsg E now k)) m r"

text \<open>Carrying out the chained sends; a dial error puts the node on the gray list.\<close>

definition chain_transmit :: "env \<Rightarrow> goint \<Rightarrow> nat \<Rightarrow> chain_replica \<Rightarrow> chain_replica" where
  "chain_transmit E now n r =
     fold (\<lambda>(to, m) r. if reachable E to then r\<lparr>chainOutbox := chainOutbox r @ [(to, m)]\<rparr>
                       else r\<lparr>GrayNodes := AList.update to now (GrayNodes r)\<rparr>)
       (drop n (chainCalls r)) r"

definition Chain_tick :: "env \<Rightarrow> goint \<Rightarrow> goint \<Rightarrow> nat \<Rightarrow> nat \<Rightarrow> chain_replica \<Rightarrow> chain_replica go" where
  "Chain_tick E tnow now ticks k r =
     go_bind (tick_timeouts E tnow now (Chain_Send (Chain_HandleMsg E now k)) (tick_gray tnow ticks (tick_cleanup ticks r)))
       (transmit E now (length (calls r)))"

end
