(* ===== verification/ChainFacts.thy ===== *)
theory ChainFacts
  imports PigRelay ChainReplica
begin

text \<open>
  What the chained variant does: the chain visits the members of a group in their order and ends at the
  last one; the handlers keep the invariant of the protocol core; but a relay takes its own vote and
  the last member's for the votes of the whole group.
\<close>

section \<open>The handlers of the chain\<close>

lemma HandleP2aChainTail_eq: "HandleP2aChainTail c send m next p = HandleP2a c send (carried_P2a m) (pc_RelayID m) p"
  by (simp add: HandleP2aChainTail_def HandleP2a_def carried_P2a_def chain_repeats Let_def cong: if_cong)

lemma HandleP2aChain_eq:
  "HandleP2aChain c m p = (let p1 = accept_P2a (carried_P2a m) p
     in if P3_Slot (pc_P3msg m) \<noteq> [] then HandleP3 c (pc_P3msg m) p1 else p1)"
  by (simp add: HandleP2aChain_def chain_repeats cong: if_cong)

lemma accept_P2a_more [simp]: "pigpaxos.more (accept_P2a m p) = pigpaxos.more p"
  by (auto simp: accept_P2a_def accept_entry_def set_entry_def emit_def split: option.split)

lemma chain_more:
  fixes q r :: chain_replica
  assumes "pigpaxos.more q = pigpaxos.more r"
  shows "chainCalls q = chainCalls r" "relayGroups q = relayGroups r" "fixedRelays q = fixedRelays r"
    "myRelayGroup q = myRelayGroup r"
  using assms by (cases q; cases r; simp)+

lemma accept_P2a_chain [simp]:
  fixes r :: chain_replica
  shows "chainCalls (accept_P2a m r) = chainCalls r"
  by (rule chain_more) simp

section \<open>The way of the chain\<close>

text \<open>The chain of a group: each member handles the message, and what it passes on is handled by the next.\<close>

fun chain_walk :: "env \<Rightarrow> goint \<Rightarrow> nat \<Rightarrow> (ID \<Rightarrow> chain_replica) \<Rightarrow> ID \<Rightarrow> P2aChain
  \<Rightarrow> (ID list \<times> (ID \<Rightarrow> chain_replica)) go" where
  "chain_walk E now 0 S i m = Inl StackOverflow"
| "chain_walk E now (Suc n) S i m =
     go_bind (Chain_HandleChain E now 1 m (S i)) (\<lambda>r.
       case drop (length (chainCalls (S i))) (chainCalls r) of
         [] \<Rightarrow> Inr ([i], S(i := r))
       | (j, m1) # _ \<Rightarrow> go_bind (chain_walk E now n (S(i := r)) j m1) (\<lambda>(path, S1). Inr (i # path, S1)))"

text \<open>A group whose members know each other and themselves.\<close>

definition chain_group :: "ID list \<Rightarrow> (ID \<Rightarrow> chain_replica) \<Rightarrow> bool" where
  "chain_group nodes S \<longleftrightarrow> distinct nodes \<and> nodes \<noteq> [] \<and>
     (\<forall>i \<in> set nodes. pid (S i) = i \<and> my_group (S i) = Inr nodes \<and>
        0 \<le> myRelayGroup (S i) \<and> myRelayGroup (S i) < int (length (fixedRelays (S i))))"

lemma find_filter: "find P xs = (case filter P xs of [] \<Rightarrow> None | x # _ \<Rightarrow> Some x)"
  by (induction xs) auto

lemma contains_iff: "contains xs x \<longleftrightarrow> x \<in> set xs"
  by (auto simp: contains_def list_ex_iff)

lemma follower_tail:
  assumes "my_group r = Inr nodes" "nodes \<noteq> []" "pid r = last nodes" "pc_RelayID m \<noteq> pid r"
    "0 \<le> myRelayGroup r" "myRelayGroup r < int (length (fixedRelays r))" "P3_Slot (pc_P3msg m) = []"
  shows "Chain_HandleChain E now k m r =
    Inr (let r1 = accept_P2a (carried_P2a m) r
         in emit (CSend (pc_RelayID m) (M_P2b (P2b [pid r] (ballot r1) (pc_Slot m)))) r1)"
  using assms by (simp add: Chain_HandleChain_def handleP2aFollower_def HandleP2aChainTail_def chain_repeats
      loop_Send_def slice_at_def Let_def)

lemma follower_inner:
  assumes "my_group r = Inr nodes" "nodes \<noteq> []" "pid r \<noteq> last nodes" "P3_Slot (pc_P3msg m) = []"
    "filter (\<lambda>i. i \<notin> set (pc_Hops m) \<and> i \<noteq> pid r) nodes = j # js"
  shows "\<exists>m1. Chain_HandleChain E now k m r =
      Inr ((accept_P2a (carried_P2a m) r)\<lparr>chainCalls := chainCalls r @ [(j, m1)]\<rparr>)
    \<and> carried_P2a m1 = carried_P2a m \<and> pc_Hops m1 = pc_Hops m @ [pid r] \<and> pc_RelayID m1 = pc_RelayID m
    \<and> pc_P3msg m1 = pc_P3msg m"
  using assms
  by (intro exI [of _ "P2aChain (pc_Ballot m) (pc_Slot m) (pc_GlobalExecute m) (pc_Command m) (pc_P3msg m)
      (pc_Hops m @ [pid r]) (pc_PeerGroupNode m) (pc_msg m) (pc_RelayID m)"])
    (simp add: Chain_HandleChain_def handleP2aFollower_def HandleP2aChain_def
      contains_iff find_filter Let_def conj_commute carried_P2a_def)


lemma follower_end:
  assumes "my_group r = Inr nodes" "nodes \<noteq> []" "pid r \<noteq> last nodes" "P3_Slot (pc_P3msg m) = []"
    "filter (\<lambda>i. i \<notin> set (pc_Hops m) \<and> i \<noteq> pid r) nodes = []"
  shows "Chain_HandleChain E now k m r = Inr (accept_P2a (carried_P2a m) r)"
  using assms by (simp add: Chain_HandleChain_def handleP2aFollower_def HandleP2aChain_def
      contains_iff find_filter Let_def conj_commute carried_P2a_def)

lemma last_filter: "xs \<noteq> [] \<Longrightarrow> P (last xs) \<Longrightarrow> last (filter P xs) = last xs"
  by (induction xs rule: rev_induct) auto

lemma walk_path:
  assumes "chain_group nodes S" "filter (\<lambda>i. i \<notin> set (pc_Hops m)) nodes = i # path"
    and "pc_RelayID m \<notin> set (i # path)" "P3_Slot (pc_P3msg m) = []"
    and "length (i # path) \<le> n"
  shows "\<exists>S1. chain_walk E now n S i m = Inr (i # path, S1) \<and>
    (\<forall>j. logm (S1 j) = (if j \<in> set (i # path) then logm (accept_P2a (carried_P2a m) (S j)) else logm (S j)) \<and>
       calls (S1 j) = (if j \<in> set (i # path) then calls (accept_P2a (carried_P2a m) (S j)) else calls (S j)) @
         (if j = last nodes \<and> j \<notin> set (pc_Hops m) then [CSend (pc_RelayID m) (M_P2b (P2b [j] (max (ballot (S j)) (pc_Ballot m)) (pc_Slot m)))] else []))"
  using assms
proof (induction path arbitrary: i m n S)
  case Nil
  have i: "i \<in> set nodes" "i \<notin> set (pc_Hops m)"
    using Nil.prems(2) filter_set [of "\<lambda>i. i \<notin> set (pc_Hops m)" nodes] by auto
  have g: "pid (S i) = i" "my_group (S i) = Inr nodes" "nodes \<noteq> []" "0 \<le> myRelayGroup (S i)"
    "myRelayGroup (S i) < int (length (fixedRelays (S i)))"
    using Nil.prems(1) i(1) by (auto simp: chain_group_def)
  obtain n' where n: "n = Suc n'" using Nil.prems(5) by (cases n) auto
  show ?case
  proof (cases "last nodes \<in> set (pc_Hops m)")
    case True
    have "filter (\<lambda>k. k \<notin> set (pc_Hops m) \<and> k \<noteq> i) nodes = filter (\<lambda>k. k \<noteq> i) [i]"
      unfolding Nil.prems(2) [symmetric] by (simp add: conj_commute)
    moreover have "i \<noteq> last nodes" using True i(2) by blast
    ultimately have "Chain_HandleChain E now 1 m (S i) = Inr (accept_P2a (carried_P2a m) (S i))"
      using follower_end [OF g(2,3) _ Nil.prems(4)] g(1) by simp
    then show ?thesis
      using \<open>i \<noteq> last nodes\<close> True by (auto simp: n)
  next
    case False
    then have "last nodes = i"
      using last_filter [of nodes "\<lambda>i. i \<notin> set (pc_Hops m)"] g(3) unfolding Nil.prems(2) by simp
    moreover from this have "Chain_HandleChain E now 1 m (S i) = Inr (emit (CSend (pc_RelayID m)
        (M_P2b (P2b [i] (max (ballot (S i)) (pc_Ballot m)) (pc_Slot m)))) (accept_P2a (carried_P2a m) (S i)))"
      using follower_tail [OF g(2,3) _ _ g(4,5) Nil.prems(4), of E now 1] g(1) Nil.prems(3)
      by (simp add: Let_def carried_P2a_def)
    ultimately show ?thesis
      using False by (auto simp: n emit_def)
  qed
next
  case (Cons j path)
  let ?P = "\<lambda>i. i \<notin> set (pc_Hops m)"
  have d: "distinct (i # j # path)" "set (i # j # path) \<subseteq> set nodes"
    using Cons.prems(1,2) distinct_filter [of nodes ?P] filter_is_subset [of ?P nodes] by (auto simp: chain_group_def)
  have ne: "nodes \<noteq> []"
    using Cons.prems(1) by (simp add: chain_group_def)
  have rest: "filter (\<lambda>k. k \<notin> set (pc_Hops m) \<and> k \<noteq> i) nodes = j # path"
  proof -
    have "filter (\<lambda>k. k \<noteq> i) (filter ?P nodes) = j # path"
      unfolding Cons.prems(2) using d(1) by (auto simp: filter_id_conv)
    then show ?thesis by (simp add: conj_commute)
  qed
  have g: "pid (S i) = i" "my_group (S i) = Inr nodes"
    using Cons.prems(1) d(2) by (auto simp: chain_group_def)
  have last: "last nodes \<noteq> i"
  proof (cases "last nodes \<in> set (pc_Hops m)")
    case True
    then show ?thesis
      using filter_set [of ?P nodes] unfolding Cons.prems(2) by auto
  next
    case False
    then have "last (filter ?P nodes) = last nodes"
      using ne(1) by (simp add: last_filter)
    then have "last (j # path) = last nodes"
      unfolding Cons.prems(2) by simp
    moreover have "last (j # path) \<in> set (j # path)"
      by (rule last_in_set) simp
    ultimately show ?thesis
      using d(1) by auto
  qed
  obtain m1 where m1: "Chain_HandleChain E now 1 m (S i) =
      Inr ((accept_P2a (carried_P2a m) (S i))\<lparr>chainCalls := chainCalls (S i) @ [(j, m1)]\<rparr>)"
    "carried_P2a m1 = carried_P2a m" "pc_Hops m1 = pc_Hops m @ [i]" "pc_RelayID m1 = pc_RelayID m"
    "pc_P3msg m1 = pc_P3msg m"
    using follower_inner [OF g(2) ne _ Cons.prems(4), of j path E now 1] last rest g(1) by auto
  let ?r = "(accept_P2a (carried_P2a m) (S i))\<lparr>chainCalls := chainCalls (S i) @ [(j, m1)]\<rparr>"
  let ?S = "S(i := ?r)"
  obtain n' where n: "n = Suc n'" "length (j # path) \<le> n'" using Cons.prems(5) by (cases n) auto
  have g1: "chain_group nodes ?S"
    using Cons.prems(1) chain_more [of "accept_P2a (carried_P2a m) (S i)" "S i"]
    by (auto simp: chain_group_def my_group_def)
  have g2: "filter (\<lambda>k. k \<notin> set (pc_Hops m1)) nodes = j # path"
    using rest by (simp add: m1(3) conj_commute)
  have g3: "pc_RelayID m1 \<notin> set (j # path)" "P3_Slot (pc_P3msg m1) = []"
    using Cons.prems(3,4) by (simp_all add: m1)
  obtain S1 where S1: "chain_walk E now n' ?S j m1 = Inr (j # path, S1)"
    "\<And>k. logm (S1 k) = (if k \<in> set (j # path) then logm (accept_P2a (carried_P2a m) (?S k)) else logm (?S k)) \<and>
       calls (S1 k) = (if k \<in> set (j # path) then calls (accept_P2a (carried_P2a m) (?S k)) else calls (?S k)) @
         (if k = last nodes \<and> k \<notin> set (pc_Hops m1) then [CSend (pc_RelayID m) (M_P2b (P2b [k] (max (ballot (?S k)) (pc_Ballot m1)) (pc_Slot m1)))] else [])"
    using Cons.IH [OF g1 g2 g3 n(2), unfolded m1(2,4)] by blast
  have b: "pc_Ballot m1 = pc_Ballot m" "pc_Slot m1 = pc_Slot m"
    using m1(2) by (simp_all add: carried_P2a_def)
  have "chain_walk E now n S i m = Inr (i # j # path, S1)"
    using S1(1) m1(1) by (simp add: n)
  moreover have "logm (S1 k) = (if k \<in> set (i # j # path) then logm (accept_P2a (carried_P2a m) (S k)) else logm (S k)) \<and>
       calls (S1 k) = (if k \<in> set (i # j # path) then calls (accept_P2a (carried_P2a m) (S k)) else calls (S k)) @
         (if k = last nodes \<and> k \<notin> set (pc_Hops m) then [CSend (pc_RelayID m) (M_P2b (P2b [k] (max (ballot (S k)) (pc_Ballot m)) (pc_Slot m)))] else [])" for k
    using S1(2) [of k] last d(1) by (auto simp: b m1(3))
  ultimately show ?case by blast
qed


text \<open>C25: a relay that got the proposal \<open>p\<close> from \<open>source\<close> starts a chain that every other member of the
  group but the source handles once, in the order of the group, as it would handle the proposal
  itself; the last node of the group, and no other, votes, unless it is the relay or the source: then
  nobody does, and the relay never hears from its group.\<close>

theorem chain_visits_the_group:
  assumes "chain_group nodes S" "my_group q = Inr nodes" "P3_Slot (P2a_P3msg p) = []"
    and "filter (\<lambda>i. i \<noteq> source \<and> i \<noteq> pid q) nodes = path" "path \<noteq> []"
  shows "\<exists>c S1. SendToChainHead nodes source (RoutedMsg [source, pid q] True 1 (M_P2a p)) q =
        Inr (q\<lparr>chainCalls := chainCalls q @ [(hd path, c)]\<rparr>)
    \<and> chain_walk E now (length nodes) S (hd path) c = Inr (path, S1)
    \<and> (\<forall>i. logm (S1 i) = (if i \<in> set path then logm (accept_P2a p (S i)) else logm (S i))
        \<and> calls (S1 i) = (if i \<in> set path then calls (accept_P2a p (S i)) else calls (S i)) @
            (if i = last nodes \<and> i \<noteq> source \<and> i \<noteq> pid q
             then [CSend (pid q) (M_P2b (P2b [i] (max (ballot (S i)) (P2a_Ballot p)) (P2a_Slot p)))] else []))"
proof -
  let ?m = "RoutedMsg [source, pid q] True 1 (M_P2a p)"
  let ?c = "P2aChain (P2a_Ballot p) (P2a_Slot p) (P2a_GlobalExecute p) (P2a_Command p) (P2a_P3msg p)
      [source, pid q] nodes ?m (pid q)"
  have c: "carried_P2a ?c = p" by (cases p) (simp add: carried_P2a_def)
  have f: "filter (\<lambda>i. i \<notin> set (pc_Hops ?c)) nodes = hd path # tl path"
    using assms(4,5) by (simp add: conj_commute)
  have path: "hd path # tl path = path"
    using assms(5) by simp
  have r: "pc_RelayID ?c \<notin> set (hd path # tl path)" "P3_Slot (pc_P3msg ?c) = []"
    "length (hd path # tl path) \<le> length nodes"
    unfolding path P2aChain.sel using assms(3,4) by auto
  obtain S1 where S1: "chain_walk E now (length nodes) S (hd path) ?c = Inr (path, S1)"
    "\<And>i. logm (S1 i) = (if i \<in> set path then logm (accept_P2a p (S i)) else logm (S i))
        \<and> calls (S1 i) = (if i \<in> set path then calls (accept_P2a p (S i)) else calls (S i)) @
            (if i = last nodes \<and> i \<notin> set [source, pid q]
             then [CSend (pid q) (M_P2b (P2b [i] (max (ballot (S i)) (P2a_Ballot p)) (P2a_Slot p)))] else [])"
    using walk_path [OF assms(1) f r, of E now, unfolded c path P2aChain.sel] by blast
  have "find (\<lambda>i. i \<noteq> pid q \<and> i \<noteq> source) nodes = Some (hd path)"
    using f by (simp add: find_filter conj_commute)
  then have "SendToChainHead nodes source ?m q = Inr (q\<lparr>chainCalls := chainCalls q @ [(hd path, ?c)]\<rparr>)"
    using assms(2) by (simp add: SendToChainHead_def)
  then show ?thesis
    using S1 by (intro exI [of _ ?c] exI [of _ S1]) simp
qed


section \<open>Two votes for a whole group\<close>

lemma Chain_relay_vote:
  assumes "map_of (p2bRelaysMapByBalSlot r) s = Some (RoutedMsg (root # hs) False 0 (P2b got b s))"
    and "relaySlack r = 0" "useSmallP2b E" "root \<noteq> pid r"
  shows "Chain_handleP2bRelay E (loop_Send H) (P2b new b s) r = Inr (
    let r1 = r\<lparr>p2bRelaysMapByBalSlot := AList.update s (RoutedMsg (root # hs) False 0 (P2b (got @ new) b s)) (p2bRelaysMapByBalSlot r)\<rparr>
    in if length (got @ new) = 2 then drop_relay s (emit (CSend root (M_P2bAggregated (P2bAggregated [] (pid r) (execute r - 1) b s))) r1)
       else r1)"
proof -
  let ?rm = "RoutedMsg (root # hs) False 0 (P2b (got @ new) b s)"
  define r1 where "r1 = r\<lparr>p2bRelaysMapByBalSlot := AList.update s ?rm (p2bRelaysMapByBalSlot r)\<rparr>"
  have r1: "relaySlack r1 = 0" "pid r1 = pid r" "map_of (p2bRelaysMapByBalSlot r1) s = Some ?rm" "execute r1 = execute r"
    using assms(2) by (simp_all add: r1_def update_conv')
  have "int (length (got @ new)) = 2 \<longleftrightarrow> length (got @ new) = 2"
    by linarith
  then have ready: "Chain_readyToRelayP2b s r1 \<longleftrightarrow> length (got @ new) = 2"
    by (simp only: Chain_readyToRelayP2b_def r1 option.case RoutedMsg.sel P2b.sel diff_zero)
  show ?thesis
    using assms(1,3,4) r1 by (simp add: Chain_handleP2bRelay_def Let_def ready flip: r1_def)
      (simp add: relay_votes_def GetLastProgressHop_def hop_def loop_Send_def)
qed

text \<open>C26: a relay without slack takes two votes, whoever sent them and however large its group is, for the votes of the
  whole group: it sends an aggregated vote without missing nodes, and the leader counts every node of the
  group, so that it commits the slot exactly when the group and those that have voted before are a majority. With
  any other number of votes the relay goes on collecting and sends nothing.\<close>

theorem chain_counts_the_group:
  assumes "map_of (p2bRelaysMapByBalSlot r) s = Some (RoutedMsg (root # hs) False 0 (P2b got b s))"
    and "relaySlack r = 0" "useSmallP2b E" "root \<noteq> pid r"
    and "IsLeader l" "slice_at (relayGroups l) (group_of l (pid r)) = Inr (Some nodes)"
    and "fmlookup (logm l) s = Some e" "\<not> e_commit e" "e_quorum e = Some Q" "wf_quorum Q"
    and "e_ballot e = b" "Ballot_ID b = pid l" "b \<le> ballot l" "\<not> ReplyWhenCommit l" "0 \<le> cfg_n (conf E)"
  shows "\<exists>r'. Chain_handleP2bRelay E (loop_Send H) (P2b new b s) r = Inr r' \<and>
    (if length (got @ new) = 2
     then map_of (p2bRelaysMapByBalSlot r') s = None \<and>
       (\<exists>a l' e'. calls r' = calls r @ [CSend root (M_P2bAggregated a)] \<and> Chain_handleP2bAggregated E now a l = Inr l' \<and>
          fmlookup (logm l') s = Some e' \<and> map_option acks (e_quorum e') = Some (acks Q \<union> set nodes) \<and>
          (e_commit e' \<longleftrightarrow> cfg_n (conf E) < 2 * int (card (acks Q \<union> set nodes))))
     else map_of (p2bRelaysMapByBalSlot r') s = Some (RoutedMsg (root # hs) False 0 (P2b (got @ new) b s)) \<and> calls r' = calls r)"
proof -
  let ?a = "P2bAggregated [] (pid r) (execute r - 1) b s"
  let ?l = "UpdateLastExecuteByNode (pid r) (execute r - 1) l"
  have l: "relayGroups ?l = relayGroups l" "group_of ?l = group_of l" "logm ?l = logm l" "pid ?l = pid l" "ballot ?l = ballot l"
    "ReplyWhenCommit ?l = ReplyWhenCommit l"
    by (simp_all add: UpdateLastExecuteByNode_def group_of_def fun_eq_iff)
  have "Chain_handleP2bAggregated E now ?a l = HandleP2b (conf E) now s b nodes ?l"
    unfolding chain_repeats handleP2bAggregated_def Let_def P2bAggregated.sel l assms(6) using assms(5)
    by (simp add: aggregated_ids_def)
  moreover obtain l' e' where "HandleP2b (conf E) now s b nodes ?l = Inr l'" "fmlookup (logm l') s = Some e'"
    "map_option acks (e_quorum e') = Some (acks Q \<union> set nodes)"
    "e_commit e' \<longleftrightarrow> cfg_n (conf E) < 2 * int (card (acks Q \<union> set nodes))"
    using HandleP2b_votes [of ?l s e Q "conf E" now nodes] assms(7-15) l by auto
  ultimately have lead: "\<exists>l' e'. Chain_handleP2bAggregated E now ?a l = Inr l' \<and> fmlookup (logm l') s = Some e' \<and>
      map_option acks (e_quorum e') = Some (acks Q \<union> set nodes) \<and>
      (e_commit e' \<longleftrightarrow> cfg_n (conf E) < 2 * int (card (acks Q \<union> set nodes)))"
    by auto
  show ?thesis
    unfolding Chain_relay_vote [OF assms(1-4)] Let_def
    using lead by (auto simp: drop_relay_def delete_conv emit_def update_conv')
qed

text \<open>A cluster of seven nodes in one group: node 1 leads with its ballot, node 2 is the relay, and the nodes
  3 to 6 have promised a higher ballot of node 3.\<close>

definition chain_env :: env where
  "chain_env = chain_flags (default_config\<lparr>cfg_n := 7\<rparr>) (\<lambda>k. k) (\<lambda>_. True)"

definition chain_node :: "Ballot \<Rightarrow> bool \<Rightarrow> ID \<Rightarrow> chain_replica" where
  "chain_node b lead i =
     pigpaxos.extend ((NewPigPaxos (conf chain_env) i)\<lparr>ballot := b, active := lead\<rparr>)
       \<lparr>relayGroups = [Some [1, 2, 3, 4, 5, 6, 7]], fixedRelays = [2], myRelayGroup = 0,
        NodeIdsToGroup = fmap_of_list (map (\<lambda>i. (i, 0)) [1, 2, 3, 4, 5, 6, 7]),
        numRelayGroups = 1, maxDepth = 2, relaySlack = rgSlack chain_env, cleanupMultiplier = 3,
        GrayNodes = [], p1bRelayRoutedMsg = None, pendingP1bRelay = 0, p1bRelayDepth = 0,
        p2bRelaysMapByBalSlot = [], p2bRelaysTimeMapByBalSlot = fmempty, draws = 0, outbox = [],
        chainCalls = [], chainOutbox = []\<rparr>"

definition chain_cluster :: "ID \<Rightarrow> chain_replica" where
  "chain_cluster i =
     (if i \<in> {3, 4, 5, 6} then chain_node (NewBallot 2 3) False i
      else chain_node (NewBallot 1 1) (i = 1) i)"

text \<open>The leader proposes; the relay handles the proposal, and the chain it starts, the vote of the last
  node and the aggregated vote are delivered in turn.\<close>

definition chain_round :: "Request \<Rightarrow> (chain_replica \<times> ID list \<times> (ID \<Rightarrow> chain_replica)) go" where
  "chain_round req =
     (let S = chain_cluster
      in go_bind (Chain_HandleMsg chain_env 0 5 (M_Request req) (S 1)) (\<lambda>leader.
         case calls leader of
           [CBroadcast p] \<Rightarrow>
             go_bind (Chain_HandleMsg chain_env 0 5 (M_Routed (RoutedMsg [1] True 0 p)) (S 2)) (\<lambda>relay.
               case chainCalls relay of
                 [(i, m)] \<Rightarrow>
                   go_bind (chain_walk chain_env 0 7 S i m) (\<lambda>(path, S1).
                     case calls (S1 7) of
                       [CSend to v] \<Rightarrow>
                         go_bind (Chain_HandleMsg chain_env 0 5 v relay) (\<lambda>relay1.
                           case calls relay1 of
                             [CSend root a] \<Rightarrow>
                               go_bind (Chain_HandleMsg chain_env 0 5 a leader) (\<lambda>leader1. Inr (leader1, path, S1))
                           | _ \<Rightarrow> Inl NoHandler)
                     | _ \<Rightarrow> Inl NoHandler)
               | _ \<Rightarrow> Inl NoHandler)
         | _ \<Rightarrow> Inl NoHandler))"

definition chain_request :: Request where
  "chain_request = \<lparr>rCommand = zero_command\<lparr>cKey := 5\<rparr>, rProperties = [], rTimestamp = 0, rNodeID = 1\<rparr>"

text \<open>A slot is committed although only three of seven nodes have the proposal: the chain passes through
  nodes that reject it, and for the relay's and the last node's votes the leader counts the group.\<close>

lemma chain_commits_without_a_majority:
  "case chain_round chain_request of
     Inl _ \<Rightarrow> False
   | Inr (leader, path, S) \<Rightarrow>
       path = [3, 4, 5, 6, 7] \<and> map_option e_commit (fmlookup (logm leader) 0) = Some True
       \<and> execute leader = 1 \<and> list_all (\<lambda>i. fmlookup (logm (S i)) 0 = None) [3, 4, 5, 6]"
  by code_simp

lemma chain_counts_the_group_witness:
  "\<exists>r' a l' e'. Chain_handleP2bRelay chain_env (loop_Send (\<lambda>_. Inr)) (P2b [7] (NewBallot 1 1) 0)
       ((chain_cluster 2)\<lparr>p2bRelaysMapByBalSlot := [(0, RoutedMsg [1] False 0 (P2b [2] (NewBallot 1 1) 0))]\<rparr>) = Inr r' \<and>
     calls r' = [CSend 1 (M_P2bAggregated a)] \<and>
     Chain_handleP2bAggregated chain_env 0 a (StartP2a 5 chain_request (chain_cluster 1)) = Inr l' \<and>
     fmlookup (logm l') 0 = Some e' \<and> e_commit e'"
proof -
  let ?b = "NewBallot 1 1" and ?nodes = "[1, 2, 3, 4, 5, 6, 7] :: ID list"
  let ?r = "(chain_cluster 2)\<lparr>p2bRelaysMapByBalSlot := [(0, RoutedMsg [1] False 0 (P2b [2] ?b 0))]\<rparr>"
  let ?l = "StartP2a 5 chain_request (chain_cluster 1)"
  let ?e = "\<lparr>e_ballot = ?b, e_command = rCommand chain_request, e_commit = False, e_request = Some chain_request,
      e_quorum = Some (ACK 1 NewQuorum), e_timestamp = 5\<rparr>"
  have r: "map_of (p2bRelaysMapByBalSlot ?r) 0 = Some (RoutedMsg [1] False 0 (P2b [2] ?b 0))"
    "relaySlack ?r = 0" "useSmallP2b chain_env" "1 \<noteq> pid ?r" "calls ?r = []"
    by (simp_all add: chain_cluster_def chain_node_def pigpaxos.defs NewPigPaxos_def chain_env_def chain_flags_def)
  have l: "IsLeader ?l" "slice_at (relayGroups ?l) (group_of ?l (pid ?r)) = Inr (Some ?nodes)" "fmlookup (logm ?l) 0 = Some ?e"
    "Ballot_ID ?b = pid ?l" "?b \<le> ballot ?l" "\<not> ReplyWhenCommit ?l" "cfg_n (conf chain_env) = 7"
    by code_simp+
  have e: "e_quorum ?e = Some (ACK 1 NewQuorum)" "\<not> e_commit ?e" "wf_quorum (ACK (1 :: ID) NewQuorum)" "e_ballot ?e = ?b"
    by simp_all
  have seven: "card {1, 2, 3, 4, 5, 6, 7, 1 :: ID} = 7"
    by code_simp
  from chain_counts_the_group [OF r(1-4) l(1-3) e(2,1,3,4) l(4-6), of "\<lambda>_. Inr" "[7]" 0] show ?thesis
    using r(5) l(7) seven by auto
qed

lemma chain_visits_the_group_witness:
  "\<exists>S1 c. chain_walk chain_env 0 7 chain_cluster 3 c = Inr ([3, 4, 5, 6, 7], S1)
     \<and> calls (S1 7) = [CSend 2 (M_P2b (P2b [7] (NewBallot 1 1) 0))]"
proof -
  let ?p = "P2a (NewBallot 1 1) 0 0 zero_command (P3 0 [])" and ?q = "chain_cluster 2"
  let ?nodes = "[1, 2, 3, 4, 5, 6, 7] :: ID list"
  have g: "chain_group ?nodes chain_cluster"
    by (simp add: chain_group_def chain_cluster_def chain_node_def pigpaxos.defs NewPigPaxos_def my_group_def slice_at_def)
  have q: "my_group ?q = Inr ?nodes" "pid ?q = 2"
    by (simp_all add: chain_cluster_def chain_node_def pigpaxos.defs NewPigPaxos_def my_group_def slice_at_def)
  have v: "calls (accept_P2a ?p (chain_cluster 7)) = []" "ballot (chain_cluster 7) = NewBallot 1 1"
    by (simp_all add: accept_P2a_def accept_entry_def chain_cluster_def chain_node_def pigpaxos.defs NewPigPaxos_def set_entry_def)
  have "filter (\<lambda>i. i \<noteq> 1 \<and> i \<noteq> pid ?q) ?nodes = [3, 4, 5, 6, 7]"
    by (simp add: q)
  from chain_visits_the_group [OF g q(1) _ this, of ?p chain_env 0]
  obtain c S1 where w: "chain_walk chain_env 0 (length ?nodes) chain_cluster (hd [3, 4, 5, 6, 7]) c = Inr ([3, 4, 5, 6, 7], S1)"
    "\<forall>i. calls (S1 i) = (if i \<in> set [3, 4, 5, 6, 7] then calls (accept_P2a ?p (chain_cluster i)) else calls (chain_cluster i)) @
            (if i = last ?nodes \<and> i \<noteq> 1 \<and> i \<noteq> pid ?q
             then [CSend (pid ?q) (M_P2b (P2b [i] (max (ballot (chain_cluster i)) (P2a_Ballot ?p)) (P2a_Slot ?p)))] else [])"
    by (simp del: chain_walk.simps) blast
  from w(2) have "calls (S1 7) = [CSend 2 (M_P2b (P2b [7] (NewBallot 1 1) 0))]"
    using v q by simp
  moreover have "length ?nodes = 7" "hd [3, 4, 5, 6, 7 :: ID] = 3"
    by simp_all
  ultimately show ?thesis
    using w(1) by metis
qed


section \<open>The invariant\<close>

lemma keeps_Chain_handleP2bRelay:
  assumes "sends_well send" "Chain_handleP2bRelay E send m r = Inr r'"
  shows "keeps r (M_P2b m) r'"
proof (cases "map_of (p2bRelaysMapByBalSlot r) (P2b_Slot m)")
  case (Some rm)
  note c = keeps_collect_P2b [OF assms(1) Some] and e = assms(2) [unfolded Chain_handleP2bRelay_def Some option.case Let_def]
  show ?thesis
  proof (cases "P2b_Ballot (Payload rm) = P2b_Ballot m")
    case True
    show ?thesis
      using e [unfolded if_P [OF True]] c(1)
      by (auto split: if_splits intro: keeps_drop_relay [OF c(2)])
  next
    case False
    show ?thesis
      using e [unfolded if_not_P [OF False]] c(3) by blast
  qed
qed (use assms in \<open>simp add: Chain_handleP2bRelay_def\<close>)

lemma keeps_Chain_handleP2b:
  assumes "sends_well send" "Chain_handleP2b E now send m r = Inr r'"
  shows "keeps r (M_P2b m) r'"
  using assms keeps_Chain_handleP2bRelay keeps_HandleP2b
  by (auto simp: Chain_handleP2b_def chain_repeats split: if_splits)

lemma keeps_Chain_handleP2aRelay:
  assumes "sends_well send" "Chain_handleP2aRelay E now send m rm r = Inr r'" "Ballot_ID (P2a_Ballot m) \<noteq> pid r"
  shows "keeps r (M_P2a m) r'"
proof (cases "(Progress rm + 1) mod 256 = maxDepth r")
  case True
  then show ?thesis using assms(2) by (simp add: Chain_handleP2aRelay_def)
next
  case False
  then have "Chain_handleP2aRelay E now send m rm r = handleP2aRelay E now send m rm r"
    unfolding Chain_handleP2aRelay_def handleP2aRelay_def chain_repeats by simp
  then show ?thesis using assms keeps_handleP2aRelay by metis
qed

lemma keeps_chainCalls [simp]:
  fixes q :: chain_replica
  shows "keeps r m (q\<lparr>chainCalls := x\<rparr>) = keeps r m q"
  by (simp add: keeps_def rgood_def good_defs advances_def proposals_def sent_def)

lemma keeps_SendToChainHead:
  assumes "keeps r m q" "SendToChainHead nodes source rm q = Inr r'"
  shows "keeps r m r'"
  using assms by (auto simp: SendToChainHead_def Let_def split: msg.splits option.splits)

lemma keeps_Chain_propagate:
  assumes "keeps r (M_Routed m) q" "Chain_propagate m need q = Inr r'"
  shows "keeps r (M_Routed m) r'"
proof (cases "\<exists>p. Payload m = M_P1a p")
  case True
  then have "Chain_propagate m need q = propagate m need q"
    by (auto simp: Chain_propagate_def propagate_def my_group_def chain_repeats Let_def go_bind_assoc)
  then show ?thesis using assms keeps_propagate by metis
next
  case False
  then show ?thesis
    using assms by (auto simp: Chain_propagate_def Let_def split: if_splits msg.splits intro: keeps_SendToChainHead)
qed


lemma keeps_Chain_handleRoutedMsg:
  assumes "sends_well send" "Chain_handleRoutedMsg E now send rm r = Inr r'" "own_free (pid r) (M_Routed rm)"
  shows "keeps r (M_Routed rm) r'"
proof -
  have c: "keeps r (M_Routed rm) q" if "keeps r x q" "x = Payload rm" for q x
    by (rule keeps_trans [OF keeps_refl that(1)]) (cases rm; simp add: that(2))
  show ?thesis
  proof (cases "IsForward rm")
    case True
    show ?thesis
    proof (cases "Payload rm")
      case (M_P1a m)
      obtain need r1 where r1: "handleP1aRelay now send m rm r = Inr (need, r1)"
        and p: "Chain_propagate rm need (if need then r1\<lparr>p1bRelayDepth := Progress rm\<rparr> else r1) = Inr r'"
        using assms(2) by (auto simp: Chain_handleRoutedMsg_def True M_P1a chain_repeats)
      have "keeps r (M_Routed rm) r1"
        by (rule c [OF keeps_handleP1aRelay [OF assms(1) r1]]) (simp add: M_P1a)
      then show ?thesis
        by (intro keeps_Chain_propagate [OF _ p]) simp
    next
      case (M_P2a m)
      obtain r1 where r1: "Chain_handleP2aRelay E now send m rm r = Inr r1" and p: "Chain_propagate rm True r1 = Inr r'"
        using assms(2) by (auto simp: Chain_handleRoutedMsg_def True M_P2a)
      have "Ballot_ID (P2a_Ballot m) \<noteq> pid r"
        using assms(3) True M_P2a by (cases rm) simp
      then have "keeps r (M_P2a m) r1"
        using keeps_Chain_handleP2aRelay [OF assms(1) r1] by blast
      then show ?thesis
        by (intro keeps_Chain_propagate [OF _ p] c [of "M_P2a m"]) (simp_all add: M_P2a)
    next
      case (M_P3 m)
      have "keeps r (M_P3 m) (HandleP3 (conf E) m r)"
        by (rule keeps_core) (auto intro: mono_facts)
      then have "keeps r (M_Routed rm) (HandleP3 (conf E) m r)"
        by (rule c) (simp add: M_P3)
      moreover have "Chain_propagate rm True (HandleP3 (conf E) m r) = Inr r'"
        using assms(2) by (simp add: Chain_handleRoutedMsg_def True M_P3 chain_repeats)
      ultimately show ?thesis
        by (rule keeps_Chain_propagate)
    qed (use assms(2) True in \<open>auto simp: Chain_handleRoutedMsg_def\<close>)
  next
    case False
    then show ?thesis
      using assms(2) c keeps_handleP1bRelay [OF assms(1)] keeps_Chain_handleP2bRelay [OF assms(1)]
      by (cases "Payload rm") (auto simp: Chain_handleRoutedMsg_def chain_repeats)
  qed
qed

lemma keeps_Chain_dispatch:
  assumes "sends_well send" "Chain_dispatch E now send m r = Inr r'" "own_free (pid r) m"
    and "\<And>q. m = M_Request q \<Longrightarrow> Ballot_N (ballot r) < 2 ^ 32 - 1"
  shows "keeps r m r'"
proof (cases "(\<exists>x. m = M_P2b x) \<or> (\<exists>x. m = M_Routed x)")
  case True
  then show ?thesis
    using assms keeps_Chain_handleP2b keeps_Chain_handleRoutedMsg by (auto simp: Chain_dispatch_def)
next
  case False
  then have "Chain_dispatch E now send m r = dispatch E now send m r"
    by (cases m) (simp_all add: Chain_dispatch_def dispatch_def chain_repeats)
  then show ?thesis
    using assms keeps_dispatch by metis
qed

lemma Chain_HandleMsg_sends_well: "sends_well (Chain_Send (Chain_HandleMsg E now k))"
proof (induction k)
  case 0
  show ?case unfolding Chain_Send_def by (rule sends_well_loop) simp
next
  case (Suc k)
  show ?case
    unfolding Chain_Send_def
    by (rule sends_well_loop) (use keeps_Chain_dispatch [OF Suc] in \<open>fastforce simp: backward_def\<close>)
qed

interpretation chain: node_send "Chain_Send (Chain_HandleMsg E now k) False" rgood for E now k
  by (rule replica_node_send [OF Chain_HandleMsg_sends_well])

lemma carried_P2a_sel [simp]:
  "P2a_Ballot (carried_P2a m) = pc_Ballot m" "P2a_Slot (carried_P2a m) = pc_Slot m"
  "P2a_Command (carried_P2a m) = pc_Command m"
  by (simp_all add: carried_P2a_def)

lemma chainCalls_HandleP3 [simp]:
  fixes r :: chain_replica
  shows "chainCalls (HandleP3 c m r) = chainCalls r"
  using grows_HandleP3 [OF grows_refl, of r c m] by (intro chain_more) (simp add: grows_def)

lemma keeps_HandleP2aChain:
  assumes "Ballot_ID (pc_Ballot m) \<noteq> pid r"
  shows "keeps r (M_P2a (carried_P2a m)) (HandleP2aChain c m r)"
proof (rule keeps_core)
  show "grows r (HandleP2aChain c m r)"
    by (simp add: HandleP2aChain_eq Let_def grows_HandleP3 grows_accept_P2a)
  show "good Q (HandleP2aChain c m r)" if "good Q r" "msg_ok Q (M_P2a (carried_P2a m))" for Q
    using good_accept_P2a [OF that] assms by (auto simp: HandleP2aChain_eq Let_def)
qed

text \<open>a member of the chain keeps the invariant of the protocol core, and what it passes on is the proposal
  it got, with its own identifier added to the hops and never to one of the hops; so the chain
  carries only what was proposed, and it ends.\<close>

theorem chain_keeps_the_invariant:
  assumes "rgood Q r" "msg_ok (Q \<union> proposals r) (M_P2a (carried_P2a m))" "Ballot_ID (pc_Ballot m) \<noteq> pid r"
    and "pc_RelayID m \<noteq> pid r" "Chain_HandleChain E now k m r = Inr r'"
  shows "rgood Q r' \<and> advances r r' \<and>
    (chainCalls r' = chainCalls r \<or>
     (\<exists>i m1. chainCalls r' = chainCalls r @ [(i, m1)] \<and> carried_P2a m1 = carried_P2a m \<and>
        pc_Hops m1 = pc_Hops m @ [pid r] \<and> i \<notin> set (pc_Hops m1)))"
proof -
  obtain nodes where g: "my_group r = Inr nodes" "nodes \<noteq> []"
    using assms(5) by (auto simp: Chain_HandleChain_def handleP2aFollower_def split: if_splits)
  show ?thesis
  proof (cases "pid r = last nodes")
    case True
    then have h: "HandleP2a (conf E) (Chain_Send (Chain_HandleMsg E now k) False) (carried_P2a m) (pc_RelayID m) r = Inr r'"
      using assms(5) g by (auto simp: Chain_HandleChain_def handleP2aFollower_def HandleP2aChainTail_eq)
    have "keeps r (M_P2a (carried_P2a m)) r'"
      by (rule keeps_HandleP2a [OF Chain_HandleMsg_sends_well h]) (simp add: assms(3))
    moreover have "chainCalls r' = chainCalls r"
      using h assms(4) by (auto simp: HandleP2a_def Let_def Chain_Send_def loop_Send_def emit_def)
    ultimately show ?thesis
      using assms(1,2) by (auto simp: keeps_def)
  next
    case False
    let ?r = "HandleP2aChain (conf E) m r"
    have k: "keeps r (M_P2a (carried_P2a m)) ?r" "chainCalls ?r = chainCalls r" "pid ?r = pid r"
      using keeps_HandleP2aChain [OF assms(3)] grows_HandleP3 [OF grows_accept_P2a [OF grows_refl], of r "conf E" _ "carried_P2a m"]
      by (auto simp: HandleP2aChain_eq Let_def grows_def advances_def)
    define next_hop where "next_hop = find (\<lambda>i. i \<notin> set (pc_Hops m @ [pid r])) nodes"
    show ?thesis
    proof (cases next_hop)
      case None
      then have "r' = ?r"
        using assms(5) g False k(3) by (simp add: Chain_HandleChain_def handleP2aFollower_def contains_iff next_hop_def Let_def)
      then show ?thesis
        using k assms(1,2) by (auto simp: keeps_def)
    next
      case (Some i)
      then have i: "i \<notin> set (pc_Hops m @ [pid r])"
        unfolding next_hop_def by (auto simp: find_Some_iff)
      let ?m1 = "P2aChain (pc_Ballot m) (pc_Slot m) (pc_GlobalExecute m) (pc_Command m) (pc_P3msg m)
          (pc_Hops m @ [pid r]) (pc_PeerGroupNode m) (pc_msg m) (pc_RelayID m)"
      have r': "r' = ?r\<lparr>chainCalls := chainCalls r @ [(i, ?m1)]\<rparr>"
        using assms(5) g False k(2,3) Some
        by (simp add: Chain_HandleChain_def handleP2aFollower_def contains_iff next_hop_def Let_def)
      then have "keeps r (M_P2a (carried_P2a m)) r'"
        using k(1) by simp
      then show ?thesis
        using r' i assms(1,2) by (auto simp: keeps_def carried_P2a_def intro!: exI [of _ ?m1])
    qed
  qed
qed


lemma chain_keeps_the_invariant_witness:
  "\<exists>r'. Chain_HandleChain chain_env 0 1 (P2aChain (NewBallot 1 1) 0 0 zero_command (P3 0 []) [1, 2] [1, 2, 3, 4, 5, 6, 7]
      (RoutedMsg [1, 2] True 1 (M_P2a (P2a (NewBallot 1 1) 0 0 zero_command (P3 0 [])))) 2) (chain_cluster 7) = Inr r'
    \<and> rgood {(NewBallot 1 1, 0, zero_command)} r'"
proof -
  let ?Q = "{(NewBallot 1 1, 0 :: goint, zero_command)}"
  let ?m = "P2aChain (NewBallot 1 1) 0 0 zero_command (P3 0 []) [1, 2] [1, 2, 3, 4, 5, 6, 7]
      (RoutedMsg [1, 2] True 1 (M_P2a (P2a (NewBallot 1 1) 0 0 zero_command (P3 0 [])))) 2"
  have f: "my_group (chain_cluster 7) = Inr [1, 2, 3, 4, 5, 6, 7]" "pid (chain_cluster 7) = 7"
    "fixedRelays (chain_cluster 7) = [2]" "myRelayGroup (chain_cluster 7) = 0"
    by (simp_all add: chain_cluster_def chain_node_def pigpaxos.defs NewPigPaxos_def my_group_def slice_at_def)
  then obtain r' where r': "Chain_HandleChain chain_env 0 1 ?m (chain_cluster 7) = Inr r'"
    using follower_tail [of "chain_cluster 7" "[1, 2, 3, 4, 5, 6, 7]" ?m chain_env 0 1] by simp
  have "rgood ?Q (chain_cluster 7)"
    by (simp add: chain_cluster_def chain_node_def rgood_def good_defs pigpaxos.defs NewPigPaxos_def proposals_def sent_def)
  moreover have "Ballot_ID (NewBallot 1 1) \<noteq> (7 :: ID)"
    by code_simp
  ultimately show ?thesis
    using chain_keeps_the_invariant [of ?Q "chain_cluster 7" ?m chain_env 0 1, OF _ _ _ _ r'] r' f
    by auto
qed

end
