(* ===== verification/Sockets.thy ===== *)
theory Sockets
  imports RetroLog PigMessages Complex_Main
begin

text \<open>
  The networking of a node: the socket of \<open>socket.go\<close> with its fault injection, and the receiving and
  forwarding of \<open>node.go\<close>. A transport is the destination it was dialled for; what is handed to it is
  collected in \<open>wire\<close> with the delay in milliseconds. A timer is its deadline with what it undoes, and
  the process-wide clock and retroscope log are part of the state. Whether an attempt to dial succeeds and
  what \<open>rand.Float64\<close> draws are arguments, and a probability is a rational number.
\<close>

section \<open>Retrying\<close>

text \<open>\<open>Retry\<close> of \<open>util.go\<close> from attempt \<open>i\<close> on: the error of the last attempt if none succeeds.\<close>

function retry_from :: "(nat \<Rightarrow> 'e option) \<Rightarrow> goint \<Rightarrow> nat \<Rightarrow> 'e option" where
  "retry_from f attempts i =
     (case f i of
        None \<Rightarrow> None
      | Some err \<Rightarrow> if int i \<ge> attempts - 1 then Some err else retry_from f attempts (Suc i))"
  by pat_completeness auto
termination
  by (relation "measure (\<lambda>(f, attempts, i). nat (attempts - int i))") auto

declare retry_from.simps [simp del]

definition Retry :: "(nat \<Rightarrow> 'e option) \<Rightarrow> goint \<Rightarrow> 'e option" where
  "Retry f attempts = retry_from f attempts 0"

section \<open>The socket\<close>

datatype 'm packet = Plain 'm | ProtocolMsg (HlcTime: "64 word") (MsgId: "64 word") (Msg: 'm)

datatype undo = UndoDrop ID | UndoSlow ID | UndoFlaky ID | UndoCrash

datatype send_error = NoAddress ID | DialFailed

record 'm socket =
  so_id :: ID
  addresses :: "ID list"
  nodes :: "ID list"
  crash :: bool
  dropping :: "ID \<Rightarrow> bool"
  slow :: "ID \<Rightarrow> goint"
  flaky :: "ID \<Rightarrow> rat"
  msgid :: "64 word"
  sentCount :: goint
  timers :: "(goint \<times> undo) list"
  wire :: "(ID \<times> goint \<times> 'm packet) list"
  proc_clock :: HLC
  Retrolog :: RetroLog

definition NewSocket :: "ID \<Rightarrow> ID list \<Rightarrow> HLC \<Rightarrow> RetroLog \<Rightarrow> 'm socket" where
  "NewSocket self addrs h l =
     \<lparr>so_id = self, addresses = addrs, nodes = [self], crash = False, dropping = (\<lambda>_. False),
      slow = (\<lambda>_. 0), flaky = (\<lambda>_. 0), msgid = push_bit 32 (ucast self), sentCount = 0,
      timers = [], wire = [], proc_clock = h, Retrolog = l\<rparr>"

definition incrementMsgId :: "'m socket \<Rightarrow> 64 word \<times> 'm socket" where
  "incrementMsgId s = (let s1 = s\<lparr>msgid := msgid s + 1\<rparr> in (msgid s1, s1))"

text \<open>What the surroundings decide: whether dialling a node fails at an attempt, and the configuration.\<close>

record surroundings =
  dial_error :: "ID \<Rightarrow> nat \<Rightarrow> send_error option"
  UseRetroLog :: bool

text \<open>The transport to a node, dialled when there is none yet.\<close>

definition transport_to :: "surroundings \<Rightarrow> ID \<Rightarrow> 'm socket \<Rightarrow> send_error + 'm socket" where
  "transport_to E to s =
     (if to \<in> set (nodes s) then Inr s
      else if to \<notin> set (addresses s) then Inl (NoAddress to)
      else case Retry (dial_error E to) 2 of
        Some err \<Rightarrow> Inl err
      | None \<Rightarrow> Inr (s\<lparr>nodes := nodes s @ [to]\<rparr>))"

definition socket_send :: "surroundings \<Rightarrow> rat \<Rightarrow> ID \<Rightarrow> 'm packet \<Rightarrow> 'm socket \<Rightarrow> send_error option \<times> 'm socket" where
  "socket_send E draw to m s =
     (if crash s then (None, s)
      else if dropping s to then (None, s)
      else if flaky s to > 0 \<and> draw < flaky s to then (None, s)
      else case transport_to E to s of
        Inl err \<Rightarrow> (Some err, s)
      | Inr s1 \<Rightarrow>
          if slow s1 to > 0 then (None, s1\<lparr>wire := wire s1 @ [(to, slow s1 to, m)]\<rparr>)
          else (None, s1\<lparr>wire := wire s1 @ [(to, 0, m)]\<rparr>))"

text \<open>One transaction of the log: \<open>StartTx\<close>, a value of a set, a counter, \<open>Commit\<close>.\<close>

definition log_transaction ::
  "goint \<Rightarrow> (RetroLog \<Rightarrow> RetroLog go) \<Rightarrow> string \<Rightarrow> goint \<Rightarrow> HLC \<times> RetroLog \<Rightarrow> (HLC \<times> RetroLog) go" where
  "log_transaction now record_value counter n hl =
     go_bind (StartTx now hl) (\<lambda>(h, l).
     go_bind (record_value l) (\<lambda>l1.
     go_bind (Commit_log (AppendVarInt32 counter n l1)) (\<lambda>l2. Inr (h, l2))))"

definition Socket_Send ::
  "surroundings \<Rightarrow> goint \<Rightarrow> rat \<Rightarrow> ID \<Rightarrow> 'm \<Rightarrow> 'm socket \<Rightarrow> (send_error option \<times> 'm socket) go" where
  "Socket_Send E now draw to m s =
     (if UseRetroLog E then
        let (ts, h) = Now now (proc_clock s);
            (msgId, s1) = incrementMsgId (s\<lparr>proc_clock := h\<rparr>);
            pm = ProtocolMsg (ToInt64 ts) msgId m;
            rqlstruct = AddVarInt32 ''to'' (uint to) (AddVarInt ''mid'' msgId (NewRqlStruct None));
            s2 = s1\<lparr>sentCount := sentCount s1 + 1\<rparr>
        in go_bind (log_transaction now (AppendSetStruct ''sentM'' rqlstruct) ''sentCount'' (sentCount s2)
                      (proc_clock s2, Retrolog s2))
             (\<lambda>(h1, l). Inr (socket_send E draw to pm (s2\<lparr>proc_clock := h1, Retrolog := l\<rparr>)))
      else Inr (socket_send E draw to (Plain m) s))"

text \<open>The loops that ignore the error of \<open>Send\<close>; \<open>draws\<close> gives the random number for each node.\<close>

definition send_each ::
  "surroundings \<Rightarrow> goint \<Rightarrow> (ID \<Rightarrow> rat) \<Rightarrow> 'm \<Rightarrow> ID list \<Rightarrow> 'm socket \<Rightarrow> 'm socket go" where
  "send_each E now draws m =
     go_fold (\<lambda>i s. go_bind (Socket_Send E now (draws i) i m s) (\<lambda>(err, s1). Inr s1))"

definition MulticastZone ::
  "surroundings \<Rightarrow> goint \<Rightarrow> (ID \<Rightarrow> rat) \<Rightarrow> goint \<Rightarrow> 'm \<Rightarrow> 'm socket \<Rightarrow> 'm socket go" where
  "MulticastZone E now draws zone m s =
     send_each E now draws m (filter (\<lambda>i. i \<noteq> so_id s \<and> Zone i = zone) (addresses s)) s"

text \<open>The loop of \<open>MulticastQuorum\<close> counts the nodes and stops when the count is \<open>quorum\<close>.\<close>

fun quorum_nodes :: "ID \<Rightarrow> goint \<Rightarrow> goint \<Rightarrow> ID list \<Rightarrow> ID list" where
  "quorum_nodes self quorum i [] = []"
| "quorum_nodes self quorum i (x # xs) =
     (if x = self then quorum_nodes self quorum i xs
      else if i + 1 = quorum then [x]
      else x # quorum_nodes self quorum (i + 1) xs)"

definition MulticastQuorum ::
  "surroundings \<Rightarrow> goint \<Rightarrow> (ID \<Rightarrow> rat) \<Rightarrow> goint \<Rightarrow> 'm \<Rightarrow> 'm socket \<Rightarrow> 'm socket go" where
  "MulticastQuorum E now draws quorum m s =
     send_each E now draws m (quorum_nodes (so_id s) quorum 0 (addresses s)) s"

definition Socket_Broadcast ::
  "surroundings \<Rightarrow> goint \<Rightarrow> (ID \<Rightarrow> rat) \<Rightarrow> 'm \<Rightarrow> 'm socket \<Rightarrow> 'm socket go" where
  "Socket_Broadcast E now draws m s =
     send_each E now draws m (filter (\<lambda>i. i \<noteq> so_id s) (addresses s)) s"

text \<open>\<open>Recv\<close> skips what arrives while the node is crashed; each message comes with whether it is at that
  time. \<open>None\<close> is a call that is still waiting.\<close>

fun Socket_Recv :: "(bool \<times> 'm) list \<Rightarrow> ('m \<times> (bool \<times> 'm) list) option" where
  "Socket_Recv [] = None"
| "Socket_Recv ((crashed, m) # ms) = (if \<not> crashed then Some (m, ms) else Socket_Recv ms)"

section \<open>Fault injection\<close>

definition Drop :: "goint \<Rightarrow> ID \<Rightarrow> goint \<Rightarrow> 'm socket \<Rightarrow> 'm socket" where
  "Drop now i t s = s\<lparr>dropping := (dropping s)(i := True), timers := timers s @ [(now + t, UndoDrop i)]\<rparr>"

definition Slow :: "goint \<Rightarrow> ID \<Rightarrow> goint \<Rightarrow> goint \<Rightarrow> 'm socket \<Rightarrow> 'm socket" where
  "Slow now i delay t s = s\<lparr>slow := (slow s)(i := delay), timers := timers s @ [(now + t, UndoSlow i)]\<rparr>"

definition Flaky :: "goint \<Rightarrow> ID \<Rightarrow> rat \<Rightarrow> goint \<Rightarrow> 'm socket \<Rightarrow> 'm socket" where
  "Flaky now i p t s = s\<lparr>flaky := (flaky s)(i := p), timers := timers s @ [(now + t, UndoFlaky i)]\<rparr>"

definition Crash :: "goint \<Rightarrow> goint \<Rightarrow> 'm socket \<Rightarrow> 'm socket" where
  "Crash now t s =
     (let s1 = s\<lparr>crash := True\<rparr>
      in if t > 0 then s1\<lparr>timers := timers s1 @ [(now + t, UndoCrash)]\<rparr> else s1)"

fun undo_fault :: "undo \<Rightarrow> 'm socket \<Rightarrow> 'm socket" where
  "undo_fault (UndoDrop i) s = s\<lparr>dropping := (dropping s)(i := False)\<rparr>"
| "undo_fault (UndoSlow i) s = s\<lparr>slow := (slow s)(i := 0)\<rparr>"
| "undo_fault (UndoFlaky i) s = s\<lparr>flaky := (flaky s)(i := 0)\<rparr>"
| "undo_fault UndoCrash s = s\<lparr>crash := False\<rparr>"

text \<open>Time passes: the timers whose deadline has come run their goroutines.\<close>

definition expire :: "goint \<Rightarrow> 'm socket \<Rightarrow> 'm socket" where
  "expire now s =
     fold (\<lambda>(_, u). undo_fault u) (filter (\<lambda>(d, _). d \<le> now) (timers s))
       (s\<lparr>timers := filter (\<lambda>(d, _). \<not> d \<le> now) (timers s)\<rparr>)"

section \<open>The node\<close>

text \<open>\<open>Command.String\<close> names a forwarded request.\<close>

definition hex_digit :: "nat \<Rightarrow> char" where
  "hex_digit n = (if n < 10 then char_of (48 + n) else char_of (87 + n))"

definition hex :: "bytes \<Rightarrow> string" where
  "hex bs = concat (map (\<lambda>b. [hex_digit (unat b div 16), hex_digit (unat b mod 16)]) bs)"

definition Command_String :: "Command \<Rightarrow> string" where
  "Command_String c =
     (case cValue c of
        None \<Rightarrow> ''Get{key='' @ Itoa (cKey c) @ '' id='' @ ID_String (cClientID c) @ '' cid='' @ Itoa (cCommandID c) @ ''}''
      | Some v \<Rightarrow> ''Put{key='' @ Itoa (cKey c) @ '' value='' @ hex v @ '' id='' @ ID_String (cClientID c) @ '' cid='' @
          Itoa (cCommandID c))"

text \<open>A message between nodes: a request, a reply or a message of the protocol. \<open>answers\<close> holds what goes
  back over the reply channel of a forwarded request, \<open>pending_replies\<close> the requests whose reply a
  goroutine will send to a node.\<close>

datatype 'm node_msg = NRequest Request | NReply Reply | NProtocol 'm

record 'm node =
  sock :: "'m node_msg socket"
  MessageChan :: "'m node_msg list"
  recvCount :: goint
  forwards :: "(string, Request) fmap"
  answers :: "(Request \<times> Reply) list"
  pending_replies :: "(ID \<times> Request) list"

definition NewNode :: "ID \<Rightarrow> ID list \<Rightarrow> HLC \<Rightarrow> 'm node" where
  "NewNode self addrs h =
     \<lparr>sock = NewSocket self addrs h
        (CreateTimerSet ''recvM'' 5 (CreateTimerSet ''sentM'' 5 (NewRetroLog ''paxi'' (uint self) 100 False))),
      MessageChan = [], recvCount = 0, forwards = fmempty, answers = [], pending_replies = []\<rparr>"

text \<open>One round of the loop of \<open>recv\<close>. What a \<open>ProtocolMsg\<close> carries goes to the handlers as it is; without the log
  \<open>Retrolog\<close> is nil, and such a message, which comes from a node that has it on, ends the receiver.\<close>

definition node_recv :: "surroundings \<Rightarrow> goint \<Rightarrow> 'm node_msg packet \<Rightarrow> 'm node \<Rightarrow> 'm node go" where
  "node_recv E now p n =
     (case p of
        Plain (NRequest r) \<Rightarrow>
          Inr (n\<lparr>pending_replies := pending_replies n @ [(rNodeID r, r)],
                 MessageChan := MessageChan n @ [NRequest r]\<rparr>)
      | Plain (NReply y) \<Rightarrow>
          (case fmlookup (forwards n) (Command_String (yCommand y)) of
             None \<Rightarrow> Inl NilDeref
           | Some r \<Rightarrow> Inr (n\<lparr>answers := answers n @ [(r, y)]\<rparr>))
      | ProtocolMsg t i m \<Rightarrow>
          let (_, h) = Update now (NewTimestampI64 t) (proc_clock (sock n));
              n1 = n\<lparr>recvCount := recvCount n + 1\<rparr>
          in if \<not> UseRetroLog E then Inl NilDeref else
             go_bind (log_transaction now (AppendSetInt ''recvM'' i) ''recvCount'' (recvCount n1) (h, Retrolog (sock n)))
               (\<lambda>(h1, l). Inr (n1\<lparr>sock := (sock n1)\<lparr>proc_clock := h1, Retrolog := l\<rparr>,
                                  MessageChan := MessageChan n1 @ [m]\<rparr>))
      | Plain m \<Rightarrow> Inr (n\<lparr>MessageChan := MessageChan n @ [m]\<rparr>))"

definition Node_Retry :: "Request \<Rightarrow> 'm node \<Rightarrow> 'm node" where
  "Node_Retry r n = n\<lparr>MessageChan := MessageChan n @ [NRequest r]\<rparr>"

text \<open>\<open>Forward\<close> keeps its own copy of the request.\<close>

definition Node_Forward :: "surroundings \<Rightarrow> goint \<Rightarrow> rat \<Rightarrow> ID \<Rightarrow> Request \<Rightarrow> 'm node \<Rightarrow> 'm node go" where
  "Node_Forward E now draw to m n =
     (let m1 = m\<lparr>rNodeID := so_id (sock n)\<rparr>;
          n1 = n\<lparr>forwards := fmupd (Command_String (rCommand m1)) m1 (forwards n)\<rparr>
      in go_bind (Socket_Send E now draw to (NRequest m1) (sock n1)) (\<lambda>(err, s). Inr (n1\<lparr>sock := s\<rparr>)))"

end
