(* ===== verification/SocketFacts.thy ===== *)
theory SocketFacts
  imports Sockets
begin

text \<open>
  What the socket and the node do: every injected fault but a crash for good ends with its timer, and
  may end earlier with the timer of another; a multicast reaches as many nodes as asked; a message is
  stamped between the clocks of the two nodes; and a request that is forwarded while the log is on
  arrives without its reply channel.
\<close>

section \<open>Retrying\<close>

lemma retry_from_eq:
  "retry_from f attempts i =
     (if \<exists>j \<ge> i. (j = i \<or> int j < attempts) \<and> f j = None then None
      else f (max i (nat (attempts - 1))))"
proof (induction f attempts i rule: retry_from.induct)
  case (1 f attempts i)
  show ?case
  proof (cases "f i")
    case None
    then show ?thesis by (subst retry_from.simps) auto
  next
    case (Some err)
    show ?thesis
    proof (cases "int i \<ge> attempts - 1")
      case True
      then have "max i (nat (attempts - 1)) = i" "\<And>j. j \<ge> i \<Longrightarrow> j = i \<or> int j < attempts \<Longrightarrow> j = i"
        by auto
      then show ?thesis
        using True Some by (subst retry_from.simps) force
    next
      case False
      have "(\<exists>j \<ge> i. (j = i \<or> int j < attempts) \<and> f j = None) \<longleftrightarrow>
          (\<exists>j \<ge> Suc i. (j = Suc i \<or> int j < attempts) \<and> f j = None)"
        using Some False by (metis Suc_leD Suc_leI le_eq_less_or_eq option.distinct(1) 
            add.commute int_Suc  less_diff_eq linorder_not_le of_nat_Suc)
      moreover have "max (Suc i) (nat (attempts - 1)) = max i (nat (attempts - 1))"
        using False by auto
      moreover have "retry_from f attempts i = retry_from f attempts (Suc i)"
        using Some False by (subst retry_from.simps) simp
      ultimately show ?thesis
        using 1 [OF Some False] by (simp only:)
    qed
  qed
qed

section \<open>Faults\<close>

text \<open>What may happen to a socket: a fault is injected at some time, time passes, a message is sent.\<close>

datatype 'm socket_event =
    EDrop goint ID goint
  | ESlow goint ID goint goint
  | EFlaky goint ID rat goint
  | ECrash goint goint
  | EPass goint
  | ESend goint rat ID 'm

fun socket_do :: "surroundings \<Rightarrow> 'm socket_event \<Rightarrow> 'm socket \<Rightarrow> 'm socket go" where
  "socket_do E (EDrop now i t) s = Inr (Drop now i t s)"
| "socket_do E (ESlow now i delay t) s = Inr (Slow now i delay t s)"
| "socket_do E (EFlaky now i p t) s = Inr (Flaky now i p t s)"
| "socket_do E (ECrash now t) s = Inr (Crash now t s)"
| "socket_do E (EPass now) s = Inr (expire now s)"
| "socket_do E (ESend now draw to m) s = go_bind (Socket_Send E now draw to m s) (\<lambda>(err, s1). Inr s1)"

text \<open>A fault that ends by a given time; a crash ends only when a time is given.\<close>

fun ends_by :: "goint \<Rightarrow> 'm socket_event \<Rightarrow> bool" where
  "ends_by now (EDrop now0 i t) \<longleftrightarrow> now0 + t \<le> now"
| "ends_by now (ESlow now0 i delay t) \<longleftrightarrow> now0 + t \<le> now"
| "ends_by now (EFlaky now0 i p t) \<longleftrightarrow> now0 + t \<le> now"
| "ends_by now (ECrash now0 t) \<longleftrightarrow> 0 < t \<and> now0 + t \<le> now"
| "ends_by now e \<longleftrightarrow> True"

text \<open>Every fault has a pending timer, which fires by then.\<close>

definition faults_timed :: "goint \<Rightarrow> 'm socket \<Rightarrow> bool" where
  [wf_defs]: "faults_timed now s \<longleftrightarrow>
     (\<forall>i. (dropping s i \<longrightarrow> UndoDrop i \<in> snd ` set (timers s)) \<and>
          (slow s i \<noteq> 0 \<longrightarrow> UndoSlow i \<in> snd ` set (timers s)) \<and>
          (flaky s i \<noteq> 0 \<longrightarrow> UndoFlaky i \<in> snd ` set (timers s))) \<and>
     (crash s \<longrightarrow> UndoCrash \<in> snd ` set (timers s)) \<and>
     (\<forall>(d, u) \<in> set (timers s). d \<le> now)"

lemma undo_faults_fields:
  "dropping (fold (\<lambda>(_, u). undo_fault u) us s) i \<longleftrightarrow> dropping s i \<and> UndoDrop i \<notin> snd ` set us"
  "slow (fold (\<lambda>(_, u). undo_fault u) us s) i = (if UndoSlow i \<in> snd ` set us then 0 else slow s i)"
  "flaky (fold (\<lambda>(_, u). undo_fault u) us s) i = (if UndoFlaky i \<in> snd ` set us then 0 else flaky s i)"
  "crash (fold (\<lambda>(_, u). undo_fault u) us s) \<longleftrightarrow> crash s \<and> UndoCrash \<notin> snd ` set us"
  "timers (fold (\<lambda>(_, u). undo_fault u) us s) = timers s"
  "addresses (fold (\<lambda>(_, u). undo_fault u) us s) = addresses s"
  "nodes (fold (\<lambda>(_, u). undo_fault u) us s) = nodes s"
  "wire (fold (\<lambda>(_, u). undo_fault u) us s) = wire s"
proof (induction us arbitrary: s)
  case (Cons x us)
  obtain d u where x: "x = (d, u)" by (cases x)
  { case 1 show ?case by (cases u) (auto simp: x Cons.IH) }
  { case 2 show ?case by (cases u) (auto simp: x Cons.IH) }
  { case 3 show ?case by (cases u) (auto simp: x Cons.IH) }
  { case 4 show ?case by (cases u) (auto simp: x Cons.IH) }
  { case 5 show ?case by (cases u) (auto simp: x Cons.IH) }
  { case 6 show ?case by (cases u) (auto simp: x Cons.IH) }
  { case 7 show ?case by (cases u) (auto simp: x Cons.IH) }
  { case 8 show ?case by (cases u) (auto simp: x Cons.IH) }
qed simp_all

lemma still_pending:
  "u \<in> snd ` set ts \<Longrightarrow> u \<notin> snd ` set (filter (\<lambda>(d, _). d \<le> t) ts) \<Longrightarrow> u \<in> snd ` set (filter (\<lambda>(d, _). \<not> d \<le> (t :: goint)) ts)"
  by force

lemma expire_faults_timed:
  assumes "faults_timed now s"
  shows "faults_timed now (expire t s)"
proof -
  let ?late = "filter (\<lambda>(d, _). \<not> d \<le> t) (timers s)"
  have "timers (expire t s) = ?late"
    by (simp add: expire_def undo_faults_fields)
  moreover have "dropping (expire t s) i \<Longrightarrow> UndoDrop i \<in> snd ` set ?late"
    "slow (expire t s) i \<noteq> 0 \<Longrightarrow> UndoSlow i \<in> snd ` set ?late"
    "flaky (expire t s) i \<noteq> 0 \<Longrightarrow> UndoFlaky i \<in> snd ` set ?late"
    "crash (expire t s) \<Longrightarrow> UndoCrash \<in> snd ` set ?late" for i
    using assms by (intro still_pending; simp add: expire_def undo_faults_fields faults_timed_def split: if_splits)+
  moreover have "\<forall>(d, u) \<in> set ?late. d \<le> now"
    using assms by (auto simp: faults_timed_def)
  ultimately show ?thesis
    unfolding faults_timed_def by metis
qed

lemma transport_to_fields:
  "transport_to E to s = Inr s1 \<Longrightarrow> \<exists>ns. s1 = s\<lparr>nodes := ns\<rparr> \<and> to \<in> set ns"
  by (auto simp: transport_to_def split: if_splits option.splits intro: exI [of _ "nodes s"])

lemma socket_send_fields:
  assumes "socket_send E draw to m s = (err, s')"
  shows "\<exists>ns w. s' = s\<lparr>nodes := ns, wire := w\<rparr>"
proof -
  have "\<exists>ns w. s = s\<lparr>nodes := ns, wire := w\<rparr>"
    by (intro exI [of _ "nodes s"] exI [of _ "wire s"]) simp
  moreover have "\<exists>ns w. s1\<lparr>wire := w1\<rparr> = s\<lparr>nodes := ns, wire := w\<rparr>" if "transport_to E to s = Inr s1" for s1 w1
    using transport_to_fields [OF that] by auto
  ultimately show ?thesis
    using assms by (auto simp: socket_send_def split: if_splits sum.splits)
qed

lemma Socket_Send_fields:
  assumes "Socket_Send E now draw to m s = Inr (err, s')"
  shows "addresses s' = addresses s \<and> timers s' = timers s \<and> dropping s' = dropping s \<and> slow s' = slow s \<and> flaky s' = flaky s \<and> crash s' = crash s"
proof -
  obtain p s1 where "socket_send E draw to p s1 = (err, s')" "addresses s1 = addresses s" "timers s1 = timers s"
    "dropping s1 = dropping s" "slow s1 = slow s" "flaky s1 = flaky s" "crash s1 = crash s"
    using assms by (auto simp: Socket_Send_def Let_def incrementMsgId_def split: if_splits prod.splits)
  then show ?thesis
    using socket_send_fields by fastforce
qed

lemma faults_timed_new:
  assumes "faults_timed now s"
  shows "n + t \<le> now \<Longrightarrow> faults_timed now (Drop n i t s) \<and> addresses (Drop n i t s) = addresses s"
    "n + t \<le> now \<Longrightarrow> faults_timed now (Slow n i delay t s) \<and> addresses (Slow n i delay t s) = addresses s"
    "n + t \<le> now \<Longrightarrow> faults_timed now (Flaky n i r t s) \<and> addresses (Flaky n i r t s) = addresses s"
    "0 < t \<Longrightarrow> n + t \<le> now \<Longrightarrow> faults_timed now (Crash n t s) \<and> addresses (Crash n t s) = addresses s"
  using assms by (simp_all add: faults_timed_def Drop_def Slow_def Flaky_def Crash_def image_Un)

lemma do_keeps:
  assumes "socket_do E e s = Inr s'" "ends_by now e" "faults_timed now s"
  shows "faults_timed now s' \<and> addresses s' = addresses s"
proof (cases e)
  case (EPass now0)
  then show ?thesis
    using assms expire_faults_timed [OF assms(3)] by (auto simp: expire_def undo_faults_fields)
next
  case (ESend now0 draw to m)
  then obtain err where "Socket_Send E now0 draw to m s = Inr (err, s')"
    using assms(1) by auto
  from Socket_Send_fields [OF this] show ?thesis
    using assms(3) by (simp add: faults_timed_def)
qed (use assms in \<open>auto simp: faults_timed_new\<close>)

lemma faults_run_keeps:
  "go_fold (socket_do E) evs s = Inr s' \<Longrightarrow> list_all (ends_by now) evs \<Longrightarrow> faults_timed now s \<Longrightarrow>
     faults_timed now s' \<and> addresses s' = addresses s"
proof (induction evs arbitrary: s)
  case (Cons e evs)
  then obtain u where u: "socket_do E e s = Inr u" "go_fold (socket_do E) evs u = Inr s'"
    by auto
  then show ?case
    using Cons.IH [OF u(2)] do_keeps [OF u(1), of now] Cons.prems by simp
qed simp

lemma all_expired:
  assumes "faults_timed now s"
  shows "\<not> dropping (expire now s) i" "slow (expire now s) i = 0" "flaky (expire now s) i = 0" "\<not> crash (expire now s)"
    "timers (expire now s) = []" "addresses (expire now s) = addresses s" "wire (expire now s) = wire s"
proof -
  have "filter (\<lambda>(d, _). d \<le> now) (timers s) = timers s" "filter (\<lambda>(d, _). \<not> d \<le> now) (timers s) = []"
    using assms by (auto simp: faults_timed_def filter_empty_conv intro: filter_True)
  then show "\<not> dropping (expire now s) i" "slow (expire now s) i = 0" "flaky (expire now s) i = 0" "\<not> crash (expire now s)"
    "timers (expire now s) = []" "addresses (expire now s) = addresses s" "wire (expire now s) = wire s"
    using assms by (auto simp: expire_def undo_faults_fields faults_timed_def)
qed

text \<open>C29: injected faults end: in whatever way faults were injected, time passed and messages were sent since
  the socket was made, when the times given for all faults are over (a crash may be for good, when no time is given) the
  timers have run, none is left, and the node hands a message for
  any known node to its transport, once and without delay, if one of two attempts to dial succeeds.\<close>

theorem faults_end:
  assumes "go_fold (socket_do E) evs (NewSocket self addrs h l) = Inr s" "list_all (ends_by now) evs"
    and "to \<in> set addrs" and "dial_error E to 0 = None \<or> dial_error E to 1 = None"
  shows "timers (expire now s) = [] \<and>
    (\<exists>s'. socket_send E draw to p (expire now s) = (None, s') \<and> wire s' = wire s @ [(to, 0, p)])"
proof -
  have "faults_timed now (NewSocket self addrs h l)"
    by (simp add: NewSocket_def faults_timed_def)
  from faults_run_keeps [OF assms(1,2) this] have s: "faults_timed now s" "addresses s = addrs"
    by (simp_all add: NewSocket_def)
  have "Retry (dial_error E to) 2 = None"
    using assms(4) by (auto simp: Retry_def retry_from.simps split: option.splits)
  then show ?thesis
    using all_expired [OF s(1)] s(2) assms(3) by (auto simp: socket_send_def transport_to_def)
qed

lemma faults_end_witness:
  "\<exists>s'. socket_send \<lparr>dial_error = (\<lambda>_ k. if k = 0 then Some DialFailed else None), UseRetroLog = False\<rparr> (1 / 3)
      2 (Plain CHR ''m'') (expire 7 (Crash 1 5 (Drop 0 2 5 (NewSocket 1 [1, 2] (NewHLC 0) (NewRetroLog ''paxi'' 1 100 False))))) =
      (None, s') \<and> wire s' = [(2, 0, Plain CHR ''m'')]"
proof -
  let ?E = "\<lparr>dial_error = (\<lambda>_ k. if k = 0 then Some DialFailed else None), UseRetroLog = False\<rparr>"
  let ?s = "NewSocket 1 [1, 2] (NewHLC 0) (NewRetroLog ''paxi'' 1 100 False) :: char socket"
  have "go_fold (socket_do ?E) [EDrop 0 2 5, ECrash 1 5] ?s = Inr (Crash 1 5 (Drop 0 2 5 ?s))"
    by simp
  from faults_end [OF this, of 7 2 "1 / 3" "Plain CHR ''m''"] show ?thesis
    by (simp add: Drop_def Crash_def NewSocket_def)
qed

text \<open>timers do not belong to the fault they were started for: a second fault ends with the timer of the first,
  here after one second instead of five, and a crash for good (no time given) ends with the timer of an
  earlier crash.\<close>

theorem timers_end_later_faults:
  "dropping (expire 10 (Drop 9 i 5 (Drop 0 i 10 (NewSocket self addrs h l)))) i = False
   \<and> (UndoDrop i) \<in> snd ` set (timers (expire 10 (Drop 9 i 5 (Drop 0 i 10 (NewSocket self addrs h l)))))
   \<and> crash (expire 10 (Crash 9 0 (Crash 0 10 (NewSocket self addrs h l)))) = False"
  by (simp add: expire_def Drop_def Crash_def NewSocket_def)

section \<open>Multicast\<close>

lemma quorum_nodes_eq:
  "quorum_nodes self q i xs = (let ys = filter (\<lambda>x. x \<noteq> self) xs in if i < q then take (nat (q - i)) ys else ys)"
proof (induction self q i xs rule: quorum_nodes.induct)
  case (2 self q i x xs)
  show ?case
  proof (cases "x = self \<or> i + 1 = q")
    case False
    then have "i < q \<longleftrightarrow> i + 1 < q" "nat (q - i) = (if i < q then Suc (nat (q - (i + 1))) else 0)"
      by auto
    then show ?thesis
      using 2 False by (simp add: Let_def)
  qed (use 2 in \<open>auto simp: Let_def\<close>)
qed (simp add: Let_def)

section \<open>Stamped messages\<close>

lemma log_transaction_clock:
  "log_transaction now f c n (h, l) = Inr (h1, l1) \<Longrightarrow> h1 = snd (Now now h)"
  by (auto simp: log_transaction_def StartTx_def Let_def split: if_splits prod.splits)

lemma socket_send_wire:
  "socket_send E draw to p s = (err, s') \<Longrightarrow> wire s' = wire s \<or> (\<exists>d. wire s' = wire s @ [(to, d, p)])"
  by (auto simp: socket_send_def dest!: transport_to_fields split: if_splits sum.splits)

lemma stamped_send:
  assumes "UseRetroLog E" "Socket_Send E now draw to m s = Inr (err, s')" "wire s' = wire s @ [(to, d, p)]"
  shows "p = ProtocolMsg (ToInt64 (fst (Now now (proc_clock s)))) (msgid s + 1) m"
proof -
  obtain s2 where s2: "socket_send E draw to (ProtocolMsg (ToInt64 (fst (Now now (proc_clock s)))) (msgid s + 1) m) s2 = (err, s')"
    "wire s2 = wire s"
    using assms(1,2) by (auto simp: Socket_Send_def Let_def incrementMsgId_def split: prod.splits)
  then show ?thesis
    using socket_send_wire [OF s2(1)] assms(3) by auto
qed

text \<open>C30: with the log on, a message carries a time that lies after everything the sender's clock has read and
  before everything the receiver's clock reads afterwards, whatever the two physical clocks show, as long
  as the logical parts leave room for three events and the times fit in 48 bits.\<close>

theorem message_times_are_causal:
  assumes "UseRetroLog E" and "Socket_Send E now draw to m s = Inr (err, s')"
    and "wire s' = wire s @ [(to, d, ProtocolMsg t i m)]"
    and "node_recv E' now' (ProtocolMsg t i m) n = Inr n'"
    and "logical_room 3 (currentHLC (proc_clock s))" "logical_room 3 (currentHLC (proc_clock (sock n)))"
    and "0 \<le> sint (LogicalTime (currentHLC (proc_clock s)))" "0 \<le> sint (PhysicalTime (currentHLC (proc_clock s)))"
    and "sint (PhysicalTime (currentHLC (proc_clock s))) < 2 ^ 47" "0 \<le> CurrentTimeInMS now" "CurrentTimeInMS now < 2 ^ 47"
  shows "currentHLC (proc_clock s) < NewTimestampI64 t \<and> NewTimestampI64 t < currentHLC (proc_clock (sock n')) \<and>
    currentHLC (proc_clock (sock n)) < currentHLC (proc_clock (sock n'))"
proof -
  let ?h = "proc_clock s" and ?g = "proc_clock (sock n)"
  let ?t = "fst (Now now ?h)"
  have t: "t = ToInt64 ?t"
    using stamped_send [OF assms(1-3)] by simp
  have r: "?t = currentHLC (clock_step (Local now) ?h)"
    by (simp add: Now_def Let_def)
  have before: "currentHLC ?h < ?t"
    unfolding r using hc.advances [of 2 ?h "Local now"] assms(5) by (simp add: event_room_def numeral_3_eq_3 numeral_2_eq_2)
  have room: "logical_room 2 ?t"
    unfolding r using hc.leaves_room [of 2 ?h "Local now"] assms(5) by (simp add: event_room_def numeral_3_eq_3 numeral_2_eq_2)
  have "sint (word_of_int (CurrentTimeInMS now) :: 64 word) = CurrentTimeInMS now"
    using assms(10,11) by (intro sint_64) simp_all
  then have "0 \<le> sint (PhysicalTime ?t)" "sint (PhysicalTime ?t) < 2 ^ 47" "0 \<le> sint (LogicalTime ?t)"
    using assms(5,7-11) by (auto simp: clock_defs sint_inc)
  then have dec: "NewTimestampI64 t = ?t"
    unfolding t by (intro NewTimestampI64_ToInt64) simp_all
  obtain h1 l1 where "log_transaction now' (AppendSetInt ''recvM'' i) ''recvCount'' (recvCount n + 1)
      (snd (Update now' ?t ?g), Retrolog (sock n)) = Inr (h1, l1)" "proc_clock (sock n') = h1"
    using assms(4) by (auto simp: node_recv_def Let_def dec split: prod.splits if_splits)
  then have h1: "proc_clock (sock n') = clock_step (Local now') (clock_step (Received now' ?t) ?g)"
    using log_transaction_clock by fastforce
  have e: "event_room 2 (Received now' ?t)" "event_room 1 (Local now')" "logical_room 2 (currentHLC ?g)"
    using room assms(6) by (auto simp: event_room_def logical_room_def)
  have "currentHLC ?g < currentHLC (clock_step (Received now' ?t) ?g)" "?t < currentHLC (clock_step (Received now' ?t) ?g)"
      "logical_room 1 (currentHLC (clock_step (Received now' ?t) ?g))"
    using hc.advances [of 1 ?g "Received now' ?t"] hc.exceeds [of 1 ?g "Received now' ?t" ?t]
      hc.leaves_room [of 1 ?g "Received now' ?t"] e by (simp_all add: numeral_2_eq_2)
  moreover have "currentHLC (clock_step (Received now' ?t) ?g) < currentHLC (proc_clock (sock n'))"
    unfolding h1 using hc.advances [of 0 _ "Local now'"] calculation(3) e(2) by simp
  ultimately show ?thesis
    using before dec by auto
qed

definition open_net :: "bool \<Rightarrow> surroundings" where
  "open_net retro = \<lparr>dial_error = (\<lambda>_ _. None), UseRetroLog = retro\<rparr>"

lemma message_times_are_causal_witness:
  "\<exists>s' d t i n'. Socket_Send (open_net True) 5000000 0 2 (NProtocol CHR ''m'') (sock (NewNode 1 [1, 2] (NewHLC 3))) = Inr (None, s')
     \<and> wire s' = [(2, d, ProtocolMsg t i (NProtocol CHR ''m''))]
     \<and> node_recv (open_net True) 4000000 (ProtocolMsg t i (NProtocol CHR ''m'')) (NewNode 2 [1, 2] (NewHLC 4)) = Inr n'
     \<and> NewTimestampI64 t < currentHLC (proc_clock (sock n'))"
proof -
  let ?a = "NewNode 1 [1, 2] (NewHLC 3) :: char node" and ?b = "NewNode 2 [1, 2] (NewHLC 4) :: char node"
  let ?m = "NProtocol CHR ''m''"
  have "case Socket_Send (open_net True) 5000000 0 2 ?m (sock ?a) of Inl _ \<Rightarrow> False
    | Inr (err, s') \<Rightarrow> err = None \<and> map fst (wire s') = [2] \<and>
        \<not> isl (node_recv (open_net True) 4000000 (snd (snd (hd (wire s')))) ?b)"
    by code_simp
  then obtain s' d p where s': "Socket_Send (open_net True) 5000000 0 2 ?m (sock ?a) = Inr (None, s')"
    "wire s' = [(2, d, p)]" "\<not> isl (node_recv (open_net True) 4000000 p ?b)"
    by (auto split: sum.splits prod.splits)
  then obtain n' where w: "Socket_Send (open_net True) 5000000 0 2 ?m (sock ?a) = Inr (None, s')"
    "wire s' = [(2, d, p)]" "node_recv (open_net True) 4000000 p ?b = Inr n'"
    by (cases "node_recv (open_net True) 4000000 p ?b") auto
  obtain t i where p: "p = ProtocolMsg t i ?m"
    using stamped_send [OF _ w(1)] w(2) by (auto simp: open_net_def NewNode_def NewSocket_def)
  have "NewTimestampI64 t < currentHLC (proc_clock (sock n'))"
    by (rule message_times_are_causal [OF _ w(1) _ w(3) [unfolded p], THEN conjunct2, THEN conjunct1])
      (use w(2) p in \<open>simp_all add: open_net_def NewNode_def NewSocket_def NewHLC_def logical_room_def
         CurrentTimeInMS_def signed_divide_int_def\<close>)
  then show ?thesis using w p by blast
qed

section \<open>Forwarding\<close>

text \<open>a request that is forwarded reaches the handlers of the other node under the name of the node that
  forwards it, and a reply to its command goes back to the waiting request; but with the log on it
  arrives without a reply channel, so that nothing will send the reply back.\<close>

theorem forwarded_request_loses_its_channel:
  assumes "Node_Forward E now draw to r n = Inr n'" and "wire (sock n') = wire (sock n) @ [(to', d, p)]"
    and "node_recv E' now' p b = Inr b'"
  shows "MessageChan b' = MessageChan b @ [NRequest (r\<lparr>rNodeID := so_id (sock n)\<rparr>)]
    \<and> pending_replies b' = pending_replies b @
        (if UseRetroLog E then [] else [(so_id (sock n), r\<lparr>rNodeID := so_id (sock n)\<rparr>)])
    \<and> (yCommand y = rCommand r \<longrightarrow>
        node_recv E'' now'' (Plain (NReply y)) n' =
          Inr (n'\<lparr>answers := answers n' @ [(r\<lparr>rNodeID := so_id (sock n)\<rparr>, y)]\<rparr>))"
proof -
  let ?r = "r\<lparr>rNodeID := so_id (sock n)\<rparr>"
  obtain err s where s: "Socket_Send E now draw to (NRequest ?r) (sock n) = Inr (err, s)" "sock n' = s"
    "fmlookup (forwards n') (Command_String (rCommand r)) = Some ?r"
    using assms(1) by (auto simp: Node_Forward_def Let_def)
  have "if UseRetroLog E then \<exists>t i. p = ProtocolMsg t i (NRequest ?r) else p = Plain (NRequest ?r)"
  proof (cases "UseRetroLog E")
    case True
    have "wire s = wire (sock n) @ [(to', d, p)]" using assms(2) s(2) by simp
    moreover from this have "to' = to"
      using s(1) True socket_send_wire by (fastforce simp: Socket_Send_def Let_def incrementMsgId_def split: prod.splits)
    ultimately show ?thesis
      using stamped_send [OF True s(1)] True by auto
  next
    case False
    then show ?thesis
      using s socket_send_wire [of E draw to "Plain (NRequest ?r)" "sock n" err s] assms(2)
      by (auto simp: Socket_Send_def)
  qed
  then show ?thesis
    using assms(3) s(3) by (auto simp: node_recv_def Let_def split: if_splits prod.splits)
qed

lemma forwarded_request_loses_its_channel_witness:
  "\<exists>n' d p b'. Node_Forward (open_net True) 5000000 0 2
       \<lparr>rCommand = zero_command, rProperties = [], rTimestamp = 0, rNodeID = 0\<rparr> (NewNode 1 [1, 2] (NewHLC 3)) = Inr n'
     \<and> wire (sock (n' :: char node)) = [(2, d, p)] \<and> node_recv (open_net True) 4000000 p (NewNode 2 [1, 2] (NewHLC 4)) = Inr b'
     \<and> MessageChan b' = [NRequest \<lparr>rCommand = zero_command, rProperties = [], rTimestamp = 0, rNodeID = 1\<rparr>]
     \<and> pending_replies b' = []"
proof -
  let ?a = "NewNode 1 [1, 2] (NewHLC 3) :: char node" and ?b = "NewNode 2 [1, 2] (NewHLC 4) :: char node"
  let ?r = "\<lparr>rCommand = zero_command, rProperties = [], rTimestamp = 0, rNodeID = 0\<rparr>"
  have "case Node_Forward (open_net True) 5000000 0 2 ?r ?a of Inl _ \<Rightarrow> False
    | Inr n' \<Rightarrow> map fst (wire (sock n')) = [2] \<and>
        \<not> isl (node_recv (open_net True) 4000000 (snd (snd (hd (wire (sock n'))))) ?b)"
    by code_simp
  then obtain n' d p where n': "Node_Forward (open_net True) 5000000 0 2 ?r ?a = Inr n'"
    "wire (sock n') = [(2, d, p)]" "\<not> isl (node_recv (open_net True) 4000000 p ?b)"
    by (auto split: sum.splits)
  then obtain b' where w: "Node_Forward (open_net True) 5000000 0 2 ?r ?a = Inr n'"
    "wire (sock n') = [(2, d, p)]" "node_recv (open_net True) 4000000 p ?b = Inr b'"
    by (cases "node_recv (open_net True) 4000000 p ?b") auto
  have "wire (sock n') = wire (sock ?a) @ [(2, d, p)]"
    using w(2) by (simp add: NewNode_def NewSocket_def)
  from forwarded_request_loses_its_channel [OF w(1) this w(3)] show ?thesis
    using w by (auto simp: open_net_def NewNode_def NewSocket_def)
qed

end
