(* ===== verification/Clients.thy ===== *)
theory Clients
  imports Sockets Paxos
begin

text \<open>
  The HTTP side of the repository: the client of \<open>client.go\<close> with the clients of \<open>paxos/client.go\<close> and
  \<open>epaxos/client.go\<close> over it, and the handlers of \<open>http.go\<close>. The network is an argument: \<open>exchange\<close>
  gives the answer to the last of the requests sent so far. The goroutines of a multiple read run in the order
  in which they are started; \<open>arrival\<close> is the order in which their results come in. JSON enters through
  \<open>marshal\<close> and \<open>unmarshal\<close>.
\<close>

section \<open>Requests and answers\<close>

datatype http_method = MethodGet | MethodPut | MethodPost

record http_request =
  q_method :: http_method
  q_url :: string
  q_headers :: "(string \<times> string) list"
  q_body :: bytes

text \<open>An answer: whether the status is 200, the headers by name, the body, and whether reading it fails.\<close>

record http_response =
  status_ok :: bool
  r_headers :: "(string \<times> string) list"
  r_body :: bytes
  body_fails :: bool

datatype http_error = BadURL | NoAnswer | BadBody | BadStatus | BadNumber

type_synonym meta = "(string \<times> string) list"

record web =
  exchange :: "http_request list \<Rightarrow> http_response option"
  malformed :: "string \<Rightarrow> bool"
  intn :: "nat \<Rightarrow> nat"
  arrival :: "(Value \<times> meta) list \<Rightarrow> (Value \<times> meta) list"
  marshal :: "Command \<Rightarrow> bytes"
  unmarshal :: "bytes \<Rightarrow> Value list option"

text \<open>The state of a client, with the requests it has sent and the random numbers it has drawn.\<close>

record http_client =
  c_Addrs :: "ID list"
  c_HTTP :: "(ID \<times> string) list"
  c_IDs :: "ID list"
  c_ID :: ID
  c_N :: goint
  LocalN :: goint
  localIDs :: "ID list"
  CID :: goint
  asked :: "http_request list"
  drawn :: nat

definition NewHTTPClient :: "ID list \<Rightarrow> (ID \<times> string) list \<Rightarrow> ID list \<Rightarrow> ID \<Rightarrow> http_client" where
  "NewHTTPClient addrs urls ids i =
     (let local = (if i \<noteq> 0 then filter (\<lambda>node. Zone node = Zone i) addrs else [])
      in \<lparr>c_Addrs = addrs, c_HTTP = urls, c_IDs = ids, c_ID = i, c_N = int (length addrs),
          LocalN = int (length local), localIDs = local, CID = 0, asked = [], drawn = 0\<rparr>)"

definition lookup0 :: "(ID \<times> string) list \<Rightarrow> ID \<Rightarrow> string" where
  "lookup0 m i = (case map_of m i of None \<Rightarrow> [] | Some s \<Rightarrow> s)"

definition header :: "meta \<Rightarrow> string \<Rightarrow> string" where
  "header m k = (case map_of m k of None \<Rightarrow> [] | Some s \<Rightarrow> s)"

text \<open>\<open>rand.Intn\<close> of the length of a slice panics when the slice is empty.\<close>

definition random_of :: "web \<Rightarrow> ID list \<Rightarrow> 'a http_client_scheme \<Rightarrow> (ID \<times> 'a http_client_scheme) go" where
  "random_of W ids c =
     (if ids = [] then Inl InvalidArgument
      else Inr (ids ! (intn W (drawn c) mod length ids), c\<lparr>drawn := drawn c + 1\<rparr>))"

definition GetURL :: "web \<Rightarrow> ID \<Rightarrow> Key \<Rightarrow> 'a http_client_scheme \<Rightarrow> (string \<times> 'a http_client_scheme) go" where
  "GetURL W i key c =
     go_bind (if i = 0 \<and> c_ID c \<noteq> 0 then random_of W (localIDs c) c
              else if i = 0 then random_of W (c_IDs c) c
              else Inr (i, c))
       (\<lambda>(i1, c1). Inr (lookup0 (c_HTTP c1) i1 @ ''/'' @ Itoa key, c1))"

text \<open>Sending a request and waiting for its answer.\<close>

definition ask :: "web \<Rightarrow> http_request \<Rightarrow> 'a http_client_scheme \<Rightarrow> http_response option \<times> 'a http_client_scheme" where
  "ask W q c = (let qs = asked c @ [q] in (exchange W qs, c\<lparr>asked := qs\<rparr>))"

type_synonym reading = "Value \<times> meta \<times> http_error option"

definition rest :: "web \<Rightarrow> ID \<Rightarrow> Key \<Rightarrow> Value \<Rightarrow> 'a http_client_scheme \<Rightarrow> (reading \<times> 'a http_client_scheme) go" where
  "rest W i key val c =
     go_bind (GetURL W i key c) (\<lambda>(url, c1).
       if malformed W url then Inr ((None, [], Some BadURL), c1)
       else
         let q = \<lparr>q_method = (if val = None then MethodGet else MethodPut), q_url = url,
                  q_headers = [(''Id'', Itoa (uint (c_ID c1))), (''Cid'', Itoa (CID c1))],
                  q_body = slice_bytes val\<rparr>
         in case ask W q c1 of
              (None, c2) \<Rightarrow> Inr ((None, [], Some NoAnswer), c2)
            | (Some rep, c2) \<Rightarrow>
                if status_ok rep then
                  if body_fails rep then Inr ((None, r_headers rep, Some BadBody), c2)
                  else Inr ((Some (r_body rep), r_headers rep, None), c2)
                else Inr ((None, r_headers rep, Some BadStatus), c2))"

definition RESTGet where "RESTGet W i key = rest W i key None"

definition RESTPut where "RESTPut W i key val = rest W i key val"

definition Client_Get :: "web \<Rightarrow> Key \<Rightarrow> 'a http_client_scheme \<Rightarrow> ((Value \<times> http_error option) \<times> 'a http_client_scheme) go" where
  "Client_Get W key c =
     (let c0 = c\<lparr>CID := CID c + 1\<rparr>
      in go_bind (RESTGet W (c_ID c0) key c0) (\<lambda>((v, meta, err), c1).
           if err \<noteq> None \<and> c_ID c1 \<noteq> 0
           then go_bind (random_of W (c_IDs c1) c1) (\<lambda>(i, c2). Inr ((v, err), c2\<lparr>c_ID := i\<rparr>))
           else Inr ((v, err), c1)))"

definition Client_Put :: "web \<Rightarrow> Key \<Rightarrow> Value \<Rightarrow> 'a http_client_scheme \<Rightarrow> (http_error option \<times> 'a http_client_scheme) go" where
  "Client_Put W key val c =
     (let c0 = c\<lparr>CID := CID c + 1\<rparr>
      in go_bind (RESTPut W (c_ID c0) key val c0) (\<lambda>((v, meta, err), c1). Inr (err, c1)))"

definition client_json :: "web \<Rightarrow> ID \<Rightarrow> Key \<Rightarrow> Value \<Rightarrow> 'a http_client_scheme \<Rightarrow> (Value \<times> http_error option) \<times> 'a http_client_scheme" where
  "client_json W i key val c =
     (let cmd = \<lparr>cKey = key, cValue = val, cClientID = c_ID c, cCommandID = CID c\<rparr>
      in case ask W \<lparr>q_method = MethodPost, q_url = lookup0 (c_HTTP c) i, q_headers = [], q_body = marshal W cmd\<rparr> c of
           (None, c1) \<Rightarrow> ((None, Some NoAnswer), c1)
         | (Some res, c1) \<Rightarrow>
             if status_ok res then ((Some (r_body res), None), c1) else ((None, Some BadStatus), c1))"

definition JSONGet where "JSONGet W key c = client_json W (c_ID c) key None c"

definition JSONPut where "JSONPut W key val c = client_json W (c_ID c) key val c"

section \<open>Several nodes at once\<close>

text \<open>The requests of the goroutines; a goroutine whose request fails ends without a result.\<close>

fun rest_each :: "web \<Rightarrow> Key \<Rightarrow> Value \<Rightarrow> ID list \<Rightarrow> 'a http_client_scheme \<Rightarrow> ((Value \<times> meta) list \<times> 'a http_client_scheme) go" where
  "rest_each W key val [] c = Inr ([], c)"
| "rest_each W key val (i # is) c =
     go_bind (rest W i key val c) (\<lambda>((v, meta, err), c1).
     go_bind (rest_each W key val is c1) (\<lambda>(rs, c2).
       Inr (if err = None then (v, meta) # rs else rs, c2)))"

text \<open>The main goroutine takes a fixed number of results from the channels, and waits for ever when fewer come.\<close>

definition take_results :: "web \<Rightarrow> nat \<Rightarrow> (Value \<times> meta) list \<times> 'a http_client_scheme \<Rightarrow> ((Value \<times> meta) list \<times> 'a http_client_scheme) go" where
  "take_results W n = (\<lambda>(rs, c). if length rs < n then Inl Hang else Inr (take n (arrival W rs), c))"

text \<open>The loop of \<open>MultiGet\<close> starts a goroutine before it compares the count with \<open>n\<close>.\<close>

definition first_nodes :: "goint \<Rightarrow> ID list \<Rightarrow> ID list" where
  "first_nodes n ids = take (nat (max 1 n)) ids"

definition MultiGet :: "web \<Rightarrow> goint \<Rightarrow> Key \<Rightarrow> 'a http_client_scheme \<Rightarrow> ((Value \<times> meta) list \<times> 'a http_client_scheme) go" where
  "MultiGet W n key c =
     (let ids = first_nodes n (map fst (c_HTTP c))
      in go_bind (rest_each W key None ids c) (take_results W (length ids)))"

definition QuorumGet where "QuorumGet W key c = MultiGet W (c_N c sdiv 2 + 1) key c"

text \<open>The loop of \<open>LocalQuorumGet\<close>: the goroutines started and the final count, which is one more when the loop
  is left by its \<open>break\<close>; the second loop takes a result for every value of the count down to 0.\<close>

fun local_nodes :: "goint \<Rightarrow> goint \<Rightarrow> goint \<Rightarrow> ID list \<Rightarrow> ID list \<times> goint" where
  "local_nodes zone half i [] = ([], i)"
| "local_nodes zone half i (x # xs) =
     (if zone \<noteq> Zone x then local_nodes zone half i xs
      else if i + 1 > half then ([], i + 1)
      else let (ids, k) = local_nodes zone half (i + 1) xs in (x # ids, k))"

definition LocalQuorumGet :: "web \<Rightarrow> Key \<Rightarrow> 'a http_client_scheme \<Rightarrow> ((Value \<times> meta) list \<times> 'a http_client_scheme) go" where
  "LocalQuorumGet W key c =
     (let (ids, i) = local_nodes (Zone (c_ID c)) (LocalN c sdiv 2) 0 (map fst (c_HTTP c))
      in go_bind (rest_each W key None ids c) (take_results W (nat (i + 1))))"

text \<open>\<open>QuorumPut\<close> stops before it starts a goroutine for more than half of the nodes, and waits for those started.\<close>

definition put_nodes :: "goint \<Rightarrow> ID list \<Rightarrow> ID list" where
  "put_nodes half ids = take (nat half) ids"

definition QuorumPut :: "web \<Rightarrow> Key \<Rightarrow> Value \<Rightarrow> 'a http_client_scheme \<Rightarrow> 'a http_client_scheme go" where
  "QuorumPut W key val c =
     go_bind (rest_each W key val (put_nodes (c_N c sdiv 2) (map fst (c_HTTP c))) c) (\<lambda>(rs, c1). Inr c1)"

section \<open>Administration\<close>

definition plain_get :: "string \<Rightarrow> http_request" where
  "plain_get url = \<lparr>q_method = MethodGet, q_url = url, q_headers = [], q_body = []\<rparr>"

text \<open>The history that a node reports; it stays empty when the request fails or is not understood.\<close>

definition fetch_history :: "web \<Rightarrow> Key \<Rightarrow> string \<Rightarrow> 'a http_client_scheme \<Rightarrow> Value list \<times> 'a http_client_scheme" where
  "fetch_history W k url c =
     (case ask W (plain_get (url @ ''/history?key='' @ Itoa k)) c of
        (None, c1) \<Rightarrow> ([], c1)
      | (Some r, c1) \<Rightarrow>
          if body_fails r then ([], c1)
          else (case unmarshal W (r_body r) of None \<Rightarrow> ([], c1) | Some vs \<Rightarrow> (vs, c1)))"

fun fetch_histories :: "web \<Rightarrow> Key \<Rightarrow> (ID \<times> string) list \<Rightarrow> 'a http_client_scheme \<Rightarrow> Value list list \<times> 'a http_client_scheme" where
  "fetch_histories W k [] c = ([], c)"
| "fetch_histories W k ((i, url) # us) c =
     (let (h, c1) = fetch_history W k url c; (hs, c2) = fetch_histories W k us c1 in (h # hs, c2))"

text \<open>The loop that compares the histories position by position.\<close>

definition values_at :: "Value list list \<Rightarrow> nat \<Rightarrow> bytes goset" where
  "values_at hs i = fold (\<lambda>h s. if length h > i then Set_Add (slice_bytes (h ! i)) s else s) hs NewSet"

definition histories_agree :: "Value list list \<Rightarrow> bool" where
  "histories_agree hs =
     list_all (\<lambda>i. length (values_at hs i) \<le> 1) [0..<fold (\<lambda>h n. if length h > n then length h else n) hs 0]"

definition Consensus :: "web \<Rightarrow> Key \<Rightarrow> 'a http_client_scheme \<Rightarrow> bool \<times> 'a http_client_scheme" where
  "Consensus W k c = (let (hs, c1) = fetch_histories W k (c_HTTP c) c in (histories_agree hs, c1))"

text \<open>\<open>string(id)\<close> of an integer is the UTF-8 form of the code point with that number.\<close>

definition utf8 :: "nat \<Rightarrow> nat list" where
  "utf8 n =
     (if n < 0x80 then [n]
      else if n < 0x800 then [0xC0 + n div 64, 0x80 + n mod 64]
      else if n > 0x10FFFF \<or> (0xD800 \<le> n \<and> n \<le> 0xDFFF) then [0xEF, 0xBF, 0xBD]
      else if n < 0x10000 then [0xE0 + n div 4096, 0x80 + n div 64 mod 64, 0x80 + n mod 64]
      else [0xF0 + n div 262144, 0x80 + n div 4096 mod 64, 0x80 + n div 64 mod 64, 0x80 + n mod 64])"

definition rune_string :: "ID \<Rightarrow> string" where
  "rune_string i = map char_of (utf8 (unat i))"

definition Client_Crash :: "web \<Rightarrow> ID \<Rightarrow> goint \<Rightarrow> 'a http_client_scheme \<Rightarrow> 'a http_client_scheme" where
  "Client_Crash W i t c = snd (ask W (plain_get (lookup0 (c_HTTP c) i @ ''/crash?t='' @ Itoa t)) c)"

definition Client_Drop :: "web \<Rightarrow> ID \<Rightarrow> ID \<Rightarrow> goint \<Rightarrow> 'a http_client_scheme \<Rightarrow> 'a http_client_scheme" where
  "Client_Drop W from_node to_node t c =
     snd (ask W (plain_get (lookup0 (c_HTTP c) from_node @ ''/drop?id='' @ rune_string to_node @ ''&t='' @ Itoa t)) c)"

definition Partition :: "web \<Rightarrow> goint \<Rightarrow> ID list \<Rightarrow> 'a http_client_scheme \<Rightarrow> 'a http_client_scheme" where
  "Partition W t part c =
     (let s = fold Set_Add part NewSet
      in fold (\<lambda>from_node c. if \<not> Set_Has from_node s then fold (\<lambda>to_node. Client_Drop W from_node to_node t) part c else c)
           (c_Addrs c) c)"


section \<open>The client of Paxos\<close>

record paxos_client = http_client +
  c_ballot :: Ballot

definition Paxos_NewClient :: "ID list \<Rightarrow> (ID \<times> string) list \<Rightarrow> ID list \<Rightarrow> ID \<Rightarrow> paxos_client" where
  "Paxos_NewClient addrs urls ids i = http_client.extend (NewHTTPClient addrs urls ids i) \<lparr>c_ballot = 0\<rparr>"

text \<open>The ballot in the headers of an answer replaces a smaller one.\<close>

definition note_ballot :: "meta \<Rightarrow> paxos_client \<Rightarrow> paxos_client" where
  "note_ballot meta c =
     (let b = NewBallotFromString (header meta ''Ballot'') in if b > c_ballot c then c\<lparr>c_ballot := b\<rparr> else c)"

definition Paxos_Put :: "web \<Rightarrow> Key \<Rightarrow> Value \<Rightarrow> paxos_client \<Rightarrow> (http_error option \<times> paxos_client) go" where
  "Paxos_Put W key val c =
     (let c0 = c\<lparr>CID := CID c + 1\<rparr>
      in go_bind (RESTPut W (c_ID c0) key val c0) (\<lambda>((v, meta, err), c1).
           Inr (err, if err = None then note_ballot meta c1 else c1)))"

definition readLeader :: "web \<Rightarrow> Key \<Rightarrow> paxos_client \<Rightarrow> ((Value \<times> http_error option) \<times> paxos_client) go" where
  "readLeader W key c =
     (if c_ballot c = 0 then
        go_bind (RESTGet W (c_ID c) key c) (\<lambda>((v, meta, err), c1).
          Inr ((v, err), c1\<lparr>c_ballot := NewBallotFromString (header meta ''Ballot'')\<rparr>))
      else
        go_bind (RESTGet W (Ballot_ID (c_ballot c)) key c) (\<lambda>((v, meta, err), c1).
          Inr ((v, err), note_ballot meta c1)))"

text \<open>\<open>strconv.ParseBool\<close>\<close>

definition ParseBool :: "string \<Rightarrow> bool option" where
  "ParseBool s =
     (if s \<in> {''1'', ''t'', ''T'', ''TRUE'', ''true'', ''True''} then Some True
      else if s \<in> {''0'', ''f'', ''F'', ''FALSE'', ''false'', ''False''} then Some False
      else None)"

text \<open>What \<open>readQuorum\<close> keeps while it goes through the answers.\<close>

record barrier_state =
  barrier :: goint
  numReachedBarrier :: goint
  numInProgress :: goint
  b_value :: Value

definition barrier_step :: "Value \<times> meta \<Rightarrow> barrier_state \<Rightarrow> barrier_state" where
  "barrier_step = (\<lambda>(v, meta) b.
     case Atoi (header meta ''Slot'') of
       None \<Rightarrow> b
     | Some at_slot \<Rightarrow>
         (case ParseBool (header meta ''Inprogress'') of
            None \<Rightarrow> b
          | Some inProgress \<Rightarrow>
              let b1 = (if inProgress then b\<lparr>numInProgress := numInProgress b + 1\<rparr> else b)
              in if at_slot > barrier b1 then b1\<lparr>barrier := at_slot, numReachedBarrier := 1, b_value := v\<rparr>
                 else if at_slot = barrier b1 then b1\<lparr>numReachedBarrier := numReachedBarrier b1 + 1\<rparr>
                 else b1))"

text \<open>The loop that polls random nodes; \<open>k\<close> bounds the number of polls, \<open>Hang\<close> is a loop that is still running.\<close>

primrec poll :: "web \<Rightarrow> Key \<Rightarrow> goint \<Rightarrow> nat \<Rightarrow> barrier_state \<Rightarrow> paxos_client \<Rightarrow> ((Value \<times> http_error option) \<times> paxos_client) go" where
  "poll W key majority 0 b c =
     (if numInProgress b > 0 \<and> numReachedBarrier b < majority then Inl Hang else Inr ((b_value b, None), c))"
| "poll W key majority (Suc k) b c =
     (if numInProgress b > 0 \<and> numReachedBarrier b < majority then
        go_bind (RESTGet W 0 key c) (\<lambda>((v, meta, err), c1).
          if err \<noteq> None then Inr ((None, err), c1)
          else case Atoi (header meta ''Execute'') of
            None \<Rightarrow> poll W key majority k b c1
          | Some executed \<Rightarrow>
              if executed \<ge> barrier b then Inr ((b_value b, None), c1)
              else (case Atoi (header meta ''Slot'') of
                      None \<Rightarrow> poll W key majority k b c1
                    | Some at_slot \<Rightarrow>
                        poll W key majority k
                          (if at_slot \<ge> barrier b then b\<lparr>numReachedBarrier := numReachedBarrier b + 1\<rparr> else b) c1))
      else Inr ((b_value b, None), c))"

definition readQuorum :: "web \<Rightarrow> nat \<Rightarrow> Key \<Rightarrow> paxos_client \<Rightarrow> ((Value \<times> http_error option) \<times> paxos_client) go" where
  "readQuorum W polls key c =
     (let majority = c_N c sdiv 2 + 1
      in go_bind (QuorumGet W key c) (\<lambda>(answers, c1).
           poll W key majority polls
             (fold barrier_step answers \<lparr>barrier = - 1, numReachedBarrier = 0, numInProgress = 0, b_value = None\<rparr>) c1))"

definition readAny :: "web \<Rightarrow> Key \<Rightarrow> paxos_client \<Rightarrow> ((Value \<times> http_error option) \<times> paxos_client) go" where
  "readAny W key c = go_bind (RESTGet W (c_ID c) key c) (\<lambda>((v, meta, err), c1). Inr ((v, err), c1))"

definition Paxos_Get :: "web \<Rightarrow> nat \<Rightarrow> string \<Rightarrow> Key \<Rightarrow> paxos_client \<Rightarrow> ((Value \<times> http_error option) \<times> paxos_client) go" where
  "Paxos_Get W polls mode key c =
     (let c0 = c\<lparr>CID := CID c + 1\<rparr>
      in if mode = ''leader'' then readLeader W key c0
         else if mode = ''quorum'' then readQuorum W polls key c0
         else if mode = ''any'' then readAny W key c0
         else Client_Get W key c0)"

section \<open>The client of EPaxos\<close>

definition EPaxos_Get :: "web \<Rightarrow> Key \<Rightarrow> 'a http_client_scheme \<Rightarrow> ((Value \<times> http_error option) \<times> 'a http_client_scheme) go" where
  "EPaxos_Get W key c =
     go_bind (RESTGet W 0 key (c\<lparr>CID := CID c + 1\<rparr>)) (\<lambda>((v, meta, err), c1). Inr ((v, err), c1))"

definition EPaxos_Put :: "web \<Rightarrow> Key \<Rightarrow> Value \<Rightarrow> 'a http_client_scheme \<Rightarrow> (http_error option \<times> 'a http_client_scheme) go" where
  "EPaxos_Put W key val c =
     go_bind (RESTPut W 0 key val (c\<lparr>CID := CID c + 1\<rparr>)) (\<lambda>((v, meta, err), c1). Inr (err, c1))"

section \<open>The server\<close>

text \<open>A request as the handlers see it; \<open>query\<close> is the lookup in the parsed query, \<open>None\<close> a body that cannot be
  read. \<open>unmarshal_command\<close> overwrites the fields that the JSON text names.\<close>

record server_request =
  s_method :: http_method
  s_headers :: "(string \<times> string) list"
  s_path :: string
  s_query :: "string \<Rightarrow> string"
  s_body :: "bytes option"

datatype refusal = InvalidPath | CannotReadBody | InvalidTime | InvalidKey

text \<open>The number that \<open>strconv.Atoi\<close> returns next to an error: 0, or the bound that was exceeded.\<close>

definition Atoi_value :: "string \<Rightarrow> goint" where
  "Atoi_value s =
     (case Atoi s of
        Some i \<Rightarrow> i
      | None \<Rightarrow>
          (let neg = (s \<noteq> [] \<and> hd s = CHR ''-'');
               rest = (if s \<noteq> [] \<and> (hd s = CHR ''-'' \<or> hd s = CHR ''+'') then tl s else s);
               (n, ok) = ParseUint rest
           in if \<not> ok \<and> n = 0 then 0 else if neg then - (2 ^ 63) else 2 ^ 63 - 1))"

definition header_step :: "string \<times> string \<Rightarrow> Command \<times> (string \<times> string) list \<Rightarrow> Command \<times> (string \<times> string) list" where
  "header_step = (\<lambda>(k, v) (cmd, props).
     if k = ''Id'' then (cmd\<lparr>cClientID := word_of_int (Atoi_value v)\<rparr>, props)
     else if k = ''Cid'' then (cmd\<lparr>cCommandID := Atoi_value v\<rparr>, props)
     else (cmd, AList.update k v props))"

definition handleRoot :: "(bytes \<Rightarrow> Command \<Rightarrow> Command) \<Rightarrow> ID \<Rightarrow> goint \<Rightarrow> server_request \<Rightarrow> refusal + Request" where
  "handleRoot unmarshal_command self now r =
     (let (cmd, props) = fold header_step (s_headers r) (zero_command, []);
          req = (\<lambda>c. \<lparr>rCommand = c, rProperties = props, rTimestamp = now, rNodeID = self\<rparr>)
      in if length (s_path r) > 1 then
           (case Atoi (tl (s_path r)) of
              None \<Rightarrow> Inl InvalidPath
            | Some i \<Rightarrow>
                let cmd1 = cmd\<lparr>cKey := i\<rparr> in
                if s_method r = MethodPut \<or> s_method r = MethodPost then
                  (case s_body r of None \<Rightarrow> Inl CannotReadBody | Some b \<Rightarrow> Inr (req (cmd1\<lparr>cValue := Some b\<rparr>)))
                else Inr (req cmd1))
         else (case s_body r of None \<Rightarrow> Inl CannotReadBody | Some b \<Rightarrow> Inr (req (unmarshal_command b cmd))))"

text \<open>The answer made of the reply of the replica; the replies of the model carry no error.\<close>

definition answer_root :: "Reply \<Rightarrow> http_response" where
  "answer_root y =
     \<lparr>status_ok = True,
      r_headers = fold (\<lambda>(k, v). AList.update k v) (yProperties y)
        [(''Id'', rune_string (cClientID (yCommand y))), (''Cid'', Itoa (cCommandID (yCommand y)))],
      r_body = slice_bytes (yValue y), body_fails = False\<rparr>"

definition handleHistory :: "(Value list \<Rightarrow> bytes) \<Rightarrow> ID \<Rightarrow> server_request \<Rightarrow> database \<Rightarrow> refusal + http_response" where
  "handleHistory marshal_values self r d =
     (case Atoi (s_query r ''key'') of
        None \<Rightarrow> Inl InvalidKey
      | Some k \<Rightarrow> Inr \<lparr>status_ok = True, r_headers = [(''Id'', rune_string self)],
                       r_body = marshal_values (History k d), body_fails = False\<rparr>)"

definition handleCrash :: "goint \<Rightarrow> server_request \<Rightarrow> 'm socket \<Rightarrow> refusal + 'm socket" where
  "handleCrash now r s =
     (case Atoi (s_query r ''t'') of None \<Rightarrow> Inl InvalidTime | Some t \<Rightarrow> Inr (Crash now t s))"

definition handleDrop :: "goint \<Rightarrow> server_request \<Rightarrow> 'm socket \<Rightarrow> refusal + 'm socket" where
  "handleDrop now r s =
     (case Atoi (s_query r ''t'') of
        None \<Rightarrow> Inl InvalidTime
      | Some t \<Rightarrow> Inr (Drop now (NewIDFromString (s_query r ''id'')) t s))"

end
