(* ===== verification/ClientFacts.thy ===== *)
theory ClientFacts
  imports Clients
begin

text \<open>
  What clients get: a command reaches the replica as the client meant it; \<open>Consensus\<close> compares the
  histories position by position; a quorum write reaches no majority and a local quorum read never
  returns; a quorum read takes the answer with the highest slot, and may miss a write that was answered; and a partition cuts no link.
\<close>

section \<open>Commands\<close>

lemma Atoi_Itoa: "- (2 ^ 63) \<le> k \<Longrightarrow> k < 2 ^ 63 \<Longrightarrow> Atoi (Itoa k) = Some k"
proof (cases "k < 0")
  case True
  assume "- (2 ^ 63) \<le> k"
  then have "ParseUint (dec (- k)) = (- k, True)"
    using True dec_digits [of "- k"] by (simp add: ParseUint_def parse_digits_value maxUint64_def)
  then show ?thesis
    using True \<open>- (2 ^ 63) \<le> k\<close> by (simp add: Atoi_def Itoa_def Let_def)
qed (simp add: Itoa_def Atoi_dec)

lemma rest_asks:
  assumes "rest W i key val c = Inr (r, c')" "i \<noteq> 0" "\<not> malformed W (lookup0 (c_HTTP c) i @ ''/'' @ Itoa key)"
  shows "asked c' = asked c @ [\<lparr>q_method = (if val = None then MethodGet else MethodPut),
    q_url = lookup0 (c_HTTP c) i @ ''/'' @ Itoa key,
    q_headers = [(''Id'', Itoa (uint (c_ID c))), (''Cid'', Itoa (CID c))], q_body = slice_bytes val\<rparr>]"
  using assms by (auto simp: rest_def GetURL_def ask_def Let_def split: option.splits if_splits)

lemma other_headers:
  "\<forall>(k, v) \<in> set hs. k \<noteq> ''Id'' \<and> k \<noteq> ''Cid'' \<Longrightarrow> \<exists>props. fold header_step hs (cmd, ps) = (cmd, props)"
  by (induction hs arbitrary: ps) (auto simp: header_step_def)

text \<open>C32: a command arrives as it was meant: when a client asks a node for a key or puts a value, and the request
  arrives with its method, path and body and with the two headers of the client among others, the
  handler of the node makes a request with that key, value, client and command number out of it.\<close>

theorem command_arrives:
  assumes "rest W i key val c = Inr (r, c')" "i \<noteq> 0" "\<not> malformed W (lookup0 (c_HTTP c) i @ ''/'' @ Itoa key)"
    and "- (2 ^ 63) \<le> key" "key < 2 ^ 63" "- (2 ^ 63) \<le> CID c" "CID c < 2 ^ 63"
    and "s_method s = q_method (last (asked c'))" "s_headers s = q_headers (last (asked c')) @ others"
    and "\<forall>(k, v) \<in> set others. k \<noteq> ''Id'' \<and> k \<noteq> ''Cid''"
    and "s_path s = drop (length (lookup0 (c_HTTP c) i)) (q_url (last (asked c')))"
    and "s_body s = Some (q_body (last (asked c')))"
  shows "\<exists>req. handleRoot u self now s = Inr req \<and>
    rCommand req = \<lparr>cKey = key, cValue = val, cClientID = c_ID c, cCommandID = CID c\<rparr>"
proof -
  have "uint (c_ID c) < 2 ^ 63"
    using uint_lt2p [of "c_ID c"] by simp
  moreover have "- (2 ^ 63) \<le> uint (c_ID c)"
    by (rule order_trans [OF _ uint_ge_0]) simp
  ultimately have "Atoi (Itoa (uint (c_ID c))) = Some (uint (c_ID c))"
    by (intro Atoi_Itoa)
  then have a: "Atoi_value (Itoa (uint (c_ID c))) = uint (c_ID c)" "Atoi_value (Itoa (CID c)) = CID c" "Atoi (Itoa key) = Some key"
    using Atoi_Itoa assms(4-7) by (simp_all add: Atoi_value_def)
  have q: "last (asked c') = \<lparr>q_method = (if val = None then MethodGet else MethodPut),
      q_url = lookup0 (c_HTTP c) i @ ''/'' @ Itoa key,
      q_headers = [(''Id'', Itoa (uint (c_ID c))), (''Cid'', Itoa (CID c))], q_body = slice_bytes val\<rparr>"
    using rest_asks [OF assms(1-3)] by simp
  have "Itoa key \<noteq> []"
    using dec_digits [of key] by (auto simp: Itoa_def)
  moreover obtain props where "fold header_step others
      (zero_command\<lparr>cClientID := c_ID c, cCommandID := CID c\<rparr>, []) =
      (zero_command\<lparr>cClientID := c_ID c, cCommandID := CID c\<rparr>, props)"
    using other_headers [OF assms(10)] by blast
  ultimately show ?thesis
    using assms(8,9,11,12) a unfolding q
    by (cases val) (auto simp: handleRoot_def header_step_def zero_command_def slice_bytes_def)
qed

text \<open>A network in which every request is answered by \<open>answer\<close>, and a client of three nodes.\<close>

definition web_of :: "(http_request \<Rightarrow> http_response option) \<Rightarrow> web" where
  "web_of answer =
     \<lparr>exchange = (\<lambda>qs. answer (last qs)), malformed = (\<lambda>_. False), intn = (\<lambda>_. 0), arrival = (\<lambda>xs. xs),
      marshal = (\<lambda>_. []), unmarshal = (\<lambda>b. Some (map (\<lambda>x. Some [x]) b))\<rparr>"

definition client_example :: http_client where
  "client_example = NewHTTPClient [1, 2, 3] [(2, ''n2''), (3, ''n3''), (1, ''n1'')] [1, 2, 3] 1"

lemma command_arrives_witness:
  "\<exists>req. handleRoot (\<lambda>_ c. c) 2 0
      \<lparr>s_method = MethodPut, s_headers = [(''Id'', ''1''), (''Cid'', ''0''), (''Accept'', ''x'')], s_path = ''/-7'',
       s_query = (\<lambda>_. []), s_body = Some [5]\<rparr> = Inr req
    \<and> rCommand req = \<lparr>cKey = - 7, cValue = Some [5], cClientID = 1, cCommandID = 0\<rparr>"
proof -
  let ?W = "web_of (\<lambda>_. None)"
  let ?s = "\<lparr>s_method = MethodPut, s_headers = [(''Id'', ''1''), (''Cid'', ''0''), (''Accept'', ''x'')], s_path = ''/-7'',
       s_query = (\<lambda>_. []), s_body = Some [5]\<rparr>"
  obtain c' where r: "rest ?W 2 (- 7) (Some [5]) client_example = Inr ((None, [], Some NoAnswer), c')"
    by (simp add: rest_def GetURL_def web_of_def ask_def Let_def)
  have i: "Itoa 1 = ''1''" "Itoa 0 = ''0''" "Itoa (- 7) = ''-7''"
    by code_simp+
  have c: "c_ID client_example = 1" "CID client_example = 0" "lookup0 (c_HTTP client_example) 2 = ''n2''"
    by code_simp+
  have q: "last (asked c') = \<lparr>q_method = MethodPut, q_url = ''n2/-7'', q_headers = [(''Id'', ''1''), (''Cid'', ''0'')], q_body = [5]\<rparr>"
    using rest_asks [OF r] i c by (simp add: web_of_def slice_bytes_def)
  have "\<exists>req. handleRoot (\<lambda>_ c. c) 2 0 ?s = Inr req \<and> rCommand req = \<lparr>cKey = - 7, cValue = Some [5],
      cClientID = c_ID client_example, cCommandID = CID client_example\<rparr>"
    by (rule command_arrives [OF r, where others = "[(''Accept'', ''x'')]"]) (simp_all add: q c web_of_def)
  then show ?thesis by (simp add: c)
qed

section \<open>Consensus\<close>

lemma values_at_set: "set (fold (\<lambda>h s. if length h > i then Set_Add (slice_bytes (h ! i)) s else s) hs s0) =
    set s0 \<union> {slice_bytes (h ! i) | h. h \<in> set hs \<and> i < length h}"
  by (induction hs arbitrary: s0) (auto simp: Set_Add_def)

lemma values_at_distinct: "distinct s0 \<Longrightarrow>
    distinct (fold (\<lambda>h s. if length h > i then Set_Add (slice_bytes (h ! i)) s else s) hs s0)"
  by (induction hs arbitrary: s0) (auto simp: Set_Add_def)

lemma one_value: "distinct xs \<Longrightarrow> length xs \<le> 1 \<longleftrightarrow> (\<forall>a \<in> set xs. \<forall>b \<in> set xs. a = b)"
  by (cases xs rule: remdups_adj.cases) auto

lemma fold_longest: "fold (\<lambda>h n. if length h > n then length h else n) hs n0 > i \<longleftrightarrow> i < n0 \<or> (\<exists>h \<in> set hs. i < length h)"
  by (induction hs arbitrary: n0) auto

text \<open>The histories that \<open>Consensus\<close> collects.\<close>

definition reported :: "web \<Rightarrow> Key \<Rightarrow> 'a http_client_scheme \<Rightarrow> Value list list" where
  "reported W k c = fst (fetch_histories W k (c_HTTP c) c)"

text \<open>\<open>Consensus\<close> says whether any two of the histories it collected agree at every position that both
  have; the history of a node that does not answer is empty and agrees with everything.\<close>

theorem consensus_decides:
  "fst (Consensus W k c) \<longleftrightarrow>
     (\<forall>h \<in> set (reported W k c). \<forall>g \<in> set (reported W k c). \<forall>i < min (length h) (length g). Value_Equals (h ! i) (g ! i))"
proof -
  let ?hs = "reported W k c"
  have one: "length (values_at ?hs i) \<le> Suc 0 \<longleftrightarrow>
      (\<forall>h \<in> set ?hs. \<forall>g \<in> set ?hs. i < length h \<and> i < length g \<longrightarrow> slice_bytes (h ! i) = slice_bytes (g ! i))" for i
    using one_value [of "values_at ?hs i"] values_at_distinct [of NewSet i ?hs] values_at_set [of i ?hs NewSet]
    by (auto simp: values_at_def NewSet_def)
  have "fst (Consensus W k c) = histories_agree ?hs"
    by (simp add: Consensus_def reported_def split_beta)
  then show ?thesis
    unfolding histories_agree_def list_all_iff one set_upt Ball_def Value_Equals_def atLeastLessThan_iff fold_longest
      One_nat_def min_less_iff_conj by blast
qed

lemma consensus_decides_witness:
  "fst (Consensus (web_of (\<lambda>q. Some \<lparr>status_ok = True, r_headers = [],
      r_body = (if take 2 (q_url q) = ''n2'' then [1] else [1, 2]), body_fails = False\<rparr>)) 4
      (client_example\<lparr>c_HTTP := [(2, ''n2''), (3, ''n3'')]\<rparr>))"
proof -
  let ?W = "web_of (\<lambda>q. Some \<lparr>status_ok = True, r_headers = [],
      r_body = (if take 2 (q_url q) = ''n2'' then [1] else [1, 2]), body_fails = False\<rparr>)"
  let ?c = "client_example\<lparr>c_HTTP := [(2, ''n2''), (3, ''n3'')]\<rparr>"
  have "reported ?W 4 ?c = [[Some [1]], [Some [1], Some [2]]]"
    by code_simp
  then show ?thesis
    using consensus_decides [of ?W 4 ?c] by (simp add: Value_Equals_def)
qed

section \<open>Quorums of nodes\<close>

lemma local_nodes_short: "length (fst (local_nodes zone half i ids)) \<le> nat (snd (local_nodes zone half i ids) - i)
    \<and> i \<le> snd (local_nodes zone half i ids)"
  by (induction zone half i ids rule: local_nodes.induct) (auto simp: split_beta Let_def)

lemma rest_each_length: "rest_each W key val ids c = Inr (rs, c') \<Longrightarrow> length rs \<le> length ids"
  by (induction ids arbitrary: c rs) (auto split: if_splits prod.splits intro: le_SucI)

text \<open>\<open>LocalQuorumGet\<close> never returns: it waits for more results than it has started requests. A \<open>QuorumPut\<close> asks
  for no majority: it writes to half of the nodes, rounded down, and when their number is odd, these
  and the majority that \<open>QuorumGet\<close> reads from another iteration order can be disjoint.\<close>

theorem client_quorums_fail:
  "(\<exists>e. LocalQuorumGet W key c = Inl e)
   \<and> 2 * length (put_nodes (int (length ids) sdiv 2) ids) \<le> length ids
   \<and> (distinct ids \<and> odd (length ids) \<longrightarrow>
        set (put_nodes (int (length ids) sdiv 2) ids) \<inter> set (first_nodes (int (length ids) sdiv 2 + 1) (rev ids)) = {})"
proof -
  obtain ns i where n: "local_nodes (Zone (c_ID c)) (LocalN c sdiv 2) 0 (map fst (c_HTTP c)) = (ns, i)"
    by (cases "local_nodes (Zone (c_ID c)) (LocalN c sdiv 2) 0 (map fst (c_HTTP c))")
  then have short: "length ns \<le> nat i" "0 \<le> i"
    using local_nodes_short [of "Zone (c_ID c)" "LocalN c sdiv 2" 0 "map fst (c_HTTP c)"] by auto
  have "\<exists>e. LocalQuorumGet W key c = Inl e"
  proof (cases "rest_each W key None ns c")
    case (Inr r)
    then have "length (fst r) < nat (i + 1)"
      using rest_each_length [of W key None ns c "fst r" "snd r"] short by simp
    then show ?thesis
      using n Inr by (simp add: LocalQuorumGet_def take_results_def split_beta)
  qed (use n in \<open>simp add: LocalQuorumGet_def\<close>)
  moreover have half: "nat (int (length ids) sdiv 2) = length ids div 2" "nat (max 1 (int (length ids) sdiv 2 + 1)) = length ids div 2 + 1"
    by (simp_all add: sdiv_nonneg nat_div_distrib nat_add_distrib)
  moreover have "set (take (length ids div 2) ids) \<inter> set (take (length ids div 2 + 1) (rev ids)) = {}"
    if "distinct ids" "odd (length ids)"
  proof -
    have "length ids - (length ids div 2 + 1) = length ids div 2"
      using that(2) by presburger
    then have "set (take (length ids div 2 + 1) (rev ids)) = set (drop (length ids div 2) ids)"
      by (simp add: take_rev)
    then show ?thesis
      using that(1) by (simp add: set_take_disj_set_drop_if_distinct)
  qed
  ultimately show ?thesis
    by (simp add: put_nodes_def first_nodes_def)
qed

lemma client_quorums_fail_witness:
  "(\<exists>e. LocalQuorumGet (web_of (\<lambda>_. None)) 4 client_example = Inl e)
   \<and> set (put_nodes 1 [1, 2, 3]) \<inter> set (first_nodes 2 [3, 2, 1]) = {}"
  using client_quorums_fail [of "web_of (\<lambda>_. None)" 4 client_example "[1, 2, 3]"]
  by (simp add: signed_divide_int_def)

section \<open>Partitions\<close>

lemma utf8_bytes: "list_all (\<lambda>b. b < 256 \<and> (b = 46 \<longrightarrow> n = 46)) (utf8 n)"
  by (auto simp: utf8_def)

lemma rune_dot: "CHR ''.'' \<in> set (rune_string i) \<Longrightarrow> unat i = 46"
proof -
  assume "CHR ''.'' \<in> set (rune_string i)"
  then obtain b where b: "b \<in> set (utf8 (unat i))" "CHR ''.'' = char_of b"
    by (auto simp: rune_string_def)
  from b(2) have "of_char (CHR ''.'') = b mod 256"
    by (simp only: of_char_of)
  then show ?thesis
    using b(1) utf8_bytes [of "unat i"] by (force simp: list_all_iff)
qed

text \<open>a partition cuts no link between nodes: the text that \<open>Drop\<close> of the client puts into its request for a
  node, which is a character and not the textual form of the identifier, is read by the node as
  identifier 0, so that messages to no node of the cluster are dropped.\<close>

theorem drop_names_no_node:
  "handleDrop now (r\<lparr>s_query := (s_query r)(''id'' := rune_string to, ''t'' := Itoa 60)\<rparr>) s = Inr (Drop now 0 60 s)
   \<and> handleDrop now (r\<lparr>s_query := (s_query r)(''id'' := ID_String to, ''t'' := Itoa 60)\<rparr>) s = Inr (Drop now to 60 s)"
proof -
  have "NewIDFromString (rune_string to) = 0"
  proof (cases "unat to = 46")
    case True
    have "char_of (of_char (CHR ''.'') :: nat) = CHR ''.''"
      by (rule char_of_char)
    then have "rune_string to = ''.''"
      using True by (simp add: rune_string_def utf8_def)
    then show ?thesis
      by (simp add: NewIDFromString_def Atoi_def ParseUint_def Let_def)
  next
    case False
    then have "CHR ''.'' \<notin> set (rune_string to)"
      using rune_dot by blast
    then show ?thesis
      by (simp add: NewIDFromString_def split_dot_no_dot)
  qed
  moreover have "Atoi (Itoa 60) = Some 60"
    by (intro Atoi_Itoa) simp_all
  ultimately show ?thesis
    by (simp add: handleDrop_def NewIDFromString_ID_String)
qed

section \<open>Reading from a quorum\<close>

text \<open>Three replicas. The leader gets two writes, the first accepted by node 66 and the second by node 67.\<close>

definition put_request :: "Key \<Rightarrow> 8 word \<Rightarrow> goint \<Rightarrow> Request" where
  "put_request k x i = \<lparr>rCommand = \<lparr>cKey = k, cValue = Some [x], cClientID = 65, cCommandID = i\<rparr>,
     rProperties = [], rTimestamp = 0, rNodeID = 65\<rparr>"

definition quorum_env :: paxos_env where
  "quorum_env = \<lparr>v_config = default_config\<lparr>cfg_n := 3\<rparr>, v_ephemeralLeader = False, v_read = ''quorum''\<rparr>"

definition replica_after :: "ID \<Rightarrow> paxos_event list \<Rightarrow> paxos" where
  "replica_after i evs =
     (case paxos_run quorum_env (map (Pair 0) evs) (NewPaxos default_config [65, 66, 67] i) of
        Inr p \<Rightarrow> p | Inl _ \<Rightarrow> NewPaxos default_config [65, 66, 67] i)"

definition read_leader :: paxos where
  "read_leader = replica_after 65
     [XRequest (put_request 4 7 1), XMsg (X_P1b (P1b 66 (NewBallot 1 65) [])), XMsg (X_P2b (Paxos_P2b (NewBallot 1 65) 66 0 0)),
      XRequest (put_request 5 8 2), XMsg (X_P2b (Paxos_P2b (NewBallot 1 65) 67 1 0))]"

text \<open>The messages the leader broadcast, in order: its ballot and the two proposals.\<close>

definition read_broadcasts :: "paxos_msg list" where
  "read_broadcasts = concat (map (\<lambda>x. case x of XBroadcast m \<Rightarrow> [m] | _ \<Rightarrow> []) (x_calls read_leader))"

definition read_second :: paxos where
  "read_second = replica_after 66 (map XMsg (take 2 read_broadcasts))"

definition read_third :: paxos where
  "read_third = replica_after 67 [XMsg (read_broadcasts ! 0), XMsg (read_broadcasts ! 2)]"

text \<open>The answer of a replica to a request over HTTP.\<close>

definition serve :: "paxos \<Rightarrow> http_request \<Rightarrow> http_response option" where
  "serve p q =
     (case handleRoot (\<lambda>_ c. c) (x_id p) 0
        \<lparr>s_method = q_method q, s_headers = q_headers q, s_path = drop 2 (q_url q), s_query = (\<lambda>_. []),
         s_body = Some (q_body q)\<rparr> of
        Inl _ \<Rightarrow> None
      | Inr req \<Rightarrow>
          (case last (x_calls (Paxos_handleRequest quorum_env 0 req p)) of
             XReply _ y \<Rightarrow> Some (answer_root y) | _ \<Rightarrow> None))"

definition read_web :: web where
  "read_web = web_of (\<lambda>q. serve (if take 2 (q_url q) = ''n1'' then read_leader
     else if take 2 (q_url q) = ''n2'' then read_second else read_third) q)"

definition read_client :: paxos_client where
  "read_client = Paxos_NewClient [65, 66, 67] [(66, ''n2''), (67, ''n3''), (65, ''n1'')] [65, 66, 67] 65"

definition answered :: "paxos \<Rightarrow> Request list" where
  "answered p = concat (map (\<lambda>x. case x of XReply r _ \<Rightarrow> [r] | _ \<Rightarrow> []) (x_calls p))"

text \<open>What the three nodes answer to the request for key 4.\<close>

definition read_request_to :: "string \<Rightarrow> http_request" where
  "read_request_to base = \<lparr>q_method = MethodGet, q_url = base @ ''/4'', q_headers = [(''Id'', ''65''), (''Cid'', ''0'')], q_body = []\<rparr>"

definition read_meta :: "string \<Rightarrow> string \<Rightarrow> string \<Rightarrow> meta" where
  "read_meta at_slot executed inProgress =
     [(''Id'', ''A''), (''Cid'', ''0''), (''Slot'', at_slot), (''Ballot'', ''1.0.65''), (''Execute'', executed), (''Inprogress'', inProgress)]"

lemma served:
  "serve read_second (read_request_to ''n2'') =
     Some \<lparr>status_ok = True, r_headers = read_meta ''0'' ''-1'' ''true'', r_body = [7], body_fails = False\<rparr>"
  "serve read_third (read_request_to ''n3'') =
     Some \<lparr>status_ok = True, r_headers = read_meta ''1'' ''0'' ''false'', r_body = [], body_fails = False\<rparr>"
  "serve read_leader (read_request_to ''n1'') =
     Some \<lparr>status_ok = True, r_headers = read_meta ''1'' ''1'' ''false'', r_body = [7], body_fails = False\<rparr>"
  by code_simp+

lemma Itoa_small: "Itoa 0 = ''0''" "Itoa 65 = ''65''" "Itoa 4 = ''4''"
  by code_simp+

lemma rest_read:
  assumes "c_ID c = 65" "CID c = 0" "c_HTTP c = c_HTTP read_client"
  shows "rest read_web 66 4 None c = Inr ((Some [7], read_meta ''0'' ''-1'' ''true'', None), c\<lparr>asked := asked c @ [read_request_to ''n2'']\<rparr>)"
    and "rest read_web 67 4 None c = Inr ((Some [], read_meta ''1'' ''0'' ''false'', None), c\<lparr>asked := asked c @ [read_request_to ''n3'']\<rparr>)"
    and "rest read_web 65 4 None c = Inr ((Some [7], read_meta ''1'' ''1'' ''false'', None), c\<lparr>asked := asked c @ [read_request_to ''n1'']\<rparr>)"
  using assms served
  by (simp_all add: rest_def GetURL_def ask_def read_web_def web_of_def Itoa_small read_request_to_def slice_bytes_def
      read_client_def Paxos_NewClient_def NewHTTPClient_def lookup0_def http_client.defs Let_def)

lemma read_client_fields:
  "c_ID read_client = 65" "CID read_client = 0" "c_N read_client = 3" "map fst (c_HTTP read_client) = [66, 67, 65]"
  "localIDs read_client = [65, 66, 67]" "c_ballot read_client = 0" "drawn read_client = 0"
  by code_simp+

lemma rest_poll:
  assumes "c_ID c = 65" "CID c = 0" "c_HTTP c = c_HTTP read_client" "localIDs c = [65, 66, 67]"
  shows "rest read_web 0 4 None c = rest read_web 65 4 None (c\<lparr>drawn := drawn c + 1\<rparr>)"
  using assms by (simp add: rest_def GetURL_def random_of_def read_web_def web_of_def)

lemma barrier_example:
  "fold barrier_step [(Some [7], read_meta ''0'' ''-1'' ''true''), (Some [], read_meta ''1'' ''0'' ''false'')]
     \<lparr>barrier = - 1, numReachedBarrier = 0, numInProgress = 0, b_value = None\<rparr> =
   \<lparr>barrier = 1, numReachedBarrier = 1, numInProgress = 1, b_value = Some []\<rparr>"
  "Atoi (header (read_meta ''1'' ''1'' ''false'') ''Execute'') = Some 1"
  by code_simp+

text \<open>A quorum read can miss a write that has been answered. The leader has committed a write of 7 to key 4 with
  the vote of node 66 and answered it, and a write to key 5 with the vote of node 67, which has not seen the
  first; each node has received what the leader broadcast and voted as the leader was told. A client
  that then reads key 4 from nodes 66 and 67 takes the value of the node with the higher slot, which has no
  value for the key, and the poll of the leader, which has executed that slot, only confirms it.\<close>

lemma quorum_read_misses_a_write:
  "XSend 65 (X_P1b (P1b 66 (NewBallot 1 65) [])) \<in> set (x_calls read_second)
   \<and> XSend 65 (X_P2b (Paxos_P2b (NewBallot 1 65) 66 0 0)) \<in> set (x_calls read_second)
   \<and> XSend 65 (X_P2b (Paxos_P2b (NewBallot 1 65) 67 1 0)) \<in> set (x_calls read_third)
   \<and> put_request 4 7 1 \<in> set (answered read_leader)
   \<and> map_sum id fst (readQuorum read_web 1 4 read_client) = Inr (Some [], None)
   \<and> map_sum id fst (readLeader read_web 4 read_client) = Inr (Some [7], None)"
proof (intro conjI)
  have "QuorumGet read_web 4 read_client =
      Inr ([(Some [7], read_meta ''0'' ''-1'' ''true''), (Some [], read_meta ''1'' ''0'' ''false'')],
        read_client\<lparr>asked := asked read_client @ [read_request_to ''n2'', read_request_to ''n3'']\<rparr>)"
    by (simp add: QuorumGet_def MultiGet_def first_nodes_def read_client_fields signed_divide_int_def rest_read
        take_results_def Let_def) (simp add: read_web_def web_of_def)
  then show "map_sum id fst (readQuorum read_web 1 4 read_client) = Inr (Some [], None)"
    by (simp add: readQuorum_def Let_def barrier_example [simplified] read_client_fields signed_divide_int_def
        RESTGet_def rest_poll rest_read)
  show "map_sum id fst (readLeader read_web 4 read_client) = Inr (Some [7], None)"
    by (simp add: readLeader_def read_client_fields RESTGet_def rest_read)
qed (code_simp+)

section \<open>What a quorum read returns\<close>

text \<open>The answers whose slot and progress can be read, as slots and values, and those among them that are in
  progress.\<close>

definition readable :: "(Value \<times> meta) list \<Rightarrow> (goint \<times> Value) list" where
  "readable got = List.map_filter (\<lambda>(v, m).
     case (Atoi (header m ''Slot''), ParseBool (header m ''Inprogress'')) of (Some s, Some _) \<Rightarrow> Some (s, v) | _ \<Rightarrow> None) got"

definition answer_in_progress :: "Value \<times> meta \<Rightarrow> bool" where
  "answer_in_progress = (\<lambda>(v, m). Atoi (header m ''Slot'') \<noteq> None \<and> ParseBool (header m ''Inprogress'') = Some True)"

text \<open>The first value with the highest slot.\<close>

definition chosen :: "(Value \<times> meta) list \<Rightarrow> Value" where
  "chosen got = (case filter (\<lambda>(s, v). 0 \<le> s \<and> (\<forall>(t, w) \<in> set (readable got). t \<le> s)) (readable got) of
     [] \<Rightarrow> None | (s, v) # _ \<Rightarrow> v)"

lemma fold_max_ge: "(k :: goint) \<le> fold max xs k \<and> (\<forall>x \<in> set xs. x \<le> fold max xs k) \<and> (fold max xs k = k \<or> fold max xs k \<in> set xs)"
proof (induction xs arbitrary: k)
  case (Cons x xs)
  let ?m = "fold max xs (max x k)"
  have m: "max x k \<le> ?m" "\<forall>y \<in> set xs. y \<le> ?m" "?m = max x k \<or> ?m \<in> set xs"
    using Cons.IH [of "max x k"] by blast+
  moreover have "k \<le> max x k" "x \<le> max x k" "max x k = x \<or> max x k = k"
    by (simp_all add: max_def)
  ultimately have "k \<le> ?m" "x \<le> ?m" "?m = k \<or> ?m = x \<or> ?m \<in> set xs"
    by (linarith, linarith, metis)
  with m(2) show ?case
    by auto
qed simp

lemma barrier_fold:
  fixes got
  defines "r \<equiv> readable got"
  shows "barrier (fold barrier_step got b) = fold max (map fst r) (barrier b) \<and>
    b_value (fold barrier_step got b) =
      (if fold max (map fst r) (barrier b) = barrier b then b_value b
       else snd (hd (filter (\<lambda>(s, v). s = fold max (map fst r) (barrier b)) r))) \<and>
    numInProgress (fold barrier_step got b) = numInProgress b + int (length (filter answer_in_progress got))"
  unfolding r_def
proof (induction got arbitrary: b)
  case (Cons x got)
  obtain v m where x: "x = (v, m)" by (cases x)
  let ?b = "barrier_step x b" and ?r = "readable got"
  note ih = Cons.IH [of ?b]
  show ?case
  proof (cases "Atoi (header m ''Slot'')")
    case None
    then have "?b = b" "readable (x # got) = ?r" "\<not> answer_in_progress x"
      by (simp_all add: x barrier_step_def readable_def answer_in_progress_def)
    then show ?thesis using ih by simp
  next
    case (Some s)
    show ?thesis
    proof (cases "ParseBool (header m ''Inprogress'')")
      case None
      then have "?b = b" "readable (x # got) = ?r" "\<not> answer_in_progress x"
        using Some by (simp_all add: x barrier_step_def readable_def answer_in_progress_def)
      then show ?thesis using ih by simp
    next
      case (Some p)
      have r: "readable (x # got) = (s, v) # ?r"
        using Some \<open>Atoi (header m ''Slot'') = Some s\<close> by (simp add: x readable_def)
      have b: "barrier ?b = max s (barrier b)" "b_value ?b = (if s > barrier b then v else b_value b)"
        "numInProgress ?b = numInProgress b + (if answer_in_progress x then 1 else 0)"
        using Some \<open>Atoi (header m ''Slot'') = Some s\<close> by (auto simp: x barrier_step_def answer_in_progress_def Let_def)
      show ?thesis
      proof (cases "barrier b < s")
        case True
        let ?m = "fold max (map fst ?r) s"
        have m: "max s (barrier b) = s" "s \<le> ?m" "fold max (map fst (readable (x # got))) (barrier b) = ?m"
          using True fold_max_ge [of s "map fst ?r"] by (simp_all add: r)
        then show ?thesis
          using ih True unfolding m(3) by (auto simp: b r)
      next
        case False
        let ?m = "fold max (map fst ?r) (barrier b)"
        have m: "max s (barrier b) = barrier b" "barrier b \<le> ?m" "fold max (map fst (readable (x # got))) (barrier b) = ?m"
          using False fold_max_ge [of "barrier b" "map fst ?r"] by (simp_all add: r)
        then show ?thesis
          using ih False unfolding m(3) by (auto simp: b r)
      qed
    qed
  qed
qed (simp add: readable_def)

lemma barrier_chosen:
  "b_value (fold barrier_step got \<lparr>barrier = - 1, numReachedBarrier = 0, numInProgress = 0, b_value = None\<rparr>) = chosen got"
proof -
  let ?r = "readable got"
  let ?m = "fold max (map fst ?r) (- 1)"
  have m: "- 1 \<le> ?m" "\<forall>(t, w) \<in> set ?r. t \<le> ?m" "?m = - 1 \<or> ?m \<in> fst ` set ?r"
    using fold_max_ge [of "- 1" "map fst ?r"] by auto
  have val: "b_value (fold barrier_step got \<lparr>barrier = - 1, numReachedBarrier = 0, numInProgress = 0, b_value = None\<rparr>) =
      (if ?m = - 1 then None else snd (hd (filter (\<lambda>(s, v). s = ?m) ?r)))"
    by (simp add: barrier_fold)
  show ?thesis
  proof (cases "?m = - 1")
    case True
    then have "filter (\<lambda>(s, v). 0 \<le> s \<and> (\<forall>(t, w) \<in> set ?r. t \<le> s)) ?r = []"
      using m(2) by (force simp: filter_empty_conv)
    then show ?thesis using True by (simp add: val chosen_def)
  next
    case False
    then have "filter (\<lambda>(s, v). 0 \<le> s \<and> (\<forall>(t, w) \<in> set ?r. t \<le> s)) ?r = filter (\<lambda>(s, v). s = ?m) ?r"
      using m by (intro filter_cong) fastforce+
    moreover obtain y ys where "filter (\<lambda>(s, v). s = ?m) ?r = y # ys"
      using m(3) False by (cases "filter (\<lambda>(s, v). s = ?m) ?r") (auto simp: filter_empty_conv)
    ultimately show ?thesis
      using False by (simp add: val chosen_def split: prod.split)
  qed
qed

lemma poll_value: "poll W key majority k b c = Inr (r, c2) \<Longrightarrow> snd r = None \<Longrightarrow> fst r = b_value b"
proof (induction k arbitrary: b c)
  case 0
  then show ?case by (auto split: if_splits)
next
  case (Suc k)
  then show ?case
    by (fastforce split: if_splits option.splits prod.splits dest: Suc.IH)
qed

text \<open>C31: A quorum read gives the first of the values that came with the highest slot, whatever the other nodes of the quorum
  answer and whatever the nodes answer that are polled: the polls only wait, and none of
  their values is taken. When no answer is in progress there is no poll.\<close>

theorem quorum_read_takes_the_highest_slot:
  assumes "QuorumGet W key c = Inr (got, c1)"
  shows "(\<forall>k v c2. readQuorum W k key c = Inr ((v, None), c2) \<longrightarrow> v = chosen got)
    \<and> (\<not> list_ex answer_in_progress got \<longrightarrow> readQuorum W k key c = Inr ((chosen got, None), c1))"
proof (intro conjI allI impI)
  let ?b = "\<lparr>barrier = - 1, numReachedBarrier = 0, numInProgress = 0, b_value = None\<rparr>"
  have q: "readQuorum W k key c = poll W key (c_N c sdiv 2 + 1) k (fold barrier_step got ?b) c1" for k
    using assms by (simp add: readQuorum_def)
  show "v = chosen got" if "readQuorum W k key c = Inr ((v, None), c2)" for k v c2
    using that poll_value unfolding q by (metis barrier_chosen fst_conv snd_conv)
  assume "\<not> list_ex answer_in_progress got"
  then have "filter answer_in_progress got = []"
    by (auto simp: list_ex_iff filter_empty_conv)
  then have "numInProgress (fold barrier_step got ?b) = 0"
    by (simp add: barrier_fold)
  then show "readQuorum W k key c = Inr ((chosen got, None), c1)"
    unfolding q by (cases k) (simp_all add: barrier_chosen)
qed

lemma quorum_read_takes_the_highest_slot_witness:
  "\<exists>got c1. QuorumGet read_web 4 read_client = Inr (got, c1) \<and> length got = 2 \<and> chosen got = Some [] \<and>
     (\<forall>k v c2. readQuorum read_web k 4 read_client = Inr ((v, None), c2) \<longrightarrow> v = Some [])"
proof -
  let ?got = "[(Some [7], read_meta ''0'' ''-1'' ''true''), (Some [], read_meta ''1'' ''0'' ''false'')]"
  have q: "QuorumGet read_web 4 read_client =
      Inr (?got, read_client\<lparr>asked := asked read_client @ [read_request_to ''n2'', read_request_to ''n3'']\<rparr>)"
    by (simp add: QuorumGet_def MultiGet_def first_nodes_def read_client_fields signed_divide_int_def rest_read
        take_results_def Let_def) (simp add: read_web_def web_of_def)
  have "chosen ?got = Some []"
    by code_simp
  then show ?thesis
    using q quorum_read_takes_the_highest_slot [OF q] by auto
qed

end
