(* ===== verification/Checker.thy ===== *)
theory Checker
  imports GraphFacts Database
begin

text \<open>
  The linearizability checker of \<open>checker.go\<close>, with the operations of \<open>operation.go\<close> and the histories of
  \<open>history.go\<close>. The checker works on pointers and changes the operations it points to, so the operations
  live in a store and a pointer is an index into it. What Go leaves open is an argument: the order in
  which a range visits the vertices, and the order in which \<open>sort.Sort\<close> leaves operations of equal start.
  The goroutines of \<open>Linearizable\<close> work on disjoint operations and run one after the other here.
\<close>

section \<open>Operations\<close>

record operation =
  op_input :: Value
  op_output :: Value
  op_start :: goint
  op_end :: goint

type_synonym store = "operation list"

definition happenBefore :: "operation \<Rightarrow> operation \<Rightarrow> bool" where
  "happenBefore a b \<longleftrightarrow> op_end a < op_start b"

definition concurrent :: "operation \<Rightarrow> operation \<Rightarrow> bool" where
  "concurrent a b \<longleftrightarrow> \<not> happenBefore a b \<and> \<not> happenBefore b a"

definition operation_equal :: "operation \<Rightarrow> operation \<Rightarrow> bool" where
  "operation_equal a b \<longleftrightarrow>
     Value_Equals (op_input a) (op_input b) \<and> Value_Equals (op_output a) (op_output b) \<and>
     op_start a = op_start b \<and> op_end a = op_end b"

definition byTime :: "store \<Rightarrow> nat \<Rightarrow> nat \<Rightarrow> bool" where
  "byTime h i j \<longleftrightarrow> op_start (h ! i) < op_start (h ! j)"

section \<open>The checker\<close>

record checker =
  graph :: "nat Graph"
  heap :: store

record choices =
  iteration :: "nat list \<Rightarrow> nat list"
  sorting :: "store \<Rightarrow> nat list \<Rightarrow> nat list"

text \<open>The choices are permutations, and the second one is sorted by \<open>byTime\<close>.\<close>

definition legal :: "choices \<Rightarrow> bool" where
  "legal E \<longleftrightarrow>
     (\<forall>xs. mset (iteration E xs) = mset xs) \<and>
     (\<forall>h xs. mset (sorting E h xs) = mset xs \<and> sorted_wrt (\<lambda>i j. \<not> byTime h j i) (sorting E h xs))"

definition stable :: choices where
  "stable = \<lparr>iteration = (\<lambda>xs. xs), sorting = (\<lambda>h. sort_key (\<lambda>i. op_start (h ! i)))\<rparr>"

definition newChecker :: "store \<Rightarrow> checker" where
  "newChecker h = \<lparr>graph = NewGraph, heap = h\<rparr>"

definition checker_add :: "nat \<Rightarrow> checker \<Rightarrow> checker go" where
  "checker_add p c =
     (if Graph_Has (graph c) p then Inr c
      else
        let g = Graph_Add p (graph c) in
        go_bind
          (go_fold (\<lambda>v g. if happenBefore (heap c ! v) (heap c ! p) then AddEdge v p g else Inr g) (Vertices g) g)
          (\<lambda>g1. Inr (c\<lparr>graph := g1\<rparr>)))"

definition checker_remove :: "nat \<Rightarrow> checker \<Rightarrow> checker" where
  "checker_remove p c = c\<lparr>graph := Graph_Remove p (graph c)\<rparr>"

definition checker_clear :: "checker \<Rightarrow> checker" where
  "checker_clear c = c\<lparr>graph := NewGraph\<rparr>"

definition checker_match :: "choices \<Rightarrow> nat \<Rightarrow> checker \<Rightarrow> nat option" where
  "checker_match E read c =
     find (\<lambda>v. Value_Equals (op_output (heap c ! read)) (op_input (heap c ! v)))
       (iteration E (Vertices (graph c)))"

definition checker_merge :: "nat \<Rightarrow> nat \<Rightarrow> checker \<Rightarrow> checker go" where
  "checker_merge read write c =
     go_bind (go_fold (\<lambda>s g. if s \<noteq> write then AddEdge s write g else Inr g) (To (graph c) read) (graph c))
       (\<lambda>g.
          let h = heap c;
              h1 = (if op_end (h ! read) < op_end (h ! write)
                    then h[write := (h ! write)\<lparr>op_end := op_end (h ! read)\<rparr>] else h)
          in Inr (c\<lparr>graph := Graph_Remove read g, heap := h1\<rparr>))"

text \<open>The look-ahead of \<open>linearizable\<close>: the operations after a read as long as they are concurrent with it.\<close>

fun look_ahead :: "nat \<Rightarrow> nat list \<Rightarrow> checker \<Rightarrow> checker go" where
  "look_ahead p [] c = Inr c"
| "look_ahead p (j # js) c =
     (if concurrent (heap c ! p) (heap c ! j) then
        go_bind (if op_output (heap c ! j) = None then checker_add j c else Inr c) (look_ahead p js)
      else Inr c)"

text \<open>The edges of a cycle that go back in time are removed.\<close>

definition cut_cycle :: "nat list \<Rightarrow> checker \<Rightarrow> checker" where
  "cut_cycle cycle c =
     c\<lparr>graph := fold (\<lambda>u g. fold (\<lambda>v g.
         if Set_Has v (From g u) \<and> op_start (heap c ! u) > op_end (heap c ! v) then RemoveEdge u v g else g)
         cycle g) cycle (graph c)\<rparr>"

fun check_all :: "choices \<Rightarrow> nat list \<Rightarrow> checker \<Rightarrow> nat list \<Rightarrow> (nat list \<times> checker) go" where
  "check_all E [] c anomaly = Inr (anomaly, c)"
| "check_all E (p # rest) c anomaly =
     go_bind (checker_add p c) (\<lambda>c1.
       if op_input (heap c1 ! p) = None then
         go_bind (look_ahead p rest c1) (\<lambda>c2.
         go_bind (case checker_match E p c2 of None \<Rightarrow> Inr c2 | Some w \<Rightarrow> checker_merge p w c2) (\<lambda>c3.
         go_bind (Cycle (graph c3)) (\<lambda>cycle.
           case cycle of
             None \<Rightarrow> check_all E rest c3 anomaly
           | Some vs \<Rightarrow> check_all E rest (cut_cycle vs c3) (anomaly @ [p]))))
       else check_all E rest c1 anomaly)"

text \<open>The result is the anomalies, the history as sorted in place, and the checker.\<close>

definition linearizable :: "choices \<Rightarrow> nat list \<Rightarrow> checker \<Rightarrow> (nat list \<times> nat list \<times> checker) go" where
  "linearizable E history c =
     (let sorted_history = sorting E (heap c) history
      in go_bind (check_all E sorted_history (checker_clear c) [])
           (\<lambda>(anomaly, c1). Inr (anomaly, sorted_history, c1)))"

section \<open>Histories\<close>

record op_history =
  shard :: "(goint, nat list) gomap"
  operations :: "nat list"
  h_heap :: store

definition NewHistory :: op_history where
  "NewHistory = \<lparr>shard = [], operations = [], h_heap = []\<rparr>"

definition AddOperation :: "goint \<Rightarrow> nat \<Rightarrow> op_history \<Rightarrow> op_history" where
  "AddOperation key p h =
     (let s = (if map_of (shard h) key = None then AList.update key [] (shard h) else shard h)
      in h\<lparr>shard := AList.update key ((case map_of s key of None \<Rightarrow> [] | Some ps \<Rightarrow> ps) @ [p]) s,
           operations := operations h @ [p]\<rparr>)"

text \<open>Allocating an operation, as \<open>&operation{...}\<close> and \<open>new(operation)\<close> do.\<close>

definition allocate :: "operation \<Rightarrow> op_history \<Rightarrow> nat \<times> op_history" where
  "allocate x h = (length (h_heap h), h\<lparr>h_heap := h_heap h @ [x]\<rparr>)"

definition History_Add :: "goint \<Rightarrow> Value \<Rightarrow> Value \<Rightarrow> goint \<Rightarrow> goint \<Rightarrow> op_history \<Rightarrow> op_history" where
  "History_Add key inp outp s e h =
     (let (p, h1) = allocate \<lparr>op_input = inp, op_output = outp, op_start = s, op_end = e\<rparr> h
      in AddOperation key p h1)"

definition check_shard :: "choices \<Rightarrow> goint \<times> nat list \<Rightarrow> nat \<times> op_history \<Rightarrow> (nat \<times> op_history) go" where
  "check_shard E = (\<lambda>(k, p) (sum, h).
     go_bind (linearizable E p (newChecker (h_heap h))) (\<lambda>(a, p1, c).
       Inr (sum + length a, h\<lparr>shard := AList.update k p1 (shard h), h_heap := heap c\<rparr>)))"

definition Linearizable :: "choices \<Rightarrow> op_history \<Rightarrow> (nat \<times> op_history) go" where
  "Linearizable E h = go_fold (check_shard E) (shard h) (0, h)"

text \<open>\<open>ReadFile\<close> from the records of the file: \<open>None\<close> is a file that cannot be opened, a record \<open>None\<close> one
  that the csv reader rejects. A bad time ends the process, every other fault is returned.\<close>

datatype read_result = ReadDone | ReadError | ReadFatal

definition field_value :: "string \<Rightarrow> Value" where
  "field_value s = (if s = ''null'' \<or> s = [] then None else Some (map of_char s))"

fun read_records :: "string list option list \<Rightarrow> op_history \<Rightarrow> read_result \<times> op_history" where
  "read_records [] h = (ReadDone, h)"
| "read_records (None # rs) h = (ReadError, h)"
| "read_records (Some r # rs) h =
     (if length r < 5 then (ReadError, h)
      else case Atoi (r ! 0) of
        None \<Rightarrow> (ReadError, h)
      | Some key \<Rightarrow>
          (case Atoi (r ! 3) of
             None \<Rightarrow> (ReadFatal, h)
           | Some s \<Rightarrow>
               (case Atoi (r ! 4) of
                  None \<Rightarrow> (ReadFatal, h)
                | Some e \<Rightarrow>
                    let (p, h1) = allocate \<lparr>op_input = field_value (r ! 1), op_output = field_value (r ! 2),
                                     op_start = s, op_end = e\<rparr> h
                    in read_records rs (AddOperation key p h1))))"

definition ReadFile :: "string list option list option \<Rightarrow> op_history \<Rightarrow> read_result \<times> op_history" where
  "ReadFile file h = (case file of None \<Rightarrow> (ReadError, h) | Some rs \<Rightarrow> read_records rs h)"

end
