(* ===== verification/Workload.thy ===== *)
theory Workload
  imports Checker Ident
begin

text \<open>
  What drives the load: the trigger policies of \<open>policy.go\<close>, the rate limiter of \<open>rate.go\<close>, and from
  \<open>benchmark.go\<close> the choice of keys, the workers and the wait for them. Times are integers in nanoseconds;
  the clock, the random numbers and the outcome of an operation are arguments. The policy \<open>ema\<close> and
  what else computes with floating-point numbers are in Measures; the keys that are drawn as such numbers
  are arguments after their conversion.
\<close>

section \<open>Policies\<close>

record consecutive =
  cs_last :: ID
  cs_hits :: goint
  cs_n :: goint

definition consecutive_Hit :: "ID \<Rightarrow> consecutive \<Rightarrow> ID \<times> consecutive" where
  "consecutive_Hit i c =
     (let c1 = (if i = cs_last c then c\<lparr>cs_hits := cs_hits c + 1\<rparr> else c\<lparr>cs_last := i, cs_hits := 1\<rparr>)
      in if cs_hits c1 \<ge> cs_n c1 then (cs_last c1, c1\<lparr>cs_last := 0, cs_hits := 0\<rparr>) else (0, c1))"

record majority =
  mj_hits :: "(ID, goint) gomap"
  mj_interval :: goint
  mj_time :: goint
  mj_sum :: goint

definition Second :: goint where
  "Second = 1000000000"

definition majority_reset :: "goint \<Rightarrow> majority \<Rightarrow> majority" where
  "majority_reset now m = m\<lparr>mj_hits := map (\<lambda>(i, _). (i, 0)) (mj_hits m), mj_sum := 0, mj_time := now\<rparr>"

definition majority_Hit :: "goint \<Rightarrow> ID \<Rightarrow> majority \<Rightarrow> ID \<times> majority" where
  "majority_Hit now i m =
     (let m1 = m\<lparr>mj_hits := AList.update i ((case map_of (mj_hits m) i of None \<Rightarrow> 0 | Some n \<Rightarrow> n) + 1) (mj_hits m),
                 mj_sum := mj_sum m + 1\<rparr>
      in if mj_sum m1 > 1 \<and> now - mj_time m1 \<ge> Second * mj_interval m1
         then (fold (\<lambda>(i, n) res. if n \<ge> mj_sum m1 sdiv 2 then i else res) (mj_hits m1) 0, majority_reset now m1)
         else (0, m1))"

definition null_Hit :: "ID \<Rightarrow> ID" where
  "null_Hit i = 0"

text \<open>\<open>NewPolicy\<close> by name; the thresholds are \<open>int(config.Threshold)\<close>. The numbers of \<open>ema\<close> are in Measures,
  and a name that is not known ends the process.\<close>

datatype policy = PNull | PConsecutive consecutive | PMajority majority | PEma

definition NewPolicy :: "string \<Rightarrow> goint \<Rightarrow> goint \<Rightarrow> policy go" where
  "NewPolicy name threshold now =
     (if name = [] \<or> name = ''null'' then Inr PNull
      else if name = ''consecutive'' then Inr (PConsecutive \<lparr>cs_last = 0, cs_hits = 0, cs_n = threshold\<rparr>)
      else if name = ''majority''
      then Inr (PMajority \<lparr>mj_hits = [], mj_interval = threshold, mj_time = now, mj_sum = 0\<rparr>)
      else if name = ''ema'' then Inr PEma
      else Inl InvalidArgument)"

section \<open>The rate limiter\<close>

record Limiter =
  lm_last :: "goint option"
  lm_sleep :: goint
  lm_interval :: goint
  lm_slack :: goint

definition NewLimiter :: "goint \<Rightarrow> Limiter go" where
  "NewLimiter rate =
     (if rate = 0 then Inl DivByZero
      else Inr \<lparr>lm_last = None, lm_sleep = 0, lm_interval = Second sdiv rate, lm_slack = (- 10 * Second) sdiv rate\<rparr>)"

text \<open>\<open>Wait\<close> at the time \<open>now\<close>: how long it sleeps.\<close>

definition Wait :: "goint \<Rightarrow> Limiter \<Rightarrow> goint \<times> Limiter" where
  "Wait now l =
     (case lm_last l of
        None \<Rightarrow> (0, l\<lparr>lm_last := Some now\<rparr>)
      | Some t \<Rightarrow>
          let s = lm_sleep l + (lm_interval l - (now - t));
              s1 = (if s < lm_slack l then lm_slack l else s)
          in if s1 > 0 then (s1, l\<lparr>lm_last := Some (now + s1), lm_sleep := 0\<rparr>)
             else (0, l\<lparr>lm_last := Some now, lm_sleep := s1\<rparr>))"

section \<open>Choosing keys\<close>

text \<open>The fields that \<open>next\<close> uses; \<open>b_rate\<close> is nil when there is no throttle.\<close>

record Bconfig =
  b_K :: goint
  b_Min :: goint
  b_Conflicts :: goint
  b_Throttle :: goint
  b_counter :: goint
  b_rate :: "Limiter option"

text \<open>\<open>rand.Intn(n)\<close> of the random number \<open>r\<close>.\<close>

definition Intn :: "nat \<Rightarrow> goint \<Rightarrow> goint go" where
  "Intn r n = (if n \<le> 0 then Inl InvalidArgument else Inr (int r mod n))"

text \<open>\<open>b.counter = (b.counter + 1) % b.K\<close>, where \<open>%\<close> has the sign of its left operand.\<close>

definition next_counter :: "Bconfig \<Rightarrow> (goint \<times> Bconfig) go" where
  "next_counter b =
     (if b_K b = 0 then Inl DivByZero
      else let k = (b_counter b + 1) smod b_K b in Inr (k + b_Min b, b\<lparr>b_counter := k\<rparr>))"

text \<open>The loops that bring a drawn key into range; they do not end when \<open>K\<close> is not positive.\<close>

function key_up :: "goint \<Rightarrow> goint \<Rightarrow> goint go" where
  "key_up K key = (if key < 0 then (if K \<le> 0 then Inl Hang else key_up K (key + K)) else Inr key)"
  by pat_completeness auto
termination
  by (relation "measure (\<lambda>(K, key). nat (- key))") auto

function key_down :: "goint \<Rightarrow> goint \<Rightarrow> goint go" where
  "key_down K key = (if key > K then (if K \<le> 0 then Inl Hang else key_down K (key - K)) else Inr key)"
  by pat_completeness auto
termination
  by (relation "measure (\<lambda>(K, key). nat (key - K))") auto

declare key_up.simps [simp del] key_down.simps [simp del]

definition wrap_key :: "goint \<Rightarrow> goint \<Rightarrow> goint go" where
  "wrap_key K key = go_bind (key_up K key) (key_down K)"

text \<open>The distributions; \<open>Normal\<close>, \<open>Zipfan\<close> and \<open>Exponential\<close> carry the integer that was drawn.\<close>

datatype distribution = Order | Uniform | Conflict | Normal goint | Zipfan goint | Exponential goint | Unknown

definition draw_key :: "distribution \<Rightarrow> nat \<Rightarrow> Bconfig \<Rightarrow> (goint \<times> Bconfig) go" where
  "draw_key d r b =
     (case d of
        Order \<Rightarrow> next_counter b
      | Uniform \<Rightarrow> go_bind (Intn r (b_K b)) (\<lambda>k. Inr (k + b_Min b, b))
      | Conflict \<Rightarrow> go_bind (Intn r 100) (\<lambda>p. if p < b_Conflicts b then Inr (0, b) else next_counter b)
      | Normal drawn \<Rightarrow> go_bind (wrap_key (b_K b) drawn) (\<lambda>k. Inr (k, b))
      | Zipfan drawn \<Rightarrow> Inr (drawn, b)
      | Exponential drawn \<Rightarrow> Inr (drawn, b)
      | Unknown \<Rightarrow> Inl InvalidArgument)"

text \<open>\<open>next\<close> at the time \<open>now\<close>: the key, and how long the limiter sleeps.\<close>

definition next_key :: "distribution \<Rightarrow> nat \<Rightarrow> goint \<Rightarrow> Bconfig \<Rightarrow> (goint \<times> goint \<times> Bconfig) go" where
  "next_key d r now b =
     go_bind (draw_key d r b) (\<lambda>(k, b1).
       if b_Throttle b1 > 0
       then (case b_rate b1 of
               None \<Rightarrow> Inl NilDeref
             | Some l \<Rightarrow> let (s, l1) = Wait now l in Inr (k, s, b1\<lparr>b_rate := Some l1\<rparr>))
       else Inr (k, 0, b1))"

section \<open>The benchmark\<close>

text \<open>What an operation does: a write of a value or a read of one, its start and its end
  since the start of the benchmark, and whether
  the database returned an error.\<close>

record outcome =
  oc_write :: bool
  oc_value :: Value
  oc_start :: goint
  oc_end :: goint
  oc_failed :: bool

definition MaxInt64 :: goint where
  "MaxInt64 = 2 ^ 63 - 1"

definition latency_of :: "outcome \<Rightarrow> goint" where
  "latency_of oc = oc_end oc - oc_start oc"

definition written_down :: "outcome \<Rightarrow> operation" where
  "written_down oc =
     \<lparr>op_input = (if oc_write oc then oc_value oc else None), op_output = (if oc_write oc then None else oc_value oc),
      op_start = oc_start oc, op_end = (if oc_failed oc then MaxInt64 else oc_end oc)\<rparr>"

text \<open>The counter of the wait group, the history and the collected latencies; then what is on its way: the keys of
  the operations that have been issued and have not ended, the oldest first (the workers hold some of the first of them, the
  channel \<open>keys\<close> the others), the channel of the latencies, and the operations that have ended and that
  their workers have not added to the history.\<close>

record Benchmark =
  bm_wait :: goint
  bm_history :: op_history
  bm_latency :: "goint list"
  bm_keys :: "goint list"
  bm_results :: "goint list"
  bm_unrecorded :: "(goint \<times> operation) list"

definition new_bench :: Benchmark where
  "new_bench = \<lparr>bm_wait = 0, bm_history = NewHistory, bm_latency = [], bm_keys = [], bm_results = [], bm_unrecorded = []\<rparr>"

text \<open>The main goroutine counts an operation and sends its key. There are \<open>conc\<close> workers, and the channel holds as
  many keys: the send blocks, here \<open>Hang\<close>, when every worker has an operation and the channel is full.\<close>

definition submit :: "nat \<Rightarrow> goint \<Rightarrow> Benchmark \<Rightarrow> Benchmark go" where
  "submit conc k b =
     (if length (bm_keys b) + length (bm_unrecorded b) < 2 * conc
      then Inr (b\<lparr>bm_wait := bm_wait b + 1, bm_keys := bm_keys b @ [k]\<rparr>) else Inl Hang)"

text \<open>The worker that holds the key at the position \<open>i\<close> ends its operation. The latency of an
  operation that succeeds goes to the channel, which has room for 1000; then the worker is about to add the operation.\<close>

definition worker_ends :: "nat \<Rightarrow> nat \<Rightarrow> outcome \<Rightarrow> Benchmark \<Rightarrow> Benchmark go" where
  "worker_ends conc i oc b =
     (if i < length (bm_keys b) \<and> i + length (bm_unrecorded b) < conc \<and> (oc_failed oc \<or> length (bm_results b) < 1000)
      then Inr (b\<lparr>bm_keys := take i (bm_keys b) @ drop (Suc i) (bm_keys b),
                  bm_results := (if oc_failed oc then bm_results b else bm_results b @ [latency_of oc]),
                  bm_unrecorded := bm_unrecorded b @ [(bm_keys b ! i, written_down oc)]\<rparr>)
      else Inl Hang)"

text \<open>\<open>AddOperation\<close>, the last statement of a round of a worker.\<close>

definition worker_records :: "nat \<Rightarrow> Benchmark \<Rightarrow> Benchmark go" where
  "worker_records j b =
     (if j < length (bm_unrecorded b)
      then let (k, x) = bm_unrecorded b ! j; (p, h) = allocate x (bm_history b)
           in Inr (b\<lparr>bm_history := AddOperation k p h,
                     bm_unrecorded := take j (bm_unrecorded b) @ drop (Suc j) (bm_unrecorded b)\<rparr>)
      else Inl Hang)"

text \<open>The collector; \<open>Done\<close> panics when it makes the counter negative.\<close>

definition collect :: "Benchmark \<Rightarrow> Benchmark go" where
  "collect b =
     (case bm_results b of
        [] \<Rightarrow> Inl Hang
      | t # ts \<Rightarrow>
          if bm_wait b \<le> 0 then Inl InvalidArgument
          else Inr (b\<lparr>bm_results := ts, bm_latency := bm_latency b @ [t], bm_wait := bm_wait b - 1\<rparr>))"

text \<open>The events of the workers and the collector. An event that is not possible is \<open>Hang\<close>.\<close>

datatype work = Finish nat outcome | Collect | Record nat

fun work_step :: "nat \<Rightarrow> work \<Rightarrow> Benchmark \<Rightarrow> Benchmark go" where
  "work_step conc (Finish i oc) b = worker_ends conc i oc b"
| "work_step conc Collect b = collect b"
| "work_step conc (Record j) b = worker_records j b"

text \<open>The wait group: a counter that is not zero is one that the call waits for.\<close>

definition wait_all :: "Benchmark \<Rightarrow> Benchmark go" where
  "wait_all b = (if bm_wait b = 0 then Inr b else Inl Hang)"

text \<open>\<open>Statistic\<close>, with the latencies kept in nanoseconds; the mean and the percentiles other than the median,
  which are computed with floating-point numbers, are in Measures.\<close>

record Stat =
  st_Data :: "goint list"
  st_Size :: nat
  st_Min :: goint
  st_Max :: goint
  st_Median :: goint

definition Statistic :: "goint list \<Rightarrow> Stat go" where
  "Statistic latency =
     (let ms = sort latency; size = length ms
      in if size = 0 then Inl IndexOutOfRange
         else Inr \<lparr>st_Data = ms, st_Size = size, st_Min = ms ! 0, st_Max = ms ! (size - 1), st_Median = ms ! (size div 2)\<rparr>)"

text \<open>\<open>Load\<close> writes the keys in order: its write ratio is 1. A schedule has the events up to the moment at which the
  wait is over; \<open>None\<close> is the next send of the main goroutine.\<close>

definition load_keys :: "Bconfig \<Rightarrow> goint list" where
  "load_keys c = [b_Min c..b_Min c + b_K c - 1]"

fun writing :: "work \<Rightarrow> work" where
  "writing (Finish i oc) = Finish i (oc\<lparr>oc_write := True\<rparr>)"
| "writing w = w"

fun load_step :: "nat \<Rightarrow> work option \<Rightarrow> goint list \<times> Benchmark \<Rightarrow> (goint list \<times> Benchmark) go" where
  "load_step conc None ([], b) = Inl Hang"
| "load_step conc None (k # ks, b) = go_bind (submit conc k b) (\<lambda>b. Inr (ks, b))"
| "load_step conc (Some w) (ks, b) = go_bind (work_step conc (writing w) b) (\<lambda>b. Inr (ks, b))"

definition finish :: "Benchmark \<Rightarrow> (Stat \<times> Benchmark) go" where
  "finish b = go_bind (wait_all b) (\<lambda>b. go_bind (Statistic (bm_latency b)) (\<lambda>s. Inr (s, b)))"

definition Load :: "Bconfig \<Rightarrow> nat \<Rightarrow> work option list \<Rightarrow> Benchmark \<Rightarrow> (Stat \<times> Benchmark) go" where
  "Load c conc sched b =
     go_bind (go_fold (load_step conc) sched (load_keys c, b)) (\<lambda>(ks, b).
       if ks \<noteq> [] then Inl Hang else finish b)"

end
