(* ===== verification/CheckerFacts.thy ===== *)
theory CheckerFacts
  imports Checker
begin

text \<open>
  What the checker reports: nothing on a history that has linearization points, so on a history recorded
  operation by operation \<open>Linearizable\<close> counts nothing; and where its verdict is too mild or too harsh.
\<close>

section \<open>Linearization points\<close>

definition is_write :: "operation \<Rightarrow> bool" where
  "is_write x \<longleftrightarrow> op_input x \<noteq> None \<and> op_output x = None"

definition is_read :: "operation \<Rightarrow> bool" where
  "is_read x \<longleftrightarrow> op_input x = None \<and> slice_bytes (op_output x) \<noteq> []"

definition returns :: "operation \<Rightarrow> operation \<Rightarrow> bool" where
  "returns r w \<longleftrightarrow> Value_Equals (op_output r) (op_input w)"

text \<open>Points in time that respect the real-time order and let every read return the last write before it.\<close>

definition points :: "(nat \<Rightarrow> int) \<Rightarrow> nat list \<Rightarrow> store \<Rightarrow> bool" where
  "points f xs h \<longleftrightarrow>
     (\<forall>a \<in> set xs. \<forall>b \<in> set xs. happenBefore (h ! a) (h ! b) \<longrightarrow> f a < f b) \<and>
     (\<forall>r \<in> set xs. is_read (h ! r) \<longrightarrow>
        (\<exists>w \<in> set xs. is_write (h ! w) \<and> returns (h ! r) (h ! w) \<and> f w < f r \<and>
           (\<forall>v \<in> set xs. is_write (h ! v) \<and> f v < f r \<and> v \<noteq> w \<longrightarrow> f v < f w)))"

text \<open>Reads and writes of distinct values, each ending no earlier than it starts.\<close>

definition recorded :: "nat list \<Rightarrow> store \<Rightarrow> bool" where
  "recorded xs h \<longleftrightarrow>
     distinct xs \<and> (\<forall>a \<in> set xs. a < length h \<and> op_start (h ! a) \<le> op_end (h ! a) \<and> (is_write (h ! a) \<or> is_read (h ! a))) \<and>
     (\<forall>a \<in> set xs. \<forall>b \<in> set xs. is_write (h ! a) \<and> is_write (h ! b) \<and> Value_Equals (op_input (h ! a)) (op_input (h ! b)) \<longrightarrow> a = b)"

definition in_order :: "(nat \<Rightarrow> int) \<Rightarrow> nat Graph \<Rightarrow> bool" where
  "in_order f g \<longleftrightarrow> graph_ok g \<and> (\<forall>(a, b) \<in> edges (g_from g). f a < f b)"

lemma in_order_acyclic: "in_order f g \<Longrightarrow> acyclic (edges (g_from g))"
proof -
  assume "in_order f g"
  then have "edges (g_from g) \<subseteq> {(a, b). f a < f b}"
    by (auto simp: in_order_def)
  moreover have "(a, b) \<in> {(a, b). f a < f b}\<^sup>+ \<Longrightarrow> f a < f b" for a b
    by (induction rule: trancl_induct) auto
  ultimately show ?thesis
    unfolding acyclic_def by (metis trancl_mono less_irrefl)
qed

section \<open>The steps of the checker\<close>

lemma add_edges:
  assumes "graph_ok g" "set vs \<subseteq> set (g_vertices g)" "p \<in> set (g_vertices g)"
    "\<And>v. v \<in> set vs \<Longrightarrow> P v \<Longrightarrow> v \<noteq> p"
  shows "\<exists>g1. go_fold (\<lambda>v g. if P v then AddEdge v p g else Inr g) vs g = Inr g1 \<and> graph_ok g1 \<and>
    set (g_vertices g1) = set (g_vertices g) \<and>
    edges (g_from g1) = edges (g_from g) \<union> {(v, p) | v. v \<in> set vs \<and> P v}"
  using assms
proof (induction vs arbitrary: g)
  case (Cons v vs)
  show ?case
  proof (cases "P v")
    case True
    then obtain g' where "AddEdge v p g = Inr g'" "graph_ok g'" "graph_abs g' = spec_step (GAddEdge v p) (graph_abs g)"
      using AddEdge_ok [OF Cons.prems(1), of v p] Cons.prems(4) [of v] by auto
    moreover from this have "set (g_vertices g') = set (g_vertices g)" "edges (g_from g') = insert (v, p) (edges (g_from g))"
      using Cons.prems by (auto simp: graph_abs_def)
    ultimately show ?thesis
      using Cons.IH [of g'] Cons.prems True by auto
  next
    case False
    then show ?thesis using Cons.IH [of g] Cons.prems by auto
  qed
qed simp

lemma checker_add_ok:
  assumes "in_order f (graph c)" "\<not> happenBefore (heap c ! p) (heap c ! p)"
    "\<And>v. v \<in> set (g_vertices (graph c)) \<Longrightarrow> happenBefore (heap c ! v) (heap c ! p) \<Longrightarrow> f v < f p"
  shows "\<exists>g. checker_add p c = Inr (c\<lparr>graph := g\<rparr>) \<and> in_order f g \<and>
    set (g_vertices g) = insert p (set (g_vertices (graph c)))"
proof (cases "p \<in> set (g_vertices (graph c))")
  case True
  then have "checker_add p c = Inr c"
    by (simp add: checker_add_def Graph_Has_def Set_Has_def)
  then show ?thesis
    using True assms(1) by (intro exI [of _ "graph c"]) auto
next
  case False
  let ?g = "Graph_Add p (graph c)"
  have g: "graph_ok ?g" "set (g_vertices ?g) = insert p (set (g_vertices (graph c)))"
      "edges (g_from ?g) = edges (g_from (graph c))"
    using Graph_Add_ok [of "graph c" p] assms(1) by (auto simp: in_order_def graph_abs_def)
  obtain g1 where g1: "go_fold (\<lambda>v g. if happenBefore (heap c ! v) (heap c ! p) then AddEdge v p g else Inr g)
       (g_vertices ?g) ?g = Inr g1" "graph_ok g1" "set (g_vertices g1) = set (g_vertices ?g)"
       "edges (g_from g1) = edges (g_from ?g) \<union> {(v, p) | v. v \<in> set (g_vertices ?g) \<and> happenBefore (heap c ! v) (heap c ! p)}"
    using add_edges [OF g(1) order_refl, of p "\<lambda>v. happenBefore (heap c ! v) (heap c ! p)"] g(2) assms(2) by blast
  have "in_order f g1"
    using g1(2,4) g(2,3) assms by (auto simp: in_order_def)
  then show ?thesis
    using g1 g False by (intro exI [of _ g1]) (auto simp: checker_add_def Vertices_def Graph_Has_def Set_Has_def)
qed


text \<open>What a run may change: only ends, and only such that the points still respect the real-time order.\<close>

definition same_times :: "(nat \<Rightarrow> int) \<Rightarrow> nat list \<Rightarrow> store \<Rightarrow> store \<Rightarrow> bool" where
  "same_times f xs h0 h \<longleftrightarrow>
     length h = length h0 \<and> (\<forall>a. a \<notin> set xs \<longrightarrow> h ! a = h0 ! a) \<and>
     (\<forall>a \<in> set xs. op_input (h ! a) = op_input (h0 ! a) \<and> op_output (h ! a) = op_output (h0 ! a) \<and>
        op_start (h ! a) = op_start (h0 ! a) \<and> op_start (h ! a) \<le> op_end (h ! a)) \<and>
     (\<forall>a \<in> set xs. \<forall>b \<in> set xs. happenBefore (h ! a) (h ! b) \<longrightarrow> f a < f b)"

lemma same_times_kinds:
  "same_times f xs h0 h \<Longrightarrow> a \<in> set xs \<Longrightarrow> is_write (h ! a) = is_write (h0 ! a) \<and> is_read (h ! a) = is_read (h0 ! a)"
  "same_times f xs h0 h \<Longrightarrow> a \<in> set xs \<Longrightarrow> b \<in> set xs \<Longrightarrow> returns (h ! a) (h ! b) = returns (h0 ! a) (h0 ! b)"
  by (auto simp: same_times_def is_write_def is_read_def returns_def)

lemma add_in_order:
  assumes "in_order f (graph c)" "same_times f xs h0 (heap c)" "p \<in> set xs" "set (g_vertices (graph c)) \<subseteq> set xs"
  shows "\<exists>g. checker_add p c = Inr (c\<lparr>graph := g\<rparr>) \<and> in_order f g \<and>
    set (g_vertices g) = insert p (set (g_vertices (graph c)))"
proof (rule checker_add_ok [OF assms(1)])
  show "\<not> happenBefore (heap c ! p) (heap c ! p)"
    using assms(2,3) by (auto simp: same_times_def happenBefore_def)
qed (use assms in \<open>auto simp: same_times_def\<close>)

lemma look_ahead_ok:
  assumes "in_order f (graph c)" "same_times f xs h0 (heap c)" "p \<in> set xs" "set js \<subseteq> set xs"
    "set (g_vertices (graph c)) \<subseteq> set xs" "sorted (map (\<lambda>i. op_start (h0 ! i)) (p # js))"
    "\<forall>a \<in> set js. is_write (h0 ! a) \<or> is_read (h0 ! a)"
  shows "\<exists>g. look_ahead p js c = Inr (c\<lparr>graph := g\<rparr>) \<and> in_order f g \<and>
    set (g_vertices (graph c)) \<subseteq> set (g_vertices g) \<and>
    set (g_vertices g) \<subseteq> set (g_vertices (graph c)) \<union> {w \<in> set js. is_write (h0 ! w)} \<and>
    (\<forall>w \<in> set js. is_write (h0 ! w) \<and> \<not> happenBefore (heap c ! p) (heap c ! w) \<longrightarrow> w \<in> set (g_vertices g))"
  using assms
proof (induction js arbitrary: c)
  case Nil
  then show ?case by (intro exI [of _ "graph c"]) auto
next
  case (Cons j js)
  have j: "j \<in> set xs" "op_start (heap c ! j) = op_start (h0 ! j)" "op_start (heap c ! p) = op_start (h0 ! p)"
      "op_start (heap c ! j) \<le> op_end (heap c ! j)"
    using Cons.prems(2-4) by (auto simp: same_times_def)
  have nb: "\<not> happenBefore (heap c ! j) (heap c ! p)"
    using Cons.prems(6) j(2-) by (auto simp: happenBefore_def)
  show ?case
  proof (cases "happenBefore (heap c ! p) (heap c ! j)")
    case True
    moreover have "happenBefore (heap c ! p) (heap c ! w)" if "w \<in> set js" for w
    proof -
      have "op_start (h0 ! j) \<le> op_start (h0 ! w)" "op_start (heap c ! w) = op_start (h0 ! w)"
        using that Cons.prems(2,4,6) by (auto simp: same_times_def)
      then show ?thesis using True j(2) by (auto simp: happenBefore_def)
    qed
    ultimately show ?thesis
      using Cons.prems(1) by (intro exI [of _ "graph c"]) (auto simp: concurrent_def)
  next
    case False
    have w: "op_output (heap c ! j) = None \<longleftrightarrow> is_write (h0 ! j)"
      using Cons.prems(2,7) j(1) by (auto simp: same_times_def is_write_def is_read_def slice_bytes_def)
    obtain gj where gj: "checker_add j c = Inr (c\<lparr>graph := gj\<rparr>)" "in_order f gj"
        "set (g_vertices gj) = insert j (set (g_vertices (graph c)))"
      using add_in_order [OF Cons.prems(1,2) j(1) Cons.prems(5)] by blast
    define g1 where "g1 = (if is_write (h0 ! j) then gj else graph c)"
    let ?c1 = "c\<lparr>graph := g1\<rparr>"
    have c1: "(if op_output (heap c ! j) = None then checker_add j c else Inr c) = Inr ?c1" "in_order f g1"
        "set (g_vertices g1) = (if is_write (h0 ! j) then insert j (set (g_vertices (graph c))) else set (g_vertices (graph c)))"
      using gj Cons.prems(1) by (auto simp: g1_def w)
    have "\<exists>g. look_ahead p js ?c1 = Inr (?c1\<lparr>graph := g\<rparr>) \<and> in_order f g \<and>
        set (g_vertices (graph ?c1)) \<subseteq> set (g_vertices g) \<and>
        set (g_vertices g) \<subseteq> set (g_vertices (graph ?c1)) \<union> {w \<in> set js. is_write (h0 ! w)} \<and>
        (\<forall>w \<in> set js. is_write (h0 ! w) \<and> \<not> happenBefore (heap ?c1 ! p) (heap ?c1 ! w) \<longrightarrow> w \<in> set (g_vertices g))"
    proof (rule Cons.IH)
      show "set (g_vertices (graph ?c1)) \<subseteq> set xs"
        using c1(3) Cons.prems(5) j(1) by (auto split: if_splits)
    qed (use c1(2) Cons.prems in auto)
    then obtain g where g: "look_ahead p js ?c1 = Inr (c\<lparr>graph := g\<rparr>)" "in_order f g"
      "set (g_vertices g1) \<subseteq> set (g_vertices g)"
      "set (g_vertices g) \<subseteq> set (g_vertices g1) \<union> {w \<in> set js. is_write (h0 ! w)}"
      "\<forall>w \<in> set js. is_write (h0 ! w) \<and> \<not> happenBefore (heap c ! p) (heap c ! w) \<longrightarrow> w \<in> set (g_vertices g)"
      by auto
    have "look_ahead p (j # js) c = Inr (c\<lparr>graph := g\<rparr>)"
      using False nb c1(1) g(1) by (simp add: concurrent_def)
    then show ?thesis
      using g(2-) c1(3) by (intro exI [of _ g]) (auto split: if_splits)
  qed
qed

lemma merge_ok:
  assumes "in_order f (graph c)" "same_times f xs h0 (heap c)" "r \<in> set xs" "w \<in> set xs" "f w < f r"
    "r \<in> set (g_vertices (graph c))" "w \<in> set (g_vertices (graph c))" "w < length (heap c)"
    "\<And>v. v \<in> set (g_vertices (graph c)) \<Longrightarrow> f v < f r \<Longrightarrow> v \<noteq> w \<Longrightarrow> f v < f w"
  shows "\<exists>g h. checker_merge r w c = Inr \<lparr>graph = g, heap = h\<rparr> \<and> in_order f g \<and> same_times f xs h0 h \<and>
    set (g_vertices g) = set (g_vertices (graph c)) - {r}"
proof -
  have ok: "graph_ok (graph c)" and fwd: "\<And>a b. b \<in> set (adjacent (g_from (graph c)) a) \<Longrightarrow> f a < f b"
    using assms(1) by (auto simp: in_order_def)
  have to: "f s < f r" "s \<in> set (g_vertices (graph c))" if "s \<in> set (To (graph c) r)" for s
  proof -
    have "r \<in> set (adjacent (g_from (graph c)) s)"
      using that ok by (auto simp: graph_ok_def To_def)
    then show "f s < f r" "s \<in> set (g_vertices (graph c))"
      using fwd ok_edge [OF ok] by auto
  qed
  obtain g1 where g1: "go_fold (\<lambda>s g. if s \<noteq> w then AddEdge s w g else Inr g) (To (graph c) r) (graph c) = Inr g1"
    "graph_ok g1" "set (g_vertices g1) = set (g_vertices (graph c))"
    "edges (g_from g1) = edges (g_from (graph c)) \<union> {(v, w) | v. v \<in> set (To (graph c) r) \<and> v \<noteq> w}"
    using add_edges [OF ok _ assms(7), of "To (graph c) r" "\<lambda>v. v \<noteq> w"] to by auto
  have "in_order f g1"
    using g1(2,4) fwd to assms(9) by (auto simp: in_order_def)
  then have g: "in_order f (Graph_Remove r g1)" "set (g_vertices (Graph_Remove r g1)) = set (g_vertices (graph c)) - {r}"
    using Graph_Remove_ok [OF g1(2), of r] g1(3) by (auto simp: in_order_def graph_abs_def)
  define h where "h = (if op_end (heap c ! r) < op_end (heap c ! w)
      then (heap c)[w := (heap c ! w)\<lparr>op_end := op_end (heap c ! r)\<rparr>] else heap c)"
  have "\<not> happenBefore (heap c ! r) (heap c ! w)"
    using assms(2-5) unfolding same_times_def by fastforce
  then have "same_times f xs h0 h"
    using assms(2-5,8) unfolding same_times_def h_def happenBefore_def
    by (auto simp: nth_list_update) (meson less_trans)+
  then show ?thesis
    using g g1(1) by (intro exI [of _ "Graph_Remove r g1"] exI [of _ h])
      (simp add: checker_merge_def h_def Let_def)
qed


lemma Value_Equals_trans: "Value_Equals a b \<Longrightarrow> Value_Equals a c \<Longrightarrow> Value_Equals b c"
  by (simp add: Value_Equals_def)

text \<open>A read finds the write it returned, if that is a vertex and all other vertices are writes.\<close>

lemma match_ok:
  assumes "legal E" "recorded xs h0" "same_times f xs h0 (heap c)" "r \<in> set xs" "is_read (h0 ! r)"
    "w \<in> set xs" "is_write (h0 ! w)" "returns (h0 ! r) (h0 ! w)" "w \<in> set (g_vertices (graph c))"
    "\<And>v. v \<in> set (g_vertices (graph c)) \<Longrightarrow> v \<noteq> r \<Longrightarrow> v \<in> set xs \<and> is_write (h0 ! v)"
  shows "checker_match E r c = Some w"
proof -
  let ?P = "\<lambda>v. Value_Equals (op_output (heap c ! r)) (op_input (heap c ! v))"
  have vs: "set (iteration E (Vertices (graph c))) = set (g_vertices (graph c))"
    using assms(1) unfolding legal_def Vertices_def by (metis mset_eq_setD)
  have P: "?P v \<longleftrightarrow> returns (h0 ! r) (h0 ! v)" if "v \<in> set xs" for v
    using assms(3,4) that by (simp add: same_times_def returns_def)
  have only: "v = w" if "v \<in> set (g_vertices (graph c))" "?P v" for v
  proof (cases "v = r")
    case True
    then show ?thesis
      using P [OF assms(4)] assms(5) that(2) by (simp add: returns_def is_read_def Value_Equals_def slice_bytes_def)
  next
    case False
    then have "v \<in> set xs" "is_write (h0 ! v)" "returns (h0 ! r) (h0 ! v)"
      using assms(10) that P by auto
    moreover from this have "Value_Equals (op_input (h0 ! v)) (op_input (h0 ! w))"
      using assms(8) Value_Equals_trans unfolding returns_def by blast
    ultimately show ?thesis
      using assms(2,6,7) unfolding recorded_def by blast
  qed
  have "?P w" using P [OF assms(6)] assms(8) by simp
  then obtain v where v: "checker_match E r c = Some v"
    unfolding checker_match_def using vs assms(9) by (cases "find ?P (iteration E (Vertices (graph c)))")
      (auto simp: find_None_iff)
  then have "v \<in> set (g_vertices (graph c)) \<and> ?P v"
    unfolding checker_match_def using vs by (auto simp: find_Some_iff)
  then show ?thesis
    using only v by simp
qed

definition writes_only :: "nat list \<Rightarrow> store \<Rightarrow> nat Graph \<Rightarrow> bool" where
  "writes_only xs h g \<longleftrightarrow> (\<forall>v \<in> set (g_vertices g). v \<in> set xs \<and> is_write (h ! v))"

lemma read_ok:
  assumes "legal E" "recorded xs h0" "points f xs h0" "in_order f (graph c)" "same_times f xs h0 (heap c)"
    "writes_only xs h0 (graph c)" "xs = before @ r # rest" "is_read (h0 ! r)"
    "sorted (map (\<lambda>i. op_start (h0 ! i)) xs)"
    "\<forall>w \<in> set before. is_write (h0 ! w) \<longrightarrow> w \<in> set (g_vertices (graph c))"
  shows "\<exists>c1 c2 w c3. checker_add r c = Inr c1 \<and> heap c1 = heap c \<and> look_ahead r rest c1 = Inr c2 \<and> checker_match E r c2 = Some w \<and>
    checker_merge r w c2 = Inr c3 \<and> in_order f (graph c3) \<and> same_times f xs h0 (heap c3) \<and>
    writes_only xs h0 (graph c3) \<and> set (g_vertices (graph c)) \<subseteq> set (g_vertices (graph c3))"
proof -
  have r: "r \<in> set xs" "\<not> is_write (h0 ! r)" and sub: "set (g_vertices (graph c)) \<subseteq> set xs"
    using assms(6-8) by (auto simp: writes_only_def is_write_def is_read_def)
  obtain g1 where g1: "checker_add r c = Inr (c\<lparr>graph := g1\<rparr>)" "in_order f g1"
      "set (g_vertices g1) = insert r (set (g_vertices (graph c)))"
    using add_in_order [OF assms(4,5) r(1) sub] by blast
  let ?c1 = "c\<lparr>graph := g1\<rparr>"
  have "\<exists>g. look_ahead r rest ?c1 = Inr (?c1\<lparr>graph := g\<rparr>) \<and> in_order f g \<and>
    set (g_vertices (graph ?c1)) \<subseteq> set (g_vertices g) \<and>
    set (g_vertices g) \<subseteq> set (g_vertices (graph ?c1)) \<union> {w \<in> set rest. is_write (h0 ! w)} \<and>
    (\<forall>w \<in> set rest. is_write (h0 ! w) \<and> \<not> happenBefore (heap ?c1 ! r) (heap ?c1 ! w) \<longrightarrow> w \<in> set (g_vertices g))"
  proof (rule look_ahead_ok [where xs = xs])
    show "sorted (map (\<lambda>i. op_start (h0 ! i)) (r # rest))"
      using assms(7,9) by (simp add: sorted_append)
    show "\<forall>a \<in> set rest. is_write (h0 ! a) \<or> is_read (h0 ! a)"
      using assms(2,7) by (auto simp: recorded_def)
  qed (use assms(5,7) g1 r sub in auto)
  then obtain g where g: "look_ahead r rest ?c1 = Inr (c\<lparr>graph := g\<rparr>)" "in_order f g"
      "set (g_vertices g1) \<subseteq> set (g_vertices g)"
      "set (g_vertices g) \<subseteq> set (g_vertices g1) \<union> {w \<in> set rest. is_write (h0 ! w)}"
      "\<forall>w \<in> set rest. is_write (h0 ! w) \<and> \<not> happenBefore (heap c ! r) (heap c ! w) \<longrightarrow> w \<in> set (g_vertices g)"
    by auto
  let ?c2 = "c\<lparr>graph := g\<rparr>"
  have vs: "v \<in> set xs \<and> is_write (h0 ! v)" if "v \<in> set (g_vertices g)" "v \<noteq> r" for v
    using that g(4) g1(3) assms(6,7) by (auto simp: writes_only_def)
  obtain w where w: "w \<in> set xs" "is_write (h0 ! w)" "returns (h0 ! r) (h0 ! w)" "f w < f r"
      "\<forall>v \<in> set xs. is_write (h0 ! v) \<and> f v < f r \<and> v \<noteq> w \<longrightarrow> f v < f w"
    using assms(3,8) r(1) unfolding points_def by blast
  have "\<not> happenBefore (heap c ! r) (heap c ! w)"
    using assms(5) r(1) w(1,4) unfolding same_times_def by fastforce
  then have wg: "w \<in> set (g_vertices g)"
    using g(3,5) g1(3) assms(7,10) w(1,2) r(2) by auto
  have m: "checker_match E r ?c2 = Some w"
    by (rule match_ok [OF assms(1,2) _ r(1) assms(8) w(1-3)]) (use assms(5) wg vs in auto)
  have "w < length (heap c)"
    using assms(2,5) w(1) by (simp add: recorded_def same_times_def)
  moreover have "f v < f w" if "v \<in> set (g_vertices g)" "f v < f r" "v \<noteq> w" for v
    using that vs [of v] w(5) by (cases "v = r") auto
  ultimately obtain g3 h3 where c3: "checker_merge r w ?c2 = Inr \<lparr>graph = g3, heap = h3\<rparr>" "in_order f g3"
      "same_times f xs h0 h3" "set (g_vertices g3) = set (g_vertices g) - {r}"
    using merge_ok [of f ?c2 xs h0 r w] g(2,3) g1(3) assms(5) r(1) w(1,4) wg by auto
  have "r \<notin> set (g_vertices (graph c))"
    using assms(6) r(2) by (auto simp: writes_only_def)
  then have "set (g_vertices (graph c)) \<subseteq> set (g_vertices g3)"
    using g(3) g1(3) c3(4) by auto
  moreover have "writes_only xs h0 g3"
    using vs c3(4) by (simp add: writes_only_def)
  ultimately show ?thesis
    using g1(1) g(1) m c3(1-3)
    by (intro exI [of _ ?c1] exI [of _ ?c2] exI [of _ w] exI [of _ "\<lparr>graph = g3, heap = h3\<rparr>"]) simp
qed

lemma check_all_ok:
  assumes "legal E" "recorded xs h0" "points f xs h0" "sorted (map (\<lambda>i. op_start (h0 ! i)) xs)"
    "xs = before @ rest" "in_order f (graph c)" "same_times f xs h0 (heap c)" "writes_only xs h0 (graph c)"
    "\<forall>w \<in> set before. is_write (h0 ! w) \<longrightarrow> w \<in> set (g_vertices (graph c))"
  shows "\<exists>c'. check_all E rest c anomaly = Inr (anomaly, c') \<and> same_times f xs h0 (heap c')"
  using assms(5-)
proof (induction rest arbitrary: before c)
  case (Cons p rest)
  have p: "p \<in> set xs" and sub: "set (g_vertices (graph c)) \<subseteq> set xs"
    using Cons.prems(1,4) by (auto simp: writes_only_def)
  have kinds: "op_input (heap c ! p) = None \<longleftrightarrow> is_read (h0 ! p)" "is_write (h0 ! p) \<or> is_read (h0 ! p)"
    using assms(2) Cons.prems(3) p by (auto simp: recorded_def same_times_def is_read_def is_write_def)
  show ?case
  proof (cases "is_read (h0 ! p)")
    case True
    obtain c1 c2 w c3 where c: "checker_add p c = Inr c1" "heap c1 = heap c" "look_ahead p rest c1 = Inr c2"
      "checker_match E p c2 = Some w" "checker_merge p w c2 = Inr c3" "in_order f (graph c3)"
      "same_times f xs h0 (heap c3)" "writes_only xs h0 (graph c3)"
      "set (g_vertices (graph c)) \<subseteq> set (g_vertices (graph c3))"
      using read_ok [OF assms(1-3) Cons.prems(2-4,1) True assms(4) Cons.prems(5)] by blast
    have "Cycle (graph c3) = Inr None"
      using Cycle_acyclic in_order_acyclic c(6) by (auto simp: in_order_def)
    moreover have "\<exists>c'. check_all E rest c3 anomaly = Inr (anomaly, c') \<and> same_times f xs h0 (heap c')"
    proof (intro Cons.IH [of "before @ [p]"])
      show "xs = (before @ [p]) @ rest" using Cons.prems(1) by simp
    qed (use Cons.prems(5) c(6-) True in \<open>auto simp: is_read_def is_write_def\<close>)
    ultimately show ?thesis
      using c kinds(1) True by simp
  next
    case False
    then have w: "is_write (h0 ! p)" "op_input (heap c ! p) \<noteq> None" using kinds by auto
    obtain g where "checker_add p c = Inr (c\<lparr>graph := g\<rparr>)" "in_order f g"
        "set (g_vertices g) = insert p (set (g_vertices (graph c)))"
      using add_in_order [OF Cons.prems(2,3) p sub] by blast
    moreover from this have "\<exists>c'. check_all E rest (c\<lparr>graph := g\<rparr>) anomaly = Inr (anomaly, c') \<and> same_times f xs h0 (heap c')"
    proof (intro Cons.IH [of "before @ [p]"])
      show "xs = (before @ [p]) @ rest" using Cons.prems(1) by simp
    qed (use Cons.prems(3-5) p w in \<open>auto simp: writes_only_def\<close>)
    ultimately show ?thesis
      using w(2) by auto
  qed
qed simp

lemma linearizable_ok:
  assumes "legal E" "recorded history h" "points f history h"
  shows "\<exists>xs c. linearizable E history (newChecker h) = Inr ([], xs, c) \<and> mset xs = mset history \<and>
    (\<forall>a. a \<notin> set history \<longrightarrow> heap c ! a = h ! a) \<and> length (heap c) = length h"
proof -
  let ?xs = "sorting E h history"
  have m: "mset ?xs = mset history" and s: "sorted_wrt (\<lambda>i j. \<not> byTime h j i) ?xs"
    using assms(1) by (auto simp: legal_def)
  have set: "set ?xs = set history" and "distinct ?xs"
    using mset_eq_setD [OF m] mset_eq_imp_distinct_iff [OF m] assms(2) by (auto simp: recorded_def)
  then have "recorded ?xs h" "points f ?xs h" "same_times f ?xs h h"
    using assms(2,3) by (auto simp: recorded_def points_def same_times_def)
  moreover have "sorted (map (\<lambda>i. op_start (h ! i)) ?xs)"
    using s by (simp add: sorted_map byTime_def not_less)
  moreover have "in_order f NewGraph" "writes_only ?xs h NewGraph"
    using NewGraph_ok by (auto simp: in_order_def graph_abs_def writes_only_def NewGraph_def NewSet_def)
  ultimately obtain c where "check_all E ?xs \<lparr>graph = NewGraph, heap = h\<rparr> [] = Inr ([], c)" "same_times f ?xs h (heap c)"
    using check_all_ok [OF assms(1), of ?xs h f "[]" ?xs "\<lparr>graph = NewGraph, heap = h\<rparr>" "[]"] by auto
  then show ?thesis
    using m set by (auto simp: linearizable_def newChecker_def checker_clear_def Let_def same_times_def)
qed

section \<open>Histories\<close>

text \<open>A history as clients record it, one call of \<open>Add\<close> after the other.\<close>

definition history_of :: "(goint \<times> operation) list \<Rightarrow> op_history" where
  "history_of xs = fold (\<lambda>(k, x). History_Add k (op_input x) (op_output x) (op_start x) (op_end x)) xs NewHistory"

text \<open>Every recorded operation is in exactly one shard.\<close>

definition shards_ok :: "op_history \<Rightarrow> bool" where
  [wf_defs]: "shards_ok H \<longleftrightarrow> mset (concat (map snd (shard H))) = mset [0..<length (h_heap H)]"

lemma concat_update:
  "map_of m k = None \<Longrightarrow> mset (concat (map snd (AList.update k [] m))) = mset (concat (map snd m))"
  "map_of m k = Some v \<Longrightarrow>
     mset (concat (map snd (AList.update k (v @ [p]) m))) = add_mset p (mset (concat (map snd m)))"
  by (induction m) (auto split: if_splits)

lemma AddOperation_shards:
  "mset (concat (map snd (shard (AddOperation k p H)))) = add_mset p (mset (concat (map snd (shard H))))"
proof (cases "map_of (shard H) k")
  case None
  then show ?thesis
    using concat_update(2) [of "AList.update k [] (shard H)" k "[]" p]
    by (simp add: AddOperation_def Let_def concat_update(1) update_conv')
qed (simp add: AddOperation_def Let_def concat_update(2))

lemma AddOperation_heap [simp]: "h_heap (AddOperation k p H) = h_heap H"
  by (simp add: AddOperation_def Let_def)

lemma history_of_shards: "shards_ok (history_of xs)"
proof -
  have step: "shards_ok (History_Add k i u s e H)" if "shards_ok H" for k i u s e H
    using that by (simp add: shards_ok_def History_Add_def allocate_def AddOperation_shards)
  show ?thesis
    unfolding history_of_def
  proof (rule fold_invariant)
    show "shards_ok NewHistory"
      by (simp add: shards_ok_def NewHistory_def)
  qed (simp add: split_beta step)
qed

lemma recorded_cong: "(\<And>a. a \<in> set p \<Longrightarrow> h' ! a = h ! a) \<Longrightarrow> length h' = length h \<Longrightarrow> recorded p h' = recorded p h"
  by (simp add: recorded_def)

lemma points_cong: "(\<And>a. a \<in> set p \<Longrightarrow> h' ! a = h ! a) \<Longrightarrow> points f p h' = points f p h"
  by (simp add: points_def)

lemma check_shards:
  assumes "legal E" "distinct (concat (map snd ps))"
    "\<And>k p. (k, p) \<in> set ps \<Longrightarrow> recorded p (h_heap H) \<and> (\<exists>f. points f p (h_heap H))"
  shows "\<exists>H'. go_fold (check_shard E) ps (n, H) = Inr (n, H')"
  using assms(2-)
proof (induction ps arbitrary: H)
  case (Cons kp ps)
  obtain k p where kp: "kp = (k, p)" by (cases kp)
  obtain f where "recorded p (h_heap H)" "points f p (h_heap H)"
    using Cons.prems(2) kp by auto
  then obtain xs c where c: "linearizable E p (newChecker (h_heap H)) = Inr ([], xs, c)"
    "\<forall>a. a \<notin> set p \<longrightarrow> heap c ! a = h_heap H ! a" "length (heap c) = length (h_heap H)"
    using linearizable_ok [OF assms(1)] by blast
  define H1 where "H1 = H\<lparr>shard := AList.update k xs (shard H), h_heap := heap c\<rparr>"
  have "check_shard E kp (n, H) = Inr (n, H1)"
    using c(1) by (simp add: check_shard_def kp H1_def)
  moreover have "recorded q (h_heap H1) \<and> (\<exists>f. points f q (h_heap H1))" if "(l, q) \<in> set ps" for l q
  proof -
    have "set q \<inter> set p = {}"
      using Cons.prems(1) that kp by fastforce
    then have "a \<in> set q \<Longrightarrow> h_heap H1 ! a = h_heap H ! a" for a
      using c(2) by (auto simp: H1_def)
    moreover have "length (h_heap H1) = length (h_heap H)"
      using c(3) by (simp add: H1_def)
    ultimately show ?thesis
      using Cons.prems(2) [of l q] that recorded_cong [of q "h_heap H1" "h_heap H"]
        points_cong [of q "h_heap H1" "h_heap H"] by auto
  qed
  ultimately show ?case
    using Cons.IH [of H1] Cons.prems(1) kp by auto
qed simp

text \<open>C28: a history never makes the checker raise a false alarm: if the operations recorded for every key are
  reads and writes of distinct values, and there are points in time within the real-time order at
  which every read returns the last write of its key, then \<open>Linearizable\<close> does not panic and counts no
  anomaly, whatever the order in which the vertices are visited and operations of equal start are sorted.\<close>

theorem history_raises_no_false_alarm:
  assumes "legal E"
    and "\<And>k p. (k, p) \<in> set (shard (history_of xs)) \<Longrightarrow>
      recorded p (h_heap (history_of xs)) \<and> (\<exists>f. points f p (h_heap (history_of xs)))"
  shows "\<exists>H. Linearizable E (history_of xs) = Inr (0, H)"
proof -
  have "distinct (concat (map snd (shard (history_of xs)))) = distinct [0..<length (h_heap (history_of xs))]"
    using history_of_shards [of xs] unfolding shards_ok_def by (rule mset_eq_imp_distinct_iff)
  then have "distinct (concat (map snd (shard (history_of xs))))"
    by simp
  then show ?thesis
    unfolding Linearizable_def by (rule check_shards [OF assms(1)]) (rule assms(2))
qed

text \<open>Two writes, of which the second is concurrent with a read of the first.\<close>

definition wr :: "8 word \<Rightarrow> goint \<Rightarrow> goint \<Rightarrow> operation" where
  "wr x s e = \<lparr>op_input = Some [x], op_output = None, op_start = s, op_end = e\<rparr>"

definition rd :: "8 word \<Rightarrow> goint \<Rightarrow> goint \<Rightarrow> operation" where
  "rd x s e = \<lparr>op_input = None, op_output = Some [x], op_start = s, op_end = e\<rparr>"

lemma stable_legal: "legal stable"
proof -
  have "sorted_wrt (\<lambda>i j. op_start (h ! i) \<le> op_start (h ! j)) (sort_key (\<lambda>i. op_start (h ! i)) xs)" for h :: store and xs
    using sorted_sort_key [of "\<lambda>i. op_start (h ! i)" xs] unfolding sorted_map .
  then show ?thesis
    by (simp add: legal_def stable_def byTime_def not_less)
qed

definition checked_example :: store where
  "checked_example = [wr 1 0 5, rd 1 6 10, wr 2 7 10, rd 2 11 15]"

lemma history_raises_no_false_alarm_witness:
  "\<exists>H. Linearizable stable (history_of [(7, wr 1 0 5), (8, wr 1 0 9), (7, rd 1 6 10), (7, wr 2 7 10), (7, rd 2 11 15)]) = Inr (0, H)"
proof -
  define xs where "xs = [(7 :: goint, wr 1 0 5), (8, wr 1 0 9), (7, rd 1 6 10), (7, wr 2 7 10), (7, rd 2 11 15)]"
  have "shard (history_of xs) = [(7, [0, 2, 3, 4]), (8, [1])] \<and> 
      recorded [0, 2, 3, 4] (h_heap (history_of xs)) \<and> points int [0, 2, 3, 4] (h_heap (history_of xs)) \<and>
      recorded [1] (h_heap (history_of xs)) \<and> points int [1] (h_heap (history_of xs))"
    unfolding xs_def by code_simp
  then have "\<exists>H. Linearizable stable (history_of xs) = Inr (0, H)"
    by (intro history_raises_no_false_alarm [OF stable_legal]) auto
  then show ?thesis by (simp add: xs_def)
qed

section \<open>What the checker misses and what it repeats\<close>

definition anomalies :: "operation list \<Rightarrow> nat list go" where
  "anomalies h = go_bind (linearizable stable [0..<length h] (newChecker h)) (\<lambda>(a, _). Inr a)"

text \<open>the checker misses a violation and repeats another: a read that returns a value which is only
  written after the read has ended is not reported; and after one stale read the correct read that follows
  it is reported as well, because only those edges against the real-time order are cut that lie on the
  one cycle found. Without the stale read nothing is reported.\<close>

theorem checker_misses_and_repeats:
  "anomalies [rd 1 0 5, wr 1 6 10] = Inr []
   \<and> anomalies [wr 1 0 5, wr 2 6 10, wr 3 6 10, rd 1 11 15, rd 3 16 20] = Inr [3, 4]
   \<and> anomalies [wr 1 0 5, wr 2 6 10, wr 3 6 10, rd 3 16 20] = Inr []"
  by (intro conjI; code_simp)

text \<open>The verdicts of \<open>checker_test.go\<close>.\<close>

lemma checker_test:
  "anomalies [wr 42 0 5, rd 42 3 10] = Inr []"
  "anomalies [wr 0 0 0, wr 100 0 100, rd 100 5 35, rd 0 30 60] = Inr []"
  "anomalies [wr 0 0 0, wr 100 0 100, rd 100 5 25, rd 0 30 60] = Inr [3]"
  "anomalies [wr 1 0 5, wr 2 6 10, rd 1 11 15, rd 1 12 16] = Inr [2, 3]"
  "anomalies [wr 1 0 5, rd 1 6 10, wr 2 7 10, rd 1 11 15] = Inr [3]"
  by code_simp+

end
