(* ===== verification/WorkloadFacts.thy ===== *)
theory WorkloadFacts
  imports Workload CheckerFacts
begin

text \<open>
  What the load is: the limiter spaces the operations, the keys stay in their range, and the policies trigger
  at a number of hits in a row and at half of the hits. Then what a benchmark accounts for while its workers, its collector and
  its history go at their own pace, when \<open>Load\<close> returns, and what the operations on a history keep.
\<close>

section \<open>Policies\<close>

text \<open>The answers to a sequence of hits.\<close>

fun consecutive_run :: "ID list \<Rightarrow> consecutive \<Rightarrow> ID list" where
  "consecutive_run [] c = []"
| "consecutive_run (i # is) c = (let (r, c1) = consecutive_Hit i c in r # consecutive_run is c1)"

lemma consecutive_run_eq:
  assumes "0 < n" "i \<noteq> 0"
  shows "k < n \<Longrightarrow> consecutive_run (replicate m i) \<lparr>cs_last = (if k = 0 then 0 else i), cs_hits = int k, cs_n = int n\<rparr> =
    map (\<lambda>j. if (k + j + 1) mod n = 0 then i else 0) [0..<m]"
proof (induction m arbitrary: k)
  case (Suc m)
  let ?s = "\<lambda>k. \<lparr>cs_last = (if k = 0 then 0 else i), cs_hits = int k, cs_n = int n\<rparr>"
  have shift: "map f [0..<Suc m] = f 0 # map (\<lambda>j. f (Suc j)) [0..<m]" for f :: "nat \<Rightarrow> ID"
    by (simp only: upt_conv_Cons [of 0 "Suc m"] list.map map_Suc_upt [symmetric] map_map o_def zero_less_Suc)
  show ?case
  proof (cases "k + 1 < n")
    case True
    then have "consecutive_Hit i (?s k) = (0, ?s (k + 1))"
      using assms(2) by (auto simp: consecutive_Hit_def Let_def)
    then show ?thesis
      using Suc.IH [OF True] True unfolding shift by (simp add: replicate_Suc)
  next
    case False
    then have k: "k + 1 = n" using Suc.prems by simp
    then have "consecutive_Hit i (?s k) = (i, ?s 0)"
      using assms(2) by (auto simp: consecutive_Hit_def Let_def)
    moreover have "(k + (j + 1) + 1) mod n = (j + 1) mod n" for j
      using k by (metis add.assoc add.commute mod_add_self1)
    ultimately show ?thesis
      using Suc.IH [of 0] assms(1) k unfolding shift by (simp add: replicate_Suc)
  qed
qed simp

text \<open>The policy \<open>majority\<close> compares with half of the hits, rounded down: it names a node with one hit in three.\<close>

lemma majority_of_one_third:
  "fst (majority_Hit 9 1 \<lparr>mj_hits = [(3, 1), (2, 1)], mj_interval = 0, mj_time = 0, mj_sum = 2\<rparr>) = 1"
  by (simp add: majority_Hit_def majority_reset_def Second_def signed_divide_int_def)

section \<open>The rate limiter\<close>

fun waits :: "goint list \<Rightarrow> Limiter \<Rightarrow> Limiter list" where
  "waits [] l = []"
| "waits (t # ts) l = (let l1 = snd (Wait t l) in l1 # waits ts l1)"

definition released :: "Limiter \<Rightarrow> goint" where
  "released l = the (lm_last l)"

definition limiter_ok :: "Limiter \<Rightarrow> bool" where
  [wf_defs]: "limiter_ok l \<longleftrightarrow> lm_last l \<noteq> None \<and> lm_sleep l \<le> 0 \<and> lm_slack l \<le> lm_sleep l \<and> lm_slack l \<le> 0"

lemma Wait_first: "lm_last l = None \<Longrightarrow> limiter_ok (snd (Wait t l)) \<longleftrightarrow> lm_sleep l \<le> 0 \<and> lm_slack l \<le> lm_sleep l \<and> lm_slack l \<le> 0"
  by (auto simp: Wait_def limiter_ok_def)

lemma Wait_step:
  assumes "limiter_ok l"
  shows "limiter_ok (snd (Wait t l)) \<and> released l + lm_sleep l + lm_interval l \<le> released (snd (Wait t l)) + lm_sleep (snd (Wait t l))
    \<and> lm_interval (snd (Wait t l)) = lm_interval l \<and> lm_slack (snd (Wait t l)) = lm_slack l
    \<and> released (snd (Wait t l)) = t + fst (Wait t l)"
  using assms by (auto simp: Wait_def limiter_ok_def released_def Let_def)

lemma waits_length [simp]: "length (waits ts l) = length ts"
  by (induction ts arbitrary: l) (auto simp: Let_def)

lemma waits_spaced:
  assumes "limiter_ok l" "k < length ts"
  shows "limiter_ok (waits ts l ! k) \<and> lm_slack (waits ts l ! k) = lm_slack l \<and> lm_interval (waits ts l ! k) = lm_interval l \<and>
    released l + lm_sleep l + int (k + 1) * lm_interval l \<le> released (waits ts l ! k) + lm_sleep (waits ts l ! k)"
  using assms
proof (induction ts arbitrary: l k)
  case (Cons t ts)
  note step = Wait_step [OF Cons.prems(1), of t]
  show ?case
  proof (cases k)
    case (Suc j)
    then show ?thesis
      using Cons.IH [of "snd (Wait t l)" j] step Cons.prems(2) by (simp add: Let_def algebra_simps)
  qed (use step in \<open>simp add: Let_def\<close>)
qed simp

lemma waits_drop: "j < length ts \<Longrightarrow> waits (drop (Suc j) ts) (waits ts l ! j) = drop (Suc j) (waits ts l)"
  by (induction ts arbitrary: l j) (auto simp: Let_def nth_Cons split: nat.split)

text \<open>The times at which the calls return: each sleeps before it does.\<close>

fun return_times :: "goint list \<Rightarrow> Limiter \<Rightarrow> goint list" where
  "return_times [] l = []"
| "return_times (t # ts) l = (let (s, l1) = Wait t l in (t + s) # return_times ts l1)"

lemma return_times_eq: "return_times ts l = map released (waits ts l)"
proof (induction ts arbitrary: l)
  case (Cons t ts)
  have "released (snd (Wait t l)) = t + fst (Wait t l)"
    by (auto simp: Wait_def released_def Let_def split: option.split)
  then show ?case
    using Cons.IH by (simp add: Let_def split_beta)
qed simp

text \<open>A call that comes in time does not sleep.\<close>

lemma Wait_in_time:
  assumes "limiter_ok l" "released l + lm_interval l \<le> t"
  shows "fst (Wait t l) = 0 \<and> limiter_ok (snd (Wait t l)) \<and> released (snd (Wait t l)) = t \<and> lm_interval (snd (Wait t l)) = lm_interval l"
  using assms by (auto simp: Wait_def limiter_ok_def released_def Let_def)

lemma in_time:
  assumes "limiter_ok l" "released l + lm_interval l \<le> hd ts \<or> ts = []" "\<And>i. Suc i < length ts \<Longrightarrow> ts ! i + lm_interval l \<le> ts ! Suc i"
  shows "return_times ts l = ts"
  using assms
proof (induction ts arbitrary: l)
  case (Cons t ts)
  note t = Wait_in_time [OF Cons.prems(1), of t]
  have "t + lm_interval l \<le> hd ts \<or> ts = []"
    using Cons.prems(3) [of 0] by (cases ts) auto
  moreover have "ts ! i + lm_interval l \<le> ts ! Suc i" if "Suc i < length ts" for i
    using Cons.prems(3) [of "Suc i"] that by simp
  ultimately show ?case
    using Cons.IH [of "snd (Wait t l)"] Cons.prems(2) t by (simp add: split_beta)
qed simp

lemma NewLimiter_fields:
  assumes "NewLimiter rate = Inr l" "0 < rate"
  shows "lm_last l = None" "lm_sleep l = 0" "lm_interval l = Second sdiv rate" "lm_slack l = (- 10 * Second) sdiv rate"
    "lm_slack l \<le> 0"
  using assms by (auto simp: NewLimiter_def Second_def signed_divide_int_def pos_imp_zdiv_nonneg_iff)

text \<open>The first call starts the limiter.\<close>

lemma first_Wait:
  assumes "NewLimiter rate = Inr l" "0 < rate"
  obtains l1 where "Wait t l = (0, l1)" "limiter_ok l1" "released l1 = t" "lm_sleep l1 = 0" "lm_interval l1 = Second sdiv rate"
    "lm_slack l1 = (- 10 * Second) sdiv rate"
  using NewLimiter_fields [OF assms] by (auto simp: Wait_def limiter_ok_def released_def)

lemma waits_of_new:
  assumes "NewLimiter rate = Inr l" "0 < rate" "i < length ts"
  shows "limiter_ok (waits ts l ! i)" "lm_slack (waits ts l ! i) = (- 10 * Second) sdiv rate"
    "lm_interval (waits ts l ! i) = Second sdiv rate"
    "released (waits ts l ! 0) + int i * (Second sdiv rate) \<le> released (waits ts l ! i) + lm_sleep (waits ts l ! i)"
proof -
  obtain t ts' where ts: "ts = t # ts'"
    using assms(3) by (cases ts) auto
  obtain l1 where l1: "Wait t l = (0, l1)" "limiter_ok l1" "lm_sleep l1 = 0" "lm_interval l1 = Second sdiv rate"
    "lm_slack l1 = (- 10 * Second) sdiv rate"
    using first_Wait [OF assms(1,2)] by metis
  have w: "waits ts l = l1 # waits ts' l1"
    by (simp add: ts l1(1))
  show "limiter_ok (waits ts l ! i)" "lm_slack (waits ts l ! i) = (- 10 * Second) sdiv rate"
    "lm_interval (waits ts l ! i) = Second sdiv rate"
    "released (waits ts l ! 0) + int i * (Second sdiv rate) \<le> released (waits ts l ! i) + lm_sleep (waits ts l ! i)"
    using l1 waits_spaced [OF l1(2), of "i - 1" ts'] assms(3) ts unfolding w by (cases i; simp)+
qed

lemma waits_apart:
  assumes "NewLimiter rate = Inr l" "0 < rate" "j < k" "k < length ts"
  shows "released (waits ts l ! j) + int (k - j) * (Second sdiv rate) + (- 10 * Second) sdiv rate \<le> released (waits ts l ! k)"
proof -
  let ?l = "waits ts l ! j"
  have j: "j < length ts" "k - Suc j < length (drop (Suc j) ts)"
    using assms(3,4) by simp_all
  note l = waits_of_new [OF assms(1,2) j(1)]
  have "waits (drop (Suc j) ts) ?l ! (k - Suc j) = waits ts l ! k"
    using assms(3,4) by (simp add: waits_drop)
  then have "released ?l + lm_sleep ?l + int (k - j) * (Second sdiv rate) \<le> released (waits ts l ! k) + lm_sleep (waits ts l ! k)"
    using waits_spaced [OF l(1) j(2)] l(3) assms(3) by (simp add: Suc_diff_Suc)
  moreover have "lm_slack ?l \<le> lm_sleep ?l" "lm_sleep (waits ts l ! k) \<le> 0"
    using l(1) waits_of_new(1) [OF assms(1,2,4)] by (auto simp: limiter_ok_def)
  ultimately show ?thesis
    using l(2) by simp
qed

text \<open>C40: the limiter spaces the operations: whenever \<open>Wait\<close> is called, the call numbered \<open>k\<close> returns no earlier than
  \<open>k\<close> intervals after the first returns, and between the returns of any two calls there are as many intervals as
  calls, less a slack of ten; and calls that are an interval apart return at once.\<close>

theorem limiter_bounds_the_rate:
  assumes "NewLimiter rate = Inr l" "0 < rate" "j < k" "k < length ts"
  shows "return_times ts l ! 0 + int k * (Second sdiv rate) \<le> return_times ts l ! k
    \<and> return_times ts l ! j + int (k - j) * (Second sdiv rate) + (- 10 * Second) sdiv rate \<le> return_times ts l ! k
    \<and> ((\<forall>i. Suc i < length ts \<longrightarrow> ts ! i + Second sdiv rate \<le> ts ! Suc i) \<longrightarrow> return_times ts l = ts)"
proof (intro conjI impI)
  have nth: "return_times ts l ! i = released (waits ts l ! i)" if "i < length ts" for i
    using that by (simp add: return_times_eq)
  have "lm_sleep (waits ts l ! k) \<le> 0"
    using waits_of_new(1) [OF assms(1,2,4)] by (simp add: limiter_ok_def)
  then show "return_times ts l ! 0 + int k * (Second sdiv rate) \<le> return_times ts l ! k"
    using waits_of_new(4) [OF assms(1,2,4)] nth [of 0] nth [OF assms(4)] assms(3,4) by linarith
  show "return_times ts l ! j + int (k - j) * (Second sdiv rate) + (- 10 * Second) sdiv rate \<le> return_times ts l ! k"
    using waits_apart [OF assms] nth [of j] nth [OF assms(4)] assms(3,4) by simp
  assume apart: "\<forall>i. Suc i < length ts \<longrightarrow> ts ! i + Second sdiv rate \<le> ts ! Suc i"
  obtain t ts' where ts: "ts = t # ts'"
    using assms(4) by (cases ts) auto
  obtain l1 where l1: "Wait t l = (0, l1)" "limiter_ok l1" "released l1 = t" "lm_interval l1 = Second sdiv rate"
    using first_Wait [OF assms(1,2)] by metis
  have "released l1 + lm_interval l1 \<le> hd ts' \<or> ts' = []"
    using apart [rule_format, of 0] l1(3,4) ts by (cases ts') auto
  then have "return_times ts' l1 = ts'"
    using apart [rule_format, of "Suc _"] l1(2,4) ts by (intro in_time) auto
  then show "return_times ts l = ts"
    by (simp add: ts l1(1))
qed

lemma limiter_bounds_the_rate_witness:
  "\<exists>l. NewLimiter 4 = Inr l \<and> return_times [0, 1, 2] l ! 2 \<ge> 2 * 250000000"
proof -
  obtain l where l: "NewLimiter 4 = Inr l" by (simp add: NewLimiter_def)
  have "return_times [0, 1, 2] l ! 0 = 0"
    using l by (auto simp: NewLimiter_def Wait_def Let_def)
  then show ?thesis
    using limiter_bounds_the_rate [OF l, of 0 2 "[0, 1, 2]"] l by (simp add: Second_def signed_divide_int_def)
qed

section \<open>Keys\<close>

lemma key_up_range: "0 < K \<Longrightarrow> \<exists>k. key_up K key = Inr k \<and> 0 \<le> k \<and> (key < 0 \<longrightarrow> k < K) \<and> (0 \<le> key \<longrightarrow> k = key) \<and> k mod K = key mod K"
  by (induction K key rule: key_up.induct) (subst key_up.simps, auto)

lemma key_down_range: "0 < K \<Longrightarrow> 0 \<le> key \<Longrightarrow> \<exists>k. key_down K key = Inr k \<and> 0 \<le> k \<and> k \<le> K \<and> k mod K = key mod K"
  by (induction K key rule: key_down.induct) (subst key_down.simps, auto)

text \<open>The keys of the benchmark: with a positive number of keys and a counter in range, and no throttle, the choice of a
  key returns; the keys in order and the uniform ones lie in the configured range, but the key made of a
  normally distributed number counts from 0 whatever the minimum is, and the number \<open>K\<close> stays as it is.\<close>

theorem keys_in_range:
  assumes "0 < b_K b" "0 \<le> b_counter b" "b_counter b < b_K b" "b_Throttle b \<le> 0"
  shows "(\<exists>k. next_key Order r now b = Inr (k, 0, b\<lparr>b_counter := k - b_Min b\<rparr>) \<and> b_Min b \<le> k \<and> k < b_Min b + b_K b \<and>
            (k - b_Min b = b_counter b + 1 \<or> (k = b_Min b \<and> b_counter b = b_K b - 1)))
    \<and> (\<exists>k. next_key Uniform r now b = Inr (k, 0, b) \<and> b_Min b \<le> k \<and> k < b_Min b + b_K b)
    \<and> (\<exists>k. next_key (Normal drawn) r now b = Inr (k, 0, b) \<and> 0 \<le> k \<and> k \<le> b_K b \<and> k mod b_K b = drawn mod b_K b)
    \<and> next_key (Normal (b_K b)) r now b = Inr (b_K b, 0, b)"
proof (intro conjI)
  have "(b_counter b + 1) smod b_K b = (if b_counter b + 1 = b_K b then 0 else b_counter b + 1)"
    using assms by (simp add: signed_modulo_int_def signed_divide_int_def)
  then show "\<exists>k. next_key Order r now b = Inr (k, 0, b\<lparr>b_counter := k - b_Min b\<rparr>) \<and> b_Min b \<le> k \<and> k < b_Min b + b_K b \<and>
      (k - b_Min b = b_counter b + 1 \<or> (k = b_Min b \<and> b_counter b = b_K b - 1))"
    using assms by (auto simp: next_key_def draw_key_def next_counter_def Let_def)
  show "\<exists>k. next_key Uniform r now b = Inr (k, 0, b) \<and> b_Min b \<le> k \<and> k < b_Min b + b_K b"
    using assms(1,4) by (auto simp: next_key_def draw_key_def Intn_def)
  obtain k1 where "key_up (b_K b) drawn = Inr k1" "0 \<le> k1" "k1 mod b_K b = drawn mod b_K b"
    using key_up_range [OF assms(1)] by blast
  then show "\<exists>k. next_key (Normal drawn) r now b = Inr (k, 0, b) \<and> 0 \<le> k \<and> k \<le> b_K b \<and> k mod b_K b = drawn mod b_K b"
    using key_down_range [OF assms(1), of k1] assms(4) by (auto simp: next_key_def draw_key_def wrap_key_def)
  show "next_key (Normal (b_K b)) r now b = Inr (b_K b, 0, b)"
    using assms(1,4) by (simp add: next_key_def draw_key_def wrap_key_def key_up.simps key_down.simps)
qed

lemma keys_in_range_witness:
  "next_key (Normal 5) 0 0 \<lparr>b_K = 5, b_Min = 100, b_Conflicts = 0, b_Throttle = 0, b_counter = 4, b_rate = None\<rparr> =
     Inr (5, 0, \<lparr>b_K = 5, b_Min = 100, b_Conflicts = 0, b_Throttle = 0, b_counter = 4, b_rate = None\<rparr>)"
  using keys_in_range [of "\<lparr>b_K = 5, b_Min = 100, b_Conflicts = 0, b_Throttle = 0, b_counter = 4, b_rate = None\<rparr>" 0 0 0] by simp

section \<open>What a benchmark accounts for\<close>

text \<open>The operations of a key, in the order of the shard.\<close>

definition ops_of :: "goint \<Rightarrow> op_history \<Rightarrow> operation list" where
  "ops_of k h = (case map_of (shard h) k of None \<Rightarrow> [] | Some ps \<Rightarrow> map (\<lambda>p. h_heap h ! p) ps)"

definition shards_in :: "op_history \<Rightarrow> bool" where
  [wf_defs]: "shards_in h \<longleftrightarrow> (\<forall>k ps. map_of (shard h) k = Some ps \<longrightarrow> (\<forall>p \<in> set ps. p < length (h_heap h)))"

definition with_operation :: "goint \<Rightarrow> operation \<Rightarrow> op_history \<Rightarrow> op_history" where
  "with_operation k x h = (let (p, h1) = allocate x h in AddOperation k p h1)"

lemma with_operation_heap [simp]: "h_heap (with_operation k x h) = h_heap h @ [x]"
  by (simp add: with_operation_def allocate_def AddOperation_def Let_def)

lemma with_operation_shard:
  "map_of (shard (with_operation k x h)) =
     (map_of (shard h))(k \<mapsto> (case map_of (shard h) k of None \<Rightarrow> [] | Some ps \<Rightarrow> ps) @ [length (h_heap h)])"
  by (auto simp: with_operation_def allocate_def AddOperation_def Let_def update_conv fun_eq_iff split: option.splits)

lemma with_operation_shards_in: "shards_in h \<Longrightarrow> shards_in (with_operation k x h)"
  unfolding shards_in_def with_operation_shard with_operation_heap
  by (auto split: if_splits option.splits simp: less_Suc_eq dest: sym)

lemma with_operation_ops: "shards_in h \<Longrightarrow> ops_of j (with_operation k x h) = ops_of j h @ (if j = k then [x] else [])"
  by (auto simp: ops_of_def with_operation_shard shards_in_def nth_append split: option.splits)

lemma ops_of_in_heap: "shards_in h \<Longrightarrow> x \<in> set (ops_of k h) \<Longrightarrow> x \<in> set (h_heap h)"
  unfolding ops_of_def shards_in_def by (auto split: option.splits) (metis nth_mem)

text \<open>The outcomes of the operations that have ended.\<close>

fun ended :: "work list \<Rightarrow> outcome list" where
  "ended [] = []"
| "ended (Finish i oc # ws) = oc # ended ws"
| "ended (w # ws) = ended ws"

lemma ended_append [simp]: "ended (xs @ ys) = ended xs @ ended ys"
  by (induction xs rule: ended.induct) simp_all

definition bench_ok :: "nat \<Rightarrow> outcome list \<Rightarrow> Benchmark \<Rightarrow> bool" where
  [wf_defs]: "bench_ok conc os b \<longleftrightarrow>
     length (bm_unrecorded b) \<le> conc \<and> length (bm_keys b) + length (bm_unrecorded b) \<le> 2 * conc \<and>
     bm_wait b = int (length (bm_keys b)) + int (length (bm_results b)) + int (length (filter oc_failed os)) \<and>
     bm_latency b @ bm_results b = map latency_of (filter (\<lambda>oc. \<not> oc_failed oc) os) \<and>
     mset (h_heap (bm_history b)) + mset (map snd (bm_unrecorded b)) = mset (map written_down os) \<and>
     shards_in (bm_history b)"

text \<open>How many operations of a key have been issued.\<close>

definition issued :: "goint \<Rightarrow> Benchmark \<Rightarrow> nat" where
  "issued k b = length (ops_of k (bm_history b)) + length (filter (\<lambda>x. fst x = k) (bm_unrecorded b)) + length (filter ((=) k) (bm_keys b))"

lemma bench_ok_new: "bench_ok conc [] (new_bench\<lparr>bm_latency := []\<rparr>)" "bench_ok conc [] new_bench" "issued k new_bench = 0"
  by (simp_all add: bench_ok_def new_bench_def NewHistory_def shards_in_def issued_def ops_of_def)

lemma bench_ok_submit:
  "bench_ok conc os b \<Longrightarrow> submit conc j b = Inr b1 \<Longrightarrow> bench_ok conc os b1 \<and> issued k b1 = issued k b + (if k = j then 1 else 0)"
  by (auto simp: submit_def bench_ok_def issued_def split: if_splits)

lemma mset_without: "i < length xs \<Longrightarrow> mset xs = add_mset (xs ! i) (mset (take i xs) + mset (drop (Suc i) xs))"
  by (subst id_take_nth_drop [of i xs]) simp_all

lemma length_filter_without:
  "i < length xs \<Longrightarrow> length (filter P xs) = length (filter P (take i xs @ drop (Suc i) xs)) + (if P (xs ! i) then 1 else 0)"
  by (subst id_take_nth_drop [of i xs]) simp_all

lemma work_step_cases:
  assumes "work_step conc w b = Inr b1"
  obtains (Finish) i oc where "w = Finish i oc" "i < length (bm_keys b)" "i + length (bm_unrecorded b) < conc"
      "b1 = b\<lparr>bm_keys := take i (bm_keys b) @ drop (Suc i) (bm_keys b),
              bm_results := (if oc_failed oc then bm_results b else bm_results b @ [latency_of oc]),
              bm_unrecorded := bm_unrecorded b @ [(bm_keys b ! i, written_down oc)]\<rparr>"
  | (Collect) t ts where "w = Collect" "bm_results b = t # ts" "0 < bm_wait b"
      "b1 = b\<lparr>bm_results := ts, bm_latency := bm_latency b @ [t], bm_wait := bm_wait b - 1\<rparr>"
  | (Record) j k x where "w = Record j" "j < length (bm_unrecorded b)" "bm_unrecorded b ! j = (k, x)"
      "b1 = b\<lparr>bm_history := with_operation k x (bm_history b),
              bm_unrecorded := take j (bm_unrecorded b) @ drop (Suc j) (bm_unrecorded b)\<rparr>"
  using assms
  by (cases w) (auto simp: worker_ends_def collect_def worker_records_def with_operation_def split: if_splits list.splits prod.splits)

lemma bench_ok_work:
  assumes "bench_ok conc os b" "work_step conc w b = Inr b1"
  shows "bench_ok conc (os @ ended [w]) b1" "issued k b1 = issued k b"
proof -
  have "bench_ok conc (os @ ended [w]) b1 \<and> issued k b1 = issued k b"
    using assms(2)
  proof (cases rule: work_step_cases)
    case (Finish i oc)
    then show ?thesis
      using assms(1) length_filter_without [OF Finish(2), of "(=) k"] by (auto simp: bench_ok_def issued_def)
  next
    case (Collect t ts)
    then show ?thesis
      using assms(1) by (auto simp: bench_ok_def issued_def)
  next
    case (Record j l x)
    then show ?thesis
      using assms(1) mset_without [OF Record(2)] length_filter_without [OF Record(2), of "\<lambda>x. fst x = k"]
      by (auto simp: bench_ok_def issued_def with_operation_ops with_operation_shards_in)
  qed
  then show "bench_ok conc (os @ ended [w]) b1" "issued k b1 = issued k b" by blast+
qed

section \<open>Loading\<close>

fun works_of :: "work option list \<Rightarrow> work list" where
  "works_of [] = []"
| "works_of (None # sched) = works_of sched"
| "works_of (Some w # sched) = writing w # works_of sched"

lemma works_of_append [simp]: "works_of (xs @ ys) = works_of xs @ works_of ys"
  by (induction xs rule: works_of.induct) simp_all

lemma ended_writing: "oc \<in> set (ended (works_of sched)) \<Longrightarrow> oc_write oc"
proof (induction sched rule: works_of.induct)
  case (3 w sched)
  then show ?case by (cases w) auto
qed simp_all

text \<open>How many events may still come: a key is sent, its operation ends, and is collected and added.\<close>

definition to_come :: "goint list \<times> Benchmark \<Rightarrow> nat" where
  "to_come s = 4 * length (fst s) + 3 * length (bm_keys (snd s)) + length (bm_results (snd s)) + length (bm_unrecorded (snd s))"

definition load_ok :: "goint list \<Rightarrow> nat \<Rightarrow> work option list \<Rightarrow> goint list \<times> Benchmark \<Rightarrow> bool" where
  [wf_defs]: "load_ok keys conc sched s \<longleftrightarrow>
     bench_ok conc (ended (works_of sched)) (snd s) \<and>
     (\<forall>k. issued k (snd s) + length (filter ((=) k) (fst s)) = length (filter ((=) k) keys)) \<and>
     length (fst s) + length (bm_keys (snd s)) + length (ended (works_of sched)) = length keys \<and>
     length sched + to_come s \<le> 4 * length keys"

lemma work_step_ends:
  assumes "work_step conc w b = Inr b1"
  shows "length (bm_keys b1) + length (ended [w]) = length (bm_keys b)" "to_come (ks, b1) < to_come (ks, b)"
  using assms by (cases rule: work_step_cases; simp add: to_come_def; linarith)+

lemma load_ok_step:
  assumes "load_ok keys conc sched s" "load_step conc e s = Inr t"
  shows "load_ok keys conc (sched @ [e]) t"
proof -
  obtain ks b where s: "s = (ks, b)" by (cases s)
  show ?thesis
  proof (cases e)
    case None
    then obtain k ks1 b1 where k: "ks = k # ks1" "submit conc k b = Inr b1" "t = (ks1, b1)"
      using assms(2) s by (cases ks) auto
    have ok: "bench_ok conc (ended (works_of sched)) b1" and i: "issued j b1 = issued j b + (if j = k then 1 else 0)" for j
      using bench_ok_submit [OF _ k(2)] assms(1) s by (auto simp: load_ok_def)
    moreover have "bm_keys b1 = bm_keys b @ [k]" "bm_results b1 = bm_results b" "bm_unrecorded b1 = bm_unrecorded b"
      using k(2) by (auto simp: submit_def split: if_splits)
    moreover have "issued j b1 + length (filter ((=) j) ks1) = length (filter ((=) j) keys)" for j
    proof -
      have "issued j b + length (filter ((=) j) ks) = length (filter ((=) j) keys)"
        using assms(1) s by (simp add: load_ok_def)
      then show ?thesis
        using i [of j] k(1) by (simp split: if_splits)
    qed
    ultimately show ?thesis
      using assms(1) s k(1,3) None by (simp add: load_ok_def to_come_def)
  next
    case (Some w)
    then obtain b1 where b1: "work_step conc (writing w) b = Inr b1" "t = (ks, b1)"
      using assms(2) s by auto
    then show ?thesis
      using assms(1) s Some bench_ok_work [OF _ b1(1)] work_step_ends(1) [OF b1(1)] work_step_ends(2) [OF b1(1), of ks] by (auto simp: load_ok_def)
  qed
qed

lemma load_ok_fold: "load_ok keys conc sched s \<Longrightarrow> go_fold (load_step conc) es s = Inr t \<Longrightarrow> load_ok keys conc (sched @ es) t"
proof (induction es arbitrary: sched s)
  case (Cons e es)
  then obtain u where "load_step conc e s = Inr u" "go_fold (load_step conc) es u = Inr t"
    by auto
  then show ?case
    using Cons.IH [of "sched @ [e]" u] load_ok_step [OF Cons.prems(1)] by simp
qed simp

lemma load_ok_reached:
  assumes "go_fold (load_step conc) sched (load_keys c, new_bench) = Inr t"
  shows "load_ok (load_keys c) conc sched t"
  using load_ok_fold [OF _ assms, of "load_keys c" "[]"] bench_ok_new by (simp add: load_ok_def to_come_def new_bench_def)

text \<open>As long as a key waits, or an operation is under way, an event is possible.\<close>

lemma stuck_is_done:
  assumes "0 < conc" "bench_ok conc os b" "\<And>e. load_step conc e (ks, b) = Inl Hang"
  shows "ks = []" "bm_keys b = []" "bm_results b = []" "bm_unrecorded b = []"
proof -
  show u: "bm_unrecorded b = []"
    using assms(3) [of "Some (Record 0)"] by (cases "bm_unrecorded b") (auto simp: worker_records_def split: prod.splits)
  show r: "bm_results b = []"
    using assms(2) assms(3) [of "Some Collect"] by (auto simp: collect_def bench_ok_def split: list.splits)
  let ?oc = "\<lparr>oc_write = True, oc_value = None, oc_start = 0, oc_end = 0, oc_failed = True\<rparr>"
  show k: "bm_keys b = []"
    using assms(1) u assms(3) [of "Some (Finish 0 ?oc)"] by (cases "bm_keys b") (auto simp: worker_ends_def)
  show "ks = []"
    using assms(1) u k assms(3) [of None] by (cases ks) (auto simp: submit_def)
qed

lemma count_one: "length (xs @ map snd ys) = Suc 0 \<Longrightarrow> \<exists>x. xs @ map snd ys = [x]"
  by (cases "xs @ map snd ys") auto

lemma load_keys_once:
  assumes "k \<in> set (load_keys c)"
  shows "length (filter ((=) k) (load_keys c)) = 1"
proof -
  have "distinct (load_keys c)" by (simp add: load_keys_def)
  then have "card {x \<in> set (load_keys c). k = x} = length (filter ((=) k) (load_keys c))"
    by (metis distinct_card distinct_filter set_filter)
  moreover have "{x \<in> set (load_keys c). k = x} = {k}"
    using assms by auto
  ultimately show ?thesis by simp
qed

lemma Statistic_eq:
  assumes "latency \<noteq> []"
  shows "\<exists>s. Statistic latency = Inr s \<and> st_Data s = sort latency \<and> st_Size s = length latency
    \<and> st_Min s \<le> st_Median s \<and> st_Median s \<le> st_Max s"
proof -
  have "sort latency \<noteq> []" using assms by (metis length_0_conv length_sort)
  then show ?thesis
    using assms by (auto simp: Statistic_def Let_def intro!: sorted_nth_mono)
qed

lemma Load_eq:
  assumes "go_fold (load_step conc) sched (load_keys c, b0) = Inr (ks, b)"
  shows "Load c conc sched b0 = (if ks = [] then finish b else Inl Hang)"
  using assms by (simp add: Load_def)

lemma load_writes:
  assumes "load_ok keys conc sched (ks, b)" "x \<in> set (h_heap (bm_history b)) \<union> snd ` set (bm_unrecorded b)"
  shows "op_output x = None"
proof -
  have "x \<in># mset (map written_down (ended (works_of sched)))"
    using assms unfolding load_ok_def bench_ok_def
    by (metis (no_types, lifting) Un_iff list.set_map set_mset_mset set_mset_union snd_conv)
  then show ?thesis by (auto simp: written_down_def dest: ended_writing)
qed

text \<open>What \<open>Load\<close> has done when nothing can happen any more, and when it returns.\<close>

lemma load_stuck:
  assumes "0 < b_K c" "0 < conc" "go_fold (load_step conc) sched (load_keys c, new_bench) = Inr (ks, b)"
    and "\<forall>e. load_step conc e (ks, b) = Inl Hang"
  shows "length (ended (works_of sched)) = nat (b_K c)"
    "mset (h_heap (bm_history b)) = mset (map written_down (ended (works_of sched)))"
    "(\<exists>r. Load c conc sched new_bench = Inr r) \<longleftrightarrow> (\<forall>oc \<in> set (ended (works_of sched)). \<not> oc_failed oc)"
proof -
  let ?os = "ended (works_of sched)"
  have ok: "load_ok (load_keys c) conc sched (ks, b)"
    using load_ok_reached [OF assms(3)] .
  then have e: "ks = []" "bm_keys b = []" "bm_results b = []" "bm_unrecorded b = []"
    using stuck_is_done [OF assms(2), of ?os b ks] assms(4) by (auto simp: load_ok_def)
  show l: "length ?os = nat (b_K c)"
    using ok e by (simp add: load_ok_def load_keys_def)
  show "mset (h_heap (bm_history b)) = mset (map written_down ?os)"
    using ok e by (simp add: load_ok_def bench_ok_def)
  have w: "bm_wait b = int (length (filter oc_failed ?os))"
    and lat: "bm_latency b = map latency_of (filter (\<lambda>oc. \<not> oc_failed oc) ?os)"
    using ok e by (simp_all add: load_ok_def bench_ok_def)
  have "?os \<noteq> []" using l assms(1) by auto
  then have "\<forall>oc \<in> set ?os. \<not> oc_failed oc \<Longrightarrow> \<exists>r. finish b = Inr r"
    using w lat Statistic_eq [of "bm_latency b"] by (auto simp: finish_def wait_all_def filter_id_conv)
  moreover have "finish b = Inr r \<Longrightarrow> \<forall>oc \<in> set ?os. \<not> oc_failed oc" for r
    using w by (auto simp: finish_def wait_all_def filter_empty_conv split: if_splits)
  ultimately show "(\<exists>r. Load c conc sched new_bench = Inr r) \<longleftrightarrow> (\<forall>oc \<in> set ?os. \<not> oc_failed oc)"
    unfolding Load_eq [OF assms(3)] using e(1) by auto
qed

lemma load_returns:
  assumes "0 < b_K c" "go_fold (load_step conc) sched (load_keys c, new_bench) = Inr (ks, b)"
    and "Load c conc sched new_bench = Inr (s, b1)"
  shows "b1 = b" "\<forall>oc \<in> set (ended (works_of sched)). \<not> oc_failed oc" "length (ended (works_of sched)) = nat (b_K c)"
    "st_Data s = sort (map latency_of (ended (works_of sched)))" "st_Min s \<le> st_Median s" "st_Median s \<le> st_Max s"
    "length (bm_unrecorded b) \<le> conc"
    "\<forall>k \<in> set (load_keys c). \<exists>x. ops_of k (bm_history b) @ map snd (filter (\<lambda>y. fst y = k) (bm_unrecorded b)) = [x] \<and> op_output x = None"
proof -
  let ?os = "ended (works_of sched)"
  have ok: "load_ok (load_keys c) conc sched (ks, b)"
    using load_ok_reached [OF assms(2)] .
  have b: "ks = []" "bm_wait b = 0" "b1 = b" "Statistic (bm_latency b) = Inr s"
    using assms(3) unfolding Load_eq [OF assms(2)] by (auto simp: finish_def wait_all_def split: if_splits)
  show "b1 = b" by (rule b(3))
  have none: "bm_keys b = []" "bm_results b = []" "filter oc_failed ?os = []"
    using ok b(2) by (auto simp: load_ok_def bench_ok_def simp flip: length_0_conv)
  then show f: "\<forall>oc \<in> set ?os. \<not> oc_failed oc"
    by (simp add: filter_empty_conv)
  show len: "length ?os = nat (b_K c)"
    using ok b(1) none by (simp add: load_ok_def load_keys_def)
  have lat: "bm_latency b = map latency_of ?os"
    using ok none f by (simp add: load_ok_def bench_ok_def filter_id_conv)
  moreover have "?os \<noteq> []"
    using len assms(1) by auto
  ultimately show "st_Data s = sort (map latency_of ?os)" "st_Min s \<le> st_Median s" "st_Median s \<le> st_Max s"
    using Statistic_eq [of "bm_latency b"] b(4) by auto
  show "length (bm_unrecorded b) \<le> conc"
    using ok by (simp add: load_ok_def bench_ok_def)
  show "\<forall>k \<in> set (load_keys c). \<exists>x. ops_of k (bm_history b) @ map snd (filter (\<lambda>y. fst y = k) (bm_unrecorded b)) = [x] \<and> op_output x = None"
  proof
    fix k assume "k \<in> set (load_keys c)"
    then have "issued k b = 1"
      using ok b(1) load_keys_once [of k c] by (simp add: load_ok_def)
    then obtain x where x: "ops_of k (bm_history b) @ map snd (filter (\<lambda>y. fst y = k) (bm_unrecorded b)) = [x]"
      using none(1) count_one [of "ops_of k (bm_history b)"] by (auto simp: issued_def)
    then have "x \<in> set (ops_of k (bm_history b) @ map snd (filter (\<lambda>y. fst y = k) (bm_unrecorded b)))"
      by simp
    then have "op_output x = None"
      using load_writes [OF ok] ops_of_in_heap [of "bm_history b" x k] ok by (auto simp: load_ok_def bench_ok_def)
    with x show "\<exists>x. ops_of k (bm_history b) @ map snd (filter (\<lambda>y. fst y = k) (bm_unrecorded b)) = [x] \<and> op_output x = None"
      by blast
  qed
qed

text \<open>C39: \<open>Load\<close> on a new benchmark, whatever the order in which the workers end, the collector counts and the
  operations are added: there are at most four events for a key; when no event is possible any more every key has been
  written and added to the history, and \<open>Load\<close> returns exactly when no write has failed. When it
  returns, the statistics cover the latencies of all writes, and every key has one operation, a write, of which
  at most \<open>conc\<close> are not in the history yet.\<close>

theorem load_ends_unless_a_write_fails:
  assumes "0 < b_K c" "0 < conc" "go_fold (load_step conc) sched (load_keys c, new_bench) = Inr (ks, b)"
  shows "length sched \<le> 4 * nat (b_K c)
    \<and> ((\<forall>e. load_step conc e (ks, b) = Inl Hang) \<longrightarrow>
         length (ended (works_of sched)) = nat (b_K c)
       \<and> mset (h_heap (bm_history b)) = mset (map written_down (ended (works_of sched)))
       \<and> ((\<exists>r. Load c conc sched new_bench = Inr r) \<longleftrightarrow> (\<forall>oc \<in> set (ended (works_of sched)). \<not> oc_failed oc)))
    \<and> (\<forall>s b1. Load c conc sched new_bench = Inr (s, b1) \<longrightarrow>
         st_Data s = sort (map latency_of (ended (works_of sched))) \<and> length (ended (works_of sched)) = nat (b_K c)
       \<and> st_Min s \<le> st_Median s \<and> st_Median s \<le> st_Max s \<and> length (bm_unrecorded b1) \<le> conc
       \<and> (\<forall>k \<in> set (load_keys c). \<exists>x. ops_of k (bm_history b1) @ map snd (filter (\<lambda>y. fst y = k) (bm_unrecorded b1)) = [x]
            \<and> op_output x = None))"
proof (intro conjI impI allI)
  show "length sched \<le> 4 * nat (b_K c)"
    using load_ok_reached [OF assms(3)] by (simp add: load_ok_def load_keys_def)
next
  assume "\<forall>e. load_step conc e (ks, b) = Inl Hang"
  note st = load_stuck [OF assms this]
  show "length (ended (works_of sched)) = nat (b_K c)" by (rule st)
  show "mset (h_heap (bm_history b)) = mset (map written_down (ended (works_of sched)))" by (rule st)
  show "(\<exists>r. Load c conc sched new_bench = Inr r) \<longleftrightarrow> (\<forall>oc \<in> set (ended (works_of sched)). \<not> oc_failed oc)" by (rule st)
next
  fix s b1 assume "Load c conc sched new_bench = Inr (s, b1)"
  note r = load_returns [OF assms(1,3) this]
  show "st_Data s = sort (map latency_of (ended (works_of sched)))" "length (ended (works_of sched)) = nat (b_K c)"
    "st_Min s \<le> st_Median s" "st_Median s \<le> st_Max s"
    by (rule r)+
  show "length (bm_unrecorded b1) \<le> conc"
    "\<forall>k \<in> set (load_keys c). \<exists>x. ops_of k (bm_history b1) @ map snd (filter (\<lambda>y. fst y = k) (bm_unrecorded b1)) = [x]
       \<and> op_output x = None"
    unfolding r(1) by (rule r)+
qed

text \<open>\<open>Load\<close> can return before its last operation is in the history.\<close>

lemma load_misses_an_operation:
  "case Load \<lparr>b_K = 1, b_Min = 7, b_Conflicts = 0, b_Throttle = 0, b_counter = 0, b_rate = None\<rparr> 1
     [None, Some (Finish 0 \<lparr>oc_write = True, oc_value = Some [1], oc_start = 1, oc_end = 4, oc_failed = False\<rparr>), Some Collect] new_bench of
       Inr (s, b) \<Rightarrow> st_Size s = 1 \<and> h_heap (bm_history b) = [] | Inl x \<Rightarrow> False"
  by code_simp

lemma load_ends_unless_a_write_fails_witness:
  "(\<exists>r. Load \<lparr>b_K = 1, b_Min = 7, b_Conflicts = 0, b_Throttle = 0, b_counter = 0, b_rate = None\<rparr> 1
     [None, Some (Finish 0 \<lparr>oc_write = True, oc_value = Some [1], oc_start = 1, oc_end = 4, oc_failed = False\<rparr>), Some Collect,
      Some (Record 0)] new_bench = Inr r)"
proof -
  let ?c = "\<lparr>b_K = 1, b_Min = 7, b_Conflicts = 0, b_Throttle = 0, b_counter = 0, b_rate = None\<rparr>"
  let ?sched = "[None, Some (Finish 0 \<lparr>oc_write = True, oc_value = Some [1], oc_start = 1, oc_end = 4, oc_failed = False\<rparr>),
    Some Collect, Some (Record 0)]"
  let ?b = "\<lparr>bm_wait = 0, bm_history = \<lparr>shard = [(7, [0])], operations = [0],
      h_heap = [\<lparr>op_input = Some [1], op_output = None, op_start = 1, op_end = 4\<rparr>]\<rparr>,
    bm_latency = [3], bm_keys = [], bm_results = [], bm_unrecorded = []\<rparr>"
  have run: "go_fold (load_step 1) ?sched (load_keys ?c, new_bench) = Inr ([], ?b)"
    by code_simp
  have "load_step 1 e ([], ?b) = Inl Hang" for e
  proof (cases e)
    case (Some w)
    then show ?thesis
      by (cases w) (simp_all add: worker_ends_def collect_def worker_records_def)
  qed simp
  then show ?thesis
    using load_ends_unless_a_write_fails [OF _ _ run] by simp
qed

section \<open>The history as a store\<close>

text \<open>Every recorded operation is once in the list of all operations and once in one of the shards, whose keys are
  distinct.\<close>

definition history_typed :: "op_history \<Rightarrow> bool" where
  [wf_defs]: "history_typed H \<longleftrightarrow> distinct (map fst (shard H)) \<and> shards_ok H \<and> mset (operations H) = mset [0..<length (h_heap H)]"

text \<open>What a check may change: the ends of operations, and only downwards.\<close>

definition ends_shrink :: "store \<Rightarrow> store \<Rightarrow> bool" where
  [wf_defs]: "ends_shrink h h1 \<longleftrightarrow> length h1 = length h \<and>
     (\<forall>a < length h. op_input (h1 ! a) = op_input (h ! a) \<and> op_output (h1 ! a) = op_output (h ! a) \<and>
        op_start (h1 ! a) = op_start (h ! a) \<and> op_end (h1 ! a) \<le> op_end (h ! a))"

lemma ends_shrink_refl [simp]: "ends_shrink h h"
  by (simp add: ends_shrink_def)

lemma ends_shrink_trans: "ends_shrink h h1 \<Longrightarrow> ends_shrink h1 h2 \<Longrightarrow> ends_shrink h h2"
  unfolding ends_shrink_def by (auto intro: order_trans)

lemma checker_add_heap: "checker_add p c = Inr c1 \<Longrightarrow> heap c1 = heap c"
  by (auto simp: checker_add_def Let_def split: if_splits)

lemma look_ahead_heap: "look_ahead p js c = Inr c1 \<Longrightarrow> heap c1 = heap c"
  by (induction p js c rule: look_ahead.induct) (auto dest: checker_add_heap split: if_splits)

lemma nth_update: "a < length xs \<Longrightarrow> xs[w := v] ! a = (if w = a then v else xs ! a)"
  by (cases "w = a") simp_all

lemma checker_merge_heap: "checker_merge r w c = Inr c1 \<Longrightarrow> ends_shrink (heap c) (heap c1)"
  by (auto simp: checker_merge_def Let_def ends_shrink_def nth_update split: if_splits)

lemma cut_cycle_heap [simp]: "heap (cut_cycle vs c) = heap c"
  by (simp add: cut_cycle_def)

lemma check_all_heap: "check_all E ps c an = Inr (an1, c1) \<Longrightarrow> ends_shrink (heap c) (heap c1)"
proof (induction E ps c an rule: check_all.induct)
  case (2 E p rest c an)
  obtain c2 where c2: "checker_add p c = Inr c2" and h2: "heap c2 = heap c"
    using "2.prems" by (auto dest: checker_add_heap)
  show ?case
  proof (cases "op_input (heap c2 ! p) = None")
    case False
    then obtain y where "op_input (heap c ! p) = Some y" by (auto simp: h2)
    then show ?thesis using "2.prems" "2.IH"(3) [of c2] c2 h2 by simp
  next
    case True
    then obtain c3 c4 cyc where c3: "look_ahead p rest c2 = Inr c3" and
      c4: "(case checker_match E p c3 of None \<Rightarrow> Inr c3 | Some w \<Rightarrow> checker_merge p w c3) = Inr c4" and
      cyc: "Cycle (graph c4) = Inr cyc"
      using "2.prems" c2 by auto
    have "ends_shrink (heap c) (heap c4)"
      using c4 look_ahead_heap [OF c3] h2 checker_merge_heap [of p _ c3 c4] by (auto split: option.splits)
    moreover have "ends_shrink (heap c4) (heap c1)"
      using "2.prems" "2.IH"(1) [of c2 c4] "2.IH"(2) [where x = c2] c2 True c3 c4 cyc h2
      by (cases cyc) (fastforce simp del: ends_shrink_refl)+
    ultimately show ?thesis by (rule ends_shrink_trans)
  qed
qed simp

lemma linearizable_keeps:
  assumes "legal E" "linearizable E p (newChecker h) = Inr (an, p1, c)"
  shows "mset p1 = mset p \<and> ends_shrink h (heap c)"
  using assms by (auto simp: linearizable_def legal_def Let_def newChecker_def checker_clear_def dest: check_all_heap)

text \<open>A shard as the bag of its operations.\<close>

definition bags :: "op_history \<Rightarrow> (goint \<times> nat multiset) list" where
  "bags H = map (\<lambda>(k, ps). (k, mset ps)) (shard H)"

lemma bags_shards: "bags H1 = bags H \<Longrightarrow>
  map fst (shard H1) = map fst (shard H) \<and> mset (concat (map snd (shard H1))) = mset (concat (map snd (shard H)))"
proof -
  assume e: "bags H1 = bags H"
  have "map fst (bags H) = map fst (shard H)" "mset (concat (map snd (shard H))) = sum_list (map snd (bags H))" for H
    by (simp_all add: bags_def mset_concat o_def split_beta)
  then show ?thesis using e by metis
qed

lemma bags_replace:
  "distinct (map fst m) \<Longrightarrow> (k, v) \<in> set m \<Longrightarrow> mset v1 = mset v \<Longrightarrow>
     map (\<lambda>(k, ps). (k, mset ps)) (AList.update k v1 m) = map (\<lambda>(k, ps). (k, mset ps)) m"
  by (induction m) (force simp: image_iff)+

lemma check_shards_keep:
  assumes "legal E"
  shows "go_fold (check_shard E) ps (n, H) = Inr (n1, H1) \<Longrightarrow> distinct (map fst (shard H)) \<Longrightarrow> distinct (map fst ps) \<Longrightarrow>
    set ps \<subseteq> set (shard H) \<Longrightarrow>
    bags H1 = bags H \<and> operations H1 = operations H \<and> ends_shrink (h_heap H) (h_heap H1)"
proof (induction ps arbitrary: n H)
  case (Cons kp ps)
  obtain k p where kp: "kp = (k, p)" by (cases kp)
  obtain an p1 c where c: "linearizable E p (newChecker (h_heap H)) = Inr (an, p1, c)"
    using Cons.prems(1) by (auto simp: check_shard_def kp)
  let ?H = "H\<lparr>shard := AList.update k p1 (shard H), h_heap := heap c\<rparr>"
  note lin = linearizable_keeps [OF assms c]
  have new: "bags ?H = bags H"
    using bags_replace [of "shard H" k p p1] lin Cons.prems(2,4) kp by (simp add: bags_def)
  then have keys: "map fst (shard ?H) = map fst (shard H)"
    by (rule bags_shards [THEN conjunct1])
  have "set ps \<subseteq> set (shard ?H)"
  proof
    fix x assume x: "x \<in> set ps"
    then have "fst x \<noteq> k" "map_of (shard H) (fst x) = Some (snd x)"
      using Cons.prems(2,3,4) kp by (auto simp: image_iff)
    then have "map_of (shard ?H) (fst x) = Some (snd x)"
      by (simp add: update_conv')
    then show "x \<in> set (shard ?H)"
      by (metis map_of_SomeD prod.collapse)
  qed
  then show ?case
    using Cons.IH [of "n + length an" ?H] Cons.prems new keys lin c kp
    by (auto simp: check_shard_def intro: ends_shrink_trans)
qed simp

lemma Linearizable_keeps:
  assumes "legal E" "history_typed H" "Linearizable E H = Inr (n, H1)"
  shows "history_typed H1" "bags H1 = bags H" "ends_shrink (h_heap H) (h_heap H1)" "operations H1 = operations H"
proof -
  have k: "bags H1 = bags H \<and> operations H1 = operations H \<and> ends_shrink (h_heap H) (h_heap H1)"
    using assms(3) unfolding Linearizable_def
    by (rule check_shards_keep [OF assms(1)]) (use assms(2) in \<open>auto simp: history_typed_def\<close>)
  then show "bags H1 = bags H" "ends_shrink (h_heap H) (h_heap H1)" "operations H1 = operations H"
    by blast+
  show "history_typed H1"
    using k bags_shards [of H1 H] assms(2) by (auto simp: history_typed_def shards_ok_def ends_shrink_def)
qed

text \<open>An operation is added at the end of the store and of the shard of its key.\<close>

lemma with_operation_typed: "history_typed H \<Longrightarrow> history_typed (with_operation k x H)"
  by (auto simp: with_operation_def history_typed_def shards_ok_def allocate_def AddOperation_shards atLeast0_lessThan_Suc)
    (auto simp: AddOperation_def Let_def distinct_update)

lemma History_Add_eq: "History_Add k i u s e H = with_operation k \<lparr>op_input = i, op_output = u, op_start = s, op_end = e\<rparr> H"
  by (simp add: History_Add_def with_operation_def Let_def split_beta)

text \<open>What reading a file does: it adds operations, one after the other.\<close>

lemma read_records_adds:
  "P H \<Longrightarrow> (\<And>k x H. P H \<Longrightarrow> P (with_operation k x H)) \<Longrightarrow> P (snd (read_records rs H))"
proof (induction rs arbitrary: H)
  case (Cons r rs)
  show ?case
  proof (cases r)
    case (Some f)
    have "read_records (Some f # rs) H = (if length f < 5 then (ReadError, H)
      else case Atoi (f ! 0) of None \<Rightarrow> (ReadError, H)
        | Some k \<Rightarrow> (case Atoi (f ! 3) of None \<Rightarrow> (ReadFatal, H)
          | Some s \<Rightarrow> (case Atoi (f ! 4) of None \<Rightarrow> (ReadFatal, H)
            | Some e \<Rightarrow> read_records rs (with_operation k \<lparr>op_input = field_value (f ! 1), op_output = field_value (f ! 2),
                op_start = s, op_end = e\<rparr> H))))"
      by (simp add: with_operation_def Let_def split_beta split: option.split)
    then show ?thesis
      using Cons.IH [OF Cons.prems(2)] Cons.prems by (auto simp: Some split: option.split)
  qed (use Cons.prems in simp)
qed simp

lemma ReadFile_adds:
  "P H \<Longrightarrow> (\<And>k x H. P H \<Longrightarrow> P (with_operation k x H)) \<Longrightarrow> P (snd (ReadFile file H))"
  by (auto simp: ReadFile_def read_records_adds split: option.split)

text \<open>What a benchmark does to its history.\<close>

lemma work_step_adds:
  assumes "work_step conc w b = Inr b1"
  obtains "bm_history b1 = bm_history b" | k x where "bm_history b1 = with_operation k x (bm_history b)"
  using assms by (cases rule: work_step_cases) auto

end
