(* ===== verification/Transports.thy ===== *)
theory Transports
  imports Go_Prelude "HOL-Library.Sublist"
begin

text \<open>
  The transports of \<open>transport.go\<close>. A Go channel is the list of the messages it holds; a goroutine that moves
  messages is a step that takes one and a step that passes it on, and the message it holds in between is
  part of the state. The network, gob and the parsing of an address are arguments. \<open>Hang\<close> is the
  result of an operation on a channel that waits for another goroutine.
\<close>

section \<open>A transport\<close>

record 'm transport =
  tr_send :: "'m list"
  tr_recv :: "'m list"
  tr_closed :: bool

datatype scheme = Chan | Tcp | Udp

text \<open>\<open>parse\<close> is \<open>url.Parse\<close>, with the scheme of the result; a fatal error is \<open>InvalidArgument\<close>.\<close>

definition has_scheme :: "string \<Rightarrow> bool" where
  "has_scheme addr \<longleftrightarrow> (\<exists>i \<in> set [0..<length addr]. take 3 (drop i addr) = ''://'')"

definition NewTransport :: "(string \<Rightarrow> string option) \<Rightarrow> string \<Rightarrow> string \<Rightarrow> (scheme \<times> 'm transport) go" where
  "NewTransport parse scheme_flag addr =
     (let t = \<lparr>tr_send = [], tr_recv = [], tr_closed = False\<rparr>
      in case parse (if has_scheme addr then addr else scheme_flag @ ''://'' @ addr) of
           None \<Rightarrow> Inl InvalidArgument
         | Some s \<Rightarrow>
             if s = ''chan'' then Inr (Chan, t) else if s = ''tcp'' then Inr (Tcp, t)
             else if s = ''udp'' then Inr (Udp, t) else Inl InvalidArgument)"

text \<open>The channels have the capacity \<open>n\<close>.\<close>

definition Transport_Send :: "nat \<Rightarrow> 'm \<Rightarrow> 'm transport \<Rightarrow> 'm transport go" where
  "Transport_Send n m t =
     (if tr_closed t then Inl ClosedChannel
      else if length (tr_send t) < n then Inr (t\<lparr>tr_send := tr_send t @ [m]\<rparr>) else Inl Hang)"

definition Transport_Recv :: "'m transport \<Rightarrow> ('m \<times> 'm transport) go" where
  "Transport_Recv t = (case tr_recv t of [] \<Rightarrow> Inl Hang | m # ms \<Rightarrow> Inr (m, t\<lparr>tr_recv := ms\<rparr>))"

definition Transport_Close :: "'m transport \<Rightarrow> 'm transport go" where
  "Transport_Close t = (if tr_closed t then Inl ClosedChannel else Inr (t\<lparr>tr_closed := True\<rparr>))"

text \<open>\<open>Close\<close> of a socket (\<open>socket.go\<close>): the transports of its nodes in the order of the map.\<close>

fun Socket_Close :: "('i \<times> 'm transport) list \<Rightarrow> ('i \<times> 'm transport) list go" where
  "Socket_Close [] = Inr []"
| "Socket_Close ((i, t) # ts) = go_bind (Transport_Close t) (\<lambda>t1. go_bind (Socket_Close ts) (\<lambda>ts1. Inr ((i, t1) # ts1)))"

lemma Socket_Close_twice: "Socket_Close ts = Inr ts1 \<Longrightarrow> ts \<noteq> [] \<Longrightarrow> Socket_Close ts1 = Inl ClosedChannel"
  by (cases ts) (auto simp: Transport_Close_def split: if_splits)

section \<open>Communication within a process\<close>

text \<open>The channels of the hosts, by their names; \<open>Listen\<close> replaces the channel of its host, to which those who
  have dialled before stay connected.\<close>

record 'm hosts =
  chans :: "(string, nat) fmap"
  conns :: "'m list list"

definition channel_Listen :: "string \<Rightarrow> 'm hosts \<Rightarrow> nat \<times> 'm hosts" where
  "channel_Listen host h =
     (let c = length (conns h) in (c, h\<lparr>chans := fmupd host c (chans h), conns := conns h @ [[]]\<rparr>))"

text \<open>\<open>None\<close> is the error "server not ready".\<close>

definition channel_Dial :: "string \<Rightarrow> 'm hosts \<Rightarrow> nat option" where
  "channel_Dial host h = fmlookup (chans h) host"

text \<open>A dialled connection: the transport that sends, the message its goroutine holds, the channel of the host,
  the message the goroutine of the listener holds, and the transport that receives.\<close>

record 'm link =
  lk_src :: "'m transport"
  lk_hold :: "'m option"
  lk_conn :: "'m list"
  lk_take :: "'m option"
  lk_dst :: "'m transport"
  lk_stopped :: bool

datatype link_event = Take_Send | Put_Conn | Take_Conn | Put_Recv | Stop_Listener

definition link_step :: "nat \<Rightarrow> link_event \<Rightarrow> 'm link \<Rightarrow> 'm link go" where
  "link_step n e l =
     (case e of
        Take_Send \<Rightarrow>
          (case (lk_hold l, tr_send (lk_src l)) of
             (None, m # ms) \<Rightarrow> Inr (l\<lparr>lk_hold := Some m, lk_src := (lk_src l)\<lparr>tr_send := ms\<rparr>\<rparr>)
           | _ \<Rightarrow> Inl Hang)
      | Put_Conn \<Rightarrow>
          (case lk_hold l of
             Some m \<Rightarrow> if length (lk_conn l) < n then Inr (l\<lparr>lk_hold := None, lk_conn := lk_conn l @ [m]\<rparr>) else Inl Hang
           | None \<Rightarrow> Inl Hang)
      | Take_Conn \<Rightarrow>
          (case (lk_stopped l, lk_take l, lk_conn l) of
             (False, None, m # ms) \<Rightarrow> Inr (l\<lparr>lk_take := Some m, lk_conn := ms\<rparr>)
           | _ \<Rightarrow> Inl Hang)
      | Put_Recv \<Rightarrow>
          (case lk_take l of
             Some m \<Rightarrow>
               if length (tr_recv (lk_dst l)) < n
               then Inr (l\<lparr>lk_take := None, lk_dst := (lk_dst l)\<lparr>tr_recv := tr_recv (lk_dst l) @ [m]\<rparr>\<rparr>) else Inl Hang
           | None \<Rightarrow> Inl Hang)
      | Stop_Listener \<Rightarrow>
          if tr_closed (lk_dst l) \<and> lk_take l = None \<and> \<not> lk_stopped l then Inr (l\<lparr>lk_stopped := True\<rparr>) else Inl Hang)"

text \<open>The runs of a connection, with all the messages sent and all those received.\<close>

inductive chan_step :: "nat \<Rightarrow> 'm list \<times> 'm list \<times> 'm link \<Rightarrow> 'm list \<times> 'm list \<times> 'm link \<Rightarrow> bool" for n where
  send: "Transport_Send n m (lk_src l) = Inr t \<Longrightarrow> chan_step n (sent, got, l) (sent @ [m], got, l\<lparr>lk_src := t\<rparr>)"
| recv: "Transport_Recv (lk_dst l) = Inr (m, t) \<Longrightarrow> chan_step n (sent, got, l) (sent, got @ [m], l\<lparr>lk_dst := t\<rparr>)"
| close_src: "Transport_Close (lk_src l) = Inr t \<Longrightarrow> chan_step n (sent, got, l) (sent, got, l\<lparr>lk_src := t\<rparr>)"
| close_dst: "Transport_Close (lk_dst l) = Inr t \<Longrightarrow> chan_step n (sent, got, l) (sent, got, l\<lparr>lk_dst := t\<rparr>)"
| move: "link_step n e l = Inr l1 \<Longrightarrow> chan_step n (sent, got, l) (sent, got, l1)"

code_pred chan_step .

definition new_link :: "'m transport \<Rightarrow> 'm transport \<Rightarrow> 'm link" where
  "new_link s r = \<lparr>lk_src = s, lk_hold = None, lk_conn = [], lk_take = None, lk_dst = r, lk_stopped = False\<rparr>"

section \<open>TCP\<close>

text \<open>The goroutine of \<open>Dial\<close> on the messages it takes: those that cannot be encoded are logged.\<close>

definition tcp_write :: "('m \<Rightarrow> 'f option) \<Rightarrow> 'm list \<Rightarrow> 'f list" where
  "tcp_write encode ms = List.map_filter encode ms"

text \<open>The goroutine that reads a connection: in each round whether the transport has been closed, and what the
  decoder returns. The result is the messages received, the failures, and whether the loop has ended.\<close>

fun tcp_read :: "(bool \<times> 'm option) list \<Rightarrow> nat \<Rightarrow> 'm list \<Rightarrow> 'm list \<times> nat \<times> bool" where
  "tcp_read [] fails recv = (recv, fails, False)"
| "tcp_read ((True, d) # ds) fails recv = (recv, fails, True)"
| "tcp_read ((False, Some m) # ds) fails recv = tcp_read ds fails (recv @ [m])"
| "tcp_read ((False, None) # ds) fails recv =
     (if fails + 1 \<ge> 20 then (recv, fails + 1, True) else tcp_read ds (fails + 1) recv)"

section \<open>UDP\<close>

type_synonym packet = "8 word list"

definition udp_write :: "('m \<Rightarrow> packet) \<Rightarrow> 'm \<Rightarrow> packet" where
  "udp_write encode m = encode m"

text \<open>A read copies what fits into the packet of 1500 bytes and leaves the rest of it as it was; the decoder gets
  the whole packet, and a message that cannot be decoded is a nil that is received like any other.\<close>

definition udp_read :: "(packet \<Rightarrow> 'm option) \<Rightarrow> packet option \<Rightarrow> 'm option list \<times> packet \<Rightarrow> 'm option list \<times> packet" where
  "udp_read decode d = (\<lambda>(recv, p).
     case d of
       None \<Rightarrow> (recv, p)
     | Some b \<Rightarrow> let p1 = take (length p) b @ drop (length b) p in (recv @ [decode p1], p1))"

definition udp_listen :: "(packet \<Rightarrow> 'm option) \<Rightarrow> packet option list \<Rightarrow> 'm option list" where
  "udp_listen decode ds = fst (fold (udp_read decode) ds ([], replicate 1500 0))"

section \<open>Links that keep the order\<close>

text \<open>What a user of a connection relies on: a step neither loses nor reorders what is on its way, and while the
  connection runs some step brings what is on its way closer.\<close>

locale ordered_link =
  fixes step :: "'s \<Rightarrow> 's \<Rightarrow> bool"
    and sent :: "'s \<Rightarrow> 'm list" and got :: "'s \<Rightarrow> 'm list" and pending :: "'s \<Rightarrow> 'm list"
    and running :: "'s \<Rightarrow> bool" and way :: "'s \<Rightarrow> nat"
  assumes keeps: "step s t \<Longrightarrow> got s @ pending s = sent s \<Longrightarrow> got t @ pending t = sent t"
    and onward: "running s \<Longrightarrow> pending s \<noteq> [] \<Longrightarrow> \<exists>t. step s t \<and> running t \<and> sent t = sent s \<and> way t < way s"
begin

lemma run_keeps: "step\<^sup>*\<^sup>* s t \<Longrightarrow> got s @ pending s = sent s \<Longrightarrow> got t @ pending t = sent t"
  by (induction rule: rtranclp_induct) (auto dest: keeps)

lemma order_kept: "step\<^sup>*\<^sup>* s t \<Longrightarrow> got s @ pending s = sent s \<Longrightarrow> prefix (got t) (sent t)"
  by (metis run_keeps prefixI)

lemma all_arrive:
  assumes "running s" "got s @ pending s = sent s"
  shows "\<exists>t. step\<^sup>*\<^sup>* s t \<and> sent t = sent s \<and> got t = sent s"
  using assms
proof (induction "way s" arbitrary: s rule: less_induct)
  case less
  show ?case
  proof (cases "pending s = []")
    case False
    then obtain t where t: "step s t" "running t" "sent t = sent s" "way t < way s"
      using onward less.prems(1) by blast
    then obtain u where "step\<^sup>*\<^sup>* t u" "sent u = sent t" "got u = sent t"
      using less.hyps [OF t(4,2)] keeps [OF t(1) less.prems(2)] by blast
    then show ?thesis
      using t(1,3) by (metis converse_rtranclp_into_rtranclp)
  qed (use less.prems in auto)
qed

end

section \<open>Within a process: order and delivery\<close>

text \<open>The messages on their way, the oldest first.\<close>

definition under_way :: "'m link \<Rightarrow> 'm list" where
  "under_way l =
     tr_recv (lk_dst l) @ (case lk_take l of None \<Rightarrow> [] | Some m \<Rightarrow> [m]) @ lk_conn l @
     (case lk_hold l of None \<Rightarrow> [] | Some m \<Rightarrow> [m]) @ tr_send (lk_src l)"

definition lossless :: "'m list \<times> 'm list \<times> 'm link \<Rightarrow> bool" where
  [wf_defs]: "lossless = (\<lambda>(sent, got, l). got @ under_way l = sent)"

lemma link_step_under_way: "link_step n e l = Inr l1 \<Longrightarrow> under_way l1 = under_way l"
  by (auto simp: link_step_def under_way_def split: link_event.splits option.splits list.splits bool.splits if_splits)

lemma chan_step_lossless: "chan_step n s t \<Longrightarrow> lossless s \<Longrightarrow> lossless t"
  by (induction rule: chan_step.induct)
    (auto simp: lossless_def under_way_def Transport_Send_def Transport_Recv_def Transport_Close_def
      link_step_under_way [unfolded under_way_def] split: if_splits list.splits)

text \<open>The way that the messages of a connection still have to go.\<close>

definition way :: "'m link \<Rightarrow> nat" where
  "way l = length (tr_recv (lk_dst l)) + 2 * (if lk_take l = None then 0 else 1) + 3 * length (lk_conn l) +
     4 * (if lk_hold l = None then 0 else 1) + 5 * length (tr_send (lk_src l))"

lemma one_step_on:
  assumes "0 < n" "\<not> lk_stopped l" "under_way l \<noteq> []"
  shows "\<exists>got1 l1. chan_step n (sent, got, l) (sent, got1, l1) \<and> \<not> lk_stopped l1 \<and> way l1 < way l"
proof -
  have move: "\<exists>l1. link_step n e l = Inr l1 \<and> \<not> lk_stopped l1 \<and> way l1 < way l \<Longrightarrow> ?thesis" for e
    using chan_step.move by blast
  consider m ms where "tr_recv (lk_dst l) = m # ms" | m where "tr_recv (lk_dst l) = []" "lk_take l = Some m"
    | m ms where "lk_take l = None" "lk_conn l = m # ms" | m where "lk_conn l = []" "lk_hold l = Some m"
    | m ms where "lk_hold l = None" "tr_send (lk_src l) = m # ms"
    using assms(3) by (cases "tr_recv (lk_dst l)"; cases "lk_take l"; cases "lk_conn l"; cases "lk_hold l"; cases "tr_send (lk_src l)")
      (auto simp: under_way_def)
  then show ?thesis
  proof cases
    case (1 m ms)
    then show ?thesis
      using assms(2) chan_step.recv [of l m "(lk_dst l)\<lparr>tr_recv := ms\<rparr>" n sent got]
      by (intro exI [of _ "got @ [m]"] exI [of _ "l\<lparr>lk_dst := (lk_dst l)\<lparr>tr_recv := ms\<rparr>\<rparr>"])
        (simp add: Transport_Recv_def way_def)
  next
    case (2 m)
    then show ?thesis using assms by (intro move [of Put_Recv]) (auto simp: link_step_def way_def)
  next
    case (3 m ms)
    then show ?thesis using assms by (intro move [of Take_Conn]) (auto simp: link_step_def way_def)
  next
    case (4 m)
    then show ?thesis using assms by (intro move [of Put_Conn]) (auto simp: link_step_def way_def)
  next
    case (5 m ms)
    then show ?thesis using assms by (intro move [of Take_Send]) (auto simp: link_step_def way_def)
  qed
qed

interpretation chan: ordered_link "chan_step (Suc n)" fst "\<lambda>(sent, got, l). got" "\<lambda>(sent, got, l). under_way l"
  "\<lambda>(sent, got, l). \<not> lk_stopped l" "\<lambda>(sent, got, l). way l" for n
proof
  fix s t :: "'m list \<times> 'm list \<times> 'm link"
  assume "chan_step (Suc n) s t" "(\<lambda>(sent, got, l). got) s @ (\<lambda>(sent, got, l). under_way l) s = fst s"
  then show "(\<lambda>(sent, got, l). got) t @ (\<lambda>(sent, got, l). under_way l) t = fst t"
    using chan_step_lossless [of "Suc n" s t] by (simp add: lossless_def split_beta)
next
  fix s :: "'m list \<times> 'm list \<times> 'm link"
  assume "(\<lambda>(sent, got, l). \<not> lk_stopped l) s" "(\<lambda>(sent, got, l). under_way l) s \<noteq> []"
  then show "\<exists>t. chan_step (Suc n) s t \<and> (\<lambda>(sent, got, l). \<not> lk_stopped l) t \<and> fst t = fst s \<and>
      (\<lambda>(sent, got, l). way l) t < (\<lambda>(sent, got, l). way l) s"
    using one_step_on [of "Suc n"] by (cases s) fastforce
qed

text \<open>C33: communication within a process: in every execution of a connection the messages are received in the order in which
  they were sent, none of them twice; and as long as the goroutine of the listener runs, whatever has
  happened before, also when the sender has closed its transport, there is a way on to a state in which every
  message has been received. A message is sent on a closed transport only with a panic.\<close>

theorem channel_delivers_in_order:
  assumes "0 < n" "(chan_step n)\<^sup>*\<^sup>* ([], [], new_link \<lparr>tr_send = [], tr_recv = [], tr_closed = False\<rparr> r) (sent, got, l)" "tr_recv r = []"
  shows "prefix got sent
    \<and> (\<not> lk_stopped l \<longrightarrow> (\<exists>l1. (chan_step n)\<^sup>*\<^sup>* (sent, got, l) (sent, sent, l1)))
    \<and> (tr_closed (lk_src l) \<longrightarrow> Transport_Send n m (lk_src l) = Inl ClosedChannel \<and> Transport_Close (lk_src l) = Inl ClosedChannel)"
proof (intro conjI impI)
  obtain k where n: "n = Suc k" using assms(1) by (cases n) auto
  have new: "under_way (new_link \<lparr>tr_send = [], tr_recv = [], tr_closed = False\<rparr> r) = []"
    using assms(3) by (simp add: under_way_def new_link_def)
  show "prefix got sent"
    using chan.order_kept [OF assms(2) [unfolded n]] new by simp
  have now: "got @ under_way l = sent"
    using chan.run_keeps [OF assms(2) [unfolded n]] new by simp
  show "\<exists>l1. (chan_step n)\<^sup>*\<^sup>* (sent, got, l) (sent, sent, l1)" if "\<not> lk_stopped l"
    using chan.all_arrive [of "(sent, got, l)" k] now that by (auto simp: n)
qed (simp_all add: Transport_Send_def Transport_Close_def)


lemma channel_delivers_in_order_witness:
  "\<exists>l1. (chan_step 1)\<^sup>*\<^sup>* ([7 :: nat], [], \<lparr>lk_src = \<lparr>tr_send = [7], tr_recv = [], tr_closed = False\<rparr>, lk_hold = None, lk_conn = [],
      lk_take = None, lk_dst = \<lparr>tr_send = [], tr_recv = [], tr_closed = False\<rparr>, lk_stopped = False\<rparr>) ([7], [7], l1)"
proof -
  let ?t = "\<lparr>tr_send = [], tr_recv = [], tr_closed = False\<rparr> :: nat transport"
  have "chan_step 1 ([], [], new_link ?t ?t) ([] @ [7], [], (new_link ?t ?t)\<lparr>lk_src := ?t\<lparr>tr_send := [7]\<rparr>\<rparr>)"
    by (rule chan_step.send) (simp add: Transport_Send_def new_link_def)
  then have "(chan_step 1)\<^sup>*\<^sup>* ([], [], new_link ?t ?t) ([7], [], \<lparr>lk_src = \<lparr>tr_send = [7], tr_recv = [], tr_closed = False\<rparr>, lk_hold = None,
      lk_conn = [], lk_take = None, lk_dst = ?t, lk_stopped = False\<rparr>)"
    by (simp add: new_link_def r_into_rtranclp)
  from channel_delivers_in_order [OF _ this] show ?thesis by simp
qed

section \<open>Over the network\<close>

lemma tcp_read_some:
  assumes "fails + length (filter (\<lambda>d. d = None) ds) < 20"
  shows "tcp_read (map (Pair False) ds @ es) fails recv =
    tcp_read es (fails + length (filter (\<lambda>d. d = None) ds)) (recv @ List.map_filter (\<lambda>d. d) ds)"
  using assms
proof (induction ds arbitrary: fails recv)
  case (Cons d ds)
  then show ?case by (cases d) (auto simp: List.map_filter_def)
qed (simp add: List.map_filter_def)

text \<open>what arrives over the network. A TCP connection delivers the messages that can be decoded in their order up to
  the twentieth failure of its life, however many messages have been decoded between the failures, and
  then ends for good. A UDP message that fits a packet arrives whatever the packet held before, when the
  encoding of a message ends where its bytes end; of a longer one the first 1500 bytes are decoded.\<close>

theorem network_delivers:
  fixes encode :: "'m \<Rightarrow> packet"
  assumes "\<And>m junk. decode (encode m @ junk) = Some m"
  shows "(length (filter (\<lambda>d. d = None) ds) < 20 \<longrightarrow>
      tcp_read (map (Pair False) ds) 0 [] = (List.map_filter (\<lambda>d. d) ds, length (filter (\<lambda>d. d = None) ds), False)
      \<and> (length (filter (\<lambda>d. d = None) ds) = 19 \<longrightarrow>
           tcp_read (map (Pair False) ds @ (False, None) # es) 0 [] = (List.map_filter (\<lambda>d. d) ds, 20, True)))
    \<and> ((\<forall>m \<in> set ms. length (udp_write encode m) \<le> 1500) \<longrightarrow> udp_listen decode (map (Some \<circ> udp_write encode) ms) = map Some ms)
    \<and> (1500 \<le> length b \<longrightarrow> udp_listen decode [Some b] = [decode (take 1500 b)])"
proof (intro conjI impI)
  assume "length (filter (\<lambda>d. d = None) ds) < 20"
  then show "tcp_read (map (Pair False) ds) 0 [] = (List.map_filter (\<lambda>d. d) ds, length (filter (\<lambda>d. d = None) ds), False)"
    using tcp_read_some [of 0 ds "[]" "[]"] by simp
next
  assume "length (filter (\<lambda>d. d = None) ds) = 19"
  then show "tcp_read (map (Pair False) ds @ (False, None) # es) 0 [] = (List.map_filter (\<lambda>d. d) ds, 20, True)"
    by (simp add: tcp_read_some)
next
  assume fit: "\<forall>m \<in> set ms. length (udp_write encode m) \<le> 1500"
  have "fst (fold (udp_read decode) (map (Some \<circ> udp_write encode) ms) (recv, p)) = recv @ map Some ms"
    if "length p = 1500" for recv p
    using fit that
  proof (induction ms arbitrary: recv p)
    case (Cons m ms)
    then show ?case by (simp add: udp_read_def udp_write_def Let_def assms)
  qed simp
  then show "udp_listen decode (map (Some \<circ> udp_write encode) ms) = map Some ms"
    by (simp add: udp_listen_def)
qed (simp add: udp_listen_def udp_read_def Let_def)

lemma network_delivers_witness:
  "udp_listen (\<lambda>p. case p of [] \<Rightarrow> None | b # _ \<Rightarrow> Some b) [Some [5], Some [6]] = [Some 5, Some 6]
    \<and> tcp_read [(False, Some (4 :: nat)), (False, None)] 0 [] = ([4], 1, False)"
proof -
  have law: "(case [b] @ junk of [] \<Rightarrow> None | b # _ \<Rightarrow> Some b) = Some b" for b :: "8 word" and junk
    by simp
  show ?thesis
    using network_delivers [of "\<lambda>p. case p of [] \<Rightarrow> None | b # _ \<Rightarrow> Some b" "\<lambda>b. [b]" "[Some (4 :: nat), None]" "[]" "[5, 6]" "[]", OF law]
    by (simp add: udp_write_def)
qed

end
