(* ===== verification/HashRing.thy ===== *)
theory HashRing
  imports Database "HOL-Library.List_Lexorder"
begin

text \<open>
  The hash ring of \<open>lib/hash_ring.go\<close>. The nodes form a circle of pointers that is only walked from its head
  along \<open>next\<close> (\<open>prev\<close> is never set), so a ring is the list of its nodes from the head on; \<open>i.next == h.head\<close>
  holds at the end of the list. The digest \<open>md5.Sum\<close> and the printing of a value are arguments.
\<close>

section \<open>The ring\<close>

text \<open>\<open>bytes.Compare\<close>.\<close>

fun bytes_Compare :: "bytes \<Rightarrow> bytes \<Rightarrow> goint" where
  "bytes_Compare [] [] = 0"
| "bytes_Compare [] (b # bs) = - 1"
| "bytes_Compare (a # as) [] = 1"
| "bytes_Compare (a # as) (b # bs) = (if a < b then - 1 else if b < a then 1 else bytes_Compare as bs)"

record 'v hashRingNode =
  rn_hash :: bytes
  rn_Value :: 'v

type_synonym 'v HashRing = "'v hashRingNode list"

text \<open>The walk to the node before the insertion.\<close>

fun insert_after :: "'v hashRingNode \<Rightarrow> 'v HashRing \<Rightarrow> 'v HashRing" where
  "insert_after n [] = [n]"
| "insert_after n [i] = [i, n]"
| "insert_after n (i # j # rest) =
     (if bytes_Compare (rn_hash j) (rn_hash n) < 0 then i # insert_after n (j # rest) else i # n # j # rest)"

definition Ring_Insert :: "(bytes \<Rightarrow> bytes) \<Rightarrow> 'v \<Rightarrow> bytes \<Rightarrow> 'v HashRing \<Rightarrow> 'v HashRing" where
  "Ring_Insert md5 v b h =
     (let n = \<lparr>rn_hash = md5 b, rn_Value = v\<rparr>
      in case h of
           [] \<Rightarrow> [n]
         | i # _ \<Rightarrow> if bytes_Compare (rn_hash i) (rn_hash n) \<ge> 0 then n # h else insert_after n h)"

fun search_from :: "bytes \<Rightarrow> 'v hashRingNode \<Rightarrow> 'v HashRing \<Rightarrow> 'v hashRingNode" where
  "search_from hash head [] = head"
| "search_from hash head [i] = head"
| "search_from hash head (i # j # rest) =
     (if bytes_Compare hash (rn_hash i) < 0 then i else search_from hash head (j # rest))"

definition ring_search :: "bytes \<Rightarrow> 'v HashRing \<Rightarrow> 'v hashRingNode go" where
  "ring_search hash h = (case h of [] \<Rightarrow> Inl NilDeref | head # _ \<Rightarrow> Inr (search_from hash head h))"

definition Ring_Get :: "(bytes \<Rightarrow> bytes) \<Rightarrow> bytes \<Rightarrow> 'v HashRing \<Rightarrow> 'v go" where
  "Ring_Get md5 k h = go_bind (ring_search (md5 k) h) (\<lambda>i. Inr (rn_Value i))"

fun next_from :: "'v \<Rightarrow> 'v hashRingNode \<Rightarrow> 'v HashRing \<Rightarrow> 'v option" where
  "next_from v head [] = None"
| "next_from v head [i] = (if v = rn_Value i then Some (rn_Value head) else None)"
| "next_from v head (i # j # rest) = (if v = rn_Value i then Some (rn_Value j) else next_from v head (j # rest))"

definition Ring_Next :: "'v \<Rightarrow> 'v HashRing \<Rightarrow> 'v option go" where
  "Ring_Next v h = (case h of [] \<Rightarrow> Inl NilDeref | head # _ \<Rightarrow> Inr (next_from v head h))"

definition Ring_String :: "('v \<Rightarrow> string) \<Rightarrow> 'v HashRing \<Rightarrow> string" where
  "Ring_String show_value h = concat (map (\<lambda>i. show_value (rn_Value i) @ '' -> '') h)"

section \<open>Order\<close>

lemma bytes_Compare_less [simp]: "bytes_Compare a b < 0 \<longleftrightarrow> a < b"
  by (induction a b rule: bytes_Compare.induct) auto

lemma bytes_Compare_ge [simp]: "bytes_Compare a b \<ge> 0 \<longleftrightarrow> b \<le> a"
  using bytes_Compare_less [of a b] by (meson not_le)

lemma insert_after_insort:
  "h \<noteq> [] \<Longrightarrow> rn_hash (hd h) < rn_hash n \<Longrightarrow> insert_after n h = insort_key rn_hash n h"
  by (induction n h rule: insert_after.induct) (auto simp: not_le)

text \<open>The insertion is that into a sorted list.\<close>

lemma Ring_Insert_insort: "Ring_Insert md5 v b h = insort_key rn_hash \<lparr>rn_hash = md5 b, rn_Value = v\<rparr> h"
  using insert_after_insort [of h "\<lparr>rn_hash = md5 b, rn_Value = v\<rparr>"]
  by (cases h) (auto simp: Ring_Insert_def Let_def not_le)

definition ring_of :: "(bytes \<Rightarrow> bytes) \<Rightarrow> ('v \<times> bytes) list \<Rightarrow> 'v HashRing" where
  "ring_of md5 xs = fold (\<lambda>(v, b). Ring_Insert md5 v b) xs []"

definition node_of :: "(bytes \<Rightarrow> bytes) \<Rightarrow> 'v \<times> bytes \<Rightarrow> 'v hashRingNode" where
  "node_of md5 = (\<lambda>(v, b). \<lparr>rn_hash = md5 b, rn_Value = v\<rparr>)"

lemma node_of_Value [simp]: "rn_Value (node_of md5 x) = fst x"
  by (cases x) (simp add: node_of_def)

lemma ring_of_sorted: "sorted (map rn_hash (ring_of md5 xs)) \<and> mset (ring_of md5 xs) = mset (map (node_of md5) xs)"
proof -
  have "sorted (map rn_hash (fold (\<lambda>(v, b). Ring_Insert md5 v b) xs h)) \<and>
      mset (fold (\<lambda>(v, b). Ring_Insert md5 v b) xs h) = mset (map (node_of md5) xs) + mset h"
    if "sorted (map rn_hash h)" for h
    using that
  proof (induction xs arbitrary: h)
    case (Cons x xs)
    then show ?case
      by (cases x) (simp add: Ring_Insert_insort sorted_insort_key node_of_def)
  qed simp
  from this [of "[]"] show ?thesis by (simp add: ring_of_def)
qed

lemma search_from_find:
  "search_from hash head h = (case find (\<lambda>i. hash < rn_hash i) (butlast h) of Some i \<Rightarrow> i | None \<Rightarrow> head)"
  by (induction hash head h rule: search_from.induct) auto

lemma next_from_nth:
  "distinct (map rn_Value h) \<Longrightarrow> i < length h \<Longrightarrow>
     next_from (rn_Value (h ! i)) head h = Some (rn_Value (if Suc i < length h then h ! Suc i else head))"
proof (induction "rn_Value (h ! i)" head h arbitrary: i rule: next_from.induct)
  case (3 head a b rest)
  show ?case
  proof (cases i)
    case (Suc j)
    then have "map rn_Value (a # b # rest) ! i \<noteq> map rn_Value (a # b # rest) ! 0"
      using 3(3) nth_eq_iff_index_eq [OF 3(2), of i 0] by (simp del: list.map)
    then have "rn_Value ((a # b # rest) ! i) \<noteq> rn_Value a"
      using 3(3) nth_map [of i "a # b # rest" rn_Value] by simp
    then show ?thesis
      using 3(1) [of j] 3(2,3) Suc by simp
  qed simp
qed auto

text \<open>The first node beyond a hash in the order of the circle, as a hash ring is meant to find it.\<close>

definition successor :: "bytes \<Rightarrow> 'v HashRing \<Rightarrow> 'v hashRingNode" where
  "successor hash h = (case find (\<lambda>i. hash < rn_hash i) h of Some i \<Rightarrow> i | None \<Rightarrow> hd h)"

lemma find_snoc: "find P (ys @ [z]) = (case find P ys of Some i \<Rightarrow> Some i | None \<Rightarrow> if P z then Some z else None)"
  by (induction ys) auto

text \<open>C34: the hash ring: insertions keep the nodes sorted by their hashes, \<open>Next\<close> goes round the circle, and \<open>Get\<close> finds
  the first node beyond the hash of the key, unless that node is the last: then the key goes to the
  head, so in a ring of two or more nodes the last one never gets a key.\<close>

theorem ring_serves_all_but_the_last:
  assumes "h = ring_of md5 xs" "2 \<le> length xs" "distinct (map fst xs)"
  shows "sorted (map rn_hash h) \<and> mset h = mset (map (node_of md5) xs)
    \<and> (\<forall>i < length h. Ring_Next (rn_Value (h ! i)) h = Inr (Some (rn_Value (h ! ((i + 1) mod length h)))))
    \<and> Ring_Get md5 k h = Inr (rn_Value (if successor (md5 k) h = last h then hd h else successor (md5 k) h))
    \<and> Ring_Get md5 k h \<noteq> Inr (rn_Value (last h))"
proof -
  have s: "sorted (map rn_hash h)" "mset h = mset (map (node_of md5) xs)"
    using ring_of_sorted [of md5 xs] assms(1) by auto
  then have "length h = length xs"
    by (metis length_map mset_eq_length)
  then obtain a b t where h: "h = a # b # t"
    using assms(2) by (metis Suc_le_length_iff numeral_2_eq_2)
  have "mset (map rn_Value h) = mset (map fst xs)"
    using s(2) by (simp add: image_mset.compositionality o_def)
  then have d: "distinct (map rn_Value h)"
    using assms(3) by (metis mset_eq_imp_distinct_iff)
  have "Ring_Next (rn_Value (h ! i)) h = Inr (Some (rn_Value (h ! ((i + 1) mod length h))))" if "i < length h" for i
    using next_from_nth [OF d that, of "hd h"] that h
    by (cases "Suc i = length h") (auto simp: Ring_Next_def)
  moreover
  let ?found = "find (\<lambda>i. md5 k < rn_hash i) (butlast h)"
  have app: "h = butlast h @ [last h]" and hd: "hd h \<in> set (butlast h)" using h by simp_all
  have "map rn_Value h = map rn_Value (butlast h) @ [rn_Value (last h)]"
    using arg_cong [OF app, of "map rn_Value"] by (simp only: map_append list.map)
  then have d: "\<forall>i \<in> set (butlast h). rn_Value i \<noteq> rn_Value (last h)"
    using d by (auto simp: image_iff)
  have get: "Ring_Get md5 k h = Inr (rn_Value (case ?found of Some i \<Rightarrow> i | None \<Rightarrow> hd h))"
    using h by (simp add: Ring_Get_def ring_search_def search_from_find split: option.split)
  have suc: "successor (md5 k) h = (case ?found of Some i \<Rightarrow> i | None \<Rightarrow> if md5 k < rn_hash (last h) then last h else hd h)"
    unfolding successor_def by (subst (2) app, subst find_snoc) (simp split: option.split)
  have found: "\<forall>i. ?found = Some i \<longrightarrow> i \<in> set (butlast h)"
    by (metis find_Some_iff nth_mem)
  have "Ring_Get md5 k h = Inr (rn_Value (if successor (md5 k) h = last h then hd h else successor (md5 k) h))"
    "Ring_Get md5 k h \<noteq> Inr (rn_Value (last h))"
    using get suc found d hd by (auto split: option.splits)
  ultimately show ?thesis using s by blast
qed

lemma ring_serves_all_but_the_last_witness:
  "Ring_Get (\<lambda>b. b) [2] (ring_of (\<lambda>b. b) [(''a'', [3]), (''b'', [1]), (''c'', [5])]) = Inr ''a''
    \<and> Ring_Get (\<lambda>b. b) [4] (ring_of (\<lambda>b. b) [(''a'', [3]), (''b'', [1]), (''c'', [5])]) \<noteq> Inr ''c''"
  using ring_serves_all_but_the_last [OF refl, of "[(''a'', [3]), (''b'', [1]), (''c'', [5])]" "\<lambda>b. b" "[4]"]
  by (simp add: ring_of_def Ring_Insert_insort Ring_Get_def ring_search_def)

end
