(* ===== verification/Scc.thy ===== *)
theory Scc
  imports GraphFacts
begin

text \<open>
  The strongly connected components of \<open>lib/graph_scc.go\<close>. The loop \<open>for _, w := range data.graph[v]\<close> takes the
  values of a set, which all are the empty struct, and not its keys; the interface values that the
  algorithm meets are therefore the vertices and \<open>Unit\<close>. A pointer to a node is its position in \<open>nodes\<close>;
  the copies that an append leaves behind differ from it only once a \<open>lowlink\<close> has been lowered.
\<close>

datatype 'a scc_value = Vertex 'a | Unit

record scc_node =
  lowlink :: nat
  stacked :: bool

record 'k scc_data =
  sd_nodes :: "scc_node list"
  sd_stack :: "'k list"
  sd_index :: "('k, nat) gomap"
  sd_output :: "'k list list"

text \<open>What a range over \<open>data.graph[v]\<close> yields.\<close>

definition range_values :: "'a Graph \<Rightarrow> 'a scc_value \<Rightarrow> 'a scc_value list" where
  "range_values g v = (case v of Vertex a \<Rightarrow> map (\<lambda>_. Unit) (adjacent (g_from g) a) | Unit \<Rightarrow> [])"

definition set_lowlink :: "nat \<Rightarrow> nat \<Rightarrow> 'k scc_data \<Rightarrow> 'k scc_data" where
  "set_lowlink i l d = d\<lparr>sd_nodes := (sd_nodes d)[i := (sd_nodes d ! i)\<lparr>lowlink := l\<rparr>]\<rparr>"

definition unstack :: "nat \<Rightarrow> 'k scc_data \<Rightarrow> 'k scc_data" where
  "unstack i d = d\<lparr>sd_nodes := (sd_nodes d)[i := (sd_nodes d ! i)\<lparr>stacked := False\<rparr>]\<rparr>"

text \<open>The loop that takes a component from the stack, whose top is the end of the list.\<close>

function pop_component :: "nat \<Rightarrow> 'k list \<Rightarrow> 'k scc_data \<Rightarrow> ('k list \<times> 'k scc_data) go" where
  "pop_component index vertices d =
     (if sd_stack d = [] then Inl IndexOutOfRange
      else
        let w = last (sd_stack d);
            i = (case map_of (sd_index d) w of None \<Rightarrow> 0 | Some i \<Rightarrow> i);
            d1 = (unstack i d)\<lparr>sd_stack := butlast (sd_stack d)\<rparr>
        in if i = index then Inr (vertices @ [w], d1) else pop_component index (vertices @ [w]) d1)"
  by pat_completeness auto
termination
  by (relation "measure (\<lambda>(_, _, d). length (sd_stack d))") (auto simp: unstack_def)

declare pop_component.simps [simp del]

text \<open>The result is the position of the new node.\<close>

fun strongConnect :: "nat \<Rightarrow> ('k \<Rightarrow> 'k list) \<Rightarrow> 'k \<Rightarrow> 'k scc_data \<Rightarrow> (nat \<times> 'k scc_data) go" where
  "strongConnect 0 values v d = Inl StackOverflow"
| "strongConnect (Suc fuel) values v d =
     (let index = length (sd_nodes d);
          d1 = d\<lparr>sd_index := AList.update v index (sd_index d), sd_stack := sd_stack d @ [v],
                 sd_nodes := sd_nodes d @ [\<lparr>lowlink = index, stacked = True\<rparr>]\<rparr>
      in go_bind
           (go_fold (\<lambda>w d.
              case map_of (sd_index d) w of
                None \<Rightarrow> go_bind (strongConnect fuel values w d) (\<lambda>(n, d).
                  Inr (if lowlink (sd_nodes d ! n) < lowlink (sd_nodes d ! index)
                       then set_lowlink index (lowlink (sd_nodes d ! n)) d else d))
              | Some i \<Rightarrow> Inr (if stacked (sd_nodes d ! i) \<and> i < lowlink (sd_nodes d ! index) then set_lowlink index i d else d))
              (values v) d1)
           (\<lambda>d2. if lowlink (sd_nodes d2 ! index) = index
                 then go_bind (pop_component index [] d2) (\<lambda>(vs, d3). Inr (index, d3\<lparr>sd_output := sd_output d3 @ [vs]\<rparr>))
                 else Inr (index, d2)))"

declare strongConnect.simps [simp del]

definition SCC :: "'a Graph \<Rightarrow> 'a scc_value list list go" where
  "SCC g =
     (let keys = map fst (g_from g)
      in go_bind
           (go_fold (\<lambda>a d.
              if map_of (sd_index d) (Vertex a) = None
              then go_bind (strongConnect (length keys + 2) (range_values g) (Vertex a) d) (\<lambda>(_, d). Inr d)
              else Inr d)
              keys \<lparr>sd_nodes = [], sd_stack = [], sd_index = [], sd_output = []\<rparr>)
           (\<lambda>d. Inr (sd_output d)))"

section \<open>What it computes\<close>

text \<open>Between two calls from \<open>SCC\<close> the stack is empty and no node is stacked.\<close>

definition idle :: "'k scc_data \<Rightarrow> bool" where
  [wf_defs]: "idle d \<longleftrightarrow> sd_stack d = [] \<and> (\<forall>n \<in> set (sd_nodes d). \<not> stacked n) \<and>
     (\<forall>k i. map_of (sd_index d) k = Some i \<longrightarrow> i < length (sd_nodes d))"

text \<open>A component is a single value when nothing lowers its \<open>lowlink\<close>.\<close>

lemma pop_top:
  assumes "sd_stack d = vs @ [v]" "map_of (sd_index d) v = Some i"
  shows "pop_component i [] d = Inr ([v], (unstack i d)\<lparr>sd_stack := vs\<rparr>)"
  using assms by (subst pop_component.simps) (simp add: Let_def)

lemma connect_unit:
  "strongConnect (Suc fuel) (range_values g) Unit d =
     Inr (length (sd_nodes d), d\<lparr>sd_index := AList.update Unit (length (sd_nodes d)) (sd_index d),
            sd_nodes := sd_nodes d @ [\<lparr>lowlink = length (sd_nodes d), stacked = False\<rparr>], sd_output := sd_output d @ [[Unit]]\<rparr>)"
  by (simp add: strongConnect.simps range_values_def Let_def pop_top [of _ "sd_stack d"] update_conv' unstack_def)

text \<open>The state after the empty struct has been met, as far as it was not.\<close>

definition meet_unit :: "'a scc_value scc_data \<Rightarrow> 'a scc_value scc_data" where
  "meet_unit d =
     (if map_of (sd_index d) Unit = None
      then d\<lparr>sd_index := AList.update Unit (length (sd_nodes d)) (sd_index d),
             sd_nodes := sd_nodes d @ [\<lparr>lowlink = length (sd_nodes d), stacked = False\<rparr>], sd_output := sd_output d @ [[Unit]]\<rparr>
      else d)"

definition calm :: "nat \<Rightarrow> 'a scc_value scc_data \<Rightarrow> bool" where
  "calm index d \<longleftrightarrow> index < length (sd_nodes d) \<and> lowlink (sd_nodes d ! index) = index \<and>
     (\<forall>i. map_of (sd_index d) Unit = Some i \<longrightarrow> i < length (sd_nodes d) \<and> \<not> stacked (sd_nodes d ! i))"

lemma calm_meet: "calm index d \<Longrightarrow> calm index (meet_unit d) \<and> map_of (sd_index (meet_unit d)) Unit \<noteq> None"
  by (auto simp: calm_def meet_unit_def update_conv' nth_append)

abbreviation (input) loop_body :: "nat \<Rightarrow> 'a Graph \<Rightarrow> nat \<Rightarrow> 'a scc_value \<Rightarrow> 'a scc_value scc_data \<Rightarrow> 'a scc_value scc_data go" where
  "loop_body fuel g index w d \<equiv>
     (case map_of (sd_index d) w of
        None \<Rightarrow> go_bind (strongConnect fuel (range_values g) w d) (\<lambda>(n, d).
          Inr (if lowlink (sd_nodes d ! n) < lowlink (sd_nodes d ! index)
               then set_lowlink index (lowlink (sd_nodes d ! n)) d else d))
      | Some i \<Rightarrow> Inr (if stacked (sd_nodes d ! i) \<and> i < lowlink (sd_nodes d ! index) then set_lowlink index i d else d))"

lemma meet_once: "calm index d \<Longrightarrow> loop_body (Suc fuel) g index Unit d = Inr (meet_unit d)"
  by (auto simp: connect_unit meet_unit_def calm_def nth_append split: option.split)

lemma meet_units: "calm index d \<Longrightarrow> go_fold (loop_body (Suc fuel) g index) (map (\<lambda>_. Unit) ws) d = Inr (if ws = [] then d else meet_unit d)"
proof (induction ws arbitrary: d)
  case (Cons w ws)
  have "map_of (sd_index (meet_unit d)) Unit \<noteq> None"
    using calm_meet [OF Cons.prems] by blast
  then have "meet_unit (meet_unit d) = meet_unit d"
    by (subst meet_unit_def) (simp only: if_False)
  then show ?case
    using Cons calm_meet [OF Cons.prems] by (simp add: meet_once del: go_bind_eq_Inr)
qed simp

lemma connect_vertex:
  assumes "idle d" "map_of (sd_index d) (Vertex a) = None"
  shows "\<exists>d1. strongConnect (Suc (Suc fuel)) (range_values g) (Vertex a) d = Inr (length (sd_nodes d), d1) \<and> idle d1 \<and>
    (\<forall>b. b \<noteq> a \<longrightarrow> map_of (sd_index d1) (Vertex b) = map_of (sd_index d) (Vertex b)) \<and>
    (map_of (sd_index d1) Unit = None \<longleftrightarrow> map_of (sd_index d) Unit = None \<and> adjacent (g_from g) a = []) \<and>
    sd_output d1 = sd_output d @ (if map_of (sd_index d) Unit = None \<and> adjacent (g_from g) a \<noteq> [] then [[Unit]] else []) @ [[Vertex a]]"
proof -
  let ?n = "length (sd_nodes d)"
  let ?d = "d\<lparr>sd_index := AList.update (Vertex a) ?n (sd_index d), sd_stack := [Vertex a],
    sd_nodes := sd_nodes d @ [\<lparr>lowlink = ?n, stacked = True\<rparr>]\<rparr>"
  define d2 where "d2 = (if adjacent (g_from g) a = [] then ?d else meet_unit ?d)"
  have "calm ?n ?d"
    using assms(1) by (auto simp: calm_def idle_def update_conv' nth_append intro: less_SucI)
  then have d2: "go_fold (loop_body (Suc fuel) g ?n) (range_values g (Vertex a)) ?d = Inr d2" "calm ?n d2"
    using meet_units [of ?n ?d fuel g "adjacent (g_from g) a"] calm_meet by (auto simp: range_values_def d2_def)
  have stack: "sd_stack d2 = [] @ [Vertex a]" "map_of (sd_index d2) (Vertex a) = Some ?n"
    by (auto simp: d2_def meet_unit_def update_conv')
  let ?d3 = "((unstack ?n d2)\<lparr>sd_stack := []\<rparr>)\<lparr>sd_output := sd_output d2 @ [[Vertex a]]\<rparr>"
  have "strongConnect (Suc (Suc fuel)) (range_values g) (Vertex a) d = Inr (?n, ?d3)"
    using d2 assms(1) pop_top [OF stack] by (simp add: strongConnect.simps(2) [of "Suc fuel"] Let_def calm_def idle_def unstack_def)
  moreover have "\<forall>k i. map_of (sd_index d) k = Some i \<longrightarrow> i < ?n \<and> i < Suc ?n \<and> i < Suc (Suc ?n)"
    using assms(1) unfolding idle_def by (meson less_SucI)
  ultimately show ?thesis
    using assms by (intro exI [of _ ?d3])
      (auto simp: idle_def unstack_def d2_def meet_unit_def update_conv' nth_append list_update_append)
qed


lemma scc_loop:
  assumes "idle d" "distinct keys" "\<forall>a \<in> set keys. map_of (sd_index d) (Vertex a) = None"
  shows "\<exists>d1. go_fold (\<lambda>a d. if map_of (sd_index d) (Vertex a) = None
        then go_bind (strongConnect (Suc (Suc fuel)) (range_values g) (Vertex a) d) (\<lambda>(_, d). Inr d) else Inr d) keys d = Inr d1 \<and>
      mset (sd_output d1) = mset (sd_output d) + image_mset (\<lambda>a. [Vertex a]) (mset keys) +
        (if map_of (sd_index d) Unit = None \<and> (\<exists>a \<in> set keys. adjacent (g_from g) a \<noteq> []) then {#[Unit]#} else {#})"
  using assms
proof (induction keys arbitrary: d)
  case (Cons a keys)
  then have new: "map_of (sd_index d) (Vertex a) = None" by simp
  obtain d1 where d1: "strongConnect (Suc (Suc fuel)) (range_values g) (Vertex a) d = Inr (length (sd_nodes d), d1)" "idle d1"
    "\<forall>b. b \<noteq> a \<longrightarrow> map_of (sd_index d1) (Vertex b) = map_of (sd_index d) (Vertex b)"
    "map_of (sd_index d1) Unit = None \<longleftrightarrow> map_of (sd_index d) Unit = None \<and> adjacent (g_from g) a = []"
    "sd_output d1 = sd_output d @ (if map_of (sd_index d) Unit = None \<and> adjacent (g_from g) a \<noteq> [] then [[Unit]] else []) @ [[Vertex a]]"
    using connect_vertex [OF Cons.prems(1) new, of fuel g] by (elim exE conjE) (rule that)
  have "\<forall>b \<in> set keys. map_of (sd_index d1) (Vertex b) = None"
    using Cons.prems(2,3) d1(3) by auto
  from Cons.IH [OF d1(2) _ this] Cons.prems(2) obtain d2 where d2:
    "go_fold (\<lambda>a d. if map_of (sd_index d) (Vertex a) = None
        then go_bind (strongConnect (Suc (Suc fuel)) (range_values g) (Vertex a) d) (\<lambda>(_, d). Inr d) else Inr d) keys d1 = Inr d2"
    "mset (sd_output d2) = mset (sd_output d1) + image_mset (\<lambda>a. [Vertex a]) (mset keys) +
        (if map_of (sd_index d1) Unit = None \<and> (\<exists>a \<in> set keys. adjacent (g_from g) a \<noteq> []) then {#[Unit]#} else {#})"
    by auto
  have "mset (sd_output d2) = mset (sd_output d) + image_mset (\<lambda>a. [Vertex a]) (mset (a # keys)) +
        (if map_of (sd_index d) Unit = None \<and> (\<exists>a \<in> set (a # keys). adjacent (g_from g) a \<noteq> []) then {#[Unit]#} else {#})"
    unfolding d2(2) d1(4,5) by auto
  then show ?case using d1(1) d2(1) new by simp
qed simp

text \<open>C35: the search for strongly connected components returns, and finds none: every vertex is a component of its own, whatever
  the edges are, and as soon as there is an edge the empty struct is one more component.\<close>

theorem scc_finds_no_component:
  assumes "graph_ok g"
  shows "\<exists>out. SCC g = Inr out \<and> mset out = image_mset (\<lambda>a. [Vertex a]) (mset_set (set (g_vertices g))) +
    (if edges (g_from g) \<noteq> {} then {#[Unit]#} else {#})"
proof -
  let ?keys = "map fst (g_from g)"
  have keys: "distinct ?keys" "set ?keys = set (g_vertices g)"
    using assms by (auto simp: graph_ok_def dom_map_of_conv_image_fst)
  have "(\<exists>a \<in> set ?keys. adjacent (g_from g) a \<noteq> []) \<longleftrightarrow> edges (g_from g) \<noteq> {}"
    using ok_edge [OF assms] keys(2) by (auto simp: edges_def neq_Nil_conv) (metis list.set_intros(1))
  moreover have "mset ?keys = mset_set (set (g_vertices g))"
    using keys by (metis mset_set_set)
  moreover have "idle \<lparr>sd_nodes = [], sd_stack = [], sd_index = [], sd_output = []\<rparr>"
    by (simp add: idle_def)
  from scc_loop [OF this keys(1), of "length ?keys" g] keys(1)
  have "\<exists>out. SCC g = Inr out \<and> mset out = image_mset (\<lambda>a. [Vertex a]) (mset ?keys) +
      (if \<exists>a \<in> set ?keys. adjacent (g_from g) a \<noteq> [] then {#[Unit]#} else {#})"
    unfolding SCC_def Let_def add_2_eq_Suc' by (auto simp del: set_map mset_map)
  ultimately show ?thesis by simp
qed

lemma scc_finds_no_component_witness:
  "\<exists>g out. AddEdge 1 2 NewGraph = Inr g \<and> AddEdge 2 1 g = Inr \<lparr>g_vertices = [1, 2 :: nat], g_from = [(1, [2]), (2, [1])], g_to = [(1, [2]), (2, [1])]\<rparr>
    \<and> SCC \<lparr>g_vertices = [1, 2 :: nat], g_from = [(1, [2]), (2, [1])], g_to = [(1, [2]), (2, [1])]\<rparr> = Inr out
    \<and> mset out = {#[Vertex 1], [Vertex 2], [Unit]#}"
proof -
  let ?g = "\<lparr>g_vertices = [1, 2 :: nat], g_from = [(1, [2]), (2, [1])], g_to = [(1, [2]), (2, [1])]\<rparr>"
  have ok: "graph_ok ?g"
    by (auto simp: graph_ok_def adjacent_def)
  have "(1, 2) \<in> edges (g_from ?g)"
    by (simp add: adjacent_def)
  then have "edges (g_from ?g) \<noteq> {}" by blast
  moreover have "AddEdge 1 2 NewGraph = Inr \<lparr>g_vertices = [1, 2 :: nat], g_from = [(1, [2]), (2, [])], g_to = [(1, []), (2, [1])]\<rparr>"
    "AddEdge 2 1 \<lparr>g_vertices = [1, 2 :: nat], g_from = [(1, [2]), (2, [])], g_to = [(1, []), (2, [1])]\<rparr> = Inr ?g"
    by code_simp+
  ultimately show ?thesis
    using scc_finds_no_component [OF ok] by (simp del: edges_iff add: add_mset_commute)
qed

end
