(* ===== verification/Deployment.thy ===== *)
theory Deployment
  imports Quorums Containers
begin

text \<open>
  How a cluster gets its configuration: \<open>config.go\<close>, \<open>ConnectToMaster\<close> of \<open>util.go\<close>, the master (\<open>master/master.go\<close>), the
  program that writes a configuration (\<open>bin/create_config.go\<close>), and the database of the benchmark client
  (\<open>client/client.go\<close>). Files, connections and the formats are arguments: a JSON file is its two maps of
  addresses. The counts and flags that the protocols read are the \<open>config\<close> of Quorums; the settings of
  the benchmark and the sizes of buffers have no field.
\<close>

section \<open>The configuration\<close>

record Config =
  cf_Addrs :: "(ID, string) gomap"
  cf_AddrsStr :: "(string, string) gomap"
  cf_HTTPAddrs :: "(ID, string) gomap"
  cf_HTTPAddrsStr :: "(string, string) gomap"
  cf_Policy :: string
  cf_counts :: config

definition MakeDefaultConfig :: Config where
  "MakeDefaultConfig = \<lparr>cf_Addrs = [], cf_AddrsStr = [], cf_HTTPAddrs = [], cf_HTTPAddrsStr = [],
     cf_Policy = ''consecutive'', cf_counts = default_config\<rparr>"

definition Config_IDs :: "Config \<Rightarrow> ID list" where
  "Config_IDs c = map fst (cf_Addrs c)"

definition Config_N :: "Config \<Rightarrow> goint" where
  "Config_N c = cfg_n (cf_counts c)"

definition Config_Z :: "Config \<Rightarrow> goint" where
  "Config_Z c = cfg_z (cf_counts c)"

text \<open>Decoding into a map keeps its entries, in JSON and in gob.\<close>

definition put_all :: "('k, 'v) gomap \<Rightarrow> ('k, 'v) gomap \<Rightarrow> ('k, 'v) gomap" where
  "put_all xs m = fold (\<lambda>(k, v). AList.update k v) xs m"

text \<open>The loops over the textual identifiers.\<close>

definition by_id :: "(string, string) gomap \<Rightarrow> (ID, string) gomap" where
  "by_id m = put_all (map (\<lambda>(s, a). (NewIDFromString s, a)) m) []"

definition Config_Load :: "((string, string) gomap \<times> (string, string) gomap) option \<Rightarrow> Config \<Rightarrow> Config go" where
  "Config_Load file c =
     (case file of
        None \<Rightarrow> Inl InvalidArgument
      | Some (addrs, http) \<Rightarrow>
          let c1 = c\<lparr>cf_AddrsStr := put_all addrs (cf_AddrsStr c), cf_HTTPAddrsStr := put_all http (cf_HTTPAddrsStr c)\<rparr>;
              c2 = c1\<lparr>cf_Addrs := by_id (cf_AddrsStr c1), cf_HTTPAddrs := by_id (cf_HTTPAddrsStr c1)\<rparr>
          in Inr (c2\<lparr>cf_counts := Load_counts (map fst (cf_Addrs c2)) (cf_counts c2)\<rparr>))"

section \<open>The master\<close>

text \<open>Registration number \<open>i\<close> of the master; \<open>ports\<close> are its two port numbers.\<close>

definition register :: "goint \<times> goint \<Rightarrow> nat \<times> ID \<times> string \<Rightarrow> Config \<Rightarrow> Config" where
  "register ports = (\<lambda>(i, nid, addr) c.
     c\<lparr>cf_Addrs := AList.update nid (addr @ '':'' @ Itoa (fst ports + int i + 1)) (cf_Addrs c),
       cf_HTTPAddrs := AList.update nid (''http://'' @ addr @ '':'' @ Itoa (snd ports + int i + 1)) (cf_HTTPAddrs c)\<rparr>)"

text \<open>The configuration that the master sends once \<open>n\<close> nodes have registered; before that it waits.\<close>

definition master_config :: "nat \<Rightarrow> bool \<Rightarrow> goint \<times> goint \<Rightarrow> (ID \<times> string) list \<Rightarrow> Config go" where
  "master_config n thrifty ports regs =
     (let c = MakeDefaultConfig in
      if length regs < n then Inl Hang
      else Inr (fold (register ports) (enumerate 0 (take n regs)) (c\<lparr>cf_counts := (cf_counts c)\<lparr>cfg_Thrifty := thrifty\<rparr>\<rparr>)))"

text \<open>\<open>dec.Decode(&config)\<close>: gob sends exported fields only, and of these only those that are not zero.\<close>

definition gob_into :: "Config \<Rightarrow> Config \<Rightarrow> Config" where
  "gob_into r c =
     c\<lparr>cf_Addrs := put_all (cf_Addrs r) (cf_Addrs c), cf_AddrsStr := put_all (cf_AddrsStr r) (cf_AddrsStr c),
       cf_HTTPAddrs := put_all (cf_HTTPAddrs r) (cf_HTTPAddrs c), cf_HTTPAddrsStr := put_all (cf_HTTPAddrsStr r) (cf_HTTPAddrsStr c),
       cf_Policy := (if cf_Policy r = [] then cf_Policy c else cf_Policy r),
       cf_counts := (cf_counts c)\<lparr>cfg_Thrifty := cfg_Thrifty (cf_counts r) \<or> cfg_Thrifty (cf_counts c),
         cfg_UseRetroLog := cfg_UseRetroLog (cf_counts r) \<or> cfg_UseRetroLog (cf_counts c),
         cfg_MultiVersion := cfg_MultiVersion (cf_counts r) \<or> cfg_MultiVersion (cf_counts c)\<rparr>\<rparr>"

text \<open>\<open>None\<close> is a connection or an answer that fails.\<close>

definition ConnectToMaster :: "Config option \<Rightarrow> Config \<Rightarrow> Config go" where
  "ConnectToMaster answer c = (case answer of None \<Rightarrow> Inl InvalidArgument | Some r \<Rightarrow> Inr (gob_into r c))"

section \<open>Writing a configuration\<close>

definition ip_list :: "string list list \<Rightarrow> string list go" where
  "ip_list records = go_fold (\<lambda>r ips. go_bind (slice_at r 8) (\<lambda>ip. Inr (ips @ [ip]))) (tl records) []"

definition addresses :: "string \<Rightarrow> goint \<Rightarrow> string list \<Rightarrow> (string, string) gomap" where
  "addresses scheme port ips =
     put_all (map (\<lambda>(i, ip). (''1.'' @ Itoa (int i + 1), scheme @ ''://'' @ ip @ '':'' @ Itoa port)) (enumerate 0 ips)) []"

definition create_config :: "string list list \<Rightarrow> ((string, string) gomap \<times> (string, string) gomap) go" where
  "create_config records =
     go_bind (ip_list records) (\<lambda>ips. Inr (addresses ''tcp'' 1735 ips, addresses ''http'' 8081 ips))"

section \<open>The database of the benchmark client\<close>

text \<open>What \<open>Get\<close> returned: a value and whether there was an error.\<close>

definition db_Read :: "string option \<times> bool \<Rightarrow> string option \<times> bool" where
  "db_Read = (\<lambda>(v, err). if v = None \<or> v = Some [] then (None, False) else (v, err))"

definition db_Write :: "bool \<Rightarrow> bool" where
  "db_Write err = err"

section \<open>A configuration that was written is read back\<close>

lemma put_all_append:
  "distinct (map fst xs) \<Longrightarrow> fst ` set xs \<inter> fst ` set m = {} \<Longrightarrow> put_all xs m = m @ xs"
proof (induction xs arbitrary: m)
  case (Cons x xs)
  have new: "k \<notin> fst ` set m \<Longrightarrow> AList.update k v m = m @ [(k, v)]" for k v and m :: "('a \<times> 'b) list"
    by (induction m) auto
  obtain k v where x: "x = (k, v)" by (cases x)
  have "put_all (x # xs) m = put_all xs (m @ [x])"
    using Cons.prems new [of k m v] by (simp add: put_all_def x)
  moreover have "fst ` set xs \<inter> fst ` set (m @ [x]) = {}"
    using Cons.prems by auto
  ultimately show ?case
    using Cons.IH [of "m @ [x]"] Cons.prems(1) by simp
qed (simp add: put_all_def)

lemma map_of_put_all: "map_of (put_all xs m) k = (case map_of (rev xs) k of None \<Rightarrow> map_of m k | Some v \<Rightarrow> Some v)"
  by (induction xs arbitrary: m) (auto simp: put_all_def update_conv' map_add_def split: option.splits)

lemma Itoa_inj: "0 \<le> i \<Longrightarrow> i < 2 ^ 63 \<Longrightarrow> 0 \<le> j \<Longrightarrow> j < 2 ^ 63 \<Longrightarrow> Itoa i = Itoa j \<longleftrightarrow> i = j"
  by (metis Atoi_dec Itoa_def not_less option.inject)

lemma id_of_key: "0 \<le> k \<Longrightarrow> k < 2 ^ 16 \<Longrightarrow> NewIDFromString (''1.'' @ Itoa k) = NewID 1 k"
proof -
  assume k: "0 \<le> k" "k < 2 ^ 16"
  have "split_dot (''1'' @ CHR ''.'' # dec k) = [''1'', dec k]"
    using k by (subst split_dot_append) (simp_all add: split_dot_no_dot dot_notin_dec)
  moreover have "Atoi ''1'' = Some 1"
    using Atoi_dec [of 1] by (simp add: dec.simps digit_char_def char_of_def)
  ultimately show ?thesis
    using k by (simp add: NewIDFromString_def Itoa_def Atoi_dec)
qed

lemma NewID_1:
  assumes "0 \<le> k" "k < 2 ^ 16"
  shows "Node (NewID 1 k) = k \<and> Zone (NewID 1 k) = 1"
proof -
  have "uint (NewID 1 k) = 2 ^ 16 + k"
    using assms by (simp only: NewID_eq uint_word_of_int) simp
  then show ?thesis using assms by (simp add: Node_eq Zone_eq)
qed

lemma ids_distinct: "n < 2 ^ 16 \<Longrightarrow> distinct (map (\<lambda>i. NewID 1 (int i + 1)) [0..<n])"
proof -
  assume n: "n < 2 ^ 16"
  have "i = j" if "i < n" "j < n" "NewID 1 (int i + 1) = NewID 1 (int j + 1)" for i j
  proof -
    have "Node (NewID 1 (int i + 1)) = int i + 1" "Node (NewID 1 (int j + 1)) = int j + 1"
      using NewID_1 [of "int i + 1"] NewID_1 [of "int j + 1"] that(1,2) n by simp_all
    then show ?thesis using that(3) by (metis add_right_cancel of_nat_eq_iff)
  qed
  then show ?thesis by (auto simp: distinct_map inj_on_def)
qed

lemma addresses_eq:
  assumes "length ips < 2 ^ 16"
  shows "addresses s p ips = map (\<lambda>i. (''1.'' @ Itoa (int i + 1), s @ ''://'' @ ips ! i @ '':'' @ Itoa p)) [0..<length ips]"
proof -
  let ?xs = "map (\<lambda>i. (''1.'' @ Itoa (int i + 1), s @ ''://'' @ ips ! i @ '':'' @ Itoa p)) [0..<length ips]"
  have "map (\<lambda>(i, ip). (''1.'' @ Itoa (int i + 1), s @ ''://'' @ ip @ '':'' @ Itoa p)) (enumerate 0 ips) = ?xs"
    by (rule nth_equalityI) (simp_all add: nth_enumerate_eq)
  moreover have "distinct (map fst ?xs)"
    using assms by (auto simp: distinct_map inj_on_def o_def Itoa_inj)
  ultimately show ?thesis
    using put_all_append [of ?xs "[]"] unfolding addresses_def by simp
qed

lemma by_id_addresses:
  assumes "length ips < 2 ^ 16"
  shows "by_id (addresses s p ips) = map (\<lambda>i. (NewID 1 (int i + 1), s @ ''://'' @ ips ! i @ '':'' @ Itoa p)) [0..<length ips]"
proof -
  let ?xs = "map (\<lambda>i. (NewID 1 (int i + 1), s @ ''://'' @ ips ! i @ '':'' @ Itoa p)) [0..<length ips]"
  have "map (\<lambda>(s, a). (NewIDFromString s, a)) (addresses s p ips) = ?xs"
    using assms by (simp add: addresses_eq id_of_key [simplified])
  moreover have "distinct (map fst ?xs)"
    using ids_distinct [OF assms] by (simp add: o_def)
  ultimately show ?thesis
    using put_all_append [of ?xs "[]"] unfolding by_id_def by simp
qed

lemma ip_list_eq:
  assumes "\<forall>r \<in> set (tl records). 8 < length r"
  shows "ip_list records = Inr (map (\<lambda>r. r ! 8) (tl records))"
proof -
  have "go_fold (\<lambda>r ips. go_bind (slice_at r 8) (\<lambda>ip. Inr (ips @ [ip]))) rs ips = Inr (ips @ map (\<lambda>r. r ! 8) rs)"
    if "\<forall>r \<in> set rs. 8 < length r" for rs :: "string list list" and ips
    using that by (induction rs arbitrary: ips) (simp_all add: slice_at_def)
  from this [OF assms, of "[]"] show ?thesis by (simp add: ip_list_def)
qed


lemma one_zone:
  assumes "xs \<noteq> []" "\<forall>i \<in> set xs. Zone i = 1"
  shows "cfg_n (Load_counts xs default_config) = int (length xs) \<and> cfg_z (Load_counts xs default_config) = 1"
proof -
  have "cfg_n (fold (\<lambda>i c. c\<lparr>cfg_n := cfg_n c + 1, cfg_npz := incr (Zone i) (cfg_npz c)\<rparr>) xs c) = cfg_n c + int (length xs) \<and>
      length (cfg_npz (fold (\<lambda>i c. c\<lparr>cfg_n := cfg_n c + 1, cfg_npz := incr (Zone i) (cfg_npz c)\<rparr>) xs c)) = 1"
    if "xs = [] \<longrightarrow> map fst (cfg_npz c) = [1]" "map fst (cfg_npz c) \<in> {[], [1]}" for c
    using assms(2) that
  proof (induction xs arbitrary: c)
    case (Cons x xs)
    have "map fst (incr (Zone x) (cfg_npz c)) = [1]"
      using Cons.prems by (auto simp: incr_def map_eq_Cons_conv)
    then show ?case using Cons by simp
  qed (auto simp: map_eq_Cons_conv)
  from this [of "default_config\<lparr>cfg_npz := []\<rparr>"] show ?thesis
    using assms(1) by (simp add: Load_counts_def default_config_def Let_def)
qed

text \<open>a configuration written by \<open>create_config\<close> is read back: from a table with a header and the address of a node in the
  ninth column of every row, fewer than 65536, \<open>Load\<close> gives as many nodes as rows, the node \<open>1.k\<close> with the address
  of row \<open>k\<close>, and one zone; a row that is too short ends \<open>create_config\<close> with a panic.\<close>

theorem created_config_loads:
  assumes "ips = map (\<lambda>r. r ! 8) rows" "length rows < 2 ^ 16" "\<forall>r \<in> set rows. 8 < length r"
  shows "\<exists>file c. create_config (header # rows) = Inr file \<and> Config_Load (Some file) MakeDefaultConfig = Inr c
      \<and> cf_Addrs c = map (\<lambda>i. (NewID 1 (int i + 1), ''tcp://'' @ ips ! i @ '':1735'')) [0..<length rows]
      \<and> cf_HTTPAddrs c = map (\<lambda>i. (NewID 1 (int i + 1), ''http://'' @ ips ! i @ '':8081'')) [0..<length rows]
      \<and> distinct (Config_IDs c) \<and> Config_N c = int (length rows) \<and> (rows \<noteq> [] \<longrightarrow> Config_Z c = 1)
    \<and> create_config (header # rows @ [[]]) = Inl IndexOutOfRange"
proof -
  let ?file = "(addresses ''tcp'' 1735 ips, addresses ''http'' 8081 ips)"
  have len: "length ips < 2 ^ 16" "length ips = length rows"
    using assms(1,2) by simp_all
  have written: "create_config (header # rows) = Inr ?file"
    using assms(3) by (simp add: create_config_def ip_list_eq assms(1))
  have put: "put_all (addresses s p ips) [] = addresses s p ips" for s p
    using len by (intro trans [OF put_all_append]) (auto simp: addresses_eq distinct_map inj_on_def o_def Itoa_inj)
  have ports: "Itoa 1735 = ''1735''" "Itoa 8081 = ''8081''"
    by (simp_all add: Itoa_def dec.simps digit_char_def char_of_def)
  let ?ids = "map (\<lambda>i. NewID 1 (int i + 1)) [0..<length rows]"
  have node: "Node (NewID 1 (int i + 1)) = int i + 1 \<and> Zone (NewID 1 (int i + 1)) = 1" if "i < length rows" for i
    using NewID_1 [of "int i + 1"] that assms(2) by simp
  have ids: "distinct ?ids"
    using ids_distinct assms(2) by blast
  obtain c where c: "Config_Load (Some ?file) MakeDefaultConfig = Inr c" "map fst (cf_Addrs c) = ?ids"
    "cf_Addrs c = map (\<lambda>i. (NewID 1 (int i + 1), ''tcp://'' @ ips ! i @ '':1735'')) [0..<length rows]"
    "cf_HTTPAddrs c = map (\<lambda>i. (NewID 1 (int i + 1), ''http://'' @ ips ! i @ '':8081'')) [0..<length rows]"
    "cf_counts c = Load_counts ?ids default_config"
    using by_id_addresses [OF len(1)] len(2) by (simp add: Config_Load_def MakeDefaultConfig_def put ports o_def)
  have counts: "cfg_n (cf_counts c) = int (length rows) \<and> (rows \<noteq> [] \<longrightarrow> cfg_z (cf_counts c) = 1)"
  proof (cases "rows = []")
    case False
    then show ?thesis using one_zone [of ?ids] node unfolding c(5) by simp
  qed (simp add: c(5) Load_counts_def default_config_def)
  have "go_fold f (rs @ [[]]) xs = Inl IndexOutOfRange"
    if "\<forall>r \<in> set rs. 8 < length r" "f = (\<lambda>r ips. go_bind (slice_at r 8) (\<lambda>ip. Inr (ips @ [ip])))"
    for rs :: "string list list" and xs f
    using that by (induction rs arbitrary: xs) (simp_all add: slice_at_def)
  then have "create_config (header # rows @ [[]]) = Inl IndexOutOfRange"
    using assms(3) by (simp add: create_config_def ip_list_def)
  then show ?thesis
    using written c counts ids by (intro exI [of _ ?file] exI [of _ c]) (simp add: Config_IDs_def Config_N_def Config_Z_def o_def)
qed

lemma created_config_loads_witness:
  "\<exists>file c. create_config [[], [[], [], [], [], [], [], [], [], ''10.0.0.7'']] = Inr file \<and> Config_Load (Some file) MakeDefaultConfig = Inr c
    \<and> cf_Addrs c = [(NewID 1 1, ''tcp://10.0.0.7:1735'')]"
  using created_config_loads [OF refl, of "[[[], [], [], [], [], [], [], [], ''10.0.0.7'']]" "[]"] by auto

section \<open>What a master does not send\<close>

lemma register_fields:
  "cf_Addrs (fold (register ports) rs c) = put_all (map (\<lambda>(i, nid, addr). (nid, addr @ '':'' @ Itoa (fst ports + int i + 1))) rs) (cf_Addrs c)
    \<and> cf_counts (fold (register ports) rs c) = cf_counts c"
  by (induction rs arbitrary: c) (auto simp: register_def put_all_def)

text \<open>a node that gets its configuration from a master has the addresses of all nodes that have registered, each with the port of its
  turn, but its counts of nodes and zones stay those of its own file: \<open>n\<close>, \<open>z\<close> and \<open>npz\<close> are not exported,
  so they are not sent. A node whose file lists at most one node takes a single vote for a majority,
  however many nodes have registered.\<close>

theorem master_sends_no_counts:
  assumes "master_config n thrifty ports regs = Inr m" "ConnectToMaster (Some m) c = Inr c1" "distinct (map fst (take n regs))"
  shows "n \<le> length regs
    \<and> (\<forall>k < n. map_of (cf_Addrs c1) (fst (regs ! k)) = Some (snd (regs ! k) @ '':'' @ Itoa (fst ports + int k + 1)))
    \<and> Config_N c1 = Config_N c \<and> Config_Z c1 = Config_Z c
    \<and> (Config_N c \<le> 1 \<and> 0 \<le> Config_N c \<longrightarrow> Majority (cf_counts c1) (ACK i NewQuorum))"
proof -
  have n: "n \<le> length regs" and m: "m = fold (register ports) (enumerate 0 (take n regs))
      (MakeDefaultConfig\<lparr>cf_counts := (cf_counts MakeDefaultConfig)\<lparr>cfg_Thrifty := thrifty\<rparr>\<rparr>)"
    using assms(1) by (auto simp: master_config_def split: if_splits)
  have c1: "c1 = gob_into m c"
    using assms(2) by (simp add: ConnectToMaster_def)
  let ?xs = "map (\<lambda>k. (fst (regs ! k), snd (regs ! k) @ '':'' @ Itoa (fst ports + int k + 1))) [0..<n]"
  have "map (\<lambda>(i, nid, addr). (nid, addr @ '':'' @ Itoa (fst ports + int i + 1))) (enumerate 0 (take n regs)) = ?xs"
    using n by (intro nth_equalityI) (simp_all add: nth_enumerate_eq split_beta)
  moreover have keys: "map fst ?xs = map fst (take n regs)"
    using n by (intro nth_equalityI) simp_all
  ultimately have "cf_Addrs m = ?xs"
    using register_fields [of ports "enumerate 0 (take n regs)"] assms(3) put_all_append [of ?xs "[]"] unfolding m
    by (simp add: MakeDefaultConfig_def)
  then have addrs: "map_of (cf_Addrs c1) k = (case map_of (rev ?xs) k of None \<Rightarrow> map_of (cf_Addrs c) k | Some v \<Rightarrow> Some v)" for k
    by (simp add: c1 gob_into_def map_of_put_all)
  have "map_of (cf_Addrs c1) (fst (regs ! k)) = Some (snd (regs ! k) @ '':'' @ Itoa (fst ports + int k + 1))" if "k < n" for k
  proof -
    have "distinct (map fst (rev ?xs))"
      using keys assms(3) by (metis distinct_rev rev_map)
    then have "map_of (rev ?xs) (fst (regs ! k)) = Some (snd (regs ! k) @ '':'' @ Itoa (fst ports + int k + 1))"
      using that by (intro map_of_is_SomeI) auto
    then show ?thesis by (simp only: addrs option.case)
  qed
  then show ?thesis
    using n by (auto simp: c1 gob_into_def Config_N_def Config_Z_def Majority_def ACK_def NewQuorum_def signed_divide_int_def)
qed

lemma master_sends_no_counts_witness:
  "\<exists>c1. ConnectToMaster (Some (fold (register (1735, 8080)) [(0, NewID 1 1, ''a''), (1, NewID 1 2, ''b''), (2, NewID 1 3, ''c'')] MakeDefaultConfig))
      MakeDefaultConfig = Inr c1 \<and> length (cf_Addrs c1) = 3 \<and> Majority (cf_counts c1) (ACK (NewID 1 2) NewQuorum)"
proof -
  let ?regs = "[(NewID 1 1, ''a''), (NewID 1 2, ''b''), (NewID 1 3, ''c'')]"
  let ?m = "fold (register (1735, 8080)) [(0, NewID 1 1, ''a''), (1, NewID 1 2, ''b''), (2, NewID 1 3, ''c'')] MakeDefaultConfig"
  have m: "master_config 3 False (1735, 8080) ?regs = Inr ?m"
    by (simp add: master_config_def MakeDefaultConfig_def default_config_def numeral_2_eq_2)
  have ids: "NewID 1 1 = 0x10001" "NewID 1 2 = 0x10002" "NewID 1 3 = 0x10003"
    by (simp_all add: NewID_eq)
  have "Majority (cf_counts (gob_into ?m MakeDefaultConfig)) (ACK (NewID 1 2) NewQuorum)"
    using master_sends_no_counts [OF m, of MakeDefaultConfig "gob_into ?m MakeDefaultConfig" "NewID 1 2"]
    by (simp add: ConnectToMaster_def ids Config_N_def MakeDefaultConfig_def default_config_def)
  then show ?thesis
    by (simp add: ConnectToMaster_def gob_into_def ids register_def put_all_def MakeDefaultConfig_def)
qed

end
