(* ===== verification/Logger.thy ===== *)
theory Logger
  imports Go_Prelude
begin

text \<open>
  The logger of \<open>log/log.go\<close>: its threshold, and what its calls write. The text of a call is an argument, as are
  date, time and the place of the call; the two outputs are the lists of the lines with their prefixes.
\<close>

section \<open>Severities\<close>

datatype severity = DEBUG | INFO | WARNING | ERROR

definition severities :: "severity list" where
  "severities = [DEBUG, INFO, WARNING, ERROR]"

fun severity_String :: "severity \<Rightarrow> string" where
  "severity_String DEBUG = ''DEBUG''"
| "severity_String INFO = ''INFO''"
| "severity_String WARNING = ''WARNING''"
| "severity_String ERROR = ''ERROR''"

fun level :: "severity \<Rightarrow> nat" where
  "level DEBUG = 0" | "level INFO = 1" | "level WARNING = 2" | "level ERROR = 3"

instantiation severity :: linorder
begin

definition less_eq_severity :: "severity \<Rightarrow> severity \<Rightarrow> bool" where
  "s \<le> t \<longleftrightarrow> level s \<le> level t"

definition less_severity :: "severity \<Rightarrow> severity \<Rightarrow> bool" where
  "s < t \<longleftrightarrow> level s < level t"

instance
proof
  fix s t :: severity
  show "s \<le> t \<Longrightarrow> t \<le> s \<Longrightarrow> s = t"
    by (cases s; cases t) (simp_all add: less_eq_severity_def)
qed (auto simp: less_eq_severity_def less_severity_def)

end

text \<open>\<open>strings.ToUpper\<close> on the letters of ASCII.\<close>

definition to_upper :: "string \<Rightarrow> string" where
  "to_upper = map (\<lambda>c. if 97 \<le> (of_char c :: nat) \<and> (of_char c :: nat) \<le> 122 then char_of (of_char c - 32 :: nat) else c)"

definition severity_Set :: "string \<Rightarrow> severity" where
  "severity_Set value = fold (\<lambda>s threshold. if severity_String s = to_upper value then s else threshold) severities INFO"

section \<open>The logger\<close>

text \<open>The lines on the standard output and on the standard error; after \<open>Setup\<close> both go to a file, the second
  also to the standard error. \<open>log_ended\<close> says that the process has ended.\<close>

record logger =
  log_severity :: severity
  log_file :: "string list option"
  log_out :: "string list"
  log_err :: "string list"
  log_ended :: bool

definition default_logger :: logger where
  "default_logger = \<lparr>log_severity = DEBUG, log_file = None, log_out = [], log_err = [], log_ended = False\<rparr>"

text \<open>\<open>Setup\<close>, with the error of creating the file; it goes to the standard logger, which ends the process.\<close>

definition Setup :: "string option \<Rightarrow> logger \<Rightarrow> logger" where
  "Setup failed l =
     (case failed of
        None \<Rightarrow> l\<lparr>log_file := Some []\<rparr>
      | Some e \<Rightarrow> l\<lparr>log_err := log_err l @ [e], log_ended := True\<rparr>)"

definition write_out :: "string \<Rightarrow> logger \<Rightarrow> logger" where
  "write_out line l =
     (case log_file l of None \<Rightarrow> l\<lparr>log_out := log_out l @ [line]\<rparr> | Some f \<Rightarrow> l\<lparr>log_file := Some (f @ [line])\<rparr>)"

definition write_err :: "string \<Rightarrow> logger \<Rightarrow> logger" where
  "write_err line l =
     (let l1 = l\<lparr>log_err := log_err l @ [line]\<rparr>
      in case log_file l of None \<Rightarrow> l1 | Some f \<Rightarrow> l1\<lparr>log_file := Some (f @ [line])\<rparr>)"

definition log_Debug :: "string \<Rightarrow> logger \<Rightarrow> logger" where
  "log_Debug v l = (if log_severity l = DEBUG then write_out (''[DEBUG] '' @ v) l else l)"

definition log_Info :: "string \<Rightarrow> logger \<Rightarrow> logger" where
  "log_Info v l = (if log_severity l \<le> INFO then write_out (''[INFO] '' @ v) l else l)"

definition log_Warning :: "string \<Rightarrow> logger \<Rightarrow> logger" where
  "log_Warning v l = (if log_severity l \<le> WARNING then write_err (''[WARNING] '' @ v) l else l)"

definition log_Error :: "string \<Rightarrow> logger \<Rightarrow> logger" where
  "log_Error v l = write_err (''[ERROR] '' @ v) l"

text \<open>\<open>Fatal\<close> writes the text a second time, by the standard logger and without its prefix.\<close>

definition log_Fatal :: "string \<Rightarrow> logger \<Rightarrow> logger" where
  "log_Fatal v l = (let l1 = log_Error v l in l1\<lparr>log_err := log_err l1 @ [v], log_ended := True\<rparr>)"

text \<open>The calls with a format, of which \<open>sprintf\<close> makes the text.\<close>

definition log_Debugf :: "('v \<Rightarrow> string) \<Rightarrow> 'v \<Rightarrow> logger \<Rightarrow> logger" where
  "log_Debugf sprintf v l = (if log_severity l = DEBUG then write_out (''[DEBUG] '' @ sprintf v) l else l)"

definition log_Infof :: "('v \<Rightarrow> string) \<Rightarrow> 'v \<Rightarrow> logger \<Rightarrow> logger" where
  "log_Infof sprintf v l = (if log_severity l \<le> INFO then write_out (''[INFO] '' @ sprintf v) l else l)"

definition log_Warningf :: "('v \<Rightarrow> string) \<Rightarrow> 'v \<Rightarrow> logger \<Rightarrow> logger" where
  "log_Warningf sprintf v l = (if log_severity l \<le> WARNING then write_err (''[WARNING] '' @ sprintf v) l else l)"

definition log_Errorf :: "('v \<Rightarrow> string) \<Rightarrow> 'v \<Rightarrow> logger \<Rightarrow> logger" where
  "log_Errorf sprintf v l = write_err (''[ERROR] '' @ sprintf v) l"

definition log_Fatalf :: "('v \<Rightarrow> string) \<Rightarrow> 'v \<Rightarrow> logger \<Rightarrow> logger" where
  "log_Fatalf sprintf v l =
     (let l1 = log_Errorf sprintf v l in l1\<lparr>log_err := log_err l1 @ [sprintf v], log_ended := True\<rparr>)"

lemma formatted_calls:
  "log_Debugf f v = log_Debug (f v)" "log_Infof f v = log_Info (f v)" "log_Warningf f v = log_Warning (f v)"
  "log_Errorf f v = log_Error (f v)" "log_Fatalf f v = log_Fatal (f v)"
  by (simp_all add: fun_eq_iff log_Debugf_def log_Debug_def log_Infof_def log_Info_def log_Warningf_def log_Warning_def
      log_Errorf_def log_Error_def log_Fatalf_def log_Fatal_def Let_def)

text \<open>The list of free buffers, to which nothing is ever returned. \<open>print\<close> and \<open>printf\<close> fill a buffer with their text and drop it,
  so nothing is written; the first looks at the last byte, which an empty text does not have.\<close>

definition getBuffer :: "string list \<Rightarrow> string \<times> string list" where
  "getBuffer free = ([], case free of [] \<Rightarrow> [] | b # rest \<Rightarrow> rest)"

definition log_print :: "string \<Rightarrow> string list \<Rightarrow> (string \<times> string list) go" where
  "log_print text free =
     (let (buf, rest) = getBuffer free; buf1 = buf @ text
      in if buf1 = [] then Inl IndexOutOfRange
         else Inr (if last buf1 \<noteq> CHR 0x0A then buf1 @ [CHR 0x0A] else buf1, rest))"

definition log_printf :: "('v \<Rightarrow> string) \<Rightarrow> 'v \<Rightarrow> string list \<Rightarrow> string \<times> string list" where
  "log_printf sprintf v free = (let (buf, rest) = getBuffer free in (buf @ sprintf v, rest))"

section \<open>What is written\<close>

definition log_at :: "severity \<Rightarrow> string \<Rightarrow> logger \<Rightarrow> logger" where
  "log_at s = (case s of DEBUG \<Rightarrow> log_Debug | INFO \<Rightarrow> log_Info | WARNING \<Rightarrow> log_Warning | ERROR \<Rightarrow> log_Error)"

text \<open>The names of the severities are read back, in any case of the letters, and other names give \<open>INFO\<close>; a call writes
  exactly when its severity is at or above the threshold, and after \<open>Setup\<close> every line is in the file.\<close>

theorem log_levels:
  "severity_Set (severity_String s) = s
    \<and> (to_upper v \<notin> severity_String ` {DEBUG, INFO, WARNING, ERROR} \<longrightarrow> severity_Set v = INFO)
    \<and> (log_at s v l \<noteq> l \<longleftrightarrow> log_severity l \<le> s)
    \<and> (log_file l = Some f \<longrightarrow> log_file (log_at s v l) = Some (f @ (if log_severity l \<le> s then [''['' @ severity_String s @ ''] '' @ v] else [])))"
proof (intro conjI impI)
  have up: "to_upper (severity_String s) = severity_String s"
    by (cases s) (simp_all add: to_upper_def)
  then show "severity_Set (severity_String s) = s"
    by (cases s) (simp_all add: severity_Set_def severities_def)
  show "severity_Set v = INFO" if "to_upper v \<notin> severity_String ` {DEBUG, INFO, WARNING, ERROR}"
    using that by (auto simp: severity_Set_def severities_def)
  have differs: "l\<lparr>log_err := log_err l @ [x]\<rparr> \<noteq> l" "l\<lparr>log_out := log_out l @ [x]\<rparr> \<noteq> l"
    "l\<lparr>log_err := log_err l @ [x], log_file := Some (g @ [x])\<rparr> \<noteq> l" "log_file l = Some g \<Longrightarrow> l\<lparr>log_file := Some (g @ [x])\<rparr> \<noteq> l" for x g
    by (cases l; simp)+
  show "log_at s v l \<noteq> l \<longleftrightarrow> log_severity l \<le> s"
    using differs
    by (cases s; cases "log_severity l")
      (simp_all add: log_at_def log_Debug_def log_Info_def log_Warning_def log_Error_def write_out_def write_err_def
        less_eq_severity_def Let_def split: option.split)
  show "log_file (log_at s v l) = Some (f @ (if log_severity l \<le> s then [''['' @ severity_String s @ ''] '' @ v] else []))"
    if "log_file l = Some f"
    using that
    by (cases s; cases "log_severity l")
      (simp_all add: log_at_def log_Debug_def log_Info_def log_Warning_def log_Error_def write_out_def write_err_def
        less_eq_severity_def Let_def)
qed

end
