(* ===== verification/PaxosSystem.thy ===== *)
theory PaxosSystem
  imports PaxosFacts PigSystem
begin

text \<open>
  A cluster of replicas of \<open>Paxos\<close> over an asynchronous network. The protocol core of \<open>paxos.go\<close> is close to
  that of \<open>pigpaxos.go\<close>, and the invariant of PigSafety is reused: a Paxos replica is seen as a PigPaxos
  replica (\<open>pig_view\<close>) that has made the same proposals, and every operation of Paxos is shown to be a
  sequence of the primitive changes of state that keep the invariant there. Only the part of the invariant
  about the replica's own proposals is used (\<open>Q = UNIV\<close>): what an entry of the log says about its ballot does not
  survive a recovery, as the last section shows.
\<close>

section \<open>A Paxos replica as a PigPaxos replica\<close>

fun pig_msg :: "paxos_msg \<Rightarrow> msg" where
  "pig_msg (X_P1a m) = M_P1a m"
| "pig_msg (X_P1b m) = M_P1b m"
| "pig_msg (X_P2a m) = M_P2a m"
| "pig_msg (X_P2b m) = M_P2b (P2b [V_ID m] (V_Ballot m) (V_Slot m))"
| "pig_msg (X_P3 m) = M_P3 m"
| "pig_msg (X_RecoverRequest m) = M_P3 (P3 (Q_Ballot m) (Q_Slots m))"
| "pig_msg (X_RecoverReply m) = M_P3 (P3 (A_Ballot m) (A_Slots m))"

fun pig_call :: "paxos_call \<Rightarrow> call" where
  "pig_call (XSend to m) = CSend to (pig_msg m)"
| "pig_call (XBroadcast m) = CBroadcast (pig_msg m)"
| "pig_call (XMulticastQuorum k m) = CBroadcast (pig_msg m)"
| "pig_call (XForward to r) = CForward to r"
| "pig_call (XReply r y) = CReply r y"

definition pig_view :: "paxos \<Rightarrow> pigpaxos" where
  "pig_view p =
     \<lparr>pid = x_id p, db = x_db p, logm = x_log p, slot = x_slot p, execute = x_execute p,
      lastCleanupMarker = x_lastCleanupMarker p, globalExecute = x_globalExecuted p,
      executeByNode = x_executeByNode p, active = x_active p, ballot = x_ballot p, p1aTime = 0,
      quorum = x_quorum p, requests = x_requests p, p3PendingBallot = x_p3PendingBallot p,
      p3pendingSlots = x_p3pendingSlots p, lastP3Time = x_lastP3Time p,
      ReplyWhenCommit = x_ReplyWhenCommit p, calls = map pig_call (x_calls p)\<rparr>"

lemma pig_view_sel [simp]:
  "pid (pig_view p) = x_id p" "logm (pig_view p) = x_log p" "slot (pig_view p) = x_slot p"
  "execute (pig_view p) = x_execute p" "active (pig_view p) = x_active p"
  "ballot (pig_view p) = x_ballot p" "calls (pig_view p) = map pig_call (x_calls p)"
  by (simp_all add: pig_view_def)

lemma pig_view_steps:
  "pig_view (x_emit x p) = emit (pig_call x) (pig_view p)"
  "pig_view (x_set_entry s e p) = set_entry s e (pig_view p)"
  "pig_view (p\<lparr>x_active := a\<rparr>) = (pig_view p)\<lparr>active := a\<rparr>"
  "pig_view (p\<lparr>x_ballot := b\<rparr>) = (pig_view p)\<lparr>ballot := b\<rparr>"
  "pig_view (p\<lparr>x_slot := s\<rparr>) = (pig_view p)\<lparr>slot := s\<rparr>"
  "pig_view (p\<lparr>x_log := l\<rparr>) = (pig_view p)\<lparr>logm := l\<rparr>"
  "pig_view (p\<lparr>x_db := d\<rparr>) = (pig_view p)\<lparr>db := d\<rparr>"
  "pig_view (p\<lparr>x_execute := i\<rparr>) = (pig_view p)\<lparr>execute := i\<rparr>"
  "pig_view (p\<lparr>x_quorum := q\<rparr>) = (pig_view p)\<lparr>quorum := q\<rparr>"
  "pig_view (p\<lparr>x_requests := rs\<rparr>) = (pig_view p)\<lparr>requests := rs\<rparr>"
  "pig_view (p\<lparr>x_p3PendingBallot := b\<rparr>) = (pig_view p)\<lparr>p3PendingBallot := b\<rparr>"
  "pig_view (p\<lparr>x_p3pendingSlots := ss\<rparr>) = (pig_view p)\<lparr>p3pendingSlots := ss\<rparr>"
  "pig_view (p\<lparr>x_lastP3Time := t\<rparr>) = (pig_view p)\<lparr>lastP3Time := t\<rparr>"
  "pig_view (p\<lparr>x_lastCleanupMarker := i\<rparr>) = (pig_view p)\<lparr>lastCleanupMarker := i\<rparr>"
  "pig_view (p\<lparr>x_globalExecuted := i\<rparr>) = (pig_view p)\<lparr>globalExecute := i\<rparr>"
  "pig_view (p\<lparr>x_executeByNode := m\<rparr>) = (pig_view p)\<lparr>executeByNode := m\<rparr>"
  by (simp_all add: pig_view_def x_emit_def emit_def x_set_entry_def set_entry_def)

text \<open>The invariant of a replica \<open>i\<close>.\<close>

definition x_good :: "ID \<Rightarrow> paxos \<Rightarrow> bool" where
  "x_good i p \<longleftrightarrow> x_id p = i \<and> good UNIV (pig_view p)"

lemma msg_ok_UNIV [simp]: "msg_ok UNIV m"
  by (induction "UNIV :: proposal set" m rule: msg_ok.induct) (auto simp: promise_ok_def)

definition x_proposes :: "paxos_call \<Rightarrow> bool" where
  "x_proposes x \<longleftrightarrow> is_proposal (pig_call x)"

lemma x_proposes_simps [simp]:
  "x_proposes (XSend to m) = (\<exists>a. m = X_P2a a)" "x_proposes (XBroadcast m) = (\<exists>a. m = X_P2a a)"
  "\<not> x_proposes (XForward to r)" "\<not> x_proposes (XReply r y)"
  by (cases m; simp add: x_proposes_def)+

lemma x_good_emit: "x_good i p \<Longrightarrow> \<not> x_proposes x \<Longrightarrow> x_good i (x_emit x p)"
  by (simp add: x_good_def pig_view_steps x_proposes_def good_emit)

lemma x_good_irrelevant [simp]:
  "x_good i (p\<lparr>x_db := d\<rparr>) = x_good i p" "x_good i (p\<lparr>x_execute := k\<rparr>) = x_good i p"
  "x_good i (p\<lparr>x_quorum := q\<rparr>) = x_good i p" "x_good i (p\<lparr>x_requests := rs\<rparr>) = x_good i p"
  "x_good i (p\<lparr>x_p3PendingBallot := b\<rparr>) = x_good i p" "x_good i (p\<lparr>x_p3pendingSlots := ss\<rparr>) = x_good i p"
  "x_good i (p\<lparr>x_lastP3Time := t\<rparr>) = x_good i p" "x_good i (p\<lparr>x_lastCleanupMarker := k\<rparr>) = x_good i p"
  "x_good i (p\<lparr>x_globalExecuted := k\<rparr>) = x_good i p" "x_good i (p\<lparr>x_executeByNode := m\<rparr>) = x_good i p"
  by (simp_all add: x_good_def pig_view_steps)

lemma x_good_slot: "x_good i p \<Longrightarrow> x_slot p \<le> s \<Longrightarrow> x_good i (p\<lparr>x_slot := s\<rparr>)"
  by (simp add: x_good_def pig_view_steps good_slot)

lemma x_good_step_down:
  assumes "x_good i p" "x_ballot p < b \<or> (b = x_ballot p \<and> Ballot_ID b \<noteq> i)"
  shows "x_good i (p\<lparr>x_ballot := b, x_active := False\<rparr>)"
  using assms good_step_down [of UNIV "pig_view p" b] by (auto simp: x_good_def pig_view_steps)

lemma x_good_entry_commit: "x_good i p \<Longrightarrow> e_commit e \<Longrightarrow> x_good i (x_set_entry s e p)"
  by (simp add: x_good_def pig_view_steps good_set_entry)

lemma x_good_same_entry:
  "x_good i p \<Longrightarrow> fmlookup (x_log p) s = Some e \<Longrightarrow> e_ballot e' = e_ballot e \<Longrightarrow>
     e_command e' = e_command e \<Longrightarrow> (e_commit e \<longrightarrow> e_commit e') \<Longrightarrow> x_good i (x_set_entry s e' p)"
  by (simp add: x_good_def pig_view_steps good_same_entry)

lemma x_good_idle_entry: "x_good i p \<Longrightarrow> \<not> x_active p \<Longrightarrow> x_good i (x_set_entry s e p)"
  by (simp add: x_good_def pig_view_steps good_idle_entry)

lemma x_good_fold:
  "x_good i p \<Longrightarrow> (\<And>x q. x \<in> set xs \<Longrightarrow> x_good i q \<Longrightarrow> x_good i (f x q)) \<Longrightarrow> x_good i (fold f xs p)"
  by (rule fold_invariant)

lemma x_good_NewPaxos: "x_good i (NewPaxos c ids i)"
proof -
  have "good UNIV (pig_view (NewPaxos c ids i))"
    by (simp add: good_defs pig_view_def NewPaxos_def proposals_def sent_def)
  then show ?thesis
    by (simp add: x_good_def NewPaxos_def)
qed

section \<open>The operations keep the invariant\<close>

lemma x_good_recover [intro!]: "x_good i p \<Longrightarrow> x_good i (Paxos_sendRecoverRequest b ss p)"
  by (simp add: Paxos_sendRecoverRequest_def x_good_emit)

lemma x_good_exec [intro!]: "x_good i p \<Longrightarrow> x_good i (Paxos_exec p)"
proof (induction p rule: Paxos_exec_induct)
  case (step p e)
  have "x_good i (Paxos_exec_entry e p)"
    unfolding Paxos_exec_entry_def Let_def using step
    by (auto split: prod.splits option.splits intro!: x_good_same_entry x_good_emit)
  then show ?case using step by blast
qed

lemma x_good_forward [intro!]: "x_good i p \<Longrightarrow> x_good i (Paxos_forward p)"
  by (auto simp: Paxos_forward_def intro!: x_good_fold x_good_emit)

lemma x_good_P1a:
  assumes "x_good i p" "Ballot_N (x_ballot p) < 2 ^ 32 - 1"
  shows "x_good i (Paxos_P1a p)"
proof (cases "x_active p")
  case False
  have "x_good i (p\<lparr>x_ballot := Ballot_Next (x_ballot p) i, x_active := False\<rparr>)"
    using assms by (intro x_good_step_down) (auto simp: Ballot_Next_greater)
  moreover have "p\<lparr>x_ballot := b, x_active := False\<rparr> = p\<lparr>x_ballot := b\<rparr>" for b
    using False by simp
  moreover have "x_id p = i"
    using assms by (simp add: x_good_def)
  ultimately show ?thesis
    using False by (simp add: Paxos_P1a_def Let_def x_good_emit)
qed (use assms in \<open>simp add: Paxos_P1a_def\<close>)

lemma x_good_propose:
  assumes "x_good i p" "x_active p" "s \<le> x_slot p" "e_ballot e = x_ballot p"
    and "\<And>c. (x_ballot p, s, c) \<in> proposals (pig_view p) \<Longrightarrow> c = e_command e"
    and "pig_call x = CBroadcast (M_P2a (P2a (x_ballot p) s g (e_command e) p3))"
  shows "x_good i (x_emit x (x_set_entry s e p))"
  using assms good_propose [of UNIV "pig_view p" s e g p3] by (simp add: x_good_def pig_view_steps)

lemma x_good_P2a [intro!]:
  assumes "x_good i p" "x_active p"
  shows "x_good i (Paxos_P2a c now r p)"
proof -
  let ?p = "p\<lparr>x_slot := x_slot p + 1\<rparr>"
  let ?e = "\<lparr>e_ballot = x_ballot p, e_command = rCommand r, e_commit = False, e_request = Some r,
    e_quorum = Some (ACK (x_id p) NewQuorum), e_timestamp = now\<rparr>"
  have g: "x_good i ?p"
    using assms(1) by (simp add: x_good_slot)
  have new: "(x_ballot p, x_slot p + 1, cmd) \<notin> proposals (pig_view p)" for cmd
    using assms(1) own_proposal(4) [of UNIV "pig_view p"] by (fastforce simp: x_good_def)
  have "x_good i (x_emit x (x_set_entry (x_slot p + 1) ?e ?p))"
    if "pig_call x = CBroadcast (M_P2a (P2a (x_ballot p) (x_slot p + 1) g (rCommand r) p3))" for x g p3
    using new that assms(2) by (intro x_good_propose [OF g]) (auto simp: pig_view_steps)
  moreover have "x_emit x (q\<lparr>x_p3pendingSlots := ss, x_lastP3Time := t\<rparr>)
      = (x_emit x q)\<lparr>x_p3pendingSlots := ss, x_lastP3Time := t\<rparr>" for x q ss t
    by (simp add: x_emit_def)
  ultimately show ?thesis
    by (simp add: Paxos_P2a_def Let_def)
qed

lemma Paxos_P2a_active [simp]: "x_active (Paxos_P2a c now r p) = x_active p"
  by (simp add: Paxos_P2a_def Let_def)

lemma x_good_repropose:
  assumes "x_good i p" "x_active p" "s \<le> x_slot p"
  shows "x_good i (Paxos_repropose s p)"
proof (cases "fmlookup (x_log p) s")
  case (Some e)
  show ?thesis
  proof (cases "e_commit e")
    case False
    have "c = e_command e" if "(x_ballot p, s, c) \<in> proposals (pig_view p)" for c
      using own_proposal(5) [OF _ that, of UNIV e] assms(1) Some False by (auto simp: x_good_def)
    then have "x_good i (x_emit (XBroadcast (X_P2a (P2a (x_ballot p) s (x_globalExecuted p) (e_command e) (P3 0 []))))
        (x_set_entry s (e\<lparr>e_ballot := x_ballot p, e_quorum := Some (ACK (x_id p) NewQuorum)\<rparr>) p))"
      by (intro x_good_propose [OF assms]) auto
    then show ?thesis using Some False by (simp add: Paxos_repropose_def)
  qed (simp add: Paxos_repropose_def Some assms)
qed (simp add: Paxos_repropose_def assms)

lemma Paxos_repropose_fields [simp]:
  "x_active (Paxos_repropose s p) = x_active p" "x_slot (Paxos_repropose s p) = x_slot p"
  by (simp_all add: Paxos_repropose_def split: option.splits)

lemma x_good_become_leader:
  assumes "x_good i p" "Ballot_ID (x_ballot p) = i"
  shows "x_good i (Paxos_become_leader c now p)"
proof -
  let ?p1 = "p\<lparr>x_active := True, x_p3PendingBallot := x_ballot p\<rparr>"
  let ?p2 = "fold Paxos_repropose [x_execute ?p1 .. x_slot ?p1] ?p1"
  have "x_good i (p\<lparr>x_active := True\<rparr>)"
    using assms good_activate [of UNIV "pig_view p"] by (simp add: x_good_def pig_view_steps)
  then have "x_good i ?p2 \<and> x_active ?p2 \<and> x_slot ?p2 = x_slot p"
    using fold_invariant [of "\<lambda>q. x_good i q \<and> x_active q \<and> x_slot q = x_slot p" ?p1
        "[x_execute ?p1 .. x_slot ?p1]" Paxos_repropose]
    by (simp add: x_good_repropose)
  then have "x_good i (fold (Paxos_P2a c now) (x_requests ?p2) ?p2)"
    using fold_invariant [of "\<lambda>q. x_good i q \<and> x_active q" ?p2 "x_requests ?p2" "Paxos_P2a c now"]
    by (simp add: x_good_P2a)
  then show ?thesis
    by (simp add: Paxos_become_leader_def Let_def)
qed

lemma x_good_HandleP1a: "x_good i p \<Longrightarrow> x_good i (Paxos_HandleP1a m p)"
  by (auto simp: Paxos_HandleP1a_def Let_def intro!: x_good_emit x_good_step_down)

lemma x_good_update_slot:
  assumes "x_good i p" "\<not> x_active p"
  shows "x_good i (Paxos_update_slot (s, cb) p) \<and> \<not> x_active (Paxos_update_slot (s, cb) p)"
proof -
  have "x_good i (p\<lparr>x_slot := max (x_slot p) s\<rparr>)"
    using assms(1) by (simp add: x_good_slot)
  then show ?thesis
    using assms(2) by (auto simp: Let_def x_good_idle_entry split: option.split)
qed

lemma x_good_update:
  assumes "x_good i p" "\<not> x_active p"
  shows "x_good i (Paxos_update l p)"
proof -
  have "x_good i (fold Paxos_update_slot l p) \<and> \<not> x_active (fold Paxos_update_slot l p)"
    by (rule fold_invariant) (use assms x_good_update_slot in \<open>auto simp del: Paxos_update_slot.simps\<close>)
  then show ?thesis by (simp add: Paxos_update_def)
qed

lemma x_good_HandleP1b:
  assumes "x_good i p"
  shows "x_good i (Paxos_HandleP1b c now m p)"
proof (cases "P1b_Ballot m < x_ballot p \<or> x_active p")
  case False
  define p1 where "p1 = Paxos_update (P1b_Log m) p"
  define p2 where "p2 = (if P1b_Ballot m > x_ballot p1
    then Paxos_forward (p1\<lparr>x_ballot := P1b_Ballot m, x_active := False\<rparr>) else p1)"
  have "x_good i p1"
    using assms False by (simp add: p1_def x_good_update)
  then have p2: "x_good i p2"
    by (auto simp: p2_def x_good_step_down)
  then have "x_id p2 = i"
    by (simp add: x_good_def)
  moreover have "Paxos_HandleP1b c now m p =
      (if Ballot_ID (P1b_Ballot m) = x_id p2 \<and> P1b_Ballot m = x_ballot p2
       then let p3 = p2\<lparr>x_quorum := ACK (P1b_ID m) (x_quorum p2)\<rparr>
            in if Majority c (x_quorum p3) then Paxos_become_leader c now p3 else p3
       else p2)"
    using False unfolding Paxos_HandleP1b_def Let_def p1_def [symmetric] p2_def [symmetric] by (rule if_not_P)
  ultimately show ?thesis
    using p2 by (auto simp: Let_def intro!: x_good_become_leader)
qed (auto simp: Paxos_HandleP1b_def assms)

lemma x_good_p3_slot:
  assumes "x_good i p"
  shows "x_good i (Paxos_p3_slot b s p)"
proof -
  let ?p0 = "p\<lparr>x_slot := max (x_slot p) s\<rparr>"
  let ?p1 = "case fmlookup (x_log ?p0) s of
      Some e \<Rightarrow> if e_ballot e = b then x_set_entry s (e\<lparr>e_commit := True\<rparr>) ?p0
        else (case e_request e of
            Some r \<Rightarrow> Paxos_sendRecoverRequest b [s]
              (x_set_entry s (e\<lparr>e_request := None\<rparr>) (x_emit (XForward (Ballot_ID b) r) ?p0))
          | None \<Rightarrow> ?p0)
    | None \<Rightarrow> x_set_entry s placeholder ?p0"
  have g0: "x_good i ?p0"
    using assms by (simp add: x_good_slot)
  moreover have "x_good i (x_set_entry s placeholder ?p0)"
    using g0 by (simp add: placeholder_def x_good_entry_commit)
  ultimately have "x_good i ?p1"
    by (auto split: option.splits intro!: x_good_same_entry x_good_emit)
  moreover define p1 where "p1 = ?p1"
  ultimately have "x_good i p1" by simp
  moreover have "Paxos_p3_slot b s p =
      (if x_ReplyWhenCommit p1 then
         (case fmlookup (x_log p1) s of
            None \<Rightarrow> p1
          | Some e \<Rightarrow> (case e_request e of
                         None \<Rightarrow> p1
                       | Some r \<Rightarrow> x_emit (XReply r (mk_Reply (rCommand r) None (rTimestamp r))) p1))
       else p1)"
    unfolding Paxos_p3_slot_def Let_def p1_def goMax_max ..
  ultimately show ?thesis
    by (auto split: option.splits intro!: x_good_emit)
qed

lemma x_good_HandleP3 [intro!]: "x_good i p \<Longrightarrow> x_good i (Paxos_HandleP3 m p)"
  by (auto simp: Paxos_HandleP3_def intro!: x_good_fold x_good_p3_slot)

lemma x_good_accept_entry:
  assumes "x_good i p" "\<not> x_active p"
  shows "x_good i (Paxos_accept_entry m p)"
  unfolding Paxos_accept_entry_def using assms
  by (auto split: option.split intro!: x_good_idle_entry x_good_emit)

lemma x_good_HandleP2a:
  assumes "x_good i p" "Ballot_ID (P2a_Ballot m) \<noteq> i"
  shows "x_good i (Paxos_HandleP2a m p)"
proof -
  let ?q = "p\<lparr>x_ballot := P2a_Ballot m, x_globalExecuted := P2a_GlobalExecute m, x_active := False,
    x_slot := max (x_slot p) (P2a_Slot m)\<rparr>"
  have "x_good i (p\<lparr>x_ballot := P2a_Ballot m, x_active := False\<rparr>)" if "P2a_Ballot m \<ge> x_ballot p"
    using that assms by (intro x_good_step_down) auto
  then have "x_good i ((p\<lparr>x_ballot := P2a_Ballot m, x_active := False\<rparr>)
      \<lparr>x_slot := max (x_slot p) (P2a_Slot m), x_globalExecuted := P2a_GlobalExecute m\<rparr>)"
    if "P2a_Ballot m \<ge> x_ballot p"
    using that x_good_slot [of i "p\<lparr>x_ballot := P2a_Ballot m, x_active := False\<rparr>" "max (x_slot p) (P2a_Slot m)"]
    by simp
  moreover have "(p\<lparr>x_ballot := P2a_Ballot m, x_active := False\<rparr>)
      \<lparr>x_slot := max (x_slot p) (P2a_Slot m), x_globalExecuted := P2a_GlobalExecute m\<rparr> = ?q"
    by simp
  ultimately have "x_good i (Paxos_accept_entry m ?q)" if "P2a_Ballot m \<ge> x_ballot p"
    using that by (intro x_good_accept_entry) simp_all
  then show ?thesis
    using assms(1) by (auto simp: Paxos_HandleP2a_def Let_def intro!: x_good_emit)
qed

lemma x_good_step_down': "x_good i p \<Longrightarrow> x_ballot p < b \<Longrightarrow> x_good i (Paxos_step_down now b p)"
  by (simp add: Paxos_step_down_def x_good_emit x_good_step_down)

lemma Paxos_step_down_log [simp]: "x_log (Paxos_step_down now b p) = x_log p"
  by (simp add: Paxos_step_down_def)

lemma x_good_commit_slot:
  assumes "x_good i p" "Paxos_commit_slot s e p = Inr q"
  shows "x_good i q"
proof -
  have "x_good i (x_set_entry s (e\<lparr>e_commit := True\<rparr>) p)"
    using assms(1) by (simp add: x_good_entry_commit)
  then show ?thesis
    using assms(2) unfolding Paxos_commit_slot_def Let_def
    by (auto split: option.splits if_splits intro!: x_good_emit)
qed

lemma x_good_HandleP2b:
  assumes "x_good i p" "Paxos_HandleP2b c now m p = Inr q"
  shows "x_good i q"
proof -
  define p1 where "p1 = (let p0 = UpdateLastExecutedByNode (V_ID m) (V_LastExecutedSlot m) p
    in if V_Ballot m > x_ballot p0 then Paxos_step_down now (V_Ballot m) p0 else p0)"
  have p1: "x_good i p1" "x_log p1 = x_log p"
    using assms(1) by (auto simp: p1_def Let_def UpdateLastExecutedByNode_def x_good_step_down')
  have e: "x_good i (x_set_entry (V_Slot m) (e\<lparr>e_quorum := Some k\<rparr>) p1)"
    if "fmlookup (x_log p) (V_Slot m) = Some e" for e k
    using that p1 by (intro x_good_same_entry) auto
  show ?thesis
    using assms(1,2) p1(1) unfolding Paxos_HandleP2b_def Let_def p1_def [unfolded Let_def, symmetric]
    by (auto split: option.splits if_splits dest: x_good_commit_slot [OF e] intro: e)
qed

lemma x_good_RecoverReply:
  assumes "x_good i p" "Paxos_HandleP3RecoverReply now m p = Inr q"
  shows "x_good i q"
proof -
  let ?body = "\<lambda>(k, s) p. let p1 = p\<lparr>x_slot := goMax (x_slot p) s\<rparr>
    in go_bind (slice_at (A_Commands m) (int k))
         (\<lambda>cmd. Inr (x_set_entry s (recovered_entry now (A_Ballot m) cmd) p1))"
  obtain r where r: "go_fold ?body (List.enumerate 0 (A_Slots m)) p = Inr r" "q = Paxos_exec r"
    using assms(2) unfolding Paxos_HandleP3RecoverReply_def by auto
  have "x_good i r"
  proof (rule go_fold_invariant [where P = "x_good i", OF r(1) assms(1)])
    show "x_good i v" if "x_good i u" "?body x u = Inr v" for x u v
      using that by (cases x) (auto simp: Let_def recovered_entry_def x_good_slot intro!: x_good_entry_commit)
  qed
  then show ?thesis using r(2) by auto
qed

lemma x_good_CleanupLog [intro!]:
  assumes "x_good i p"
  shows "x_good i (Paxos_CleanupLog p)"
proof -
  obtain k p1 where m: "GetGlobalExecuteMarker p = (k, p1)"
    by fastforce
  have p1: "x_good i p1"
    using m assms by (auto simp: GetGlobalExecuteMarker_def Let_def split: if_splits)
  have "good UNIV (pig_view p1)"
    using p1 by (simp add: x_good_def)
  then have "good UNIV ((pig_view p1)\<lparr>logm := fold fmdrop [x_lastCleanupMarker p1..k - 1] (x_log p1)\<rparr>)"
    by (rule good_forget) (auto simp: fmlookup_fold_fmdrop split: if_splits)
  with p1 m show ?thesis
    by (simp add: Paxos_CleanupLog_def x_good_def pig_view_steps)
qed

lemma x_good_P3Sync [intro!]: "x_good i p \<Longrightarrow> x_good i (P3Sync t p)"
  by (auto simp: P3Sync_def x_good_emit)

lemma x_good_CheckNeedForRecovery [intro!]: "x_good i p \<Longrightarrow> x_good i (CheckNeedForRecovery p)"
  by (auto simp: CheckNeedForRecovery_def)

lemma x_good_tick: "x_good i p \<Longrightarrow> x_good i (Paxos_tick n now p)"
  by (auto simp: Paxos_tick_def Let_def)

lemma x_good_request:
  assumes "x_good i p" "Ballot_N (x_ballot p) < 2 ^ 32 - 1"
  shows "x_good i (Paxos_handleRequest E now r p)"
proof -
  have "x_good i (Paxos_HandleRequest (v_config E) now r p)"
    unfolding Paxos_HandleRequest_def Let_def using assms by (auto intro!: x_good_P1a x_good_P2a)
  moreover have "x_good i q" if "readInProgress r p = (v, b, q)" for v b q
    using that assms(1) by (auto simp: readInProgress_def split: option.splits prod.splits)
  ultimately show ?thesis
    unfolding Paxos_handleRequest_def using assms(1)
    by (auto split: prod.split intro!: x_good_emit)
qed

text \<open>What the guard of a step excludes: a proposal never comes back to the owner of its ballot, because a
  broadcast and a multicast leave the sender out, and the counter of a ballot does not overflow.\<close>

fun x_admissible :: "ID \<Rightarrow> paxos_event \<Rightarrow> paxos \<Rightarrow> bool" where
  "x_admissible n (XMsg (X_P2a m)) p \<longleftrightarrow> Ballot_ID (P2a_Ballot m) \<noteq> n"
| "x_admissible n (XRequest r) p \<longleftrightarrow> Ballot_N (x_ballot p) < 2 ^ 32 - 1"
| "x_admissible n ev p \<longleftrightarrow> True"

lemma x_good_handle:
  assumes "x_good i p" "x_admissible i ev p" "paxos_handle E now ev p = Inr q"
  shows "x_good i q"
  using assms
  by (cases "(E, now, ev, p)" rule: paxos_handle.cases)
    (auto simp: x_good_HandleP1a x_good_HandleP1b x_good_HandleP2a x_good_tick x_good_request
      Paxos_HandleP3RecoverRequest_def Let_def x_good_emit
      intro: x_good_HandleP2b x_good_RecoverReply)

section \<open>The cluster\<close>

text \<open>A step runs one handler of one node; every event carries the reading of the node's clock. What has
  been sent stays deliverable to any node, any number of times and in any order. A handler that panics
  takes no step.\<close>

fun x_carried :: "paxos_call \<Rightarrow> paxos_msg option" where
  "x_carried (XSend to m) = Some m"
| "x_carried (XBroadcast m) = Some m"
| "x_carried (XMulticastQuorum k m) = Some m"
| "x_carried _ = None"

definition x_in_flight :: "ID list \<Rightarrow> (ID \<Rightarrow> paxos) \<Rightarrow> paxos_msg list" where
  "x_in_flight ms S = List.map_filter x_carried (concat (map (\<lambda>n. x_calls (S n)) ms))"

definition paxos_deliver ::
  "paxos_env \<Rightarrow> ID list \<Rightarrow> ID \<times> goint \<times> paxos_event \<Rightarrow> (ID \<Rightarrow> paxos) \<Rightarrow> (ID \<Rightarrow> paxos) option" where
  "paxos_deliver E ms x S =
     (case x of (n, now, ev) \<Rightarrow>
      if n \<in> set ms \<and> x_admissible n ev (S n) \<and>
         (case ev of XMsg m \<Rightarrow> m \<in> set (x_in_flight ms S) | _ \<Rightarrow> True)
      then (case paxos_handle E now ev (S n) of Inl _ \<Rightarrow> None | Inr p \<Rightarrow> Some (S(n := p)))
      else None)"

fun cluster_run ::
  "paxos_env \<Rightarrow> ID list \<Rightarrow> (ID \<times> goint \<times> paxos_event) list \<Rightarrow> (ID \<Rightarrow> paxos) \<Rightarrow> (ID \<Rightarrow> paxos) option" where
  "cluster_run E ms [] S = Some S"
| "cluster_run E ms (x # xs) S = Option.bind (paxos_deliver E ms x S) (cluster_run E ms xs)"

inductive paxos_step :: "paxos_env \<Rightarrow> ID list \<Rightarrow> (ID \<Rightarrow> paxos) \<Rightarrow> (ID \<Rightarrow> paxos) \<Rightarrow> bool" for E ms where
  deliver: "paxos_deliver E ms x S = Some T \<Longrightarrow> paxos_step E ms S T"

inductive paxos_reach :: "paxos_env \<Rightarrow> ID list \<Rightarrow> (ID \<Rightarrow> paxos) \<Rightarrow> bool" for E ms where
  init: "paxos_reach E ms (\<lambda>n. NewPaxos (v_config E) ms n)"
| step: "paxos_reach E ms S \<Longrightarrow> paxos_step E ms S T \<Longrightarrow> paxos_reach E ms T"

inductive_cases paxos_stepE: "paxos_step E ms S T"

lemma cluster_run_reach: "cluster_run E ms xs S = Some T \<Longrightarrow> paxos_reach E ms S \<Longrightarrow> paxos_reach E ms T"
proof (induction xs arbitrary: S)
  case (Cons x xs)
  then obtain U where "paxos_deliver E ms x S = Some U" "cluster_run E ms xs U = Some T"
    by (auto split: bind_splits)
  with Cons show ?case
    by (meson paxos_reach.step paxos_step.deliver)
qed simp

lemma paxos_reach_good: "paxos_reach E ms S \<Longrightarrow> x_good n (S n)"
proof (induction arbitrary: n rule: paxos_reach.induct)
  case (step S T)
  from step.hyps(2) obtain x where x: "paxos_deliver E ms x S = Some T"
    by (rule paxos_stepE)
  obtain k now ev where "x = (k, now, ev)"
    by (rule prod_cases3)
  with x obtain p where "x_admissible k ev (S k)" "paxos_handle E now ev (S k) = Inr p" "T = S(k := p)"
    by (auto simp: paxos_deliver_def split: if_splits sum.splits)
  then show ?case
    using step.IH x_good_handle [of k "S k" ev E now p] by (cases "n = k") auto
qed (rule x_good_NewPaxos)

section \<open>Safety\<close>

definition paxos_sent :: "paxos \<Rightarrow> paxos_msg set" where
  "paxos_sent p = {m. \<exists>x \<in> set (x_calls p). x_carried x = Some m}"

lemma x_proposal:
  assumes "X_P2a m \<in> paxos_sent p"
  shows "(P2a_Ballot m, P2a_Slot m, P2a_Command m) \<in> proposals (pig_view p)"
proof -
  from assms obtain x where x: "x \<in> set (x_calls p)" "x_carried x = Some (X_P2a m)"
    by (auto simp: paxos_sent_def)
  from x(2) have "carried (pig_call x) = Some (M_P2a m)"
    by (cases x) auto
  with x(1) have "M_P2a m \<in> sent (pig_view p)"
    by (auto simp: sent_def)
  then show ?thesis by (rule in_proposals)
qed

text \<open>C5: In every reachable state of a Paxos cluster a ballot and a slot determine the proposer and the
  command: two \<open>P2a\<close> messages with the same ballot and slot, whoever sent them and however often the
  leader lost and regained the lead, come from the owner of the ballot and carry the same command.\<close>

theorem paxos_one_proposal_per_ballot_and_slot:
  assumes "paxos_reach E ms S"
    and "X_P2a m \<in> paxos_sent (S i)" and "X_P2a m' \<in> paxos_sent (S j)"
    and "P2a_Ballot m = P2a_Ballot m'" and "P2a_Slot m = P2a_Slot m'"
  shows "i = j \<and> Ballot_ID (P2a_Ballot m) = i \<and> P2a_Command m = P2a_Command m'"
proof -
  have g: "x_id (S n) = n" "good UNIV (pig_view (S n))" for n
    using paxos_reach_good [OF assms(1)] by (simp_all add: x_good_def)
  note p = x_proposal [OF assms(2)] x_proposal [OF assms(3), folded assms(4,5)]
  have "Ballot_ID (P2a_Ballot m) = i" "Ballot_ID (P2a_Ballot m) = j"
    using own_proposal(1) [OF g(2) p(1)] own_proposal(1) [OF g(2) p(2)] g(1) by simp_all
  moreover from this p g(2) [of i] have "P2a_Command m = P2a_Command m'"
    unfolding good_def own_ok_def by blast
  ultimately show ?thesis by simp
qed

section \<open>Executions\<close>

definition three :: "paxos_env" where
  "three = \<lparr>v_config = members_config [1, 2, 3], v_ephemeralLeader = False, v_read = []\<rparr>"

definition three_init :: "ID \<Rightarrow> paxos" where
  "three_init = (\<lambda>n. NewPaxos (v_config three) [1, 2, 3] n)"

text \<open>Node 1 is elected and commits the first command with the vote of node 2; its next proposal carries the
  commit of slot 0, and reaches node 3 before the proposal of slot 0 does.\<close>

definition overtaken :: "(ID \<times> goint \<times> paxos_event) list" where
  "overtaken = (let b = NewBallot 1 1 in
    [(1, 5, XRequest (req 7)), (2, 5, XMsg (X_P1a (P1a b))), (1, 6, XMsg (X_P1b (P1b 2 b []))),
     (2, 6, XMsg (X_P2a (P2a b 0 0 (rCommand (req 7)) (P3 b [])))),
     (1, 7, XMsg (X_P2b (Paxos_P2b b 2 0 0))), (1, 8, XRequest (req 9)),
     (3, 9, XMsg (X_P2a (P2a b 1 0 (rCommand (req 9)) (P3 b [0])))),
     (3, 9, XMsg (X_P2a (P2a b 0 0 (rCommand (req 7)) (P3 b []))))])"

text \<open>A commit that overtakes its proposal, which the piggybacked announcements make likely, leaves a
  committed entry without a command, and the execute loop runs it as it is. In this execution of the three nodes
  there is one leader and one ballot; nodes 1 and 3 hold the same command in slot 0 and both have executed
  exactly the first slot, but the store of node 3 lacks the value that the client of node 1 was told is
  written, and slot 0 is already behind its execute marker.\<close>

lemma overtaken_proposal_diverges:
  "case cluster_run three [1, 2, 3] overtaken three_init of
     None \<Rightarrow> False
   | Some S \<Rightarrow> x_execute (S 1) = 1 \<and> x_execute (S 3) = 1
       \<and> x_command (S 1) 0 = rCommand (req 7) \<and> x_command (S 3) 0 = rCommand (req 7)
       \<and> Get 7 (x_db (S 1)) = Some [1] \<and> Get 7 (x_db (S 3)) = None
       \<and> list_ex (\<lambda>x. case x of XReply r y \<Rightarrow> r = req 7 | _ \<Rightarrow> False) (x_calls (S 1))"
  by code_simp

theorem paxos_one_proposal_per_ballot_and_slot_witness:
  "\<exists>(S :: ID \<Rightarrow> paxos) m. X_P2a m \<in> paxos_sent (S 1) \<and> P2a_Slot m = 1 \<and> Ballot_ID (P2a_Ballot m) = (1 :: ID)"
proof -
  let ?run = "cluster_run three [1, 2, 3] overtaken three_init"
  let ?m = "P2a (NewBallot 1 1) 1 0 (rCommand (req 9)) (P3 (NewBallot 1 1) [0])"
  have "case ?run of None \<Rightarrow> False | Some S \<Rightarrow> list_ex (\<lambda>x. x_carried x = Some (X_P2a ?m)) (x_calls (S 1))"
    by code_simp
  then obtain S where S: "?run = Some S" "X_P2a ?m \<in> paxos_sent (S 1)"
    by (auto simp: paxos_sent_def list_ex_iff split: option.splits)
  have "paxos_reach three [1, 2, 3] S"
    using cluster_run_reach [OF S(1)] paxos_reach.init by (simp add: three_init_def)
  from paxos_one_proposal_per_ballot_and_slot [OF this S(2) S(2) refl refl] S(2) show ?thesis
    by (intro exI [of _ S] exI [of _ ?m]) auto
qed

end
