(* ===== verification/PaxosProgress.thy ===== *)
theory PaxosProgress
  imports PaxosSystem
begin

text \<open>
  Progress of Paxos: what happens between the request of a client at an idle leader and its answer, first for
  the leader and the votes it gets, then for the cluster of PaxosSystem.
\<close>

section \<open>The leader and its votes\<close>

text \<open>A leader \<open>p\<close> that has executed all of its slots gets the request \<open>r\<close>, and waits for the votes in the slot
  \<open>s\<close>; \<open>outs\<close> is what it has sent when it starts to wait.\<close>

definition waiting :: "paxos \<Rightarrow> Request \<Rightarrow> paxos_call list \<Rightarrow> ID set \<Rightarrow> paxos \<Rightarrow> bool" where
  [wf_defs]: "waiting p r outs A q \<longleftrightarrow>
     (\<exists>e Q. fmlookup (x_log q) (x_slot p + 1) = Some e \<and> \<not> e_commit e \<and> e_ballot e = x_ballot p \<and>
        e_command e = rCommand r \<and> e_request e = Some r \<and> e_quorum e = Some Q \<and> wf_quorum Q \<and> acks Q = A) \<and>
     \<not> x_committed q (x_slot p + 2) \<and> x_execute q = x_slot p + 1 \<and> x_ballot q = x_ballot p \<and>
     x_id q = x_id p \<and> x_db q = x_db p \<and> x_calls q = outs \<and> \<not> x_ReplyWhenCommit q"

text \<open>The slot is decided: the command has been executed, and the client has its answer.\<close>

definition has_answer :: "paxos \<Rightarrow> Request \<Rightarrow> paxos_call list \<Rightarrow> paxos \<Rightarrow> bool" where
  [wf_defs]: "has_answer p r outs q \<longleftrightarrow>
     x_committed q (x_slot p + 1) \<and> x_command q (x_slot p + 1) = rCommand r \<and> x_execute q = x_slot p + 2 \<and>
     x_id q = x_id p \<and> x_db q = fst (Execute (rCommand r) (x_db p)) \<and>
     (\<exists>y. x_calls q = outs @ [XReply r y] \<and> yCommand y = rCommand r \<and>
        yValue y = snd (Execute (rCommand r) (x_db p)))"

definition vote :: "paxos \<Rightarrow> ID \<times> goint \<Rightarrow> Paxos_P2b" where
  "vote p = (\<lambda>(i, executed). Paxos_P2b (x_ballot p) i (x_slot p + 1) executed)"

lemma UpdateLastExecutedByNode_db [simp]: "x_db (UpdateLastExecutedByNode i v p) = x_db p"
  by (simp add: UpdateLastExecutedByNode_def)

lemma one_more_vote:
  assumes "waiting p r outs A q" "Ballot_ID (x_ballot p) = x_id p" "0 \<le> cfg_n c"
  shows "\<exists>t. Paxos_HandleP2b c now (vote p (i, x)) q = Inr t \<and>
    (if cfg_n c < 2 * int (card (insert i A)) then has_answer p r outs t else waiting p r outs (insert i A) t)"
proof -
  let ?s = "x_slot p + 1"
  obtain e Q where e: "fmlookup (x_log q) ?s = Some e" "\<not> e_commit e" "e_ballot e = x_ballot p"
    "e_command e = rCommand r" "e_request e = Some r" "e_quorum e = Some Q" "wf_quorum Q" "acks Q = A"
    and q: "\<not> x_committed q (x_slot p + 2)" "x_execute q = ?s" "x_ballot q = x_ballot p" "x_id q = x_id p"
    "x_db q = x_db p" "x_calls q = outs" "\<not> x_ReplyWhenCommit q"
    using assms(1) unfolding waiting_def by blast
  let ?e = "e\<lparr>e_quorum := Some (ACK i Q)\<rparr>"
  let ?q = "x_set_entry ?s ?e (UpdateLastExecutedByNode i x q)"
  have maj: "Majority c (ACK i Q) \<longleftrightarrow> cfg_n c < 2 * int (card (insert i A))"
    using e(7,8) assms(3) by (simp add: Majority_iff)
  show ?thesis
  proof (cases "Majority c (ACK i Q)")
    case False
    have "Paxos_HandleP2b c now (vote p (i, x)) q = Inr ?q"
      using e q assms(2) False by (simp add: vote_def Paxos_HandleP2b_def Let_def)
    moreover have "waiting p r outs (insert i A) ?q"
      unfolding waiting_def using e q by (auto simp: x_committed_def)
    ultimately show ?thesis
      using False maj by auto
  next
    case True
    let ?r = "(x_set_entry ?s (?e\<lparr>e_commit := True\<rparr>) ?q)\<lparr>x_p3pendingSlots := x_p3pendingSlots q @ [?s]\<rparr>"
    let ?t = "Paxos_exec_entry (?e\<lparr>e_commit := True\<rparr>) ?r"
    have h: "Paxos_HandleP2b c now (vote p (i, x)) q = Inr (Paxos_exec ?r)"
      using e q assms(2) True by (simp add: vote_def Paxos_HandleP2b_def Let_def Paxos_commit_slot_def)
    have x: "fmlookup (x_log ?r) (x_execute ?r) = Some (?e\<lparr>e_commit := True\<rparr>)" "x_execute ?r = ?s"
      using q(2) by simp_all
    have "\<not> x_committed ?t (x_execute ?t)"
      using q(1,2) e(5) by (auto simp: x_committed_def add.assoc)
    then have "Paxos_exec ?r = ?t"
      using Paxos_exec_step [OF x(1)] by (simp add: Paxos_exec_stop)
    moreover have "has_answer p r outs ?t"
      unfolding has_answer_def using e q x by (simp add: x_committed_def x_command_def paxos_reply_def)
    ultimately show ?thesis
      using h True maj by simp
  qed
qed

lemma has_answer_stays:
  assumes "has_answer p r outs q"
  shows "Paxos_HandleP2b c now (vote p v) q = Inr q"
  using assms by (cases v) (auto simp: has_answer_def vote_def Paxos_HandleP2b_def x_committed_def)

lemma votes_run:
  assumes "waiting p r outs A q" "Ballot_ID (x_ballot p) = x_id p" "0 \<le> cfg_n c"
  shows "\<exists>t. go_fold (\<lambda>v. Paxos_HandleP2b c now (vote p v)) vs q = Inr t \<and>
    (if vs \<noteq> [] \<and> cfg_n c < 2 * int (card (A \<union> fst ` set vs)) then has_answer p r outs t
     else waiting p r outs (A \<union> fst ` set vs) t)"
  using assms(1)
proof (induction vs arbitrary: A q)
  case (Cons v vs)
  obtain i x where v: "v = (i, x)" by (cases v)
  obtain u where u: "Paxos_HandleP2b c now (vote p (i, x)) q = Inr u"
    "if cfg_n c < 2 * int (card (insert i A)) then has_answer p r outs u else waiting p r outs (insert i A) u"
    using one_more_vote [OF Cons.prems assms(2,3)] by blast
  have eq: "A \<union> fst ` set (v # vs) = insert i A \<union> fst ` set vs"
    by (auto simp: v)
  show ?case
  proof (cases "cfg_n c < 2 * int (card (insert i A))")
    case True
    have "finite A"
      using Cons.prems by (auto simp: waiting_def wf_quorum_def)
    then have "card (insert i A) \<le> card (insert i A \<union> fst ` set vs)"
      by (intro card_mono) auto
    moreover have "go_fold (\<lambda>v. Paxos_HandleP2b c now (vote p v)) vs u = Inr u"
      using u(2) True by (induction vs) (simp_all add: has_answer_stays)
    ultimately show ?thesis
      using u True unfolding eq v by simp
  next
    case False
    then have "waiting p r outs (insert i A) u"
      using u(2) by simp
    from Cons.IH [OF this] show ?thesis
      using u(1) False unfolding eq v by (cases "vs = []") auto
  qed
qed simp

text \<open>The proposal that the request makes.\<close>

definition proposal :: "Request \<Rightarrow> paxos \<Rightarrow> P2a" where
  "proposal r p =
     P2a (x_ballot p) (x_slot p + 1) (x_globalExecuted p) (rCommand r)
       (if x_p3PendingBallot p > 0 then P3 (x_p3PendingBallot p) (x_p3pendingSlots p) else P3 0 [])"

definition idle_leader :: "paxos \<Rightarrow> bool" where
  "idle_leader p \<longleftrightarrow> x_active p \<and> Ballot_ID (x_ballot p) = x_id p \<and> x_execute p = x_slot p + 1 \<and>
     \<not> x_committed p (x_slot p + 2) \<and> \<not> x_ReplyWhenCommit p"

lemma request_waits:
  assumes "idle_leader p"
  obtains x where "waiting p r (x_calls p @ [x]) {x_id p} (Paxos_HandleRequest c now r p)"
    "x_carried x = Some (X_P2a (proposal r p))"
proof -
  let ?x = "if cfg_Thrifty c then XMulticastQuorum (cfg_n c sdiv 2 + 1) (X_P2a (proposal r p))
    else XBroadcast (X_P2a (proposal r p))"
  have "waiting p r (x_calls p @ [?x]) {x_id p} (Paxos_HandleRequest c now r p)"
    using assms
    by (auto simp: idle_leader_def waiting_def proposal_def Paxos_HandleRequest_def Paxos_P2a_def
        Let_def x_committed_def)
  then show thesis
    by (rule that) simp
qed

text \<open>An idle leader that gets a request answers it exactly when more than half of the configured nodes,
  the leader included, have voted: handling the request and then any votes for its slot, in any order and
  with repetitions, never panics; once the distinct voters are a majority the command has been committed and
  executed once, on the store as it was, and the last thing sent is the answer to the client with the value
  that the command returned; before that nothing is answered and the store is untouched.\<close>

theorem paxos_request_is_answered:
  assumes "idle_leader p" and "0 \<le> cfg_n c"
  shows "\<exists>q x. go_fold (\<lambda>v. Paxos_HandleP2b c now (vote p v)) vs (Paxos_HandleRequest c now r p) = Inr q \<and>
    x_carried x = Some (X_P2a (proposal r p)) \<and>
    (if vs \<noteq> [] \<and> cfg_n c < 2 * int (card (insert (x_id p) (fst ` set vs)))
     then x_committed q (x_slot p + 1) \<and> x_command q (x_slot p + 1) = rCommand r \<and> x_execute q = x_slot p + 2 \<and>
       x_db q = fst (Execute (rCommand r) (x_db p)) \<and>
       (\<exists>y. x_calls q = x_calls p @ [x, XReply r y] \<and> yCommand y = rCommand r \<and>
          yValue y = snd (Execute (rCommand r) (x_db p)))
     else \<not> x_committed q (x_slot p + 1) \<and> x_execute q = x_slot p + 1 \<and> x_db q = x_db p \<and>
       x_calls q = x_calls p @ [x])"
proof -
  obtain x where x: "waiting p r (x_calls p @ [x]) {x_id p} (Paxos_HandleRequest c now r p)"
    "x_carried x = Some (X_P2a (proposal r p))"
    by (rule request_waits [OF assms(1)])
  have "Ballot_ID (x_ballot p) = x_id p"
    using assms(1) by (simp add: idle_leader_def)
  from votes_run [OF x(1) this assms(2)] obtain q where
    "go_fold (\<lambda>v. Paxos_HandleP2b c now (vote p v)) vs (Paxos_HandleRequest c now r p) = Inr q"
    "if vs \<noteq> [] \<and> cfg_n c < 2 * int (card (insert (x_id p) (fst ` set vs)))
     then has_answer p r (x_calls p @ [x]) q
     else waiting p r (x_calls p @ [x]) (insert (x_id p) (fst ` set vs)) q"
    by (metis insert_is_Un)
  with x(2) show ?thesis
    by (intro exI [of _ q] exI [of _ x]) (auto simp: has_answer_def waiting_def x_committed_def split: if_splits)
qed

section \<open>The cluster\<close>

lemma x_in_flight_iff: "m \<in> set (x_in_flight ms S) \<longleftrightarrow> (\<exists>n \<in> set ms. m \<in> paxos_sent (S n))"
proof -
  have set_mf: "y \<in> set (List.map_filter f xs) \<longleftrightarrow> (\<exists>x \<in> set xs. f x = Some y)"
    for y :: paxos_msg and f and xs :: "paxos_call list"
    by (induction xs) (auto split: option.splits)
  show ?thesis
    unfolding x_in_flight_def set_mf paxos_sent_def by auto
qed

text \<open>Handling announcements takes nothing back that was sent.\<close>

lemma exec_keeps_calls: "c \<in> set (x_calls p) \<Longrightarrow> c \<in> set (x_calls (Paxos_exec p))"
  using paxos_executes_committed_prefix [of p] by simp

lemma p3_slot_keeps_calls:
  assumes "c \<in> set (x_calls p)"
  shows "c \<in> set (x_calls (Paxos_p3_slot b s p))"
  unfolding Paxos_p3_slot_def Let_def
  using assms by (auto simp: Paxos_sendRecoverRequest_eq split: option.split)

lemma HandleP3_keeps_calls:
  assumes "c \<in> set (x_calls p)"
  shows "c \<in> set (x_calls (Paxos_HandleP3 m p))"
proof -
  have "c \<in> set (x_calls (fold (Paxos_p3_slot (P3_Ballot m)) (P3_Slot m) p))"
    using assms by (rule fold_invariant) (rule p3_slot_keeps_calls)
  then show ?thesis
    by (simp add: Paxos_HandleP3_def exec_keeps_calls)
qed

text \<open>A follower with no greater ballot votes for the proposal.\<close>

lemma follower_votes:
  assumes "x_ballot p \<le> P2a_Ballot m"
  shows "X_P2b (Paxos_P2b (P2a_Ballot m) (x_id p) (P2a_Slot m) (x_execute p)) \<in> paxos_sent (Paxos_HandleP2a m p)"
proof -
  let ?q = "Paxos_accept_entry m (p\<lparr>x_ballot := P2a_Ballot m, x_globalExecuted := P2a_GlobalExecute m,
    x_active := False, x_slot := max (x_slot p) (P2a_Slot m)\<rparr>)"
  let ?c = "XSend (Ballot_ID (P2a_Ballot m))
    (X_P2b (Paxos_P2b (P2a_Ballot m) (x_id p) (P2a_Slot m) (x_execute p)))"
  have "x_ballot ?q = P2a_Ballot m \<and> x_id ?q = x_id p \<and> x_execute ?q = x_execute p"
    by (simp add: Paxos_accept_entry_def split: option.split)
  then have "?c \<in> set (x_calls (Paxos_HandleP2a m p))"
    using assms by (auto simp: Paxos_HandleP2a_def Let_def intro!: HandleP3_keeps_calls)
  then show ?thesis
    by (force simp: paxos_sent_def)
qed

lemma cluster_run_append:
  "cluster_run E ms (xs @ ys) S = Option.bind (cluster_run E ms xs S) (cluster_run E ms ys)"
proof (induction xs arbitrary: S)
  case (Cons x xs)
  then show ?case by (cases "paxos_deliver E ms x S") auto
qed simp

lemma followers_run:
  assumes "distinct fs" "set fs \<subseteq> set ms" "l \<in> set ms" "l \<notin> set fs"
    and "X_P2a m \<in> paxos_sent (S l)" "Ballot_ID (P2a_Ballot m) = l"
  shows "cluster_run E ms (map (\<lambda>f. (f, now, XMsg (X_P2a m))) fs) S =
    Some (\<lambda>n. if n \<in> set fs then Paxos_HandleP2a m (S n) else S n)"
  using assms
proof (induction fs arbitrary: S)
  case (Cons f fs)
  let ?S = "S(f := Paxos_HandleP2a m (S f))"
  have "X_P2a m \<in> set (x_in_flight ms S)"
    using Cons.prems by (auto simp: x_in_flight_iff)
  then have "paxos_deliver E ms (f, now, XMsg (X_P2a m)) S = Some ?S"
    using Cons.prems by (auto simp: paxos_deliver_def)
  moreover have "cluster_run E ms (map (\<lambda>f. (f, now, XMsg (X_P2a m))) fs) ?S =
      Some (\<lambda>n. if n \<in> set fs then Paxos_HandleP2a m (?S n) else ?S n)"
    by (rule Cons.IH) (use Cons.prems in auto)
  ultimately show ?case
    using Cons.prems(1) by auto
qed simp

lemma votes_cluster:
  assumes "set vs \<subseteq> {v. fst v \<in> set ms \<and> fst v \<noteq> l \<and> X_P2b (vote p v) \<in> paxos_sent (S (fst v))}" "l \<in> set ms"
    and "go_fold (\<lambda>v. Paxos_HandleP2b (v_config E) now (vote p v)) vs (S l) = Inr q"
  shows "cluster_run E ms (map (\<lambda>v. (l, now, XMsg (X_P2b (vote p v)))) vs) S = Some (S(l := q))"
  using assms
proof (induction vs arbitrary: S)
  case (Cons v vs)
  from Cons.prems(3) obtain u where u: "Paxos_HandleP2b (v_config E) now (vote p v) (S l) = Inr u"
    "go_fold (\<lambda>v. Paxos_HandleP2b (v_config E) now (vote p v)) vs u = Inr q"
    by auto
  have "X_P2b (vote p v) \<in> set (x_in_flight ms S)"
    using Cons.prems(1) by (auto simp: x_in_flight_iff)
  then have "paxos_deliver E ms (l, now, XMsg (X_P2b (vote p v))) S = Some (S(l := u))"
    using Cons.prems(2) u(1) by (simp add: paxos_deliver_def)
  moreover have "cluster_run E ms (map (\<lambda>v. (l, now, XMsg (X_P2b (vote p v)))) vs) (S(l := u)) =
      Some ((S(l := u))(l := q))"
    by (rule Cons.IH) (use Cons.prems u in auto)
  ultimately show ?case by (auto simp: fun_eq_iff)
qed (auto simp: fun_eq_iff)

definition request_round :: "ID \<Rightarrow> ID list \<Rightarrow> goint \<Rightarrow> Request \<Rightarrow> (ID \<Rightarrow> paxos) \<Rightarrow> (ID \<times> goint \<times> paxos_event) list" where
  "request_round l fs now r S =
     (l, now, XRequest r) # map (\<lambda>f. (f, now, XMsg (X_P2a (proposal r (S l))))) fs
     @ map (\<lambda>v. (l, now, XMsg (X_P2b (vote (S l) v)))) (map (\<lambda>f. (f, x_execute (S f))) fs)"

text \<open>C6: While a majority can be reached, a request is answered. In every reachable state of the cluster in which \<open>l\<close>
  is an idle leader and \<open>fs\<close> are followers that with \<open>l\<close> make a majority and have seen no greater
  ballot, the request, the proposal delivered to the followers and their votes delivered to \<open>l\<close> is an execution of
  the cluster, in which no handler panics; it ends with the command executed by \<open>l\<close> in its next slot and
  the client answered with the value that the command returned there.\<close>

theorem paxos_majority_answers:
  assumes "paxos_reach E ms S" "idle_leader (S l)" "l \<in> set ms" "v_read E = []"
    and "Ballot_N (x_ballot (S l)) < 2 ^ 32 - 1"
    and "distinct fs" "fs \<noteq> []" "set fs \<subseteq> set ms - {l}" "\<And>f. f \<in> set fs \<Longrightarrow> x_ballot (S f) \<le> x_ballot (S l)"
    and "0 \<le> cfg_n (v_config E)" "cfg_n (v_config E) < 2 * (1 + int (length fs))"
  shows "\<exists>T y. cluster_run E ms (request_round l fs now r S) S = Some T \<and> paxos_reach E ms T \<and>
    XReply r y \<in> set (x_calls (T l)) \<and> yValue y = snd (Execute (rCommand r) (x_db (S l))) \<and>
    x_execute (T l) = x_slot (S l) + 2 \<and> x_command (T l) (x_slot (S l) + 1) = rCommand r \<and>
    x_db (T l) = fst (Execute (rCommand r) (x_db (S l)))"
proof -
  let ?m = "proposal r (S l)" and ?vs = "map (\<lambda>f. (f, x_execute (S f))) fs"
  let ?p = "Paxos_HandleRequest (v_config E) now r (S l)"
  have ids: "x_id (S n) = n" for n
    using paxos_reach_good [OF assms(1)] by (simp add: x_good_def)
  have lead: "Ballot_ID (x_ballot (S l)) = l"
    using assms(2) ids by (simp add: idle_leader_def)
  have m: "P2a_Ballot ?m = x_ballot (S l)" "P2a_Slot ?m = x_slot (S l) + 1"
    by (simp_all add: proposal_def)
  obtain x where x: "waiting (S l) r (x_calls (S l) @ [x]) {l} ?p" "x_carried x = Some (X_P2a ?m)"
    using request_waits [OF assms(2)] ids by metis
  then have sent: "X_P2a ?m \<in> paxos_sent ?p"
    by (auto simp: waiting_def paxos_sent_def)
  define U where "U = S(l := ?p)"
  define V where "V = (\<lambda>n. if n \<in> set fs then Paxos_HandleP2a ?m (U n) else U n)"
  have "Paxos_handleRequest E now r (S l) = ?p"
    using assms(2,4) by (simp add: Paxos_handleRequest_def Paxos_IsLeader_def idle_leader_def)
  then have 1: "paxos_deliver E ms (l, now, XRequest r) S = Some U"
    using assms(3,5) by (simp add: paxos_deliver_def U_def)
  have 2: "cluster_run E ms (map (\<lambda>f. (f, now, XMsg (X_P2a ?m))) fs) U = Some V"
    unfolding V_def using followers_run [of fs ms l ?m U] assms(3,6,8) sent lead m by (auto simp: U_def)
  have Vl: "V l = ?p"
    using assms(8) by (auto simp: V_def U_def)
  have votes: "set ?vs \<subseteq> {v. fst v \<in> set ms \<and> fst v \<noteq> l \<and> X_P2b (vote (S l) v) \<in> paxos_sent (V (fst v))}"
  proof -
    have "X_P2b (vote (S l) (f, x_execute (S f))) \<in> paxos_sent (V f)" if "f \<in> set fs" for f
      using follower_votes [of "S f" ?m] that assms(8) assms(9) [OF that] ids m
      by (auto simp: V_def U_def vote_def)
    then show ?thesis using assms(8) by auto
  qed
  have "insert l (fst ` set ?vs) = set (l # fs)"
    by force
  moreover have "distinct (l # fs)"
    using assms(6,8) by auto
  ultimately have card: "card (insert l (fst ` set ?vs)) = 1 + length fs"
    using distinct_card by fastforce
  obtain q where q: "go_fold (\<lambda>v. Paxos_HandleP2b (v_config E) now (vote (S l) v)) ?vs ?p = Inr q"
    "has_answer (S l) r (x_calls (S l) @ [x]) q"
    using votes_run [OF x(1), of "v_config E" now ?vs] lead ids assms(7,10,11) card by auto
  have "cluster_run E ms (request_round l fs now r S) S = Some (V(l := q))"
    using 1 2 votes_cluster [OF votes assms(3), of E now q] q(1) Vl
    by (simp add: request_round_def cluster_run_append)
  moreover from this have "paxos_reach E ms (V(l := q))"
    using cluster_run_reach assms(1) by blast
  ultimately show ?thesis
    using q(2) by (fastforce simp: has_answer_def)
qed

section \<open>Examples\<close>

lemma x_committed_code [code]:
  "x_committed p s \<longleftrightarrow> (case fmlookup (x_log p) s of None \<Rightarrow> False | Some e \<Rightarrow> e_commit e)"
  by (auto simp: x_committed_def split: option.splits)

definition demo_leader :: paxos where
  "demo_leader = (NewPaxos (members_config [1, 2, 3]) [1, 2, 3] 1)\<lparr>x_active := True, x_ballot := NewBallot 1 1\<rparr>"

theorem paxos_request_is_answered_witness:
  "\<exists>q y. go_fold (\<lambda>v. Paxos_HandleP2b (members_config [1, 2, 3]) 5 (vote demo_leader v)) [(2, 0), (2, 0)]
      (Paxos_HandleRequest (members_config [1, 2, 3]) 5 (req 7) demo_leader) = Inr q \<and>
    XReply (req 7) y \<in> set (x_calls q) \<and> yValue y = None \<and> x_execute q = 1"
proof -
  have "Ballot_ID (NewBallot 1 1) = 1" "\<not> x_committed demo_leader 1"
    by code_simp+
  then have "idle_leader demo_leader"
    by (simp add: idle_leader_def demo_leader_def NewPaxos_def x_committed_def)
  moreover have "cfg_n (members_config [1, 2, 3]) = 3" "x_id demo_leader = 1" "x_slot demo_leader = - 1"
    "snd (Execute (rCommand (req 7)) (x_db demo_leader)) = None"
    by code_simp+
  ultimately show ?thesis
    using paxos_request_is_answered [of demo_leader "members_config [1, 2, 3]" 5 "[(2, 0), (2, 0)]" "req 7"]
    by force
qed

theorem paxos_majority_answers_witness:
  "\<exists>T y. paxos_reach three [1, 2, 3] T \<and> XReply (req 9) y \<in> set (x_calls (T 1)) \<and>
     x_execute (T 1) = 2 \<and> x_command (T 1) 1 = rCommand (req 9)"
proof -
  let ?run = "cluster_run three [1, 2, 3] (take 5 overtaken) three_init"
  have "case ?run of None \<Rightarrow> False | Some S \<Rightarrow>
      idle_leader (S 1) \<and> Ballot_N (x_ballot (S 1)) < 2 ^ 32 - 1 \<and> x_ballot (S 3) \<le> x_ballot (S 1) \<and> x_slot (S 1) = 0"
    by code_simp
  then obtain S where S: "?run = Some S" "idle_leader (S 1)" "Ballot_N (x_ballot (S 1)) < 2 ^ 32 - 1"
    "x_ballot (S 3) \<le> x_ballot (S 1)" "x_slot (S 1) = 0"
    by (auto split: option.splits)
  have "paxos_reach three [1, 2, 3] S"
    using cluster_run_reach [OF S(1)] paxos_reach.init by (simp add: three_init_def)
  moreover have "cfg_n (v_config three) = 3" "v_read three = []"
    by code_simp+
  ultimately show ?thesis
    using paxos_majority_answers [of three "[1, 2, 3]" S 1 "[3]" 9 "req 9"] S(2-5) by fastforce
qed

end
