(* ===== verification/CommandLine.thy ===== *)
theory CommandLine
  imports ClientFacts Deployment LayerReplica ChainReplica EPaxos CheckerFacts
begin

text \<open>
  The programs of the repository: the interactive client (\<open>cmd/cmd.go\<close>), the server (\<open>server/server.go\<close>), the
  choice of a client in \<open>client/client.go\<close>, the checker of a recorded history (\<open>checker/checker.go\<close>), and the connections of the master (\<open>master/master.go\<close>). Flags,
  files, the input and the answers of the network are arguments; what is printed is a list. The package
  \<open>pigpaxos/chain\<close> that \<open>cmd.go\<close> imports is not part of the repository, so its client is an argument.
\<close>

section \<open>Lines and words\<close>

text \<open>\<open>bufio.Reader.ReadString\<close> up to a line feed, and \<open>strings.Fields\<close> on ASCII text.\<close>

definition newline :: char where
  "newline = CHR 0x0A"

definition ReadString :: "string \<Rightarrow> string \<times> string" where
  "ReadString s =
     (case dropWhile (\<lambda>c. c \<noteq> newline) s of
        [] \<Rightarrow> (s, [])
      | c # r \<Rightarrow> (takeWhile (\<lambda>c. c \<noteq> newline) s @ [c], r))"

definition is_space :: "char \<Rightarrow> bool" where
  "is_space c \<longleftrightarrow> c \<in> {CHR 0x09, CHR 0x0A, CHR 0x0B, CHR 0x0C, CHR 0x0D, CHR 0x20}"

fun fields_from :: "string \<Rightarrow> string \<Rightarrow> string list" where
  "fields_from w [] = (if w = [] then [] else [w])"
| "fields_from w (c # cs) =
     (if is_space c then (if w = [] then fields_from [] cs else w # fields_from [] cs)
      else fields_from (w @ [c]) cs)"

definition Fields :: "string \<Rightarrow> string list" where
  "Fields s = fields_from [] s"

definition bytes_of :: "string \<Rightarrow> bytes" where
  "bytes_of s = map of_char s"

definition text_of :: "Value \<Rightarrow> string" where
  "text_of v = map (\<lambda>b. char_of (unat b)) (slice_bytes v)"

section \<open>The interactive client\<close>

text \<open>The client of the package \<open>chain\<close>, and the three clients that \<open>main\<close> chooses from.\<close>

record 'k chain_client =
  chain_new :: 'k
  chain_get :: "Key \<Rightarrow> 'k \<Rightarrow> Value \<times> 'k"
  chain_put :: "Key \<Rightarrow> Value \<Rightarrow> 'k \<Rightarrow> 'k"

datatype 'k api = PaxosAPI paxos_client | ChainAPI 'k | HTTPAPI http_client

text \<open>What a session depends on: the network as the client and as the administrator see it, the bound on the
  polls of a quorum read and the mode of reads of the Paxos client.\<close>

record 'k tool =
  t_web :: web
  t_admin_web :: web
  t_polls :: nat
  t_mode :: string
  t_chain :: "'k chain_client"

record 'k session =
  t_client :: "'k api"
  t_admin :: http_client
  t_out :: "string list"
  t_exited :: bool

definition api_Get :: "'k tool \<Rightarrow> Key \<Rightarrow> 'k api \<Rightarrow> (Value \<times> 'k api) go" where
  "api_Get T key a =
     (case a of
        PaxosAPI c \<Rightarrow> go_bind (Paxos_Get (t_web T) (t_polls T) (t_mode T) key c)
                        (\<lambda>((v, err), c1). Inr (v, PaxosAPI c1))
      | ChainAPI c \<Rightarrow> (let (v, c1) = chain_get (t_chain T) key c in Inr (v, ChainAPI c1))
      | HTTPAPI c \<Rightarrow> go_bind (Client_Get (t_web T) key c) (\<lambda>((v, err), c1). Inr (v, HTTPAPI c1)))"

definition api_Put :: "'k tool \<Rightarrow> Key \<Rightarrow> Value \<Rightarrow> 'k api \<Rightarrow> 'k api go" where
  "api_Put T key val a =
     (case a of
        PaxosAPI c \<Rightarrow> go_bind (Paxos_Put (t_web T) key val c) (\<lambda>(err, c1). Inr (PaxosAPI c1))
      | ChainAPI c \<Rightarrow> Inr (ChainAPI (chain_put (t_chain T) key val c))
      | HTTPAPI c \<Rightarrow> go_bind (Client_Put (t_web T) key val c) (\<lambda>(err, c1). Inr (HTTPAPI c1)))"

definition usage :: string where
  "usage = ''Usage:'' @ [newline]
     @ CHR 0x09 # '' get key'' @ [newline]
     @ CHR 0x09 # '' put key value'' @ [newline]
     @ CHR 0x09 # '' consensus key'' @ [newline]
     @ CHR 0x09 # '' crash id time'' @ [newline]
     @ CHR 0x09 # '' partition time ids...'' @ [newline]
     @ CHR 0x09 # '' exit'' @ [newline]"

definition say :: "string \<Rightarrow> 'k session \<Rightarrow> 'k session" where
  "say x s = s\<lparr>t_out := t_out s @ [x @ [newline]]\<rparr>"

definition run_command :: "'k tool \<Rightarrow> string \<Rightarrow> string list \<Rightarrow> 'k session \<Rightarrow> 'k session go" where
  "run_command T cmd args s =
     (if cmd = ''get'' then
        (case args of
           a # _ \<Rightarrow> go_bind (api_Get T (Atoi_value a) (t_client s))
                      (\<lambda>(v, c). Inr (say (text_of v) (s\<lparr>t_client := c\<rparr>)))
         | [] \<Rightarrow> Inr (say ''get KEY'' s))
      else if cmd = ''put'' then
        (case args of
           a # v # _ \<Rightarrow> go_bind (api_Put T (Atoi_value a) (Some (bytes_of v)) (t_client s))
                          (\<lambda>c. Inr (s\<lparr>t_client := c\<rparr>))
         | _ \<Rightarrow> Inr (say ''put KEY VALUE'' s))
      else if cmd = ''consensus'' then
        (case args of
           a # _ \<Rightarrow> (let (b, c) = Consensus (t_admin_web T) (Atoi_value a) (t_admin s)
                     in Inr (say (FormatBool b) (s\<lparr>t_admin := c\<rparr>)))
         | [] \<Rightarrow> Inr (say ''consensus KEY'' s))
      else if cmd = ''crash'' then
        (case args of
           i # a # _ \<Rightarrow>
             (case Atoi a of
                None \<Rightarrow> Inr (say ''second argument should be integer'' s)
              | Some t \<Rightarrow> Inr (s\<lparr>t_admin := Client_Crash (t_admin_web T) (NewIDFromString i) t (t_admin s)\<rparr>))
         | _ \<Rightarrow> Inr (say ''crash id time(s)'' s))
      else if cmd = ''partition'' then
        (case args of
           a # i # is \<Rightarrow>
             (case Atoi a of
                None \<Rightarrow> Inr (say ''time argument should be integer'' s)
              | Some t \<Rightarrow> Inr (s\<lparr>t_admin := Partition (t_admin_web T) t (map NewIDFromString (i # is)) (t_admin s)\<rparr>))
         | _ \<Rightarrow> Inr (say ''partition time ids...'' s))
      else if cmd = ''exit'' then Inr (s\<lparr>t_exited := True\<rparr>)
      else Inr (say usage s))"

text \<open>The loop of \<open>main\<close>. The error of \<open>ReadString\<close> is not looked at, so at the end of the input it goes on
  with empty lines; \<open>k\<close> bounds the rounds, and \<open>Hang\<close> says that the loop is still running.\<close>

definition prompt :: "'k session \<Rightarrow> 'k session" where
  "prompt s = s\<lparr>t_out := t_out s @ [''paxi $ '']\<rparr>"

primrec shell :: "nat \<Rightarrow> 'k tool \<Rightarrow> string \<Rightarrow> 'k session \<Rightarrow> 'k session go" where
  "shell 0 T input s = Inl Hang"
| "shell (Suc k) T input s =
     (let s1 = prompt s; (text, rest) = ReadString input in
      case Fields text of
        [] \<Rightarrow> shell k T rest s1
      | cmd # args \<Rightarrow> go_bind (run_command T cmd args s1)
          (\<lambda>s2. if t_exited s2 then Inr s2 else shell k T rest s2))"

definition http_client_of :: "Config \<Rightarrow> ID \<Rightarrow> http_client" where
  "http_client_of c i = NewHTTPClient (map fst (cf_Addrs c)) (cf_HTTPAddrs c) (Config_IDs c) i"

definition paxos_client_of :: "Config \<Rightarrow> ID \<Rightarrow> paxos_client" where
  "paxos_client_of c i = Paxos_NewClient (map fst (cf_Addrs c)) (cf_HTTPAddrs c) (Config_IDs c) i"

definition new_session :: "'k tool \<Rightarrow> string \<Rightarrow> ID \<Rightarrow> Config \<Rightarrow> 'k session" where
  "new_session T algorithm i c =
     \<lparr>t_client = (if algorithm = ''paxos'' then PaxosAPI (paxos_client_of c i)
                  else if algorithm = ''chain'' then ChainAPI (chain_new (t_chain T))
                  else HTTPAPI (http_client_of c i)),
      t_admin = http_client_of c i, t_out = [], t_exited = False\<rparr>"

text \<open>The file is that of \<open>paxi.Init\<close>, the answer that of the master.\<close>

definition cmd_main ::
  "'k tool \<Rightarrow> nat \<Rightarrow> ((string, string) gomap \<times> (string, string) gomap) option \<Rightarrow> string \<Rightarrow> Config option \<Rightarrow>
   string \<Rightarrow> string \<Rightarrow> string list \<Rightarrow> string \<Rightarrow> 'k session go" where
  "cmd_main T k file master reply algorithm idstr args input =
     go_bind (Config_Load file MakeDefaultConfig) (\<lambda>c0.
     go_bind (if master \<noteq> [] then ConnectToMaster reply c0 else Inr c0) (\<lambda>c.
       let s = new_session T algorithm (NewIDFromString idstr) c
       in case args of
            cmd # as \<Rightarrow> run_command T cmd as s
          | [] \<Rightarrow> shell k T input s))"

section \<open>The benchmark client\<close>

datatype bench_api = Bench_Paxos paxos_client | Bench_EPaxos http_client | Bench_HTTP http_client

definition bench_client :: "string \<Rightarrow> ID \<Rightarrow> Config \<Rightarrow> bench_api" where
  "bench_client algorithm i c =
     (if algorithm = ''paxos'' then Bench_Paxos (paxos_client_of c i)
      else if algorithm = ''epaxos'' then Bench_EPaxos (http_client_of c i)
      else Bench_HTTP (http_client_of c i))"

section \<open>The checker\<close>

text \<open>What is printed; \<open>None\<close> says that the process ends because the file cannot be read.\<close>

definition checker_main :: "choices \<Rightarrow> string list option list option \<Rightarrow> nat option go" where
  "checker_main E file =
     (let (res, h) = ReadFile file NewHistory
      in if res = ReadDone then go_bind (Linearizable E h) (\<lambda>(n, h1). Inr (Some n)) else Inr None)"

text \<open>\<open>WriteFile\<close> writes four columns, so the checker refuses every history that it has written.\<close>

lemma checker_refuses_four_columns: "length r = 4 \<Longrightarrow> checker_main E (Some (Some r # rs)) = Inr None"
  by (simp add: checker_main_def ReadFile_def Let_def)

section \<open>The server\<close>

datatype started = Run_Paxos paxos | Run_EPaxos epaxos | Run_PigPaxos replica | Run_LayerPaxos replica
  | Run_ChainPaxos chain_replica

text \<open>\<open>replica\<close> in \<open>server.go\<close>: the configuration is shared by the replicas of a process, so it is passed on.\<close>

definition start_replica ::
  "env \<Rightarrow> string \<Rightarrow> Config option \<Rightarrow> string \<Rightarrow> ID \<Rightarrow> Config \<Rightarrow> (Config \<times> started) go" where
  "start_replica E master reply algorithm i c =
     go_bind (if master \<noteq> [] then ConnectToMaster reply c else Inr c) (\<lambda>c1.
       let E1 = E\<lparr>conf := cf_counts c1\<rparr>; addrs = map fst (cf_Addrs c1) in
       if algorithm = ''paxos'' then Inr (c1, Run_Paxos (NewPaxos (cf_counts c1) (Config_IDs c1) i))
       else if algorithm = ''epaxos'' then Inr (c1, Run_EPaxos (NewEPaxos (cf_counts c1) addrs i))
       else if algorithm = ''pigpaxos'' then go_bind (NewReplica E1 i addrs) (\<lambda>r. Inr (c1, Run_PigPaxos r))
       else if algorithm = ''layerpaxos'' then go_bind (Layer_NewReplica E1 i addrs) (\<lambda>r. Inr (c1, Run_LayerPaxos r))
       else if algorithm = ''chainpaxos'' then go_bind (Chain_NewReplica E1 i addrs) (\<lambda>r. Inr (c1, Run_ChainPaxos r))
       else Inl InvalidArgument)"

text \<open>The result is the scheme of the transports, which \<open>Simulation\<close> sets, and the replicas in the order in
  which their goroutines come to run.\<close>

definition Simulation :: string where
  "Simulation = ''chan''"

definition server_main ::
  "env \<Rightarrow> string \<Rightarrow> ((string, string) gomap \<times> (string, string) gomap) option \<Rightarrow> bool \<Rightarrow> string \<Rightarrow> Config option \<Rightarrow>
   string \<Rightarrow> string \<Rightarrow> (string \<times> started list) go" where
  "server_main E transport file simulation master reply algorithm idstr =
     go_bind (Config_Load file MakeDefaultConfig) (\<lambda>c.
       if simulation then
         go_bind (go_fold (\<lambda>i (c, rs). go_bind (start_replica E master reply algorithm i c)
                    (\<lambda>(c1, r). Inr (c1, rs @ [r]))) (map fst (cf_Addrs c)) (c, []))
           (\<lambda>(c1, rs). Inr (Simulation, rs))
       else go_bind (start_replica E master reply algorithm (NewIDFromString idstr) c)
              (\<lambda>(c1, r). Inr (transport, [r])))"

section \<open>The connections of the master\<close>

text \<open>A connection: whether a client asks, the identifier it gives, and the address it comes from, of which the
  part before the first colon is kept. The connections are handled in the order in which they come; the
  collecting goroutine runs as soon as it can. A node waits until \<open>n\<close> nodes are there, one that comes after
  them for ever; a client gets the configuration as it is.\<close>

type_synonym connection = "bool \<times> ID \<times> string"

definition host_of :: "string \<Rightarrow> string" where
  "host_of remote = takeWhile (\<lambda>c. c \<noteq> CHR '':'') remote"

definition registered_nodes :: "connection list \<Rightarrow> (ID \<times> string) list" where
  "registered_nodes conns = map (\<lambda>(client, i, remote). (i, host_of remote)) (filter (\<lambda>x. \<not> fst x) conns)"

definition default_master :: "bool \<Rightarrow> Config" where
  "default_master thrifty =
     (let c = MakeDefaultConfig in c\<lparr>cf_counts := (cf_counts c)\<lparr>cfg_Thrifty := thrifty\<rparr>\<rparr>)"

definition master_answer :: "nat \<Rightarrow> bool \<Rightarrow> goint \<times> goint \<Rightarrow> connection list \<Rightarrow> nat \<Rightarrow> Config go" where
  "master_answer n thrifty ports conns k =
     (let before = registered_nodes (take k conns) in
      if fst (conns ! k) then
        (if length before < n then Inr (default_master thrifty) else master_config n thrifty ports before)
      else if length before < n then master_config n thrifty ports (registered_nodes conns)
      else Inl Hang)"

section \<open>When a session ends\<close>

lemma ReadString_append: "ReadString s = (l, r) \<Longrightarrow> l @ r = s"
  by (auto simp: ReadString_def split: list.splits) (metis takeWhile_dropWhile_id)

lemma ReadString_shorter:
  assumes "ReadString s = (l, r)" "s \<noteq> []"
  shows "length r < length s"
proof -
  have "l \<noteq> []"
    using assms by (auto simp: ReadString_def split: list.splits)
  then show ?thesis
    using ReadString_append [OF assms(1)] by (auto simp: neq_Nil_conv)
qed

text \<open>The lines of an input, the last of which may lack its line feed.\<close>

function input_lines :: "string \<Rightarrow> string list" where
  "input_lines s =
     (if s = [] then [] else case ReadString s of (l, r) \<Rightarrow> l # input_lines r)"
  by pat_completeness auto
termination
  by (relation "measure length") (auto dest: ReadString_shorter [OF sym])

declare input_lines.simps [simp del]

lemma input_lines_simps [simp]:
  "input_lines [] = []"
  "s \<noteq> [] \<Longrightarrow> ReadString s = (l, r) \<Longrightarrow> input_lines s = l # input_lines r"
  by (subst input_lines.simps; simp)+

definition run_line :: "'k tool \<Rightarrow> string \<Rightarrow> 'k session \<Rightarrow> 'k session go" where
  "run_line T l s = (case Fields l of [] \<Rightarrow> Inr (prompt s) | cmd # args \<Rightarrow> run_command T cmd args (prompt s))"

definition says_exit :: "string \<Rightarrow> bool" where
  "says_exit l \<longleftrightarrow> (case Fields l of [] \<Rightarrow> False | cmd # args \<Rightarrow> cmd = ''exit'')"

lemma run_command_exited:
  "run_command T cmd args s = Inr t \<Longrightarrow> t_exited t \<longleftrightarrow> cmd = ''exit'' \<or> t_exited s"
  unfolding run_command_def
  by (auto simp: say_def Let_def split: if_splits list.splits option.splits prod.splits)

lemma run_line_exited: "run_line T l s = Inr t \<Longrightarrow> t_exited t \<longleftrightarrow> says_exit l \<or> t_exited s"
  unfolding run_line_def says_exit_def
  by (auto simp: prompt_def dest!: run_command_exited split: list.splits)

lemma shell_Suc:
  assumes "ReadString input = (l, r)" "\<not> t_exited s"
  shows "shell (Suc k) T input s =
    go_bind (run_line T l s) (\<lambda>s1. if says_exit l then Inr s1 else shell k T r s1)"
proof (cases "Fields l")
  case Nil
  then show ?thesis
    using assms by (simp add: run_line_def says_exit_def)
next
  case (Cons cmd args)
  then have "says_exit l \<longleftrightarrow> cmd = ''exit''"
    by (simp add: says_exit_def)
  moreover have "t_exited t \<longleftrightarrow> cmd = ''exit''" if "run_command T cmd args (prompt s) = Inr t" for t
    using run_command_exited [OF that] assms(2) by (simp add: prompt_def)
  ultimately show ?thesis
    using assms(1) Cons by (cases "run_command T cmd args (prompt s)") (auto simp: run_line_def)
qed

lemma shell_empty: "\<not> t_exited s \<Longrightarrow> shell k T [] s = Inl Hang"
proof (induction k arbitrary: s)
  case (Suc k)
  have "ReadString [] = ([], [])" "Fields [] = []"
    by (simp_all add: ReadString_def Fields_def)
  then have "shell (Suc k) T [] s = shell k T [] (prompt s)"
    by (subst shell_Suc [OF _ Suc.prems]) (auto simp: run_line_def says_exit_def)
  with Suc show ?case
    by (simp add: prompt_def)
qed simp

text \<open>C37: The interactive client returns exactly when some line of its input has \<open>exit\<close> for its first word and the
  lines before it do not panic: it has then run the lines up to the first such line, in order, and one
  round per line is enough. On any other input the loop never ends; in particular it does not
  notice the end of its input, and goes on printing its prompt.\<close>

theorem shell_ends_only_by_exit:
  assumes "\<not> t_exited s"
  shows "shell k T input s = Inr t \<longleftrightarrow>
    (\<exists>n < min k (length (input_lines input)).
       says_exit (input_lines input ! n) \<and> (\<forall>m < n. \<not> says_exit (input_lines input ! m)) \<and>
       go_fold (run_line T) (take (Suc n) (input_lines input)) s = Inr t)"
  using assms
proof (induction k arbitrary: input s)
  case (Suc k)
  show ?case
  proof (cases "input = []")
    case False
    obtain l r where lr: "ReadString input = (l, r)"
      by fastforce
    have ls: "input_lines input = l # input_lines r"
      using False lr by simp
    have ex: "(\<exists>n < min (Suc k) (length (l # xs)). P n) \<longleftrightarrow> P 0 \<or> (\<exists>n < min k (length xs). P (Suc n))"
      for P and xs :: "string list"
      by (auto simp: less_Suc_eq_0_disj)
    show ?thesis
    proof (cases "run_line T l s")
      case (Inr u)
      have u: "t_exited u \<longleftrightarrow> says_exit l"
        using run_line_exited [OF Inr] Suc.prems by simp
      show ?thesis
      proof (cases "says_exit l")
        case True
        then show ?thesis
          unfolding shell_Suc [OF lr Suc.prems] ls ex by (auto simp: Inr)
      next
        case False
        then have "shell k T r u = Inr t \<longleftrightarrow> (\<exists>n < min k (length (input_lines r)).
            says_exit (input_lines r ! n) \<and> (\<forall>m < n. \<not> says_exit (input_lines r ! m)) \<and>
            go_fold (run_line T) (take (Suc n) (input_lines r)) u = Inr t)"
          using Suc.IH u by blast
        then show ?thesis
          unfolding shell_Suc [OF lr Suc.prems] ls ex using False
          by (auto simp: Inr All_less_Suc2)
      qed
    qed (unfold shell_Suc [OF lr Suc.prems] ls ex, simp)
  qed (simp add: shell_empty Suc.prems del: shell.simps)
qed simp

definition silent_web :: web where
  "silent_web = \<lparr>exchange = (\<lambda>_. None), malformed = (\<lambda>_. False), intn = (\<lambda>_. 0), arrival = (\<lambda>rs. rs),
     marshal = (\<lambda>_. []), unmarshal = (\<lambda>_. None)\<rparr>"

definition demo_tool :: "unit tool" where
  "demo_tool = \<lparr>t_web = silent_web, t_admin_web = silent_web, t_polls = 0, t_mode = [],
     t_chain = \<lparr>chain_new = (), chain_get = (\<lambda>_ k. (None, k)), chain_put = (\<lambda>_ _ k. k)\<rparr>\<rparr>"

definition demo_session :: "unit session" where
  "demo_session = new_session demo_tool [] 1 (MakeDefaultConfig\<lparr>cf_Addrs := [(1, ''a'')], cf_HTTPAddrs := [(1, ''b'')]\<rparr>)"

definition demo_input :: string where
  "demo_input = ''crash 0.1 x'' @ [newline] @ ''exit'' @ [newline]"

theorem shell_ends_only_by_exit_witness:
  "\<exists>t. shell 2 demo_tool demo_input demo_session = Inr t \<and>
     t_out t = [''paxi $ '', ''second argument should be integer'' @ [newline], ''paxi $ '']"
proof -
  have ls: "input_lines demo_input = [''crash 0.1 x'' @ [newline], ''exit'' @ [newline]]"
    by code_simp
  have "\<not> says_exit (''crash 0.1 x'' @ [newline])" "says_exit (''exit'' @ [newline])"
    by code_simp+
  moreover have "case go_fold (run_line demo_tool) (input_lines demo_input) demo_session of
      Inl _ \<Rightarrow> False
    | Inr t \<Rightarrow> t_out t = [''paxi $ '', ''second argument should be integer'' @ [newline], ''paxi $ '']"
    by code_simp
  then obtain t where t: "go_fold (run_line demo_tool) (input_lines demo_input) demo_session = Inr t"
    "t_out t = [''paxi $ '', ''second argument should be integer'' @ [newline], ''paxi $ '']"
    by (auto split: sum.splits)
  ultimately have "\<exists>n < min 2 (length (input_lines demo_input)).
      says_exit (input_lines demo_input ! n) \<and> (\<forall>m < n. \<not> says_exit (input_lines demo_input ! m)) \<and>
      go_fold (run_line demo_tool) (take (Suc n) (input_lines demo_input)) demo_session = Inr t"
    using t(1) by (intro exI [of _ 1]) (simp add: ls)
  moreover have "\<not> t_exited demo_session"
    by (simp add: demo_session_def new_session_def)
  ultimately have "shell 2 demo_tool demo_input demo_session = Inr t"
    using shell_ends_only_by_exit [of demo_session 2 demo_tool demo_input t] by blast
  with t(2) show ?thesis by blast
qed

section \<open>Commands\<close>

text \<open>A key that is no number is not reported: the command is run on key 0. The commands of the
  administrator check their number.\<close>

lemma misspelt_key_is_zero:
  assumes "a \<noteq> []" "\<not> is_digit (hd a)" "hd a \<noteq> CHR ''-''" "hd a \<noteq> CHR ''+''" "cmd \<in> {''get'', ''put'', ''consensus''}"
  shows "run_command T cmd (a # args) s = run_command T cmd (''0'' # args) s"
proof -
  have "Atoi_value a = 0"
    using assms(1-4) by (cases a) (auto simp: Atoi_value_def Atoi_def ParseUint_def)
  moreover have "Atoi_value ''0'' = 0"
    by code_simp
  moreover have "cmd \<noteq> ''crash''" "cmd \<noteq> ''partition''"
    using assms(5) by auto
  ultimately show ?thesis
    unfolding run_command_def by (simp only: if_False list.case)
qed

lemma bad_number_sends_nothing:
  assumes "Atoi a = None"
  shows "run_command T ''crash'' (i # a # args) s = Inr (say ''second argument should be integer'' s)"
    and "run_command T ''partition'' (a # i # args) s = Inr (say ''time argument should be integer'' s)"
  using assms by (simp_all add: run_command_def)

section \<open>What the server starts\<close>

lemma unknown_algorithm:
  "algorithm \<notin> {''paxos'', ''epaxos'', ''pigpaxos'', ''layerpaxos'', ''chainpaxos''} \<Longrightarrow>
     start_replica E [] reply algorithm i c = Inl InvalidArgument"
  by (simp add: start_replica_def)

text \<open>A simulation of Paxos starts one replica per configured node, and together they are the initial state of
  the cluster of PaxosSystem.\<close>

lemma simulation_starts_paxos:
  assumes "Config_Load file MakeDefaultConfig = Inr c"
  shows "server_main E transport file True [] reply ''paxos'' idstr =
    Inr (''chan'', map (\<lambda>i. Run_Paxos (NewPaxos (cf_counts c) (Config_IDs c) i)) (Config_IDs c))"
proof -
  let ?step = "\<lambda>i (c, rs). go_bind (start_replica E [] reply ''paxos'' i c) (\<lambda>(c1, r). Inr (c1, rs @ [r]))"
  have "go_fold ?step is (c, rs) =
      Inr (c, rs @ map (\<lambda>i. Run_Paxos (NewPaxos (cf_counts c) (Config_IDs c) i)) is)" for "is" rs
    by (induction "is" arbitrary: rs) (simp_all add: start_replica_def)
  from this [of "Config_IDs c" "[]"] show ?thesis
    using assms by (simp add: server_main_def Simulation_def Config_IDs_def)
qed

section \<open>Whom a master serves\<close>

text \<open>A client that connects before the last of the \<open>n\<close> nodes gets a configuration without addresses; once the nodes are
  there, the first \<open>n\<close> and later clients get their addresses in the order of registration, and a further node
  waits for ever.\<close>

lemma registered_nodes_split: "registered_nodes conns = registered_nodes (take k conns) @ registered_nodes (drop k conns)"
proof -
  have "registered_nodes (xs @ ys) = registered_nodes xs @ registered_nodes ys" for xs ys
    by (simp add: registered_nodes_def)
  from this [of "take k conns" "drop k conns"] show ?thesis by simp
qed

lemma registered_nodes_take: "length (registered_nodes (take k conns)) \<le> length (registered_nodes conns)"
  by (subst (2) registered_nodes_split [of _ k]) simp

lemma early_client:
  assumes "k < length conns" "fst (conns ! k)" "length (registered_nodes (take k conns)) < n"
  shows "master_answer n thrifty ports conns k = Inr (default_master thrifty)"
    and "cf_Addrs (default_master thrifty) = []"
  using assms by (simp_all add: master_answer_def default_master_def MakeDefaultConfig_def Let_def)

lemma late_node:
  assumes "\<not> fst (conns ! k)" "n \<le> length (registered_nodes (take k conns))"
  shows "master_answer n thrifty ports conns k = Inl Hang"
  using assms by (simp add: master_answer_def)

lemma registered_nodes_prefix: "n \<le> length (registered_nodes (take k conns)) \<Longrightarrow>
    take n (registered_nodes (take k conns)) = take n (registered_nodes conns)"
  by (subst (2) registered_nodes_split [of _ k]) simp

lemma all_get_the_same:
  assumes "if fst (conns ! k) then n \<le> length (registered_nodes (take k conns)) else length (registered_nodes (take k conns)) < n"
  shows "master_answer n thrifty ports conns k = master_config n thrifty ports (registered_nodes conns)"
proof -
  have "master_config n thrifty ports (registered_nodes (take k conns)) = master_config n thrifty ports (registered_nodes conns)"
    if "n \<le> length (registered_nodes (take k conns))"
    using that registered_nodes_prefix [OF that] registered_nodes_take [of k conns] by (simp add: master_config_def Let_def)
  then show ?thesis
    using assms by (simp add: master_answer_def Let_def split: if_splits)
qed

end
