(* ===== verification/Float64.thy ===== *)
theory Float64
  imports Complex_Main "HOL-Library.Log_Nat"
begin

text \<open>
  The type \<open>float64\<close> of Go on finite numbers: a number is the rational that it stands for, and every operation is
  the exact one followed by \<open>float64\<close>, the rounding to 53 significant bits, ties to even. Numbers too great or
  too small for the exponent, the infinities and NaN do not occur in what is modelled with it. The laws of rounding
  that the proofs use are the locale \<open>rounding\<close>.
\<close>

section \<open>Rounding\<close>

text \<open>The exponent of a positive number.\<close>

definition binade :: "rat \<Rightarrow> int" where
  "binade x = (let (a, b) = quotient_of x; e = bitlen a - bitlen b in if 2 powi e \<le> x then e else e - 1)"

definition nearest_even :: "rat \<Rightarrow> int" where
  "nearest_even q = (let n = round q in if q + 1 / 2 = of_int n \<and> odd n then n - 1 else n)"

definition round_positive :: "rat \<Rightarrow> rat" where
  "round_positive x = (let u = 2 powi (binade x - 52) in of_int (nearest_even (x / u)) * u)"

definition float64 :: "rat \<Rightarrow> rat" where
  "float64 x = (if x = 0 then 0 else if x < 0 then - round_positive (- x) else round_positive x)"

text \<open>The conversion to an integer cuts off towards 0.\<close>

definition go_int :: "rat \<Rightarrow> int" where
  "go_int x = (if x < 0 then - \<lfloor>- x\<rfloor> else \<lfloor>x\<rfloor>)"

section \<open>Its laws\<close>

lemma bitlen_interval:
  assumes "a > 0"
  shows "(2 :: rat) powi (bitlen a - 1) \<le> of_int a" "of_int a < (2 :: rat) powi bitlen a"
proof -
  have b: "1 \<le> bitlen a" "2 ^ nat (bitlen a - 1) \<le> a" "a < 2 ^ nat (bitlen a)"
    using assms bitlen_bounds [OF assms] by (auto simp: bitlen_alt_def)
  have "of_int (2 ^ nat (bitlen a - 1)) \<le> (of_int a :: rat)" "of_int a < (of_int (2 ^ nat (bitlen a)) :: rat)"
    using b(2,3) by (simp_all only: of_int_le_iff of_int_less_iff)
  then show "(2 :: rat) powi (bitlen a - 1) \<le> of_int a" "of_int a < (2 :: rat) powi bitlen a"
    using b(1) by (simp_all add: power_int_def)
qed

lemma binade_bounds:
  assumes "x > 0"
  shows "2 powi binade x \<le> x" "x < 2 powi (binade x + 1)"
proof -
  obtain a b where q: "quotient_of x = (a, b)" by fastforce
  have b: "b > 0" and x: "x = of_int a / of_int b"
    using quotient_of_denom_pos [OF q] quotient_of_div [OF q] by simp_all
  with assms have a: "a > 0"
    by (auto simp: zero_less_divide_iff)
  let ?A = "bitlen a" and ?B = "bitlen b"
  note A = bitlen_interval [OF a] and B = bitlen_interval [OF b]
  have "x < 2 powi ?A / 2 powi (?B - 1)"
    unfolding x using A(2) B(1) b a by (intro frac_less) auto
  then have hi: "x < 2 powi (?A - ?B + 1)"
    by (simp flip: power_int_diff add: algebra_simps)
  have "2 powi (?A - 1) / 2 powi ?B \<le> x"
    unfolding x using A(1) B(2) a b by (intro frac_le) auto
  then have lo: "2 powi (?A - ?B - 1) \<le> x"
    by (simp flip: power_int_diff add: algebra_simps)
  show "2 powi binade x \<le> x" "x < 2 powi (binade x + 1)"
    using lo hi by (auto simp: binade_def q Let_def not_le)
qed

lemma binade_unique:
  assumes "2 powi e \<le> x" "x < 2 powi (e + 1)"
  shows "binade x = e"
proof -
  have x: "x > 0"
    using assms(1) by (rule less_le_trans [rotated]) simp
  have "\<not> binade x < e" "\<not> e < binade x"
    using binade_bounds [OF x] assms power_int_increasing [of "binade x + 1" e "2 :: rat"]
      power_int_increasing [of "e + 1" "binade x" "2 :: rat"] by auto
  then show ?thesis by simp
qed

lemma binade_mono:
  assumes "0 < x" "x \<le> y"
  shows "binade x \<le> binade y"
proof (rule ccontr)
  assume "\<not> binade x \<le> binade y"
  then have "(2 :: rat) powi (binade y + 1) \<le> 2 powi binade x"
    by (intro power_int_increasing) auto
  then show False
    using binade_bounds(1) [OF assms(1)] binade_bounds(2) [of y] assms by auto
qed

lemma nearest_even_of_int [simp]: "nearest_even (of_int n) = n"
proof -
  have "(of_int n :: rat) + 1 / 2 \<noteq> of_int n" by simp
  then show ?thesis by (simp add: nearest_even_def)
qed

lemma nearest_even_close: "\<bar>of_int (nearest_even q) - q\<bar> \<le> 1 / 2"
  using of_int_round_abs_le [of q] by (auto simp: nearest_even_def Let_def)

lemma nearest_even_mono:
  assumes "p \<le> q"
  shows "nearest_even p \<le> nearest_even q"
proof (cases "q + 1 / 2 = of_int (round q) \<and> odd (round q)")
  case tie: True
  have "nearest_even p \<le> round q - 1" if "round p = round q"
  proof -
    have "of_int (round q) \<le> p + 1 / 2"
      using that of_int_round_le [of p] by simp
    then have "p = q"
      using tie assms by simp
    with tie show ?thesis by (simp add: nearest_even_def)
  qed
  moreover have "nearest_even p \<le> round p"
    by (simp add: nearest_even_def Let_def)
  moreover have "round p \<le> round q"
    using assms by (rule round_mono)
  ultimately have "nearest_even p \<le> round q - 1"
    by (cases "round p = round q") auto
  then show ?thesis
    using tie by (simp add: nearest_even_def Let_def)
next
  case False
  have "nearest_even p \<le> round p"
    by (simp add: nearest_even_def Let_def)
  also have "\<dots> \<le> round q"
    using assms by (rule round_mono)
  also have "\<dots> = nearest_even q"
    unfolding nearest_even_def Let_def using False by auto
  finally show ?thesis .
qed

lemma round_positive_in_binade:
  assumes "x > 0"
  shows "2 powi binade x \<le> round_positive x" "round_positive x \<le> 2 powi (binade x + 1)"
proof -
  let ?u = "2 powi (binade x - 52) :: rat"
  have u: "?u > 0" by simp
  have e: "2 powi binade x = of_int (2 ^ 52) * ?u" "2 powi (binade x + 1) = of_int (2 ^ 53) * ?u"
    by (simp_all add: power_int_diff power_int_add)
  have "of_int (2 ^ 52) \<le> x / ?u" "x / ?u \<le> of_int (2 ^ 53)"
    using binade_bounds [OF assms] u by (simp_all add: e pos_le_divide_eq pos_divide_le_eq less_imp_le)
  from this [THEN nearest_even_mono] have "2 ^ 52 \<le> nearest_even (x / ?u)" "nearest_even (x / ?u) \<le> 2 ^ 53"
    by (simp_all only: nearest_even_of_int)
  then have "of_int (2 ^ 52) \<le> (of_int (nearest_even (x / ?u)) :: rat)" "(of_int (nearest_even (x / ?u)) :: rat) \<le> of_int (2 ^ 53)"
    by (simp_all only: of_int_le_iff)
  from this [THEN mult_right_mono [OF _ less_imp_le [OF u]]]
  show "2 powi binade x \<le> round_positive x" "round_positive x \<le> 2 powi (binade x + 1)"
    by (simp_all only: e round_positive_def Let_def)
qed

lemma round_positive_mono:
  assumes "0 < x" "x \<le> y"
  shows "round_positive x \<le> round_positive y"
proof (cases "binade x = binade y")
  case True
  then show ?thesis
    using assms(2) nearest_even_mono [of "x / 2 powi (binade y - 52)" "y / 2 powi (binade y - 52)"]
    by (simp add: round_positive_def Let_def divide_right_mono)
next
  case False
  then have "binade x + 1 \<le> binade y"
    using binade_mono [OF assms] by simp
  then have "(2 :: rat) powi (binade x + 1) \<le> 2 powi binade y"
    by (intro power_int_increasing) auto
  then show ?thesis
    using round_positive_in_binade(2) [OF assms(1)] round_positive_in_binade(1) [of y] assms by simp
qed

lemma round_positive_error:
  assumes "x > 0"
  shows "\<bar>round_positive x - x\<bar> \<le> x / 2 ^ 53"
proof -
  let ?u = "2 powi (binade x - 52) :: rat"
  have u: "?u > 0" by simp
  have "round_positive x - x = (of_int (nearest_even (x / ?u)) - x / ?u) * ?u"
    using u by (simp add: round_positive_def Let_def algebra_simps)
  then have "\<bar>round_positive x - x\<bar> = \<bar>of_int (nearest_even (x / ?u)) - x / ?u\<bar> * ?u"
    using u by (simp add: abs_mult)
  also have "\<dots> \<le> 1 / 2 * ?u"
    using nearest_even_close u by (intro mult_right_mono) auto
  also have "\<dots> = 2 powi binade x / 2 ^ 53"
    by (simp add: power_int_diff)
  also have "\<dots> \<le> x / 2 ^ 53"
    using binade_bounds(1) [OF assms] by (simp add: divide_right_mono)
  finally show ?thesis .
qed

lemma round_positive_of_int:
  assumes "0 < n" "n \<le> 2 ^ 53"
  shows "round_positive (of_int n) = of_int n"
proof (cases "binade (of_int n) \<le> 52")
  case True
  let ?e = "binade (of_int n)"
  have "(2 :: rat) powi (52 - ?e) = of_int (2 ^ nat (52 - ?e))"
    using True by (simp add: power_int_def)
  moreover have "of_int n / (2 :: rat) powi (?e - 52) = of_int n * 2 powi (52 - ?e)"
    by (simp add: power_int_diff)
  ultimately have "of_int n / (2 :: rat) powi (?e - 52) = of_int (n * 2 ^ nat (52 - ?e))"
    by simp
  then have "of_int (nearest_even (of_int n / 2 powi (?e - 52))) = (of_int n :: rat) / 2 powi (?e - 52)"
    by (simp only: nearest_even_of_int)
  then show ?thesis
    by (simp add: round_positive_def Let_def)
next
  case False
  then have "(2 :: rat) powi 53 \<le> 2 powi binade (of_int n)"
    by (intro power_int_increasing) auto
  also have "\<dots> \<le> of_int n"
    using assms(1) by (intro binade_bounds) simp
  finally have "of_int (2 ^ 53) \<le> (of_int n :: rat)"
    by simp
  then have "2 ^ 53 \<le> n"
    by (simp only: of_int_le_iff)
  with assms(2) have n: "n = 2 ^ 53" by simp
  have "binade (of_int n) = 53"
    unfolding n by (rule binade_unique) simp_all
  then have "of_int n / (2 :: rat) powi (binade (of_int n) - 52) = of_int (2 ^ 52)"
    by (simp add: n)
  then show ?thesis
    using \<open>binade (of_int n) = 53\<close>
    by (simp only: round_positive_def Let_def nearest_even_of_int) (simp add: n)
qed

text \<open>What is used of a rounding: it keeps the order and the integers of up to 53 bits, and its relative error is at
  most half a unit of the last place.\<close>

locale rounding =
  fixes rnd :: "rat \<Rightarrow> rat"
  assumes mono: "x \<le> y \<Longrightarrow> rnd x \<le> rnd y"
    and of_int: "\<bar>n\<bar> \<le> 2 ^ 53 \<Longrightarrow> rnd (of_int n) = of_int n"
    and error: "\<bar>rnd x - x\<bar> \<le> \<bar>x\<bar> / 2 ^ 53"
begin

lemma zero [simp]: "rnd 0 = 0"
  using of_int [of 0] by simp

lemma nonneg: "0 \<le> x \<Longrightarrow> 0 \<le> rnd x"
  using mono [of 0 x] by simp

lemma upper: "0 \<le> x \<Longrightarrow> rnd x \<le> x * (1 + 1 / 2 ^ 53)"
proof -
  assume "0 \<le> x"
  then have "rnd x - x \<le> x / 2 ^ 53"
    using error [of x] by (simp only: abs_le_iff abs_of_nonneg)
  then have "rnd x \<le> x + x / 2 ^ 53"
    by linarith
  then show "rnd x \<le> x * (1 + 1 / 2 ^ 53)"
    by (simp only: distrib_left mult_1_right times_divide_eq_right)
qed

text \<open>The index of a percentile \<open>p\<close> of up to 0.999 among \<open>n\<close> values.\<close>

lemma percentile_below:
  assumes "0 \<le> p" "p \<le> 999 / 1000" "0 < n" "n \<le> 2 ^ 53"
  shows "0 \<le> go_int (rnd (rnd p * rnd (of_int n)))" "go_int (rnd (rnd p * rnd (of_int n))) < n"
proof -
  have n: "rnd (of_int n) = of_int n"
    using assms(3,4) by (intro of_int) simp
  let ?d = "1 + 1 / 2 ^ 53 :: rat" and ?x = "rnd (rnd p * rnd (of_int n))"
  have p: "0 \<le> rnd p" "rnd p \<le> p * ?d"
    using assms(1) nonneg upper by auto
  then have r: "0 \<le> rnd p * of_int n"
    using assms(3) by simp
  have "?x \<le> rnd p * of_int n * ?d"
    using upper [OF r] by (simp only: n)
  also have "\<dots> \<le> (999 / 1000 * ?d) * of_int n * ?d"
    using assms(2,3) p(2) by (intro mult_right_mono order_trans [OF p(2)]) auto
  also have "\<dots> = of_int n * (999 / 1000 * ?d * ?d)"
    by simp
  also have "\<dots> < of_int n * 1"
    using assms(3) by (intro mult_strict_left_mono) (simp_all add: field_simps)
  finally have "?x < of_int n" by simp
  moreover have "0 \<le> ?x"
    using nonneg [OF r] by (simp only: n)
  ultimately show "0 \<le> go_int ?x" "go_int ?x < n"
    by (auto simp: go_int_def floor_less_iff)
qed

lemma percentile_mono:
  assumes "0 \<le> p" "p \<le> q" "0 < n"
  shows "go_int (rnd (rnd p * rnd (of_int n))) \<le> go_int (rnd (rnd q * rnd (of_int n)))"
proof -
  have n: "0 \<le> rnd (of_int n)"
    using assms(3) nonneg [of "of_int n"] by simp
  then have r: "0 \<le> rnd p * rnd (of_int n)"
    using assms(1) nonneg [of p] by simp
  moreover have "rnd p * rnd (of_int n) \<le> rnd q * rnd (of_int n)"
    using mono [OF assms(2)] n by (rule mult_right_mono)
  ultimately have "0 \<le> rnd (rnd p * rnd (of_int n))" "rnd (rnd p * rnd (of_int n)) \<le> rnd (rnd q * rnd (of_int n))"
    using nonneg mono by auto
  then show ?thesis
    by (auto simp: go_int_def floor_mono)
qed

end

lemma float64_error: "\<bar>float64 x - x\<bar> \<le> \<bar>x\<bar> / 2 ^ 53"
proof (cases "x < 0")
  case True
  then have "\<bar>float64 x - x\<bar> = \<bar>round_positive (- x) - - x\<bar>"
    by (simp add: float64_def abs_minus_commute)
  also have "\<dots> \<le> - x / 2 ^ 53"
    using True by (intro round_positive_error) simp
  finally show ?thesis
    using True by (simp only: abs_of_neg)
next
  case False
  then show ?thesis
    using round_positive_error [of x] by (cases "x = 0") (simp_all add: float64_def)
qed

lemma round_positive_pos: "x > 0 \<Longrightarrow> round_positive x > 0"
  using round_positive_in_binade(1) [of x] by (rule less_le_trans [rotated]) simp_all

lemma float64_mono:
  assumes "x \<le> y"
  shows "float64 x \<le> float64 y"
  using assms round_positive_mono [of x y] round_positive_mono [of "- y" "- x"]
    round_positive_pos [of y] round_positive_pos [of "- x"]
  by (auto simp: float64_def)

lemma float64_of_int: "\<bar>n\<bar> \<le> 2 ^ 53 \<Longrightarrow> float64 (of_int n) = of_int n"
  using round_positive_of_int [of n] round_positive_of_int [of "- n"]
  by (auto simp: float64_def)

interpretation f: rounding float64
  by unfold_locales (fact float64_mono float64_of_int float64_error)+

lemma float64_examples:
  "float64 (1 / 10) = 3602879701896397 / 36028797018963968" "float64 (999 / 1000) < 999 / 1000"
  "float64 (of_int (2 ^ 53 + 1)) = of_int (2 ^ 53)"
  by code_simp+

end
