(* ===== verification/BenchmarkRun.thy ===== *)
theory BenchmarkRun
  imports WorkloadFacts
begin

text \<open>
  \<open>NewBenchmark\<close> and \<open>Run\<close> of \<open>benchmark.go\<close>: keys are issued to the workers through a channel while the workers end
  their operations, the collector takes the latencies and the operations are added to the history,
  and the run stops when a timer fires or a count is reached. An execution is a
  list of events. What is computed with floating-point numbers, the movement of the mean and the files that are
  written at the end are in Measures.
\<close>

section \<open>A run\<close>

record running =
  rn_conf :: Bconfig
  rn_bench :: Benchmark

definition NewBenchmark :: "Bconfig \<Rightarrow> running go" where
  "NewBenchmark c =
     go_bind (if b_Throttle c > 0 then go_bind (NewLimiter (b_Throttle c)) (\<lambda>l. Inr (Some l)) else Inr None)
       (\<lambda>rate. Inr \<lparr>rn_conf = c\<lparr>b_rate := rate\<rparr>, rn_bench = new_bench\<rparr>)"

text \<open>The main goroutine issues a key, with the random numbers and the time that \<open>next\<close> uses; or there is an event of
  the workers or the collector.\<close>

datatype run_event = Issue distribution nat goint | Work work

fun run_step :: "nat \<Rightarrow> run_event \<Rightarrow> running \<Rightarrow> running go" where
  "run_step conc (Issue d r now) s =
     go_bind (next_key d r now (rn_conf s)) (\<lambda>(k, slept, c).
     go_bind (submit conc k (rn_bench s)) (\<lambda>b. Inr (s\<lparr>rn_conf := c, rn_bench := b\<rparr>)))"
| "run_step conc (Work w) s = go_bind (work_step conc w (rn_bench s)) (\<lambda>b. Inr (s\<lparr>rn_bench := b\<rparr>))"

fun issues :: "run_event \<Rightarrow> bool" where
  "issues (Issue d r now) \<longleftrightarrow> True" | "issues (Work w) \<longleftrightarrow> False"

text \<open>The end of \<open>Run\<close>: the statistics, and the verdict of the checker when it is asked for.\<close>

datatype verdict = NotChecked | IsLinearizable | Anomalies nat

definition summary :: "choices \<Rightarrow> bool \<Rightarrow> running \<Rightarrow> (Stat \<times> verdict) go" where
  "summary E check s =
     go_bind (Statistic (bm_latency (rn_bench s))) (\<lambda>stat.
       if check then go_bind (Linearizable E (bm_history (rn_bench s)))
                       (\<lambda>(n, h). Inr (stat, if n = 0 then IsLinearizable else Anomalies n))
       else Inr (stat, NotChecked))"

text \<open>\<open>Run\<close> starts with no latency. With a time \<open>T\<close> the timer fires after the last event, whatever is under way; otherwise \<open>N\<close> keys are issued
  and the wait group is waited for.\<close>

definition run_start :: "running \<Rightarrow> running" where
  "run_start s = s\<lparr>rn_bench := (rn_bench s)\<lparr>bm_latency := []\<rparr>\<rparr>"

definition Run :: "choices \<Rightarrow> nat \<Rightarrow> bool \<Rightarrow> goint \<Rightarrow> goint \<Rightarrow> run_event list \<Rightarrow> running \<Rightarrow> (Stat \<times> verdict) go" where
  "Run E conc check T N evs s =
     go_bind (go_fold (run_step conc) evs (run_start s)) (\<lambda>s1.
       if T > 0 then summary E check s1
       else if length (filter issues evs) \<noteq> nat N then Inl Hang
       else go_bind (wait_all (rn_bench s1)) (\<lambda>_. summary E check s1))"

section \<open>What a run accounts for\<close>

fun works_in :: "run_event list \<Rightarrow> work list" where
  "works_in [] = []"
| "works_in (Issue d r now # es) = works_in es"
| "works_in (Work w # es) = w # works_in es"

lemma works_in_append [simp]: "works_in (xs @ ys) = works_in xs @ works_in ys"
  by (induction xs rule: works_in.induct) simp_all

definition run_ok :: "nat \<Rightarrow> run_event list \<Rightarrow> running \<Rightarrow> bool" where
  [wf_defs]: "run_ok conc evs s \<longleftrightarrow> bench_ok conc (ended (works_in evs)) (rn_bench s) \<and>
     length (filter issues evs) = length (bm_keys (rn_bench s)) + length (ended (works_in evs))"

lemma run_ok_step:
  assumes "run_ok conc evs s" "run_step conc e s = Inr t"
  shows "run_ok conc (evs @ [e]) t"
proof (cases e)
  case (Issue d r now)
  then obtain k c b where "submit conc k (rn_bench s) = Inr b" "t = s\<lparr>rn_conf := c, rn_bench := b\<rparr>"
    using assms(2) by (auto split: prod.splits)
  moreover from this(1) have "length (bm_keys b) = Suc (length (bm_keys (rn_bench s)))"
    by (auto simp: submit_def split: if_splits)
  ultimately show ?thesis
    using assms(1) bench_ok_submit Issue by (auto simp: run_ok_def)
next
  case (Work w)
  then obtain b where b: "work_step conc w (rn_bench s) = Inr b" "t = s\<lparr>rn_bench := b\<rparr>"
    using assms(2) by auto
  then show ?thesis
    using assms(1) Work bench_ok_work(1) [OF _ b(1)] work_step_ends(1) [OF b(1)] by (auto simp: run_ok_def)
qed

lemma run_ok_fold: "run_ok conc evs0 s \<Longrightarrow> go_fold (run_step conc) evs s = Inr t \<Longrightarrow> run_ok conc (evs0 @ evs) t"
proof (induction evs arbitrary: evs0 s)
  case (Cons e evs)
  then obtain u where "run_step conc e s = Inr u" "go_fold (run_step conc) evs u = Inr t"
    by auto
  then show ?case
    using Cons.IH [of "evs0 @ [e]" u] run_ok_step [OF Cons.prems(1)] by simp
qed simp

lemma run_ok_new: "NewBenchmark c = Inr s \<Longrightarrow> run_ok conc [] (run_start s)"
  using bench_ok_new(1) by (auto simp: NewBenchmark_def run_start_def run_ok_def new_bench_def split: if_splits)

lemma summary_returns: "(\<exists>r. summary E False t = Inr r) \<longleftrightarrow> bm_latency (rn_bench t) \<noteq> []"
proof (cases "bm_latency (rn_bench t) = []")
  case True
  then show ?thesis by (simp add: summary_def Statistic_def)
next
  case False
  then show ?thesis using Statistic_eq [OF False] by (auto simp: summary_def)
qed

text \<open>A run of a new benchmark accounts for every operation. At any moment the issued operations are those that
  wait or are under way, at most twice the concurrency, and those that have ended; of these all are in the
  history but at most one for each worker. A run that counts its operations returns exactly when all of
  them have ended, none has failed, each latency is collected and there is one; a run with a timer needs
  one latency.\<close>

theorem run_accounts_for_operations:
  assumes "NewBenchmark c = Inr s" "go_fold (run_step conc) evs (run_start s) = Inr t"
    and "length (filter issues evs) = nat N"
  shows "nat N = length (bm_keys (rn_bench t)) + length (ended (works_in evs))
    \<and> length (bm_keys (rn_bench t)) + length (bm_unrecorded (rn_bench t)) \<le> 2 * conc \<and> length (bm_unrecorded (rn_bench t)) \<le> conc
    \<and> mset (h_heap (bm_history (rn_bench t))) + mset (map snd (bm_unrecorded (rn_bench t))) = mset (map written_down (ended (works_in evs)))
    \<and> ((\<exists>r. Run E conc False 0 N evs s = Inr r) \<longleftrightarrow>
        0 < N \<and> bm_latency (rn_bench t) = map latency_of (ended (works_in evs))
          \<and> length (ended (works_in evs)) = nat N \<and> (\<forall>oc \<in> set (ended (works_in evs)). \<not> oc_failed oc))
    \<and> ((\<exists>r. Run E conc False 1 N evs s = Inr r) \<longleftrightarrow> bm_latency (rn_bench t) \<noteq> [])"
proof (intro conjI)
  let ?os = "ended (works_in evs)" and ?b = "rn_bench t"
  have ok: "bench_ok conc ?os ?b" and n: "nat N = length (bm_keys ?b) + length ?os"
    using run_ok_fold [OF run_ok_new [OF assms(1)] assms(2)] assms(3) by (simp_all add: run_ok_def)
  show "nat N = length (bm_keys ?b) + length ?os" by (rule n)
  show "length (bm_keys ?b) + length (bm_unrecorded ?b) \<le> 2 * conc" "length (bm_unrecorded ?b) \<le> conc"
    "mset (h_heap (bm_history ?b)) + mset (map snd (bm_unrecorded ?b)) = mset (map written_down ?os)"
    using ok by (simp_all add: bench_ok_def)
  have lat: "bm_latency ?b @ bm_results ?b = map latency_of (filter (\<lambda>oc. \<not> oc_failed oc) ?os)"
    and wait: "bm_wait ?b = int (length (bm_keys ?b)) + int (length (bm_results ?b)) + int (length (filter oc_failed ?os))"
    using ok by (simp_all add: bench_ok_def)
  have "bm_wait ?b = 0 \<longleftrightarrow> length ?os = nat N \<and> bm_results ?b = [] \<and> (\<forall>oc \<in> set ?os. \<not> oc_failed oc)"
  proof -
    have "bm_wait ?b = 0 \<longleftrightarrow> bm_keys ?b = [] \<and> bm_results ?b = [] \<and> filter oc_failed ?os = []"
      unfolding wait by (simp add: add_nonneg_eq_0_iff)
    then show ?thesis
      using n by (auto simp: filter_empty_conv)
  qed
  moreover have "bm_results ?b = [] \<longleftrightarrow> bm_latency ?b = map latency_of ?os" if "\<forall>oc \<in> set ?os. \<not> oc_failed oc"
    using lat that by (auto simp: filter_id_conv)
  moreover have "(\<exists>r. Run E conc False 0 N evs s = Inr r) \<longleftrightarrow> bm_wait ?b = 0 \<and> bm_latency ?b \<noteq> []"
    using assms(2,3) summary_returns by (auto simp: Run_def wait_all_def)
  ultimately show "(\<exists>r. Run E conc False 0 N evs s = Inr r) \<longleftrightarrow>
      0 < N \<and> bm_latency ?b = map latency_of ?os \<and> length ?os = nat N \<and> (\<forall>oc \<in> set ?os. \<not> oc_failed oc)"
    by (cases ?os) auto
  show "(\<exists>r. Run E conc False 1 N evs s = Inr r) \<longleftrightarrow> bm_latency ?b \<noteq> []"
    using assms(2) summary_returns by (simp add: Run_def)
qed

theorem run_accounts_for_operations_witness:
  "\<exists>s r. NewBenchmark \<lparr>b_K = 4, b_Min = 0, b_Conflicts = 0, b_Throttle = 0, b_counter = 0, b_rate = None\<rparr> = Inr s \<and>
     Run E 1 False 0 1
       [Issue Uniform 3 0, Work (Finish 0 \<lparr>oc_write = True, oc_value = Some [1], oc_start = 1, oc_end = 4, oc_failed = False\<rparr>), Work Collect]
       s = Inr r"
proof -
  let ?c = "\<lparr>b_K = 4, b_Min = 0, b_Conflicts = 0, b_Throttle = 0, b_counter = 0, b_rate = None\<rparr>"
  let ?s = "\<lparr>rn_conf = ?c, rn_bench = new_bench\<rparr>"
  let ?oc = "\<lparr>oc_write = True, oc_value = Some [1], oc_start = 1, oc_end = 4, oc_failed = False\<rparr>"
  let ?evs = "[Issue Uniform 3 0, Work (Finish 0 ?oc), Work Collect]"
  have s: "NewBenchmark ?c = Inr ?s"
    by (simp add: NewBenchmark_def)
  obtain t where t: "go_fold (run_step 1) ?evs (run_start ?s) = Inr t" "bm_latency (rn_bench t) = [3]"
    by (simp add: next_key_def draw_key_def Intn_def run_start_def new_bench_def submit_def worker_ends_def collect_def latency_of_def)
  then have "\<exists>r. Run E 1 False 0 1 ?evs ?s = Inr r"
    using run_accounts_for_operations [OF s t(1), of 1 E] by (simp add: latency_of_def)
  with s show ?thesis by blast
qed

end
