(* ===== verification/Measures.thy ===== *)
theory Measures
  imports Float64 BenchmarkRun SocketFacts
begin

text \<open>
  What is computed with floating-point numbers: the statistics of \<open>stat.go\<close>, the written history of \<open>history.go\<close> with what every
  operation on a history keeps, the policy \<open>ema\<close> of \<open>policy.go\<close>, and the default values, the drawing of keys and the moving mean of \<open>benchmark.go\<close>;
  with \<open>GenerateRandVal\<close> and \<open>Schedule\<close> of \<open>util.go\<close>. The texts of numbers are arguments.
\<close>

section \<open>Statistics\<close>

record float_stat =
  fs_Data :: "rat list"
  fs_Size :: nat
  fs_Mean :: rat
  fs_Min :: rat
  fs_Max :: rat
  fs_Median :: rat
  fs_P95 :: rat
  fs_P99 :: rat
  fs_P999 :: rat

definition milliseconds :: "goint \<Rightarrow> rat" where
  "milliseconds l = float64 (float64 (of_int l) / 1000000)"

text \<open>The value at \<open>int(p * float64(size))\<close>, where the constant \<open>p\<close> is first made a \<open>float64\<close>.\<close>

definition percentile :: "rat \<Rightarrow> rat list \<Rightarrow> rat go" where
  "percentile p ms = slice_at ms (go_int (float64 (float64 p * float64 (of_int (int (length ms))))))"

text \<open>Without a latency the mean is NaN, but the minimum panics.\<close>

definition Statistic_ms :: "goint list \<Rightarrow> float_stat go" where
  "Statistic_ms latency =
     (let ms = sort (map milliseconds latency);
          sum = fold (\<lambda>m s. float64 (s + m)) ms 0;
          size = length ms
      in go_bind (slice_at ms 0) (\<lambda>least.
         go_bind (slice_at ms (int size - 1)) (\<lambda>greatest.
         go_bind (percentile (1 / 2) ms) (\<lambda>median.
         go_bind (percentile (95 / 100) ms) (\<lambda>p95.
         go_bind (percentile (99 / 100) ms) (\<lambda>p99.
         go_bind (percentile (999 / 1000) ms) (\<lambda>p999.
           Inr \<lparr>fs_Data = ms, fs_Size = size, fs_Mean = float64 (sum / float64 (of_int (int size))),
                fs_Min = least, fs_Max = greatest, fs_Median = median,
                fs_P95 = p95, fs_P99 = p99, fs_P999 = p999\<rparr>)))))))"

definition Stat_String :: "(rat \<Rightarrow> string) \<Rightarrow> float_stat \<Rightarrow> string" where
  "Stat_String T s =
     ''size = '' @ Itoa (int (fs_Size s)) @ [CHR 0x0A] @ ''mean = '' @ T (fs_Mean s) @ [CHR 0x0A]
     @ ''min = '' @ T (fs_Min s) @ [CHR 0x0A] @ ''max = '' @ T (fs_Max s) @ [CHR 0x0A]
     @ ''median = '' @ T (fs_Median s) @ [CHR 0x0A] @ ''p95 = '' @ T (fs_P95 s) @ [CHR 0x0A]
     @ ''p99 = '' @ T (fs_P99 s) @ [CHR 0x0A] @ ''p999 = '' @ T (fs_P999 s) @ [CHR 0x0A]"

text \<open>The lines of the file, unless it cannot be created.\<close>

definition Stat_WriteFile :: "bool \<Rightarrow> (rat \<Rightarrow> string) \<Rightarrow> float_stat \<Rightarrow> string list option" where
  "Stat_WriteFile created T s = (if created then Some (map T (fs_Data s)) else None)"

section \<open>The written history\<close>

datatype history_line = Row Value Value rat rat | PerSecond rat nat

definition seconds :: "goint \<Rightarrow> rat" where
  "seconds t = float64 (float64 (of_int t) / 1000000000)"

text \<open>The loop of \<open>WriteFile\<close> with its three variables.\<close>

fun history_lines :: "operation list \<Rightarrow> rat \<Rightarrow> nat \<Rightarrow> rat \<Rightarrow> history_line list" where
  "history_lines [] latency throughput s = []"
| "history_lines (x # xs) latency throughput s =
     (let start = seconds (op_start x); end = seconds (op_end x);
          latency1 = float64 (latency + float64 (end - start)); throughput1 = throughput + 1;
          row = Row (op_input x) (op_output x) start end
      in if end > s
         then row # PerSecond (float64 (float64 (latency1 / float64 (of_nat throughput1)) * 1000)) throughput1
              # history_lines xs 0 0 (float64 (s + 1))
         else row # history_lines xs latency1 throughput1 s)"

definition History_WriteFile :: "choices \<Rightarrow> bool \<Rightarrow> op_history \<Rightarrow> history_line list option \<times> op_history" where
  "History_WriteFile E created h =
     (if created
      then let ops = sorting E (h_heap h) (operations h)
           in (Some (history_lines (map (\<lambda>p. h_heap h ! p) ops) 0 0 1), h\<lparr>operations := ops\<rparr>)
      else (None, h))"

text \<open>The columns of a line.\<close>

fun columns :: "(rat \<Rightarrow> string) \<Rightarrow> history_line \<Rightarrow> string list" where
  "columns T (Row i out s e) = [hex (slice_bytes i), hex (slice_bytes out), T s, T e]"
| "columns T (PerSecond l n) = [''PerSecond '' @ T l @ '' '' @ Itoa (int n)]"

section \<open>The exponential moving average\<close>

record ema =
  em_alpha :: rat
  em_s :: rat
  em_epsilon :: rat
  em_zone :: goint

definition NewEma :: "rat \<Rightarrow> ema" where
  "NewEma threshold = \<lparr>em_alpha = threshold, em_s = 0, em_epsilon = float64 (1 / 10), em_zone = 0\<rparr>"

text \<open>\<open>math.Round\<close> rounds halves away from 0.\<close>

definition math_Round :: "rat \<Rightarrow> goint" where
  "math_Round x = (if x < 0 then - \<lfloor>- x + 1 / 2\<rfloor> else \<lfloor>x + 1 / 2\<rfloor>)"

definition ema_Hit :: "ID \<Rightarrow> ema \<Rightarrow> ID \<times> ema" where
  "ema_Hit i e =
     (if em_s e = 0 then (0, e\<lparr>em_s := float64 (of_int (Zone i))\<rparr>)
      else
        let e1 = e\<lparr>em_s := float64 (float64 (em_alpha e * float64 (of_int (Zone i)))
                                  + float64 (float64 (1 - em_alpha e) * em_s e))\<rparr>;
            z = math_Round (em_s e1)
        in if \<bar>float64 (em_s e1 - of_int z)\<bar> > em_epsilon e1 then (0, e1)
           else if z \<noteq> em_zone e1 then (NewID z 1, e1\<lparr>em_zone := z\<rparr>)
           else (0, e1))"

section \<open>Drawing keys\<close>

record bench_config =
  bc_T :: goint
  bc_N :: goint
  bc_K :: goint
  bc_W :: rat
  bc_Throttle :: goint
  bc_Concurrency :: goint
  bc_Distribution :: string
  bc_LinearizabilityCheck :: bool
  bc_Conflicts :: goint
  bc_Min :: goint
  bc_Mu :: rat
  bc_Sigma :: rat
  bc_Move :: bool
  bc_Speed :: goint
  bc_ZipfianS :: rat
  bc_ZipfianV :: rat
  bc_Lambda :: rat
  bc_Size :: goint

definition DefaultBConfig :: bench_config where
  "DefaultBConfig =
     \<lparr>bc_T = 60, bc_N = 0, bc_K = 1000, bc_W = float64 (1 / 2), bc_Throttle = 0, bc_Concurrency = 1,
      bc_Distribution = ''uniform'', bc_LinearizabilityCheck = True, bc_Conflicts = 100, bc_Min = 0,
      bc_Mu = 0, bc_Sigma = 60, bc_Move = False, bc_Speed = 500, bc_ZipfianS = 2, bc_ZipfianV = 1,
      bc_Lambda = float64 (1 / 100), bc_Size = 8\<rparr>"

text \<open>The part of it that Workload uses, with the fields of a new benchmark.\<close>

definition drawing :: "bench_config \<Rightarrow> Bconfig" where
  "drawing c = \<lparr>b_K = bc_K c, b_Min = bc_Min c, b_Conflicts = bc_Conflicts c, b_Throttle = bc_Throttle c,
     b_counter = 0, b_rate = None\<rparr>"

text \<open>The distribution by name; \<open>normal\<close>, \<open>exponential\<close> and \<open>zipf\<close> are the numbers drawn. A \<open>Lambda\<close> of 0 gives an infinite
  number and is left out.\<close>

definition distribution_of :: "bench_config \<Rightarrow> rat \<Rightarrow> rat \<Rightarrow> goint \<Rightarrow> distribution" where
  "distribution_of c normal exponential zipf =
     (let d = bc_Distribution c in
      if d = ''order'' then Order
      else if d = ''uniform'' then Uniform
      else if d = ''conflict'' then Conflict
      else if d = ''normal'' then Normal (go_int (float64 (float64 (normal * bc_Sigma c) + bc_Mu c)))
      else if d = ''zipfan'' then Zipfan zipf
      else if d = ''exponential'' then Exponential (go_int (float64 (exponential / bc_Lambda c)))
      else Unknown)"

text \<open>The moving mean of \<open>Run\<close>.\<close>

definition move :: "bench_config \<Rightarrow> bench_config go" where
  "move c =
     (if bc_K c = 0 then Inl DivByZero
      else Inr (c\<lparr>bc_Mu := float64 (of_int (go_int (float64 (bc_Mu c + 1)) smod bc_K c))\<rparr>))"

text \<open>\<open>Schedule\<close> calls its function at once and after each of the \<open>k\<close> delays that end before the stop.\<close>

definition Schedule :: "('s \<Rightarrow> 's go) \<Rightarrow> nat \<Rightarrow> 's \<Rightarrow> 's go" where
  "Schedule f k s = go_fold (\<lambda>_. f) [0..<Suc k] s"

definition letterBytes :: string where
  "letterBytes = ''abcdefghijklmnopqrstuvwxyzABCDEFGHIJKLMNOPQRSTUVWXYZ''"

definition GenerateRandVal :: "(nat \<Rightarrow> nat) \<Rightarrow> goint \<Rightarrow> bytes go" where
  "GenerateRandVal r n =
     (if n < 0 then Inl InvalidArgument
      else Inr (map (\<lambda>i. of_char (letterBytes ! (r i mod length letterBytes))) [0..<nat n]))"

section \<open>Percentiles are in range and in order\<close>

context rounding
begin

lemma median_index:
  assumes "rnd (1 / 2) = 1 / 2" "0 < n" "n \<le> 2 ^ 53"
  shows "go_int (rnd (rnd (1 / 2) * rnd (of_int n))) = n div 2"
proof -
  let ?k = "n div 2" and ?x = "rnd (of_int n / 2)"
  have k: "0 \<le> ?k" "?k \<le> n"
    using assms(2) by auto
  then have "\<bar>?k\<bar> \<le> 2 ^ 53"
    using assms(3) by linarith
  then have "rnd (of_int ?k) = of_int ?k"
    by (rule of_int)
  moreover have "of_int (2 * ?k) \<le> (of_int n :: rat)"
    unfolding of_int_le_iff by simp
  ultimately have lo: "of_int ?k \<le> ?x"
    using mono [of "of_int ?k" "of_int n / 2"] by simp
  have hi: "?x < of_int ?k + 1"
  proof (cases "even n")
    case True
    then have "of_int n / 2 = (of_int ?k :: rat)"
      by auto
    then show ?thesis
      using \<open>rnd (of_int ?k) = of_int ?k\<close> by simp
  next
    case False
    then have n: "n = 2 * ?k + 1" "n < 2 ^ 53"
      using assms(3) by (auto simp: odd_two_times_div_two_succ le_less)
    have "(of_int n :: rat) < of_int (2 ^ 53)"
      using n(2) by (simp only: of_int_less_iff)
    then have "(of_int n :: rat) / 2 ^ 53 < 1"
      by simp
    have "?x \<le> of_int n / 2 * (1 + 1 / 2 ^ 53)"
      using assms(2) by (intro upper) simp
    also have "\<dots> = of_int n / 2 + of_int n / 2 ^ 53 / 2"
      by (simp add: distrib_left)
    also have "\<dots> < of_int n / 2 + 1 / 2"
      using \<open>(of_int n :: rat) / 2 ^ 53 < 1\<close> by simp
    also have "\<dots> = of_int ?k + 1"
      by (subst n(1)) (simp add: add_divide_distrib)
    finally show ?thesis .
  qed
  have n: "rnd (of_int n) = of_int n"
    using assms(2,3) by (intro of_int) simp
  have e: "rnd (rnd (1 / 2) * rnd (of_int n)) = ?x"
    by (simp only: assms(1) n times_divide_eq_left mult_1)
  have "\<lfloor>?x\<rfloor> = ?k"
    using lo hi by (simp add: floor_eq_iff)
  moreover have "\<not> ?x < 0"
    using lo k(1) by (metis of_int_0_le_iff not_less order_trans)
  ultimately show ?thesis
    by (simp only: e go_int_def if_False)
qed

end

lemma milliseconds_mono: "i \<le> j \<Longrightarrow> milliseconds i \<le> milliseconds j"
  by (simp add: milliseconds_def f.mono divide_right_mono)

lemma sort_milliseconds: "sort (map milliseconds xs) = map milliseconds (sort xs)"
  by (rule properties_for_sort)
    (auto simp: sorted_wrt_map intro: sorted_wrt_mono_rel [OF _ sorted_sort] milliseconds_mono)

lemma percentile_in:
  assumes "0 \<le> p" "p \<le> 999 / 1000" "xs \<noteq> []" "length xs \<le> 2 ^ 53"
  shows "percentile p xs = Inr (xs ! nat (go_int (float64 (float64 p * float64 (of_int (int (length xs)))))))"
    "nat (go_int (float64 (float64 p * float64 (of_int (int (length xs)))))) < length xs"
proof -
  have "int (length xs) \<le> int (2 ^ 53)"
    using assms(4) by (simp only: of_nat_le_iff)
  then show "percentile p xs = Inr (xs ! nat (go_int (float64 (float64 p * float64 (of_int (int (length xs)))))))"
    "nat (go_int (float64 (float64 p * float64 (of_int (int (length xs)))))) < length xs"
    using f.percentile_below [OF assms(1,2), of "int (length xs)"] assms(3) by (simp_all add: percentile_def)
qed

lemma percentile_order:
  assumes "0 \<le> p" "p \<le> q" "q \<le> 999 / 1000" "sorted xs" "xs \<noteq> []" "length xs \<le> 2 ^ 53"
    and "percentile p xs = Inr x" "percentile q xs = Inr y"
  shows "x \<le> y"
proof -
  have "nat (go_int (float64 (float64 p * float64 (of_int (int (length xs))))))
      \<le> nat (go_int (float64 (float64 q * float64 (of_int (int (length xs))))))"
    using f.percentile_mono [OF assms(1,2), of "int (length xs)"] assms(5) by simp
  then show ?thesis
    using assms percentile_in [of p xs] percentile_in [of q xs] by (auto intro: sorted_nth_mono)
qed

lemma percentile_ex:
  assumes "0 \<le> p" "p \<le> 999 / 1000" "xs \<noteq> []" "length xs \<le> 2 ^ 53"
  shows "\<exists>x \<in> set xs. percentile p xs = Inr x"
  using percentile_in [OF assms] nth_mem by blast

lemma sorted_ends:
  assumes "sorted xs" "x \<in> set xs"
  shows "xs ! 0 \<le> x" "x \<le> xs ! (length xs - 1)"
  using assms by (auto simp: in_set_conv_nth intro!: sorted_nth_mono)

lemma percentile_median:
  assumes "xs \<noteq> []" "length xs \<le> 2 ^ 53"
  shows "percentile (1 / 2) xs = Inr (xs ! (length xs div 2))"
proof -
  have "int (length xs) \<le> int (2 ^ 53)"
    using assms(2) by (simp only: of_nat_le_iff)
  moreover have "float64 (1 / 2) = 1 / 2"
    by code_simp
  ultimately have "go_int (float64 (float64 (1 / 2) * float64 (of_int (int (length xs))))) = int (length xs) div 2"
    using assms(1) by (intro f.median_index) simp_all
  then show ?thesis
    using percentile_in(1) [of "1 / 2", OF _ _ assms] by (simp add: nat_div_distrib)
qed

lemma Statistic_ms_Inr:
  fixes latency
  defines "ms \<equiv> sort (map milliseconds latency)"
  assumes "latency \<noteq> []"
    and "percentile (1 / 2) ms = Inr m" "percentile (95 / 100) ms = Inr p" "percentile (99 / 100) ms = Inr q"
      "percentile (999 / 1000) ms = Inr r"
  shows "\<exists>s. Statistic_ms latency = Inr s \<and> fs_Data s = ms \<and> fs_Size s = length latency \<and>
    fs_Min s = ms ! 0 \<and> fs_Max s = ms ! (length ms - 1) \<and>
    fs_Median s = m \<and> fs_P95 s = p \<and> fs_P99 s = q \<and> fs_P999 s = r"
proof -
  have len: "length ms = length latency" "length latency \<noteq> 0"
    using assms(1,2) by simp_all
  then have "nat (int (length ms) - 1) = length ms - 1" by linarith
  with len have "length ms = length latency" "slice_at ms 0 = Inr (ms ! 0)"
    "slice_at ms (int (length ms) - 1) = Inr (ms ! (length ms - 1))"
    by (simp_all add: slice_at_def)
  then show ?thesis
    using assms(3-) unfolding Statistic_ms_def Let_def ms_def [symmetric] by simp
qed

text \<open>C36: The statistics are computed exactly when there is a latency, for up to \<open>2 ^ 53\<close> of them: no rounding makes an index leave the
  slice. They are then those of the sorted latencies in nanoseconds, converted one by one, and the percentiles are
  measured values in their order.\<close>

theorem percentiles_are_in_order:
  assumes "length latency \<le> 2 ^ 53"
  shows "case Statistic latency of
      Inl x \<Rightarrow> latency = [] \<and> Statistic_ms latency = Inl x
    | Inr t \<Rightarrow> \<exists>s. Statistic_ms latency = Inr s \<and>
        fs_Data s = map milliseconds (st_Data t) \<and> fs_Size s = st_Size t \<and> fs_Min s = milliseconds (st_Min t) \<and>
        fs_Max s = milliseconds (st_Max t) \<and> fs_Median s = milliseconds (st_Median t) \<and>
        sorted [fs_Min s, fs_Median s, fs_P95 s, fs_P99 s, fs_P999 s, fs_Max s] \<and>
        {fs_P95 s, fs_P99 s, fs_P999 s} \<subseteq> set (fs_Data s)"
proof (cases "latency = []")
  case True
  then show ?thesis
    by (simp add: Statistic_def Statistic_ms_def slice_at_def)
next
  case False
  let ?ms = "sort (map milliseconds latency)"
  have len: "length ?ms = length latency" "length (sort latency) = length latency"
    by simp_all
  have ms: "?ms \<noteq> []" "length ?ms \<le> 2 ^ 53" "sorted ?ms"
    using False assms by (simp_all only: len(1) sorted_sort not_False_eq_True flip: length_0_conv)
  have ex: "\<exists>x \<in> set ?ms. percentile p ?ms = Inr x" if "0 \<le> p" "p \<le> 999 / 1000" for p
    using that ms(1,2) by (rule percentile_ex)
  obtain p q r where p: "percentile (95 / 100) ?ms = Inr p" "percentile (99 / 100) ?ms = Inr q"
    "percentile (999 / 1000) ?ms = Inr r" and ins: "p \<in> set ?ms" "q \<in> set ?ms" "r \<in> set ?ms"
    using ex [of "95 / 100"] ex [of "99 / 100"] ex [of "999 / 1000"] by (simp del: set_sort) blast
  let ?m = "?ms ! (length ?ms div 2)"
  note m = percentile_median [OF ms(1,2)]
  obtain s where s: "Statistic_ms latency = Inr s" "fs_Data s = ?ms" "fs_Size s = length latency"
    "fs_Min s = ?ms ! 0" "fs_Max s = ?ms ! (length ?ms - 1)" "fs_Median s = ?m" "fs_P95 s = p" "fs_P99 s = q" "fs_P999 s = r"
    using Statistic_ms_Inr [OF False m p] by blast
  have "?m \<le> p" "p \<le> q" "q \<le> r"
    using percentile_order [OF _ _ _ ms(3,1,2) m p(1)] percentile_order [OF _ _ _ ms(3,1,2) p(1,2)]
      percentile_order [OF _ _ _ ms(3,1,2) p(2,3)] by simp_all
  moreover have "?ms ! 0 \<le> ?m" "r \<le> ?ms ! (length ?ms - 1)"
    using False sorted_ends(2) [OF ms(3) ins(3)] by (auto intro!: sorted_nth_mono)
  ultimately have "sorted [fs_Min s, fs_Median s, fs_P95 s, fs_P99 s, fs_P999 s, fs_Max s]"
    unfolding s by auto
  then show ?thesis
    using s ins False by (auto simp: Statistic_def Let_def sort_milliseconds simp del: set_sort)
qed

theorem percentiles_are_in_order_witness:
  "\<exists>s. Statistic_ms [3000000, 1000000, 2000000] = Inr s \<and> fs_Size s = 3 \<and> fs_Median s = milliseconds 2000000 \<and>
     fs_P95 s \<le> fs_P99 s"
proof -
  have "\<exists>t. Statistic [3000000, 1000000, 2000000] = Inr t \<and> st_Size t = 3 \<and> st_Median t = 2000000"
    by (simp add: Statistic_def Let_def)
  moreover have "length [3000000 :: goint, 1000000, 2000000] \<le> 2 ^ 53"
    by (simp only: list.size) simp
  ultimately show ?thesis
    using percentiles_are_in_order [of "[3000000, 1000000, 2000000]"] by (auto split: sum.splits)
qed

section \<open>The history that is written\<close>

fun rows_of :: "history_line list \<Rightarrow> (Value \<times> Value \<times> rat \<times> rat) list" where
  "rows_of [] = []"
| "rows_of (Row i out s e # ls) = (i, out, s, e) # rows_of ls"
| "rows_of (PerSecond l n # ls) = rows_of ls"

fun counted :: "history_line list \<Rightarrow> nat" where
  "counted [] = 0"
| "counted (Row i out s e # ls) = counted ls"
| "counted (PerSecond l n # ls) = n + counted ls"

lemma history_lines_rows:
  "rows_of (history_lines xs latency n s) = map (\<lambda>x. (op_input x, op_output x, seconds (op_start x), seconds (op_end x))) xs"
  by (induction xs arbitrary: latency n s) (simp_all add: Let_def)

lemma history_lines_counted: "counted (history_lines xs latency n s) \<le> n + length xs"
proof (induction xs arbitrary: latency n s)
  case (Cons x xs)
  show ?case
    using Cons.IH [of 0 0 "float64 (s + 1)"] Cons.IH [of _ "n + 1"] by (auto simp: Let_def)
qed simp

text \<open>A history is written with one row for every operation, in the order of their starts, and the rates count no operation
  twice; but a row has four columns where \<open>ReadFile\<close> wants five, so no history with an operation is read back.\<close>

theorem written_history_cannot_be_read:
  assumes "legal E"
  shows "\<exists>ls ops. fst (History_WriteFile E True h) = Some ls \<and> mset ops = mset (operations h) \<and>
    sorted (map (\<lambda>p. op_start (h_heap h ! p)) ops) \<and>
    rows_of ls = map (\<lambda>p. let x = h_heap h ! p in (op_input x, op_output x, seconds (op_start x), seconds (op_end x))) ops \<and>
    counted ls \<le> length (operations h) \<and>
    (\<forall>T g. fst (ReadFile (Some (map (\<lambda>l. Some (columns T l)) ls)) g) = (if operations h = [] then ReadDone else ReadError))"
proof -
  let ?ops = "sorting E (h_heap h) (operations h)"
  let ?xs = "map (\<lambda>p. h_heap h ! p) ?ops"
  let ?ls = "history_lines ?xs 0 0 1"
  have perm: "mset ?ops = mset (operations h)"
    and wrt: "sorted_wrt (\<lambda>i j. \<not> byTime (h_heap h) j i) ?ops"
    using assms by (simp_all add: legal_def)
  have "sorted (map (\<lambda>p. op_start (h_heap h ! p)) ?ops)"
    unfolding sorted_wrt_map by (rule sorted_wrt_mono_rel [OF _ wrt]) (simp add: byTime_def not_less)
  moreover have "counted ?ls \<le> length (operations h)"
    using history_lines_counted [of ?xs 0 0 1] mset_eq_length [OF perm] by simp
  moreover have "fst (ReadFile (Some (map (\<lambda>l. Some (columns T l)) ?ls)) g) =
      (if operations h = [] then ReadDone else ReadError)" for T g
  proof (cases ?ops)
    case Nil
    then show ?thesis
      using perm by (simp add: ReadFile_def)
  next
    case (Cons p ps)
    then show ?thesis
      using perm by (auto simp: ReadFile_def Let_def)
  qed
  ultimately show ?thesis
    using perm by (intro exI [of _ ?ls] exI [of _ ?ops])
      (auto simp: History_WriteFile_def history_lines_rows Let_def)
qed

theorem written_history_cannot_be_read_witness:
  "fst (ReadFile (case fst (History_WriteFile stable True (History_Add 1 (Some [7]) None 0 5 NewHistory)) of
      None \<Rightarrow> None | Some ls \<Rightarrow> Some (map (\<lambda>l. Some (columns (\<lambda>x. []) l)) ls)) NewHistory) = ReadError"
  using written_history_cannot_be_read [OF stable_legal, of "History_Add 1 (Some [7]) None 0 5 NewHistory"]
  by (auto simp: History_Add_def allocate_def AddOperation_def NewHistory_def)

section \<open>Histories\<close>

text \<open>What the program does with a history: operations are added one by one or by a benchmark, a file is read, and at the
  end the history is written and checked.\<close>

inductive history_step :: "op_history \<Rightarrow> op_history \<Rightarrow> bool" where
  step_add: "history_step H (History_Add k i u s e H)"
| step_work: "work_step conc w b = Inr b1 \<Longrightarrow> history_step (bm_history b) (bm_history b1)"
| step_read: "history_step H (snd (ReadFile file H))"
| step_write: "legal E \<Longrightarrow> history_step H (snd (History_WriteFile E created H))"
| step_check: "legal E \<Longrightarrow> Linearizable E H = Inr (n, H1) \<Longrightarrow> history_step H H1"

inductive reached_history :: "op_history \<Rightarrow> bool" where
  reached_new: "reached_history NewHistory"
| reached_step: "reached_history H \<Longrightarrow> history_step H H1 \<Longrightarrow> reached_history H1"

text \<open>What every step keeps: no operation is lost, none changes its key or its values, and its end is at most
  lowered.\<close>

definition history_kept :: "op_history \<Rightarrow> op_history \<Rightarrow> bool" where
  "history_kept H H1 \<longleftrightarrow> length (h_heap H) \<le> length (h_heap H1) \<and>
     ends_shrink (h_heap H) (take (length (h_heap H)) (h_heap H1)) \<and>
     (\<forall>k ps. map_of (shard H) k = Some ps \<longrightarrow> (\<exists>qs. map_of (shard H1) k = Some qs \<and> mset ps \<subseteq># mset qs))"

lemma history_kept_refl [simp]: "history_kept H H"
  by (auto simp: history_kept_def)

lemma ends_shrink_take: "ends_shrink h h1 \<Longrightarrow> ends_shrink (take n h) (take n h1)"
  by (auto simp: ends_shrink_def)

lemma history_kept_trans:
  assumes "history_kept H H1" "history_kept H1 H2"
  shows "history_kept H H2"
proof -
  let ?n = "length (h_heap H)"
  have n: "?n \<le> length (h_heap H1)" "length (h_heap H1) \<le> length (h_heap H2)"
    using assms by (simp_all add: history_kept_def)
  then have "take ?n (take (length (h_heap H1)) (h_heap H2)) = take ?n (h_heap H2)"
    by (simp add: min_absorb1)
  then have "ends_shrink (h_heap H) (take ?n (h_heap H2))"
    using assms ends_shrink_take [of "h_heap H1" "take (length (h_heap H1)) (h_heap H2)" ?n] ends_shrink_trans
    unfolding history_kept_def by metis
  then show ?thesis
    using assms n unfolding history_kept_def by (meson order_trans subset_mset.order_trans)
qed

lemma with_operation_kept: "history_kept H (with_operation k x H)"
  by (auto simp: history_kept_def with_operation_shard)

lemma bags_kept:
  assumes "bags H1 = bags H" "ends_shrink (h_heap H) (h_heap H1)"
  shows "history_kept H H1"
proof -
  have "map_of (bags H) k = map_option mset (map_of (shard H) k)" for H k
    by (simp add: bags_def map_of_map)
  then have "map_option mset (map_of (shard H1) k) = map_option mset (map_of (shard H) k)" for k
    using assms(1) by metis
  then have "map_of (shard H) k = Some ps \<Longrightarrow> \<exists>qs. map_of (shard H1) k = Some qs \<and> mset ps \<subseteq># mset qs" for k ps
    by (metis map_option_eq_Some option.simps(9) subset_mset.order_refl)
  then show ?thesis
    using assms(2) by (auto simp: history_kept_def ends_shrink_def)
qed

lemma History_WriteFile_keeps:
  assumes "legal E"
  shows "h_heap (snd (History_WriteFile E created H)) = h_heap H" "shard (snd (History_WriteFile E created H)) = shard H"
    "mset (operations (snd (History_WriteFile E created H))) = mset (operations H)"
  using assms by (simp_all add: History_WriteFile_def Let_def legal_def)

lemma history_step_keeps:
  assumes "history_step H H1" "history_typed H"
  shows "history_typed H1 \<and> history_kept H H1"
  using assms
proof (cases rule: history_step.cases)
  case (step_add k i u s e)
  then show ?thesis
    using assms(2) by (simp add: History_Add_eq with_operation_typed with_operation_kept)
next
  case (step_work conc w b b1)
  from step_work(3) show ?thesis
    by (cases rule: work_step_adds) (use step_work(1,2) assms(2) in \<open>auto simp: with_operation_typed with_operation_kept\<close>)
next
  case (step_read f)
  show ?thesis
    unfolding step_read
    by (rule ReadFile_adds [where P = "\<lambda>G. history_typed G \<and> history_kept H G"])
      (use assms(2) in \<open>auto simp: with_operation_typed intro: history_kept_trans with_operation_kept\<close>)
next
  case (step_write E created)
  note w = History_WriteFile_keeps [OF step_write(2), of created H]
  show ?thesis
    using assms(2) w unfolding step_write(1) by (auto simp: history_typed_def shards_ok_def history_kept_def)
next
  case (step_check E n)
  then show ?thesis
    using assms(2) Linearizable_keeps [OF step_check(1) assms(2) step_check(2)] by (auto intro: bags_kept)
qed

text \<open>C38: a history is well formed in every state that the program reaches, by adding operations, by the steps of a
  benchmark, by reading a file, by writing one, which sorts the list of all operations, and by a check that
  returns: every operation is once in that list and once in one of the shards. No step loses
  an operation or changes its key, its values or its start; an end is at most lowered, as a check does. A check adds nothing and
  leaves the list, and writing a file changes nothing but the order of the list.\<close>

theorem history_is_well_formed:
  assumes "reached_history H"
  shows "history_typed H
    \<and> (\<forall>H1. history_step H H1 \<longrightarrow> history_kept H H1)
    \<and> (\<forall>E n H1. legal E \<longrightarrow> Linearizable E H = Inr (n, H1) \<longrightarrow> length (h_heap H1) = length (h_heap H) \<and> operations H1 = operations H)
    \<and> (\<forall>E created. legal E \<longrightarrow> (let H1 = snd (History_WriteFile E created H) in
          h_heap H1 = h_heap H \<and> shard H1 = shard H \<and> mset (operations H1) = mset (operations H)))"
proof -
  have typed: "history_typed H"
    using assms
  proof induction
    case reached_new
    show ?case by (simp add: history_typed_def shards_ok_def NewHistory_def)
  next
    case (reached_step H H1)
    then show ?case using history_step_keeps by blast
  qed
  then show ?thesis
    using history_step_keeps Linearizable_keeps(3,4) History_WriteFile_keeps
    by (auto simp: Let_def ends_shrink_def)
qed

theorem history_is_well_formed_witness:
  "history_typed (snd (History_WriteFile stable True (History_Add 7 None (Some [1]) 0 2 (History_Add 7 (Some [1]) None 3 5 NewHistory))))"
proof -
  have "reached_history (snd (History_WriteFile stable True (History_Add 7 None (Some [1]) 0 2 (History_Add 7 (Some [1]) None 3 5 NewHistory))))"
    by (intro reached_new reached_step [OF _ step_write [OF stable_legal]] reached_step [OF _ step_add])
  from history_is_well_formed [OF this] show ?thesis by blast
qed

section \<open>The moving mean\<close>

lemma move_step:
  assumes "0 < bc_K c" "bc_K c \<le> 2 ^ 53" "bc_Mu c = of_int m" "0 \<le> m" "m < bc_K c"
  shows "move c = Inr (c\<lparr>bc_Mu := of_int ((m + 1) mod bc_K c)\<rparr>)"
proof -
  have "\<bar>m + 1\<bar> \<le> 2 ^ 53"
    using assms by linarith
  then have "float64 (of_int (m + 1)) = of_int (m + 1)"
    by (rule f.of_int)
  moreover have "(m + 1) smod bc_K c = (m + 1) mod bc_K c"
    using assms by (simp add: smod_int_alt_def)
  moreover have "0 \<le> (m + 1) mod bc_K c" "(m + 1) mod bc_K c < bc_K c"
    using assms(1) by simp_all
  then have "\<bar>(m + 1) mod bc_K c\<bar> \<le> 2 ^ 53"
    using assms(2) by linarith
  then have "float64 (of_int ((m + 1) mod bc_K c)) = of_int ((m + 1) mod bc_K c)"
    by (rule f.of_int)
  moreover have "go_int (of_int (m + 1)) = m + 1"
    by (auto simp: go_int_def floor_minus)
  ultimately show ?thesis
    using assms(1,3) by (simp add: move_def)
qed

lemma Schedule_Suc: "Schedule f (Suc k) s = go_bind (Schedule f k s) f"
proof -
  have "go_fold (\<lambda>_. f) [Suc k] = f"
  proof
    show "go_fold (\<lambda>_. f) [Suc k] t = f t" for t
      by (cases "f t") simp_all
  qed
  then show ?thesis
    unfolding Schedule_def by (subst upt_Suc) (simp add: go_fold_append del: upt_Suc go_fold.simps)
qed

text \<open>The mean of the normal distribution goes through the keys one by one and starts again, without an error of
  rounding.\<close>

lemma scheduled_moves:
  assumes "0 < bc_K c" "bc_K c \<le> 2 ^ 53" "bc_Mu c = 0"
  shows "Schedule move k c = Inr (c\<lparr>bc_Mu := of_int ((int k + 1) mod bc_K c)\<rparr>)"
proof (induction k)
  case 0
  show ?case
    using move_step [OF assms(1,2), of 0] assms(1,3) by (simp add: Schedule_def)
next
  case (Suc k)
  let ?c = "c\<lparr>bc_Mu := of_int ((int k + 1) mod bc_K c)\<rparr>"
  have "move ?c = Inr (?c\<lparr>bc_Mu := of_int (((int k + 1) mod bc_K c + 1) mod bc_K c)\<rparr>)"
    using move_step [of ?c "(int k + 1) mod bc_K c"] assms(1,2) by simp
  moreover have "((int k + 1) mod bc_K c + 1) mod bc_K c = (int (Suc k) + 1) mod bc_K c"
    by (simp add: mod_simps add.commute add.left_commute)
  ultimately show ?case
    unfolding Schedule_Suc Suc.IH by simp
qed

text \<open>With the default values the keys are drawn from the thousand keys that start at 0.\<close>

lemma default_keys:
  "draw_key (distribution_of DefaultBConfig x y z) r (drawing DefaultBConfig) = Inr (int r mod 1000, drawing DefaultBConfig)"
  by (simp add: distribution_of_def DefaultBConfig_def drawing_def draw_key_def Intn_def)

lemma generated_values:
  assumes "0 \<le> n"
  shows "\<exists>bs. GenerateRandVal r n = Inr bs \<and> length bs = nat n \<and> set bs \<subseteq> of_char ` set letterBytes"
proof -
  have "letterBytes ! (r i mod length letterBytes) \<in> set letterBytes" for i
    by (rule nth_mem) (simp add: letterBytes_def)
  then show ?thesis
    using assms by (auto simp: GenerateRandVal_def)
qed

section \<open>A steady zone is reported once\<close>

context rounding
begin

lemma error_bound:
  assumes "\<bar>x\<bar> \<le> B"
  shows "\<bar>rnd x - x\<bar> \<le> B / 2 ^ 53"
  using error [of x] divide_right_mono [OF assms, of "2 ^ 53"] by simp

text \<open>One step of a weighted mean, of numbers that a zone can have, loses at most \<open>2 ^ - 33\<close>.\<close>

lemma weighted_mean_close:
  assumes "0 \<le> a" "a \<le> 1" "0 \<le> z" "z \<le> 65536" "\<bar>s - z\<bar> \<le> d" "d \<le> 1"
  shows "\<bar>rnd (rnd (a * z) + rnd (rnd (1 - a) * s)) - z\<bar> \<le> d + 1 / 2 ^ 33"
proof -
  let ?A = "rnd (a * z)" and ?B = "rnd (1 - a)"
  let ?C = "rnd (?B * s)"
  define u :: rat where "u = 1 / 2 ^ 53"
  have u: "0 \<le> u" "u \<le> 1 / 1000000" "1 / 2 ^ 33 = 1048576 * u"
    by (simp_all add: u_def)
  have bound: "\<bar>rnd x - x\<bar> \<le> B * u" if "\<bar>x\<bar> \<le> B" for x B
    using error_bound [OF that] by (simp only: u_def times_divide_eq_right mult_1_right)
  have s: "\<bar>s\<bar> \<le> 65537"
    using assms(3-6) by linarith
  have az: "0 \<le> a * z" "a * z \<le> 65536"
    using assms(1-4) mult_mono [of a 1 z 65536] by simp_all
  have A: "\<bar>?A - a * z\<bar> \<le> 65536 * u"
    using az by (intro bound) simp
  have B: "\<bar>?B - (1 - a)\<bar> \<le> 1 * u"
    using assms(1,2) by (intro bound) simp
  then have B2: "\<bar>?B\<bar> \<le> 2"
    using assms(1,2) u(2) by linarith
  have Bs: "\<bar>?B * s\<bar> \<le> 2 * 65537"
    unfolding abs_mult using B2 s by (intro mult_mono) auto
  have C1: "\<bar>?C - ?B * s\<bar> \<le> 2 * 65537 * u"
    using Bs by (rule bound)
  have "\<bar>(?B - (1 - a)) * s\<bar> \<le> 1 * u * 65537"
    unfolding abs_mult using B s u(1) by (intro mult_mono) auto
  then have C2: "\<bar>?B * s - (1 - a) * s\<bar> \<le> 65537 * u"
    by (simp only: left_diff_distrib mult_1 mult.commute [of u])
  have m: "a * z + (1 - a) * s - z = (1 - a) * (s - z)"
    by (simp add: algebra_simps)
  have "\<bar>(1 - a) * (s - z)\<bar> \<le> 1 * d"
    unfolding abs_mult using assms(1,2,5) by (intro mult_mono) auto
  then have M: "\<bar>a * z + (1 - a) * s - z\<bar> \<le> d"
    by (simp only: m mult_1)
  have "\<bar>?A + ?C\<bar> \<le> 65540"
    using A C1 C2 M assms(3,4,6) u(1,2) by linarith
  then have "\<bar>rnd (?A + ?C) - (?A + ?C)\<bar> \<le> 65540 * u"
    by (rule bound)
  then show ?thesis
    using A C1 C2 M u(1) unfolding u(3) by linarith
qed

end

fun ema_reports :: "ID list \<Rightarrow> ema \<Rightarrow> ID list" where
  "ema_reports [] e = []"
| "ema_reports (i # is) e = (let (r, e1) = ema_Hit i e in r # ema_reports is e1)"

lemma float64_Zone [simp]: "float64 (of_int (Zone i)) = of_int (Zone i)"
  using Zone_bounds [of i] by (intro f.of_int) simp

lemma math_Round_close:
  assumes "\<bar>x - of_int z\<bar> < 1 / 2" "0 < z"
  shows "math_Round x = z"
proof -
  have "1 \<le> (of_int z :: rat)"
    using assms(2) by simp
  then have "0 \<le> x" "of_int z \<le> x + 1 / 2" "x + 1 / 2 < of_int z + 1"
    using assms(1) by linarith+
  then show ?thesis
    by (simp add: math_Round_def floor_eq_iff)
qed

definition near :: "goint \<Rightarrow> rat \<Rightarrow> ema \<Rightarrow> bool" where
  "near z d e \<longleftrightarrow> 0 \<le> em_alpha e \<and> em_alpha e \<le> 1 \<and> em_epsilon e = float64 (1 / 10) \<and> \<bar>em_s e - of_int z\<bar> \<le> d"

lemma near_mono: "near z d e \<Longrightarrow> d \<le> d' \<Longrightarrow> near z d' e"
  by (auto simp: near_def)

lemma ema_Hit_near:
  assumes "near (Zone i) d e" "d + 1 / 2 ^ 33 \<le> 1 / 10" "0 < Zone i"
  obtains e1 where "ema_Hit i e = (if Zone i \<noteq> em_zone e then NewID (Zone i) 1 else 0, e1)"
    "near (Zone i) (d + 1 / 2 ^ 33) e1" "em_zone e1 = Zone i"
proof -
  let ?z = "of_int (Zone i) :: rat"
  let ?s = "float64 (float64 (em_alpha e * ?z) + float64 (float64 (1 - em_alpha e) * em_s e))"
  have z: "1 \<le> ?z" "?z \<le> 65536"
    using assms(3) Zone_bounds [of i] by simp_all
  have e: "0 \<le> em_alpha e" "em_alpha e \<le> 1" "\<bar>em_s e - ?z\<bar> \<le> d" "em_epsilon e = float64 (1 / 10)"
    using assms(1) by (simp_all add: near_def)
  have "0 \<le> d" "d \<le> 1 / 10"
    using e(3) assms(2) by (linarith, simp)
  with z(1) e(3) have s0: "em_s e \<noteq> 0"
    by auto
  have s: "\<bar>?s - ?z\<bar> \<le> d + 1 / 2 ^ 33"
    using z e \<open>d \<le> 1 / 10\<close> by (intro f.weighted_mean_close) simp_all
  then have s1: "\<bar>?s - ?z\<bar> \<le> 1 / 10"
    using assms(2) by (rule order_trans)
  have rd: "math_Round ?s = Zone i"
    using s1 assms(3) by (intro math_Round_close) linarith
  have "float64 (?s - ?z) \<le> float64 (1 / 10)" "float64 (- (1 / 10)) \<le> float64 (?s - ?z)"
    using s1 by (intro f.mono; linarith)+
  moreover have "float64 (- (1 / 10)) = - float64 (1 / 10)"
    by code_simp
  ultimately have "\<not> \<bar>float64 (?s - ?z)\<bar> > float64 (1 / 10)"
    by linarith
  then have "ema_Hit i e = (if Zone i \<noteq> em_zone e then NewID (Zone i) 1 else 0, e\<lparr>em_s := ?s, em_zone := Zone i\<rparr>)"
    using s0 rd e(4) by (cases e) (simp add: ema_Hit_def Let_def)
  then show thesis
    by (rule that) (use s e in \<open>simp_all add: near_def\<close>)
qed

lemma ema_steady:
  "near (Zone i) d e \<Longrightarrow> 0 < Zone i \<Longrightarrow> em_zone e = Zone i \<Longrightarrow> d + of_nat n / 2 ^ 33 \<le> 1 / 10 \<Longrightarrow>
     ema_reports (replicate n i) e = replicate n 0"
proof (induction n arbitrary: d e)
  case (Suc n)
  have n: "d + 1 / 2 ^ 33 + of_nat n / 2 ^ 33 \<le> 1 / 10"
    using Suc.prems(4) by (simp add: add_divide_distrib)
  moreover have "0 \<le> (of_nat n :: rat) / 2 ^ 33"
    by simp
  ultimately have "d + 1 / 2 ^ 33 \<le> 1 / 10"
    by linarith
  from ema_Hit_near [OF Suc.prems(1) this Suc.prems(2)] obtain e1 where
    "ema_Hit i e = (0, e1)" "near (Zone i) (d + 1 / 2 ^ 33) e1" "em_zone e1 = Zone i"
    using Suc.prems(3) by auto
  then show ?case
    using Suc.IH [OF _ Suc.prems(2) _ n] by simp
qed simp

text \<open>For a weight between 0 and 1 and hits from one zone, the policy answers the second one with a move to that zone
  and no other, up to \<open>2 ^ 29\<close> hits: until then the errors of rounding do not add up to the threshold.\<close>

theorem steady_zone_is_reported_once:
  assumes "0 \<le> alpha" "alpha \<le> 1" "0 < Zone i" "n \<le> 2 ^ 29"
  shows "ema_reports (replicate n i) (NewEma alpha) = take n (0 # NewID (Zone i) 1 # replicate n 0)"
proof (cases n)
  case (Suc k)
  show ?thesis
  proof (cases k)
    case 0
    with Suc show ?thesis by (simp add: ema_Hit_def NewEma_def)
  next
    case (Suc m)
    let ?e = "(NewEma alpha)\<lparr>em_s := of_int (Zone i)\<rparr>"
    have e: "near (Zone i) 0 ?e" "em_zone ?e \<noteq> Zone i" "ema_Hit i (NewEma alpha) = (0, ?e)"
      using assms by (simp_all add: near_def NewEma_def ema_Hit_def)
    have "(0 :: rat) + 1 / 2 ^ 33 \<le> 1 / 10"
      by simp
    obtain e1 where "ema_Hit i ?e = (if Zone i \<noteq> em_zone ?e then NewID (Zone i) 1 else 0, e1)"
      and e1: "near (Zone i) (0 + 1 / 2 ^ 33) e1" "em_zone e1 = Zone i"
      by (rule ema_Hit_near [OF e(1) \<open>(0 :: rat) + 1 / 2 ^ 33 \<le> 1 / 10\<close> assms(3)])
    then have hit: "ema_Hit i ?e = (NewID (Zone i) 1, e1)"
      using e(2) by simp
    have "m \<le> 2 ^ 29"
      using Suc \<open>n = Suc k\<close> assms(4) by linarith
    then have "(of_nat m :: rat) \<le> of_nat (2 ^ 29)"
      by (simp only: of_nat_le_iff)
    then have "of_nat m / 2 ^ 33 \<le> (of_nat (2 ^ 29) / 2 ^ 33 :: rat)"
      by (rule divide_right_mono) simp
    moreover have "(of_nat (2 ^ 29) / 2 ^ 33 :: rat) = 1 / 16" "1 / 2 ^ 33 \<le> (1 / 32 :: rat)"
      by (simp_all only: of_nat_power of_nat_numeral) simp_all
    ultimately have "0 + 1 / 2 ^ 33 + of_nat m / 2 ^ 33 \<le> (1 / 10 :: rat)"
      by linarith
    moreover have "take m (0 # 0 # replicate m 0) = replicate m (0 :: ID)"
      using take_replicate [of m "Suc (Suc m)" "0 :: ID"] by (simp add: min_def)
    ultimately show ?thesis
      using ema_steady [OF e1(1) assms(3) e1(2)] Suc \<open>n = Suc k\<close> e(3) hit by simp
  qed
qed simp

theorem steady_zone_is_reported_once_witness:
  "ema_reports (replicate 4 (NewID 2 1)) (NewEma (1 / 2)) = [0, NewID 2 1, 0, 0]"
proof -
  have four: "take 4 (0 # x # replicate 4 0) = [0, x, 0, 0]" for x :: ID
    by (simp add: eval_nat_numeral)
  have "Zone (NewID 2 1) = 2"
    by code_simp
  moreover have "(4 :: nat) \<le> 2 ^ 29"
    by simp
  ultimately show ?thesis
    using steady_zone_is_reported_once [of "1 / 2" "NewID 2 1" 4] four by simp
qed

end
