(* ===== verification/Formats.thy ===== *)
theory Formats
  imports SocketFacts LayerReplica ChainReplica PaxosFacts EPaxos "HOL-Library.List_Lexorder" "HOL-Library.Char_ord"
begin

text \<open>
  The textual forms of commands and messages: the \<open>String\<close> methods of \<open>message.go\<close>, \<open>pigpaxos/msg.go\<close>,
  \<open>layerpaxos/msg.go\<close>, \<open>chainpaxos/msg.go\<close>, \<open>paxos/msg.go\<close> and \<open>epaxos/msg.go\<close>. The logs are made of them, and that of a
  command is the key under which a node keeps a forwarded request; it is shown to tell commands apart.
  A value prints by its own method, a slice in brackets, a map with its keys in order.
\<close>

section \<open>The verbs of fmt\<close>

fun spaced :: "string list \<Rightarrow> string" where
  "spaced [] = []"
| "spaced [x] = x"
| "spaced (x # xs) = x @ '' '' @ spaced xs"

definition show_slice :: "('a \<Rightarrow> string) \<Rightarrow> 'a list \<Rightarrow> string" where
  "show_slice f xs = ''['' @ spaced (map f xs) @ '']''"

definition show_map :: "('k \<Rightarrow> string) \<Rightarrow> ('v \<Rightarrow> string) \<Rightarrow> ('k::linorder \<times> 'v) list \<Rightarrow> string" where
  "show_map f g m = ''map['' @ spaced (map (\<lambda>(k, v). f k @ '':'' @ g v) (sort_key fst m)) @ '']''"

definition show_bool :: "bool \<Rightarrow> string" where
  "show_bool b = (if b then ''true'' else ''false'')"

definition show_deps :: "deps \<Rightarrow> string" where
  "show_deps d = show_map ID_String Itoa (case d of None \<Rightarrow> [] | Some m \<Rightarrow> m)"

section \<open>The messages of PigPaxos and its variants\<close>

definition CommandBallot_String :: "CommandBallot \<Rightarrow> string" where
  "CommandBallot_String cb = ''cmd='' @ Command_String (cbCommand cb) @ '' b='' @ Ballot_String (cbBallot cb)"

definition P1a_String :: "P1a \<Rightarrow> string" where
  "P1a_String m = ''P1a {b='' @ Ballot_String (P1a_Ballot m) @ ''}''"

definition P1b_String :: "P1b \<Rightarrow> string" where
  "P1b_String m = ''P1b {b='' @ Ballot_String (P1b_Ballot m) @ '' id='' @ ID_String (P1b_ID m) @ '' log='' @
     show_map Itoa CommandBallot_String (P1b_Log m) @ ''}''"

definition P2b_String :: "P2b \<Rightarrow> string" where
  "P2b_String m = ''P2b {b='' @ Ballot_String (P2b_Ballot m) @ '' id='' @ show_slice ID_String (P2b_ID m) @ '' s='' @
     Itoa (P2b_Slot m) @ ''}''"

definition P2bAggregated_String :: "P2bAggregated \<Rightarrow> string" where
  "P2bAggregated_String m = ''P2b {b='' @ Ballot_String (P2bA_Ballot m) @ '' RelayId='' @ ID_String (RelayID m) @
     '' RelayLastExecute='' @ Itoa (RelayLastExecute m) @ '' s='' @ Itoa (P2bA_Slot m) @ '', missingIDs='' @
     show_slice ID_String (MissingIDs m) @ ''}''"

definition P3_String :: "P3 \<Rightarrow> string" where
  "P3_String m = ''P3 {b='' @ Ballot_String (P3_Ballot m) @ '' slots='' @ show_slice Itoa (P3_Slot m) @ ''}''"

definition P2a_String :: "P2a \<Rightarrow> string" where
  "P2a_String m = ''P2a {b='' @ Ballot_String (P2a_Ballot m) @ '' s='' @ Itoa (P2a_Slot m) @ '' cmd='' @
     Command_String (P2a_Command m) @ '', p3Msg='' @ P3_String (P2a_P3msg m) @ ''}''"

definition P3RecoverRequest_String :: "P3RecoverRequest \<Rightarrow> string" where
  "P3RecoverRequest_String m = ''P3RecoverRequest {b='' @ Ballot_String (RReq_Ballot m) @ '' slots='' @
     Itoa (RReq_Slot m) @ '', nodeToRecover='' @ ID_String (RReq_NodeId m) @ ''}''"

definition P3RecoverReply_String :: "P3RecoverReply \<Rightarrow> string" where
  "P3RecoverReply_String m = ''P3RecoverReply {b='' @ Ballot_String (RRep_Ballot m) @ '' slots='' @
     Itoa (RRep_Slot m) @ '', cmd='' @ Command_String (RRep_Command m) @ ''}''"

definition Request_String :: "Request \<Rightarrow> string" where
  "Request_String r = ''Request {cmd='' @ Command_String (rCommand r) @ '' nid='' @ ID_String (rNodeID r) @ ''}''"

text \<open>A routed message prints its payload, which may again be one.\<close>

definition show_routed :: "('p \<Rightarrow> string) \<Rightarrow> 'p RoutedMsg \<Rightarrow> string" where
  "show_routed f m = ''RoutedMsg {Hops='' @ show_slice ID_String (Hops m) @ '' IsForward='' @ show_bool (IsForward m) @
     '' Progress='' @ Itoa (int (Progress m)) @ '', Payload='' @ f (Payload m) @ ''}''"

fun msg_String :: "msg \<Rightarrow> string" where
  "msg_String (M_Request m) = Request_String m"
| "msg_String (M_P1a m) = P1a_String m"
| "msg_String (M_P1b m) = P1b_String m"
| "msg_String (M_P1bs ms) = show_slice P1b_String ms"
| "msg_String (M_P2a m) = P2a_String m"
| "msg_String (M_P2b m) = P2b_String m"
| "msg_String (M_P2bAggregated m) = P2bAggregated_String m"
| "msg_String (M_P3 m) = P3_String m"
| "msg_String (M_P3RecoverRequest m) = P3RecoverRequest_String m"
| "msg_String (M_P3RecoverReply m) = P3RecoverReply_String m"
| "msg_String (M_Routed (RoutedMsg hs fwd i m)) = show_routed (\<lambda>_. msg_String m) (RoutedMsg hs fwd i ())"

definition RoutedMsg_String :: "msg RoutedMsg \<Rightarrow> string" where
  "RoutedMsg_String m = show_routed msg_String m"

lemma msg_String_routed: "msg_String (M_Routed m) = RoutedMsg_String m"
  by (cases m) (simp add: RoutedMsg_String_def show_routed_def)

text \<open>\<open>layerpaxos/msg.go\<close> and \<open>chainpaxos/msg.go\<close> repeat the messages with their methods; the chain adds one.\<close>

type_synonym Layer_CommandBallot = CommandBallot
type_synonym Layer_RoutedMsg = "msg RoutedMsg"
type_synonym Layer_P1b = P1b
type_synonym Layer_P2b = P2b
type_synonym Layer_P2bAggregated = P2bAggregated
type_synonym Layer_P1a_msg = P1a
type_synonym Layer_P2a_msg = P2a
type_synonym Layer_P3 = P3
type_synonym Layer_P3RecoverRequest = P3RecoverRequest
type_synonym Layer_P3RecoverReply = P3RecoverReply

definition Layer_CommandBallot_String :: "Layer_CommandBallot \<Rightarrow> string" where
  "Layer_CommandBallot_String = CommandBallot_String"
definition Layer_RoutedMsg_String :: "Layer_RoutedMsg \<Rightarrow> string" where "Layer_RoutedMsg_String = RoutedMsg_String"
definition Layer_GetLastProgressHop :: "Layer_RoutedMsg \<Rightarrow> ID go" where
  "Layer_GetLastProgressHop = GetLastProgressHop"
definition Layer_GetPreviousProgressHop :: "Layer_RoutedMsg \<Rightarrow> ID go" where
  "Layer_GetPreviousProgressHop = GetPreviousProgressHop"
definition Layer_P1b_String :: "Layer_P1b \<Rightarrow> string" where "Layer_P1b_String = P1b_String"
definition Layer_P2b_String :: "Layer_P2b \<Rightarrow> string" where "Layer_P2b_String = P2b_String"
definition Layer_P2bAggregated_String :: "Layer_P2bAggregated \<Rightarrow> string" where
  "Layer_P2bAggregated_String = P2bAggregated_String"
definition Layer_P1a_String :: "Layer_P1a_msg \<Rightarrow> string" where "Layer_P1a_String = P1a_String"
definition Layer_P2a_String :: "Layer_P2a_msg \<Rightarrow> string" where "Layer_P2a_String = P2a_String"
definition Layer_P3_String :: "Layer_P3 \<Rightarrow> string" where "Layer_P3_String = P3_String"
definition Layer_P3RecoverRequest_String :: "Layer_P3RecoverRequest \<Rightarrow> string" where
  "Layer_P3RecoverRequest_String = P3RecoverRequest_String"
definition Layer_P3RecoverReply_String :: "Layer_P3RecoverReply \<Rightarrow> string" where
  "Layer_P3RecoverReply_String = P3RecoverReply_String"

definition P2aChain_String :: "P2aChain \<Rightarrow> string" where
  "P2aChain_String m = ''P2aChain {b='' @ Ballot_String (pc_Ballot m) @ '' s='' @ Itoa (pc_Slot m) @ '' cmd='' @
     Command_String (pc_Command m) @ '', p3Msg='' @ P3_String (pc_P3msg m) @ '', Hops='' @ show_slice ID_String (pc_Hops m) @
     '', PeerGroup='' @ show_slice ID_String (pc_PeerGroupNode m) @ '', ID='' @ ID_String (pc_RelayID m) @ ''}''"

type_synonym Chain_CommandBallot = CommandBallot
type_synonym Chain_RoutedMsg = "msg RoutedMsg"
type_synonym RoutedChainMsg = "msg RoutedMsg"
type_synonym Chain_P1b = P1b
type_synonym Chain_P2b = P2b
type_synonym Chain_P2bAggregated = P2bAggregated
type_synonym Chain_P1a_msg = P1a
type_synonym Chain_P2a_msg = P2a
type_synonym Chain_P3 = P3
type_synonym Chain_P3RecoverRequest = P3RecoverRequest
type_synonym Chain_P3RecoverReply = P3RecoverReply

definition Chain_CommandBallot_String :: "Chain_CommandBallot \<Rightarrow> string" where
  "Chain_CommandBallot_String = CommandBallot_String"
definition Chain_RoutedMsg_String :: "Chain_RoutedMsg \<Rightarrow> string" where "Chain_RoutedMsg_String = RoutedMsg_String"
definition Chain_GetLastProgressHop :: "Chain_RoutedMsg \<Rightarrow> ID go" where
  "Chain_GetLastProgressHop = GetLastProgressHop"
definition Chain_GetPreviousProgressHop :: "Chain_RoutedMsg \<Rightarrow> ID go" where
  "Chain_GetPreviousProgressHop = GetPreviousProgressHop"
definition RoutedChainMsg_GetLastProgressHop :: "RoutedChainMsg \<Rightarrow> ID go" where
  "RoutedChainMsg_GetLastProgressHop = GetLastProgressHop"
definition RoutedChainMsg_GetPreviousProgressHop :: "RoutedChainMsg \<Rightarrow> ID go" where
  "RoutedChainMsg_GetPreviousProgressHop = GetPreviousProgressHop"
definition RoutedChainMsg_String :: "RoutedChainMsg \<Rightarrow> string" where
  "RoutedChainMsg_String m = ''RoutedChainMsg {Hops='' @ show_slice ID_String (Hops m) @ '' IsForward='' @
     show_bool (IsForward m) @ '' Progress='' @ Itoa (int (Progress m)) @ '', Payload='' @ msg_String (Payload m) @ ''}''"
definition Chain_P1b_String :: "Chain_P1b \<Rightarrow> string" where
  "Chain_P1b_String = P1b_String"
definition Chain_P2b_String :: "Chain_P2b \<Rightarrow> string" where
  "Chain_P2b_String = P2b_String"
definition Chain_P2bAggregated_String :: "Chain_P2bAggregated \<Rightarrow> string" where
  "Chain_P2bAggregated_String = P2bAggregated_String"
definition Chain_P1a_String :: "Chain_P1a_msg \<Rightarrow> string" where
  "Chain_P1a_String = P1a_String"
definition Chain_P2a_String :: "Chain_P2a_msg \<Rightarrow> string" where
  "Chain_P2a_String = P2a_String"
definition Chain_P3_String :: "Chain_P3 \<Rightarrow> string" where
  "Chain_P3_String = P3_String"
definition Chain_P3RecoverRequest_String :: "Chain_P3RecoverRequest \<Rightarrow> string" where
  "Chain_P3RecoverRequest_String = P3RecoverRequest_String"
definition Chain_P3RecoverReply_String :: "Chain_P3RecoverReply \<Rightarrow> string" where
  "Chain_P3RecoverReply_String = P3RecoverReply_String"

section \<open>The structures that are repeated\<close>

text \<open>Entries, protocol objects and peer groups, of which the variants have their own copies.\<close>

type_synonym Layer_entry = entry
type_synonym LayerPaxos = pigpaxos
type_synonym Layer_Replica = replica
type_synonym Chain_entry = entry
type_synonym ChainPaxos = pigpaxos
type_synonym Paxos_entry = entry

type_synonym PeerGroup = "ID list"
type_synonym Layer_PeerGroup = PeerGroup
type_synonym Chain_PeerGroup = PeerGroup

definition PeerGroup_String :: "PeerGroup \<Rightarrow> string" where
  "PeerGroup_String g = ''PeerGroup {nodes='' @ show_slice ID_String g @ ''}''"
definition Layer_PeerGroup_String :: "Layer_PeerGroup \<Rightarrow> string" where "Layer_PeerGroup_String = PeerGroup_String"
definition Chain_PeerGroup_String :: "Chain_PeerGroup \<Rightarrow> string" where "Chain_PeerGroup_String = PeerGroup_String"

section \<open>The messages of Paxos and EPaxos\<close>

text \<open>\<open>paxos/msg.go\<close> has the same promises and proposals; only some of them print in another way.\<close>

type_synonym Paxos_P1a_msg = P1a
type_synonym Paxos_CommandBallot = CommandBallot
type_synonym Paxos_P1b = P1b
type_synonym Paxos_P2a_msg = P2a

definition Paxos_P1a_String :: "Paxos_P1a_msg \<Rightarrow> string" where "Paxos_P1a_String = P1a_String"
definition Paxos_CommandBallot_String :: "Paxos_CommandBallot \<Rightarrow> string" where
  "Paxos_CommandBallot_String = CommandBallot_String"
definition Paxos_P1b_String :: "Paxos_P1b \<Rightarrow> string" where "Paxos_P1b_String = P1b_String"

text \<open>The field \<open>Command\<close> of a \<open>P3\<close> of Paxos is never set, so the empty command is printed.\<close>

definition Paxos_P3_String :: "P3 \<Rightarrow> string" where
  "Paxos_P3_String m = ''P3 {b='' @ Ballot_String (P3_Ballot m) @ '' s='' @ show_slice Itoa (P3_Slot m) @ '' cmd='' @
     Command_String zero_command @ ''}''"

definition Paxos_P2a_String :: "Paxos_P2a_msg \<Rightarrow> string" where
  "Paxos_P2a_String m = ''P2a {b='' @ Ballot_String (P2a_Ballot m) @ '' s='' @ Itoa (P2a_Slot m) @ '' cmd='' @
     Command_String (P2a_Command m) @ '', P3={'' @ Paxos_P3_String (P2a_P3msg m) @ ''}}''"

definition Paxos_P2b_String :: "Paxos_P2b \<Rightarrow> string" where
  "Paxos_P2b_String m = ''P2b {b='' @ Ballot_String (V_Ballot m) @ '' id='' @ ID_String (V_ID m) @ '' s='' @
     Itoa (V_Slot m) @ '', lastexec='' @ Itoa (V_LastExecutedSlot m) @ ''}''"

definition Paxos_RecoverRequest_String :: "Paxos_RecoverRequest \<Rightarrow> string" where
  "Paxos_RecoverRequest_String m = ''P3RecoverRequest {b='' @ Ballot_String (Q_Ballot m) @ '' Slots='' @
     show_slice Itoa (Q_Slots m) @ '', nodeToRecover='' @ ID_String (Q_NodeId m) @ ''}''"

definition Paxos_RecoverReply_String :: "Paxos_RecoverReply \<Rightarrow> string" where
  "Paxos_RecoverReply_String m = ''P3RecoverReply {b='' @ Ballot_String (A_Ballot m) @ '' slots='' @
     show_slice Itoa (A_Slots m) @ '', cmd='' @ show_slice Command_String (A_Commands m) @ ''}''"

definition PreAccept_String :: "PreAccept \<Rightarrow> string" where
  "PreAccept_String m = ''PreAccept {bal='' @ Itoa (uint (pa_Ballot m)) @ '' id='' @ ID_String (pa_Replica m) @ '' s='' @
     Itoa (pa_Slot m) @ '' cmd='' @ Command_String (pa_Command m) @ '' seq='' @ Itoa (pa_Seq m) @ '' dep='' @
     show_deps (pa_Dep m) @ ''}''"

definition PreAcceptReply_String :: "PreAcceptReply \<Rightarrow> string" where
  "PreAcceptReply_String m = ''PreAcceptReply {bal='' @ Itoa (uint (par_Ballot m)) @ '' id='' @ ID_String (par_Replica m) @
     '' s='' @ Itoa (par_Slot m) @ '' seq='' @ Itoa (par_Seq m) @ '' dep='' @ show_deps (par_Dep m) @ '' c='' @
     show_deps (Some (par_Committed m)) @ ''}''"

section \<open>The messages between clients and replicas\<close>

definition Reply_String :: "Reply \<Rightarrow> string" where
  "Reply_String r = ''Reply {cmd='' @ Command_String (yCommand r) @ '' value='' @ hex (slice_bytes (yValue r)) @ '' prop='' @
     show_map (\<lambda>s. s) (\<lambda>s. s) (yProperties r) @ ''}''"

datatype Read = Read (rd_CommandID: goint) (rd_Key: Key)

definition Read_String :: "Read \<Rightarrow> string" where
  "Read_String r = ''Read {cid='' @ Itoa (rd_CommandID r) @ '', key='' @ Itoa (rd_Key r) @ ''}''"

datatype ReadReply = ReadReply (rr_CommandID: goint) (rr_Value: Value)

definition ReadReply_String :: "ReadReply \<Rightarrow> string" where
  "ReadReply_String r = ''ReadReply {cid='' @ Itoa (rr_CommandID r) @ '', val='' @ hex (slice_bytes (rr_Value r)) @ ''}''"

record Transaction =
  tx_Commands :: "Command list"
  tx_Timestamp :: goint

definition Transaction_String :: "Transaction \<Rightarrow> string" where
  "Transaction_String t = ''Transaction {cmds='' @ show_slice Command_String (tx_Commands t) @ ''}''"

record TransactionReply =
  tr_OK :: bool
  tr_Commands :: "Command list"
  tr_Timestamp :: goint

definition ProtocolMsg_String :: "('m \<Rightarrow> string) \<Rightarrow> 64 word \<Rightarrow> 64 word \<Rightarrow> 'm \<Rightarrow> string" where
  "ProtocolMsg_String f hlc mid m =
     ''ProtocolMsg {msgid='' @ Itoa (sint mid) @ '', hlc='' @ Itoa (sint hlc) @ '' msg='' @ f m @ ''}''"

section \<open>The text of a command tells commands apart\<close>

lemma Itoa_injective: "Itoa i = Itoa j \<longleftrightarrow> i = j"
proof
  have v: "dec_value 0 (dec n) = n" if "0 \<le> n" for n
    using dec_digits [OF that] by simp
  have m: "CHR ''-'' # xs \<noteq> dec n" if "0 \<le> n" for n xs
    using dec_digits [OF that] by (cases "dec n") (auto simp: is_digit_def)
  assume eq: "Itoa i = Itoa j"
  show "i = j"
  proof (cases "i < 0"; cases "j < 0")
    assume "i < 0" "j < 0"
    then have "dec_value 0 (dec (- i)) = dec_value 0 (dec (- j))" using eq by (simp add: Itoa_def)
    moreover have "dec_value 0 (dec (- i)) = - i" "dec_value 0 (dec (- j)) = - j"
      using \<open>i < 0\<close> \<open>j < 0\<close> by (intro v; simp)+
    ultimately show ?thesis by linarith
  next
    assume "i < 0" "\<not> j < 0"
    with eq m [of j "dec (- i)"] show ?thesis by (simp add: Itoa_def)
  next
    assume "\<not> i < 0" "j < 0"
    with eq m [of i "dec (- j)"] show ?thesis by (simp add: Itoa_def)
  next
    assume "\<not> i < 0" "\<not> j < 0"
    then have "dec_value 0 (dec i) = dec_value 0 (dec j)" using eq by (simp add: Itoa_def)
    moreover have "dec_value 0 (dec i) = i" "dec_value 0 (dec j) = j"
      using \<open>\<not> i < 0\<close> \<open>\<not> j < 0\<close> by (intro v; simp)+
    ultimately show ?thesis by linarith
  qed
qed simp

lemma space_notin_Itoa: "CHR '' '' \<notin> set (Itoa i)"
proof -
  have "CHR '' '' \<notin> set (dec n)" if "0 \<le> n" for n
    using dec_digits [OF that] by (auto simp: list_all_iff is_digit_def)
  from this [of i] this [of "- i"] show ?thesis
    by (auto simp: Itoa_def)
qed

lemma space_notin_ID: "CHR '' '' \<notin> set (ID_String i)"
  by (simp add: ID_String_def space_notin_Itoa)

lemma ID_String_injective: "ID_String i = ID_String j \<longleftrightarrow> i = j"
  by (metis NewIDFromString_ID_String)

lemma before_space:
  assumes "CHR '' '' \<notin> set xs" "CHR '' '' \<notin> set ys" "xs @ CHR '' '' # r = ys @ CHR '' '' # t"
  shows "xs = ys \<and> r = t"
  using assms
proof (induction xs arbitrary: ys)
  case Nil
  then show ?case by (cases ys) auto
next
  case (Cons x xs)
  then show ?case by (cases ys) auto
qed

lemma hex_digit_of: "n < 16 \<Longrightarrow> of_char (hex_digit n) = (if n < 10 then 48 + n else 87 + n)"
  for n :: nat
proof -
  assume "n < 16"
  then have "(48 + n) mod 256 = 48 + n" "(87 + n) mod 256 = 87 + n"
    by simp_all
  then show ?thesis
    unfolding hex_digit_def by (simp only: of_char_of split: if_split) blast
qed

lemma hex_digit_inj: "m < 16 \<Longrightarrow> n < 16 \<Longrightarrow> hex_digit m = hex_digit n \<Longrightarrow> m = n"
proof -
  assume mn: "m < 16" "n < 16" "hex_digit m = hex_digit n"
  have "(of_char (hex_digit m) :: nat) = of_char (hex_digit n)"
    by (simp only: mn(3))
  then have "(if m < 10 then 48 + m else 87 + m) = (if n < 10 then 48 + n else 87 + n)"
    by (simp only: hex_digit_of [OF mn(1)] hex_digit_of [OF mn(2)])
  then show "m = n"
    using mn(1,2) by (simp split: if_splits)
qed

lemma nibbles: "unat z div 16 < 16" "unat z mod 16 < 16" for z :: "8 word"
  using unsigned_less [of z, where ?'a = nat] by (simp_all add: less_mult_imp_div_less)

lemma hex_injective: "hex xs = hex ys \<Longrightarrow> xs = ys"
proof (induction xs arbitrary: ys)
  case Nil
  then show ?case by (cases ys) (auto simp: hex_def)
next
  case (Cons x xs)
  then obtain y zs where ys: "ys = y # zs"
    by (cases ys) (auto simp: hex_def)
  have "unat x div 16 = unat y div 16" "unat x mod 16 = unat y mod 16" "hex xs = hex zs"
    using Cons.prems hex_digit_inj nibbles unfolding ys hex_def by auto
  then have "x = y"
    by (metis div_mult_mod_eq word_unat_eq_iff)
  with Cons.IH [OF \<open>hex xs = hex zs\<close>] show ?case by (simp add: ys)
qed

lemma space_notin_hex: "CHR '' '' \<notin> set (hex xs)"
proof -
  have "hex_digit n \<noteq> CHR '' ''" if "n < 16" for n
    using hex_digit_of [OF that] by (auto split: if_splits)
  then show ?thesis
    using nibbles by (induction xs) (auto simp: hex_def, (metis nibbles)+)
qed

text \<open>The textual form tells commands apart: two commands have the same \<open>String\<close> exactly when all their fields are
  equal, where a value that is nil differs from an empty one. So the table of forwarded requests of
  a node, whose keys are these strings, confuses two requests only when their commands are the same.\<close>

theorem command_text_is_injective: "Command_String c = Command_String d \<longleftrightarrow> c = d"
proof
  assume eq: "Command_String c = Command_String d"
  note parse = before_space [OF space_notin_Itoa space_notin_Itoa] before_space [OF space_notin_ID space_notin_ID]
    before_space [OF space_notin_hex space_notin_hex]
  have "cKey c = cKey d \<and> cValue c = cValue d \<and> cClientID c = cClientID d \<and> cCommandID c = cCommandID d"
  proof (cases "cValue c")
    case None
    then have n: "cValue d = None"
      using eq by (cases "cValue d") (auto simp: Command_String_def)
    have k: "cKey c = cKey d" "ID_String (cClientID c) @ '' cid='' @ Itoa (cCommandID c) @ ''}'' =
        ID_String (cClientID d) @ '' cid='' @ Itoa (cCommandID d) @ ''}''"
      using eq None n by (auto simp: Command_String_def Itoa_injective dest!: parse(1))
    from k(2) have "cClientID c = cClientID d" "cCommandID c = cCommandID d"
      by (auto simp: ID_String_injective Itoa_injective dest!: parse(2))
    with k(1) None n show ?thesis by simp
  next
    case (Some v)
    then obtain w where w: "cValue d = Some w"
      using eq by (cases "cValue d") (auto simp: Command_String_def)
    have k: "cKey c = cKey d" "hex v @ '' id='' @ ID_String (cClientID c) @ '' cid='' @ Itoa (cCommandID c) =
        hex w @ '' id='' @ ID_String (cClientID d) @ '' cid='' @ Itoa (cCommandID d)"
      using eq Some w by (auto simp: Command_String_def Itoa_injective dest!: parse(1))
    from k(2) have h: "v = w" "ID_String (cClientID c) @ '' cid='' @ Itoa (cCommandID c) =
        ID_String (cClientID d) @ '' cid='' @ Itoa (cCommandID d)"
      by (auto dest!: parse(3) hex_injective)
    from h(2) have "cClientID c = cClientID d" "cCommandID c = cCommandID d"
      by (auto simp: ID_String_injective Itoa_injective dest!: parse(2))
    with k(1) h(1) Some w show ?thesis by simp
  qed
  then show "c = d" by simp
qed simp

end
