(* ===== verification/Codec.thy ===== *)
theory Codec
  imports Go_Prelude
begin

text \<open>
  The codecs of \<open>codec.go\<close> over a stream of bytes. The encoders and decoders of the packages
  \<open>json\<close> and \<open>gob\<close> are arguments: they have states of their own, because gob sends a type once and both decoders
  read ahead. An error is logged and nothing else happens.
\<close>

type_synonym octets = "8 word list"

record ('e, 'd, 'm) format =
  new_encoder :: 'e
  new_decoder :: 'd
  encode :: "'m \<Rightarrow> 'e \<Rightarrow> octets option \<times> 'e"
  decode :: "'d \<Rightarrow> octets \<Rightarrow> 'm option \<times> 'd \<times> octets"

datatype codec_kind = CodecJSON | CodecGOB

record ('e, 'd) codec =
  co_scheme :: codec_kind
  co_encoder :: 'e
  co_decoder :: 'd

definition codec_Scheme :: "('e, 'd) codec \<Rightarrow> string" where
  "codec_Scheme c = (case co_scheme c of CodecJSON \<Rightarrow> ''json'' | CodecGOB \<Rightarrow> ''gob'')"

text \<open>\<open>None\<close> is the nil interface.\<close>

definition NewCodec :: "(codec_kind \<Rightarrow> ('e, 'd, 'm) format) \<Rightarrow> string \<Rightarrow> ('e, 'd) codec option" where
  "NewCodec F s =
     (let new = (\<lambda>x. Some \<lparr>co_scheme = x, co_encoder = new_encoder (F x), co_decoder = new_decoder (F x)\<rparr>)
      in if s = ''json'' then new CodecJSON else if s = ''gob'' then new CodecGOB else None)"

text \<open>The stream, and the number of errors in the log.\<close>

record io =
  io_stream :: octets
  io_errors :: nat

definition codecJSON_Encode ::
  "(codec_kind \<Rightarrow> ('e, 'd, 'm) format) \<Rightarrow> 'm \<Rightarrow> ('e, 'd) codec \<times> io \<Rightarrow> ('e, 'd) codec \<times> io" where
  "codecJSON_Encode F m = (\<lambda>(c, w).
     let (out, e) = encode (F CodecJSON) m (co_encoder c); c1 = c\<lparr>co_encoder := e\<rparr>
     in case out of
          None \<Rightarrow> (c1, w\<lparr>io_errors := io_errors w + 1\<rparr>)
        | Some bs \<Rightarrow> (c1, w\<lparr>io_stream := io_stream w @ bs\<rparr>))"

definition codecGOB_Encode ::
  "(codec_kind \<Rightarrow> ('e, 'd, 'm) format) \<Rightarrow> 'm \<Rightarrow> ('e, 'd) codec \<times> io \<Rightarrow> ('e, 'd) codec \<times> io" where
  "codecGOB_Encode F m = (\<lambda>(c, w).
     let (out, e) = encode (F CodecGOB) m (co_encoder c); c1 = c\<lparr>co_encoder := e\<rparr>
     in case out of
          None \<Rightarrow> (c1, w\<lparr>io_errors := io_errors w + 1\<rparr>)
        | Some bs \<Rightarrow> (c1, w\<lparr>io_stream := io_stream w @ bs\<rparr>))"

text \<open>\<open>m\<close> is what the variable holds before.\<close>

definition codecJSON_Decode ::
  "(codec_kind \<Rightarrow> ('e, 'd, 'm) format) \<Rightarrow> 'm \<Rightarrow> ('e, 'd) codec \<times> io \<Rightarrow> 'm \<times> ('e, 'd) codec \<times> io" where
  "codecJSON_Decode F m = (\<lambda>(c, w).
     let (got, d, rest) = decode (F CodecJSON) (co_decoder c) (io_stream w);
         c1 = c\<lparr>co_decoder := d\<rparr>; w1 = w\<lparr>io_stream := rest\<rparr>
     in case got of None \<Rightarrow> (m, c1, w1\<lparr>io_errors := io_errors w1 + 1\<rparr>) | Some x \<Rightarrow> (x, c1, w1))"

definition codecGOB_Decode ::
  "(codec_kind \<Rightarrow> ('e, 'd, 'm) format) \<Rightarrow> 'm \<Rightarrow> ('e, 'd) codec \<times> io \<Rightarrow> 'm \<times> ('e, 'd) codec \<times> io" where
  "codecGOB_Decode F m = (\<lambda>(c, w).
     let (got, d, rest) = decode (F CodecGOB) (co_decoder c) (io_stream w);
         c1 = c\<lparr>co_decoder := d\<rparr>; w1 = w\<lparr>io_stream := rest\<rparr>
     in case got of None \<Rightarrow> (m, c1, w1\<lparr>io_errors := io_errors w1 + 1\<rparr>) | Some x \<Rightarrow> (x, c1, w1))"

text \<open>The dispatch of the interface; a call on the nil interface panics.\<close>

definition Codec_Encode ::
  "(codec_kind \<Rightarrow> ('e, 'd, 'm) format) \<Rightarrow> 'm \<Rightarrow> ('e, 'd) codec option \<times> io \<Rightarrow> (('e, 'd) codec \<times> io) go" where
  "Codec_Encode F m = (\<lambda>(c, w). go_bind (deref c) (\<lambda>c1. Inr
     ((case co_scheme c1 of CodecJSON \<Rightarrow> codecJSON_Encode | CodecGOB \<Rightarrow> codecGOB_Encode) F m (c1, w))))"

definition Codec_Decode ::
  "(codec_kind \<Rightarrow> ('e, 'd, 'm) format) \<Rightarrow> 'm \<Rightarrow> ('e, 'd) codec option \<times> io \<Rightarrow> ('m \<times> ('e, 'd) codec \<times> io) go" where
  "Codec_Decode F m = (\<lambda>(c, w). go_bind (deref c) (\<lambda>c1. Inr
     ((case co_scheme c1 of CodecJSON \<Rightarrow> codecJSON_Decode | CodecGOB \<Rightarrow> codecGOB_Decode) F m (c1, w))))"

section \<open>Messages come back in order\<close>

fun encode_all ::
  "(codec_kind \<Rightarrow> ('e, 'd, 'm) format) \<Rightarrow> 'm list \<Rightarrow> ('e, 'd) codec \<times> io \<Rightarrow> (('e, 'd) codec \<times> io) go" where
  "encode_all F [] cw = Inr cw"
| "encode_all F (m # ms) cw = go_bind (Codec_Encode F m (Some (fst cw), snd cw)) (encode_all F ms)"

fun decode_all ::
  "(codec_kind \<Rightarrow> ('e, 'd, 'm) format) \<Rightarrow> 'm \<Rightarrow> nat \<Rightarrow> ('e, 'd) codec \<times> io \<Rightarrow> ('m list \<times> ('e, 'd) codec \<times> io) go" where
  "decode_all F m 0 cw = Inr ([], cw)"
| "decode_all F m (Suc n) cw =
     go_bind (Codec_Decode F m (Some (fst cw), snd cw)) (\<lambda>(x, cw1).
     go_bind (decode_all F m n cw1) (\<lambda>(xs, cw2). Inr (x # xs, cw2)))"

text \<open>What the documentation of both packages promises: what a decoder has not delivered yet, given by \<open>left\<close>, is
  what was encoded, in order.\<close>

definition keeps_order :: "('e, 'd, 'm) format \<Rightarrow> ('e \<Rightarrow> 'd \<Rightarrow> octets \<Rightarrow> 'm list) \<Rightarrow> bool" where
  "keeps_order f left \<longleftrightarrow>
     left (new_encoder f) (new_decoder f) [] = [] \<and>
     (\<forall>m e d w. \<exists>bs e1. encode f m e = (Some bs, e1) \<and> left e1 d (w @ bs) = left e d w @ [m]) \<and>
     (\<forall>e d w m ms. left e d w = m # ms \<longrightarrow>
        (\<exists>d1 w1. decode f d w = (Some m, d1, w1) \<and> left e d1 w1 = ms))"

lemma keeps_order_encode:
  "keeps_order f left \<Longrightarrow> \<exists>bs e1. encode f m e = (Some bs, e1) \<and> left e1 d (w @ bs) = left e d w @ [m]"
  by (simp add: keeps_order_def)

lemma keeps_order_decode:
  "keeps_order f left \<Longrightarrow> left e d w = m # ms \<Longrightarrow> \<exists>d1 w1. decode f d w = (Some m, d1, w1) \<and> left e d1 w1 = ms"
  by (simp add: keeps_order_def)

lemma encode_all_left:
  assumes "keeps_order (F (co_scheme c)) left"
  shows "\<exists>c1 w1. encode_all F ms (c, w) = Inr (c1, w1) \<and> co_scheme c1 = co_scheme c \<and> io_errors w1 = io_errors w \<and>
    left (co_encoder c1) (co_decoder c1) (io_stream w1) = left (co_encoder c) (co_decoder c) (io_stream w) @ ms"
  using assms
proof (induction ms arbitrary: c w)
  case (Cons m ms)
  obtain bs e1 where e: "encode (F (co_scheme c)) m (co_encoder c) = (Some bs, e1)"
    "left e1 (co_decoder c) (io_stream w @ bs) = left (co_encoder c) (co_decoder c) (io_stream w) @ [m]"
    using keeps_order_encode [OF Cons.prems] by blast
  have "Codec_Encode F m (Some c, w) = Inr (c\<lparr>co_encoder := e1\<rparr>, w\<lparr>io_stream := io_stream w @ bs\<rparr>)"
    using e(1) by (cases "co_scheme c") (simp_all add: Codec_Encode_def codecJSON_Encode_def codecGOB_Encode_def)
  then show ?case
    using Cons.IH [of "c\<lparr>co_encoder := e1\<rparr>" "w\<lparr>io_stream := io_stream w @ bs\<rparr>"] Cons.prems e(2) by simp
qed simp

lemma decode_all_left:
  assumes "keeps_order (F (co_scheme c)) left" "left (co_encoder c) (co_decoder c) (io_stream w) = ms @ ns"
  shows "\<exists>c1 w1. decode_all F m0 (length ms) (c, w) = Inr (ms, c1, w1) \<and> io_errors w1 = io_errors w \<and>
    left (co_encoder c1) (co_decoder c1) (io_stream w1) = ns"
  using assms
proof (induction ms arbitrary: c w)
  case (Cons m ms)
  obtain d1 w1 where d: "decode (F (co_scheme c)) (co_decoder c) (io_stream w) = (Some m, d1, w1)"
    "left (co_encoder c) d1 w1 = ms @ ns"
    using keeps_order_decode [OF Cons.prems(1)] Cons.prems(2) by (metis append_Cons)
  have "Codec_Decode F m0 (Some c, w) = Inr (m, c\<lparr>co_decoder := d1\<rparr>, w\<lparr>io_stream := w1\<rparr>)"
    using d(1) by (cases "co_scheme c") (simp_all add: Codec_Decode_def codecJSON_Decode_def codecGOB_Decode_def)
  then show ?case
    using Cons.IH [of "c\<lparr>co_decoder := d1\<rparr>" "w\<lparr>io_stream := w1\<rparr>"] Cons.prems(1) d(2) by auto
qed auto

text \<open>Whatever is encoded by a new codec of either scheme is decoded again, in order and without an error; an unknown
  scheme gives the nil interface, whose first use panics.\<close>

theorem codec_round_trip:
  assumes "\<And>x. keeps_order (F x) (left x)"
  shows "case NewCodec F s of
      None \<Rightarrow> s \<notin> {''json'', ''gob''} \<and> Codec_Encode F m0 (None, \<lparr>io_stream = [], io_errors = 0\<rparr>) = Inl NilDeref
    | Some c \<Rightarrow> codec_Scheme c = s \<and>
        (\<exists>c1 w1 c2 w2. encode_all F ms (c, \<lparr>io_stream = [], io_errors = 0\<rparr>) = Inr (c1, w1) \<and>
           decode_all F m0 (length ms) (c1, w1) = Inr (ms, c2, w2) \<and> io_errors w2 = 0)"
proof (cases "NewCodec F s")
  case (Some c)
  let ?l = "left (co_scheme c)"
  have new: "?l (co_encoder c) (co_decoder c) [] = []" "codec_Scheme c = s"
    using Some assms [of "co_scheme c"]
    by (auto simp: NewCodec_def keeps_order_def codec_Scheme_def Let_def split: if_splits)
  obtain c1 w1 where e: "encode_all F ms (c, \<lparr>io_stream = [], io_errors = 0\<rparr>) = Inr (c1, w1)"
    "co_scheme c1 = co_scheme c" "io_errors w1 = 0" "?l (co_encoder c1) (co_decoder c1) (io_stream w1) = ms"
    using encode_all_left [of F c ?l ms "\<lparr>io_stream = [], io_errors = 0\<rparr>", OF assms] new(1) by auto
  have "keeps_order (F (co_scheme c1)) ?l" "?l (co_encoder c1) (co_decoder c1) (io_stream w1) = ms @ []"
    using assms e(2,4) by simp_all
  from decode_all_left [where ms = ms and ns = "[]" and c = c1 and w = w1 and F = F and left = ?l, OF this, of m0] obtain c2 w2 where
    "decode_all F m0 (length ms) (c1, w1) = Inr (ms, c2, w2)" "io_errors w2 = 0"
    using e(3) by auto
  with Some e(1) new(2) show ?thesis by auto
qed (auto simp: NewCodec_def Codec_Encode_def deref_def Let_def split: if_splits)

definition octet_format :: "(unit, unit, 8 word) format" where
  "octet_format = \<lparr>new_encoder = (), new_decoder = (), encode = (\<lambda>m e. (Some [m], e)),
     decode = (\<lambda>d w. case w of [] \<Rightarrow> (None, d, []) | b # bs \<Rightarrow> (Some b, d, bs))\<rparr>"

theorem codec_round_trip_witness:
  "case NewCodec (\<lambda>_. octet_format) ''gob'' of
      None \<Rightarrow> False
    | Some c \<Rightarrow> (\<exists>c1 w1 c2 w2. encode_all (\<lambda>_. octet_format) [7, 9] (c, \<lparr>io_stream = [], io_errors = 0\<rparr>) = Inr (c1, w1) \<and>
           decode_all (\<lambda>_. octet_format) 0 2 (c1, w1) = Inr ([7, 9], c2, w2))"
proof -
  have "keeps_order octet_format (\<lambda>e d w. w)"
    by (simp add: keeps_order_def octet_format_def)
  from codec_round_trip [of "\<lambda>_. octet_format" "\<lambda>_ e d w. w" "''gob''" 0 "[7, 9]", OF this] show ?thesis
    by (auto simp: numeral_2_eq_2 split: option.splits)
qed

end
