(* ===== verification/Handlers.thy ===== *)
theory Handlers
  imports PigReplica LayerReplica ChainReplica Paxos EPaxos Containers
begin

text \<open>
  How a node finds the handler of a message (\<open>node.go\<close>): handlers are registered under the name of the type of their argument, and
  \<open>HandleMsg\<close> looks up the type of the message. The registrations of \<open>NewReplica\<close> of every protocol are shown to give
  the dispatch functions of the models.
\<close>

section \<open>Registration\<close>

type_synonym 'f handles = "(string, 'f) gomap"

text \<open>What reflection tells of the second argument is the list of the types of its arguments, or \<open>None\<close> when it is not a
  function.\<close>

definition Register :: "string \<Rightarrow> string list option \<Rightarrow> 'f \<Rightarrow> 'f handles \<Rightarrow> 'f handles go" where
  "Register t params f hs = (if params \<noteq> Some [t] then Inl InvalidArgument else Inr (AList.update t f hs))"

text \<open>\<open>HandleMsg\<close> of a value \<open>m\<close> of the type \<open>t\<close>.\<close>

definition call_handler :: "('m \<Rightarrow> 's \<Rightarrow> 's go) handles \<Rightarrow> string \<Rightarrow> 'm \<Rightarrow> 's \<Rightarrow> 's go" where
  "call_handler hs t m s = (case map_of hs t of None \<Rightarrow> Inl NoHandler | Some f \<Rightarrow> f m s)"

text \<open>\<open>Run\<close> starts the goroutines only for a node with a handler; \<open>handle\<close> then takes the messages one by one.\<close>

definition Node_Run :: "'f handles \<Rightarrow> bool" where
  "Node_Run hs \<longleftrightarrow> hs \<noteq> []"

definition node_handle :: "('m \<Rightarrow> 's \<Rightarrow> 's go) handles \<Rightarrow> ('m \<Rightarrow> string) \<Rightarrow> 'm list \<Rightarrow> 's \<Rightarrow> 's go" where
  "node_handle hs type_of ms s = (if Node_Run hs then go_fold (\<lambda>m. call_handler hs (type_of m) m) ms s else Inr s)"

text \<open>The calls of \<open>Register\<close> in \<open>NewReplica\<close>: a type, the types of the arguments of a method, and the method.\<close>

definition register_all :: "(string \<times> string list option \<times> 'f) list \<Rightarrow> 'f handles go" where
  "register_all regs = go_fold (\<lambda>(t, params, f). Register t params f) regs []"

lemma register_all_map:
  assumes "distinct (map fst regs)" "list_all (\<lambda>(t, params, f). params = Some [t]) regs"
  shows "\<exists>hs. register_all regs = Inr hs \<and> map_of hs = map_of (map (\<lambda>(t, params, f). (t, f)) regs)"
proof -
  let ?named = "map (\<lambda>(t, params, f). (t, f))"
  have fold: "\<exists>hs1. go_fold (\<lambda>(t, params, f). Register t params f) regs hs = Inr hs1 \<and>
      map_of hs1 = map_of hs ++ map_of (rev (?named regs))" for hs
    using assms(2)
  proof (induction regs arbitrary: hs)
    case (Cons x regs)
    obtain t f where x: "x = (t, Some [t], f)"
      using Cons.prems by (cases x) auto
    obtain hs1 where "go_fold (\<lambda>(t, params, f). Register t params f) regs (AList.update t f hs) = Inr hs1"
      "map_of hs1 = map_of (AList.update t f hs) ++ map_of (rev (?named regs))"
      using Cons.IH Cons.prems by fastforce
    moreover have "Register t (Some [t]) f hs = Inr (AList.update t f hs)"
      by (simp add: Register_def)
    ultimately show ?case
      by (simp add: x update_conv')
  qed simp
  have "distinct (map fst (?named regs))"
    using assms(1) by (simp add: comp_def split_beta)
  then have "map_of (rev (?named regs)) = map_of (?named regs)"
    by (intro map_of_inject_set [THEN iffD2]) (simp_all add: rev_map [symmetric])
  then show ?thesis
    using fold [of "[]"] by (simp add: register_all_def)
qed

text \<open>A method whose argument has another type is refused.\<close>

lemma wrong_argument_type: "list_ex (\<lambda>(t, params, f). params \<noteq> Some [t]) regs \<Longrightarrow> register_all regs = Inl InvalidArgument"
proof -
  have "list_ex (\<lambda>(t, params, f). params \<noteq> Some [t]) regs \<Longrightarrow>
    go_fold (\<lambda>(t, params, f). Register t params f) regs hs = Inl InvalidArgument" for hs
    by (induction regs arbitrary: hs) (auto simp: Register_def)
  then show "list_ex (\<lambda>(t, params, f). params \<noteq> Some [t]) regs \<Longrightarrow> register_all regs = Inl InvalidArgument"
    by (simp add: register_all_def)
qed

section \<open>What the replicas register\<close>

text \<open>A call with a value of another type would panic.\<close>

definition pig_type :: "string \<Rightarrow> msg \<Rightarrow> string" where
  "pig_type pkg m =
     (case m of
        M_Request _ \<Rightarrow> ''paxi.Request''
      | M_P1a _ \<Rightarrow> pkg @ ''.P1a'' | M_P1b _ \<Rightarrow> pkg @ ''.P1b'' | M_P1bs _ \<Rightarrow> ''[]'' @ pkg @ ''.P1b''
      | M_P2a _ \<Rightarrow> pkg @ ''.P2a'' | M_P2b _ \<Rightarrow> pkg @ ''.P2b''
      | M_P2bAggregated _ \<Rightarrow> pkg @ ''.P2bAggregated'' | M_P3 _ \<Rightarrow> pkg @ ''.P3''
      | M_P3RecoverRequest _ \<Rightarrow> pkg @ ''.P3RecoverRequest'' | M_P3RecoverReply _ \<Rightarrow> pkg @ ''.P3RecoverReply''
      | M_Routed _ \<Rightarrow> pkg @ ''.RoutedMsg'')"

definition pig_handlers ::
  "env \<Rightarrow> goint \<Rightarrow> 'a sender \<Rightarrow> (string \<times> string list option \<times> (msg \<Rightarrow> 'a replica_scheme \<Rightarrow> 'a replica_scheme go)) list" where
  "pig_handlers E now send =
     [(''paxi.Request'', Some [''paxi.Request''], \<lambda>m r. case m of M_Request q \<Rightarrow> Inr (handleRequest E now q r) | _ \<Rightarrow> Inl InvalidArgument),
      (''pigpaxos.P1b'', Some [''pigpaxos.P1b''], \<lambda>m r. case m of M_P1b x \<Rightarrow> handleP1b E now send x r | _ \<Rightarrow> Inl InvalidArgument),
      (''[]pigpaxos.P1b'', Some [''[]pigpaxos.P1b''], \<lambda>m r. case m of M_P1bs x \<Rightarrow> Inr (handleP1bLeader E now x r) | _ \<Rightarrow> Inl InvalidArgument),
      (''pigpaxos.P2b'', Some [''pigpaxos.P2b''], \<lambda>m r. case m of M_P2b x \<Rightarrow> handleP2b E now send x r | _ \<Rightarrow> Inl InvalidArgument),
      (''pigpaxos.P2bAggregated'', Some [''pigpaxos.P2bAggregated''], \<lambda>m r. case m of M_P2bAggregated x \<Rightarrow> handleP2bAggregated E now x r | _ \<Rightarrow> Inl InvalidArgument),
      (''pigpaxos.P3'', Some [''pigpaxos.P3''], \<lambda>m r. case m of M_P3 x \<Rightarrow> Inr (HandleP3 (conf E) x r) | _ \<Rightarrow> Inl InvalidArgument),
      (''pigpaxos.P3RecoverRequest'', Some [''pigpaxos.P3RecoverRequest''], \<lambda>m r. case m of M_P3RecoverRequest x \<Rightarrow> Inr (HandleP3RecoverRequest x r) | _ \<Rightarrow> Inl InvalidArgument),
      (''pigpaxos.P3RecoverReply'', Some [''pigpaxos.P3RecoverReply''], \<lambda>m r. case m of M_P3RecoverReply x \<Rightarrow> Inr (HandleP3RecoverReply x r) | _ \<Rightarrow> Inl InvalidArgument),
      (''pigpaxos.RoutedMsg'', Some [''pigpaxos.RoutedMsg''], \<lambda>m r. case m of M_Routed x \<Rightarrow> handleRoutedMsg E now send x r | _ \<Rightarrow> Inl InvalidArgument)]"

definition layer_handlers ::
  "env \<Rightarrow> goint \<Rightarrow> 'a sender \<Rightarrow> (string \<times> string list option \<times> (msg \<Rightarrow> 'a replica_scheme \<Rightarrow> 'a replica_scheme go)) list" where
  "layer_handlers E now send =
     [(''paxi.Request'', Some [''paxi.Request''], \<lambda>m r. case m of M_Request q \<Rightarrow> Inr (Layer_handleRequest E now q r) | _ \<Rightarrow> Inl InvalidArgument),
      (''layerpaxos.P1b'', Some [''layerpaxos.P1b''], \<lambda>m r. case m of M_P1b x \<Rightarrow> Layer_handleP1b E now send x r | _ \<Rightarrow> Inl InvalidArgument),
      (''[]layerpaxos.P1b'', Some [''[]layerpaxos.P1b''], \<lambda>m r. case m of M_P1bs x \<Rightarrow> Inr (Layer_handleP1bLeader E now x r) | _ \<Rightarrow> Inl InvalidArgument),
      (''layerpaxos.P2b'', Some [''layerpaxos.P2b''], \<lambda>m r. case m of M_P2b x \<Rightarrow> Layer_handleP2b E now send x r | _ \<Rightarrow> Inl InvalidArgument),
      (''layerpaxos.P2bAggregated'', Some [''layerpaxos.P2bAggregated''], \<lambda>m r. case m of M_P2bAggregated x \<Rightarrow> Layer_handleP2bAggregated E now x r | _ \<Rightarrow> Inl InvalidArgument),
      (''layerpaxos.P3'', Some [''layerpaxos.P3''], \<lambda>m r. case m of M_P3 x \<Rightarrow> Inr (Layer_HandleP3 (conf E) x r) | _ \<Rightarrow> Inl InvalidArgument),
      (''layerpaxos.P3RecoverRequest'', Some [''layerpaxos.P3RecoverRequest''], \<lambda>m r. case m of M_P3RecoverRequest x \<Rightarrow> Inr (Layer_HandleP3RecoverRequest x r) | _ \<Rightarrow> Inl InvalidArgument),
      (''layerpaxos.P3RecoverReply'', Some [''layerpaxos.P3RecoverReply''], \<lambda>m r. case m of M_P3RecoverReply x \<Rightarrow> Inr (Layer_HandleP3RecoverReply x r) | _ \<Rightarrow> Inl InvalidArgument),
      (''layerpaxos.RoutedMsg'', Some [''layerpaxos.RoutedMsg''], \<lambda>m r. case m of M_Routed x \<Rightarrow> Layer_handleRoutedMsg E now send x r | _ \<Rightarrow> Inl InvalidArgument)]"

text \<open>A chained replica also gets the messages of the chain.\<close>

datatype chain_message = Plain msg | Chained P2aChain

definition chain_type :: "chain_message \<Rightarrow> string" where
  "chain_type m = (case m of Plain x \<Rightarrow> pig_type ''chainpaxos'' x | Chained _ \<Rightarrow> ''chainpaxos.P2aChain'')"

definition chain_handlers ::
  "env \<Rightarrow> goint \<Rightarrow> chain_sender \<Rightarrow> (string \<times> string list option \<times> (chain_message \<Rightarrow> chain_replica \<Rightarrow> chain_replica go)) list" where
  "chain_handlers E now send =
     [(''paxi.Request'', Some [''paxi.Request''], \<lambda>m r. case m of Plain (M_Request q) \<Rightarrow> Inr (Chain_handleRequest E now q r) | _ \<Rightarrow> Inl InvalidArgument),
      (''chainpaxos.P1b'', Some [''chainpaxos.P1b''], \<lambda>m r. case m of Plain (M_P1b x) \<Rightarrow> Chain_handleP1b E now send x r | _ \<Rightarrow> Inl InvalidArgument),
      (''[]chainpaxos.P1b'', Some [''[]chainpaxos.P1b''], \<lambda>m r. case m of Plain (M_P1bs x) \<Rightarrow> Inr (Chain_handleP1bLeader E now x r) | _ \<Rightarrow> Inl InvalidArgument),
      (''chainpaxos.P2b'', Some [''chainpaxos.P2b''], \<lambda>m r. case m of Plain (M_P2b x) \<Rightarrow> Chain_handleP2b E now send x r | _ \<Rightarrow> Inl InvalidArgument),
      (''chainpaxos.P2bAggregated'', Some [''chainpaxos.P2bAggregated''], \<lambda>m r. case m of Plain (M_P2bAggregated x) \<Rightarrow> Chain_handleP2bAggregated E now x r | _ \<Rightarrow> Inl InvalidArgument),
      (''chainpaxos.P3'', Some [''chainpaxos.P3''], \<lambda>m r. case m of Plain (M_P3 x) \<Rightarrow> Inr (Chain_HandleP3 (conf E) x r) | _ \<Rightarrow> Inl InvalidArgument),
      (''chainpaxos.P2aChain'', Some [''chainpaxos.P2aChain''], \<lambda>m r. case m of Chained x \<Rightarrow> handleP2aFollower E send x r | _ \<Rightarrow> Inl InvalidArgument),
      (''chainpaxos.P3RecoverRequest'', Some [''chainpaxos.P3RecoverRequest''], \<lambda>m r. case m of Plain (M_P3RecoverRequest x) \<Rightarrow> Inr (Chain_HandleP3RecoverRequest x r) | _ \<Rightarrow> Inl InvalidArgument),
      (''chainpaxos.P3RecoverReply'', Some [''chainpaxos.P3RecoverReply''], \<lambda>m r. case m of Plain (M_P3RecoverReply x) \<Rightarrow> Inr (Chain_HandleP3RecoverReply x r) | _ \<Rightarrow> Inl InvalidArgument),
      (''chainpaxos.RoutedMsg'', Some [''chainpaxos.RoutedMsg''], \<lambda>m r. case m of Plain (M_Routed x) \<Rightarrow> Chain_handleRoutedMsg E now send x r | _ \<Rightarrow> Inl InvalidArgument)]"

text \<open>A replica of Paxos or EPaxos gets a request or a message of its protocol.\<close>

definition paxos_type :: "Request + paxos_msg \<Rightarrow> string" where
  "paxos_type m =
     (case m of
        Inl _ \<Rightarrow> ''paxi.Request''
      | Inr x \<Rightarrow> ''paxos.'' @
          (case x of X_P1a _ \<Rightarrow> ''P1a'' | X_P1b _ \<Rightarrow> ''P1b'' | X_P2a _ \<Rightarrow> ''P2a'' | X_P2b _ \<Rightarrow> ''P2b'' | X_P3 _ \<Rightarrow> ''P3''
           | X_RecoverRequest _ \<Rightarrow> ''P3RecoverRequest'' | X_RecoverReply _ \<Rightarrow> ''P3RecoverReply''))"

definition paxos_handlers :: "paxos_env \<Rightarrow> goint \<Rightarrow> (string \<times> string list option \<times> (Request + paxos_msg \<Rightarrow> paxos \<Rightarrow> paxos go)) list" where
  "paxos_handlers E now =
     [(''paxi.Request'', Some [''paxi.Request''], \<lambda>m p. case m of Inl q \<Rightarrow> Inr (Paxos_handleRequest E now q p) | _ \<Rightarrow> Inl InvalidArgument),
      (''paxos.P1a'', Some [''paxos.P1a''], \<lambda>m p. case m of Inr (X_P1a x) \<Rightarrow> Inr (Paxos_HandleP1a x p) | _ \<Rightarrow> Inl InvalidArgument),
      (''paxos.P1b'', Some [''paxos.P1b''], \<lambda>m p. case m of Inr (X_P1b x) \<Rightarrow> Inr (Paxos_HandleP1b (v_config E) now x p) | _ \<Rightarrow> Inl InvalidArgument),
      (''paxos.P2a'', Some [''paxos.P2a''], \<lambda>m p. case m of Inr (X_P2a x) \<Rightarrow> Inr (Paxos_HandleP2a x p) | _ \<Rightarrow> Inl InvalidArgument),
      (''paxos.P2b'', Some [''paxos.P2b''], \<lambda>m p. case m of Inr (X_P2b x) \<Rightarrow> Paxos_HandleP2b (v_config E) now x p | _ \<Rightarrow> Inl InvalidArgument),
      (''paxos.P3'', Some [''paxos.P3''], \<lambda>m p. case m of Inr (X_P3 x) \<Rightarrow> Inr (Paxos_HandleP3 x p) | _ \<Rightarrow> Inl InvalidArgument),
      (''paxos.P3RecoverRequest'', Some [''paxos.P3RecoverRequest''], \<lambda>m p. case m of Inr (X_RecoverRequest x) \<Rightarrow> Inr (Paxos_HandleP3RecoverRequest x p) | _ \<Rightarrow> Inl InvalidArgument),
      (''paxos.P3RecoverReply'', Some [''paxos.P3RecoverReply''], \<lambda>m p. case m of Inr (X_RecoverReply x) \<Rightarrow> Paxos_HandleP3RecoverReply now x p | _ \<Rightarrow> Inl InvalidArgument)]"

definition epaxos_type :: "Request + epaxos_msg \<Rightarrow> string" where
  "epaxos_type m =
     (case m of
        Inl _ \<Rightarrow> ''paxi.Request''
      | Inr x \<Rightarrow> ''epaxos.'' @
          (case x of E_PreAccept _ \<Rightarrow> ''PreAccept'' | E_PreAcceptReply _ \<Rightarrow> ''PreAcceptReply'' | E_Accept _ \<Rightarrow> ''Accept''
           | E_AcceptReply _ \<Rightarrow> ''AcceptReply'' | E_Commit _ \<Rightarrow> ''Commit''))"

definition epaxos_handlers :: "config \<Rightarrow> bool \<Rightarrow> (string \<times> string list option \<times> (Request + epaxos_msg \<Rightarrow> epaxos \<Rightarrow> epaxos go)) list" where
  "epaxos_handlers c w =
     [(''paxi.Request'', Some [''paxi.Request''], \<lambda>m r. case m of Inl q \<Rightarrow> e_handleRequest q r | _ \<Rightarrow> Inl InvalidArgument),
      (''epaxos.PreAccept'', Some [''epaxos.PreAccept''], \<lambda>m r. case m of Inr (E_PreAccept x) \<Rightarrow> handlePreAccept x r | _ \<Rightarrow> Inl InvalidArgument),
      (''epaxos.PreAcceptReply'', Some [''epaxos.PreAcceptReply''], \<lambda>m r. case m of Inr (E_PreAcceptReply x) \<Rightarrow> handlePreAcceptReply c w x r | _ \<Rightarrow> Inl InvalidArgument),
      (''epaxos.Accept'', Some [''epaxos.Accept''], \<lambda>m r. case m of Inr (E_Accept x) \<Rightarrow> handleAccept x r | _ \<Rightarrow> Inl InvalidArgument),
      (''epaxos.AcceptReply'', Some [''epaxos.AcceptReply''], \<lambda>m r. case m of Inr (E_AcceptReply x) \<Rightarrow> handleAcceptReply c w x r | _ \<Rightarrow> Inl InvalidArgument),
      (''epaxos.Commit'', Some [''epaxos.Commit''], \<lambda>m r. case m of Inr (E_Commit x) \<Rightarrow> handleCommit x r | _ \<Rightarrow> Inl InvalidArgument)]"

section \<open>They give the dispatch of the models\<close>

lemma registered:
  assumes "distinct (map fst regs)" "list_all (\<lambda>(t, params, f). params = Some [t]) regs"
    and "\<And>m s. call_handler (map (\<lambda>(t, params, f). (t, f)) regs) (type_of m) m s = d m s"
  shows "\<exists>hs. register_all regs = Inr hs \<and> (\<forall>m s. call_handler hs (type_of m) m s = d m s)"
  using register_all_map [OF assms(1,2)] assms(3) by (auto simp: call_handler_def)

text \<open>No registration panics, and the handler that is looked up by the type of a message does what the model's dispatch
  says, for every message and state of the five protocols; a type that is not registered, such as a bare \<open>P1a\<close> or
  \<open>P2a\<close> in PigPaxos and its variants, ends the process.\<close>

lemma registration_gives_the_dispatch:
  "(\<exists>hs. register_all (pig_handlers E now send) = Inr hs \<and>
      (\<forall>m r. call_handler hs (pig_type ''pigpaxos'' m) m r = dispatch E now send m r))
   \<and> (\<exists>hs. register_all (layer_handlers E now send) = Inr hs \<and>
      (\<forall>m r. call_handler hs (pig_type ''layerpaxos'' m) m r = Layer_dispatch E now send m r))
   \<and> (\<exists>hs. register_all (chain_handlers E now csend) = Inr hs \<and>
      (\<forall>m r. call_handler hs (chain_type m) m r =
        (case m of Plain x \<Rightarrow> Chain_dispatch E now csend x r | Chained x \<Rightarrow> handleP2aFollower E csend x r)))
   \<and> (\<exists>hs. register_all (paxos_handlers V now) = Inr hs \<and>
      (\<forall>m p. call_handler hs (paxos_type m) m p =
        (case m of Inl q \<Rightarrow> paxos_handle V now (XRequest q) p | Inr x \<Rightarrow> paxos_handle V now (XMsg x) p)))
   \<and> (\<exists>hs. register_all (epaxos_handlers c w) = Inr hs \<and>
      (\<forall>m r. call_handler hs (epaxos_type m) m r =
        (case m of Inl q \<Rightarrow> e_handleRequest q r | Inr x \<Rightarrow> epaxos_handle c w x r)))"
proof (intro conjI)
  note defs = call_handler_def pig_type_def chain_type_def paxos_type_def epaxos_type_def
  show "\<exists>hs. register_all (pig_handlers E now send) = Inr hs \<and>
      (\<forall>m r. call_handler hs (pig_type ''pigpaxos'' m) m r = dispatch E now send m r)"
    by (rule registered; (simp add: pig_handlers_def)?)
      (simp add: defs pig_handlers_def dispatch_def split: msg.split)
  show "\<exists>hs. register_all (layer_handlers E now send) = Inr hs \<and>
      (\<forall>m r. call_handler hs (pig_type ''layerpaxos'' m) m r = Layer_dispatch E now send m r)"
    by (rule registered; (simp add: layer_handlers_def)?)
      (simp add: defs layer_handlers_def Layer_dispatch_def split: msg.split)
  show "\<exists>hs. register_all (chain_handlers E now csend) = Inr hs \<and>
      (\<forall>m r. call_handler hs (chain_type m) m r =
        (case m of Plain x \<Rightarrow> Chain_dispatch E now csend x r | Chained x \<Rightarrow> handleP2aFollower E csend x r))"
    by (rule registered; (simp add: chain_handlers_def)?)
      (simp add: defs chain_handlers_def Chain_dispatch_def split: chain_message.split msg.split)
  show "\<exists>hs. register_all (paxos_handlers V now) = Inr hs \<and>
      (\<forall>m p. call_handler hs (paxos_type m) m p =
        (case m of Inl q \<Rightarrow> paxos_handle V now (XRequest q) p | Inr x \<Rightarrow> paxos_handle V now (XMsg x) p))"
    by (rule registered; (simp add: paxos_handlers_def)?)
      (simp add: defs paxos_handlers_def split: sum.split paxos_msg.split)
  show "\<exists>hs. register_all (epaxos_handlers c w) = Inr hs \<and>
      (\<forall>m r. call_handler hs (epaxos_type m) m r =
        (case m of Inl q \<Rightarrow> e_handleRequest q r | Inr x \<Rightarrow> epaxos_handle c w x r))"
    by (rule registered; (simp add: epaxos_handlers_def)?)
      (simp add: defs epaxos_handlers_def split: sum.split epaxos_msg.split)
qed

end
