(* ===== verification/Spec2Isabelle.thy ===== *)
theory Spec2Isabelle
  imports PigSystem PigHandlers PigRelay PaxosFacts Containers EPaxosSystem GraphFacts RetroFacts LayerFacts ChainFacts SocketFacts ClientFacts WorkloadFacts
    Transports HashRing Scc Deployment Logger PaxosProgress CommandLine Measures Formats Codec Handlers
begin

text \<open>
  A verification library of the PigPaxos repository: replicated state machines in Go, with the
  services they share.

  \<^bold>\<open>The program.\<close> Package \<open>paxi\<close> (the root of the repository) has the identifiers and ballots
  (\<open>id.go\<close>, \<open>ballot.go\<close>), the acknowledgement sets (\<open>quorum.go\<close>), the key-value store (\<open>db.go\<close>), the client
  messages (\<open>message.go\<close>), the socket with its fault injection (\<open>socket.go\<close>) over
  transports (\<open>transport.go\<close>), the node that dispatches
  messages to handlers (\<open>node.go\<close>), and a linearizability checker for recorded histories (\<open>checker.go\<close>,
  \<open>history.go\<close>, \<open>operation.go\<close>), the clients (\<open>client.go\<close>) with their HTTP server (\<open>http.go\<close>), and a benchmark with
  its limiter, policies and statistics (\<open>benchmark.go\<close>, \<open>rate.go\<close>, \<open>policy.go\<close>, \<open>stat.go\<close>). Over it run the protocols: \<open>paxos\<close>, \<open>epaxos\<close>, and \<open>pigpaxos\<close> with its two
  variants \<open>layerpaxos\<close> and \<open>chainpaxos\<close>. In PigPaxos the leader sends a message to one relay of each peer
  group, the relay passes it to its group and aggregates the answers. Packages \<open>lib\<close> (containers and
  graphs), \<open>hlc\<close> (hybrid logical clock) and \<open>retro_log\<close> (retroscope log) serve all of them.

  \<^bold>\<open>How it is modelled.\<close> A handler is a function from a message and a state to the new state, which
  collects the calls on the node (\<open>calls\<close>) and what goes to the network (\<open>outbox\<close>, \<open>wire\<close>). A panic, a fatal
  error and a call that never returns are values (\<open>go_panic\<close> in Go\_Prelude), so a theorem that gives an
  \<open>Inr\<close> says that the code returns. Words keep their width (\<open>ID\<close> 32 bits, \<open>Ballot\<close> and physical times 64 bits,
  logical times 16 bits); an \<open>int\<close> of Go is an \<open>int\<close>, read through a \<open>64 word\<close> where the code shifts or
  converts it. A map or a set that the code ranges over is a list in iteration order, so what holds of every
  list holds of every order. Random draws, the wall clock, the outcome of dialling and the order in which a
  sort leaves equal elements are arguments.

  \<^bold>\<open>The theories.\<close>
  \<^item> Go\_Prelude: panics, pointers, loops and slices, and the generic lemmas; \<open>util.go\<close>.
  \<^item> Ident, Quorums, Database, PigMessages: \<open>id.go\<close> and \<open>ballot.go\<close>; \<open>quorum.go\<close> and the counts of \<open>config.go\<close>;
    \<open>db.go\<close>; \<open>message.go\<close> and \<open>pigpaxos/msg.go\<close>. Packing and order of ballots, textual round trips, quorum
    predicates as counts of nodes with the locale of intersecting quorums, the store as the last write.
  \<^item> Hlc: \<open>hlc/hlc.go\<close> and \<open>hlc/timestamp.go\<close>, with the locale of a logical clock; monotonicity, encodings, overflow.
  \<^item> PigPaxos: the protocol object of \<open>pigpaxos/pigpaxos.go\<close> (record \<open>pigpaxos\<close>). PigFacts shows the execute
    loop, the cleanup and the adoption of logs, PigHandlers what each handler does on every branch, and which
    entries of a promise or of an accepted proposal a leader and a follower can lose,
    PigSafety the invariant of one replica (locales of a \<open>Send\<close> that only advances), PigSystem a cluster over an
    asynchronous network as a step relation, with the safety of slots per ballot and, as a lemma, an execution in
    which a committed slot is reassigned.
  \<^item> PigReplica and PigRelay: \<open>pigpaxos/replica.go\<close> and \<open>node.HandleMsg\<close>; peer groups, relays, aggregation, time-outs;
    what relays report, and that every handler keeps the invariant of PigSafety. A replica that sends to
    itself handles the message at once: the fuel of \<open>HandleMsg\<close> bounds the nesting, and \<open>StackOverflow\<close> is
    the result when it is exceeded; each theorem that has an \<open>Inr\<close> in its conclusion shows its fuel is enough.
  \<^item> LayerReplica and LayerFacts, ChainReplica and ChainFacts: the two variants. Their protocol objects repeat
    \<open>pigpaxos.go\<close> and are defined as such; the relays of the layered variant and the chain are written out. LayerFacts takes the groups of
    \<open>peersToGroups\<close> and runs the votes of a group through its relay; ChainFacts follows a proposal along the chain, and shows
    that the leader counts the two votes of its report for the whole group.
  \<^item> Paxos and PaxosFacts: \<open>paxos/paxos.go\<close>, \<open>paxos/replica.go\<close>; the execute loop, commits, the recovery of a
    lagging follower, and why the log is never truncated.
  \<^item> PaxosSystem and PaxosProgress: a cluster of Paxos replicas over an asynchronous network. PaxosSystem maps
    the state of a Paxos replica to one of PigPaxos (\<open>pig_view\<close>) and carries the invariant of PigSafety over: one command per
    ballot and slot; a lemma there has an execution in which the logs diverge, by the loss that PaxosFacts shows of every
    overtaken proposal. PaxosProgress follows
    a request from the leader to its answer: it is answered exactly when a majority has voted.
  \<^item> EPaxos and EPaxosFacts: \<open>epaxos/replica.go\<close>, \<open>epaxos/instance.go\<close>; attributes, the fast path, the stability of
    commits, and the executions in which the order of commits decides the store. EPaxosSystem: a cluster over an
    asynchronous network, in which an instance has one command.
  \<^item> Containers, Graph and GraphFacts: \<open>lib/queue.go\<close>, \<open>stack.go\<close>, \<open>set.go\<close>, \<open>cset.go\<close>, \<open>cmap.go\<close>, \<open>mmap.go\<close> with the
    locales of a buffer, a set of keys and a lookup table; \<open>lib/graph.go\<close> as a refinement of sets of vertices and
    edges, its searches and its cycle detection, whose fuel is the number of vertices.
  \<^item> Scc and HashRing: \<open>lib/graph_scc.go\<close>, whose search is shown to follow no edge, so that its fuel, the number of
    vertices and two, is never used up; \<open>lib/hash_ring.go\<close> as a sorted list.
  \<^item> Deployment: \<open>config.go\<close>, the master and its clients (\<open>master/master.go\<close>, \<open>util.go\<close>), \<open>bin/create_config.go\<close>; a created
    configuration is read back, and what a master does not send. Logger: \<open>log/log.go\<close>, its levels.
  \<^item> Transports: \<open>transport.go\<close>; a connection within a process as a step relation, the locale of a link that keeps the
    order of messages and delivers them, and what the readers of TCP and UDP pass on.
  \<^item> Handlers: \<open>Register\<close>, \<open>Run\<close> and the lookup of \<open>node.go\<close>; the registrations of the five protocols, each a
    message type, the parameters of the method and the method, give their dispatch functions.
  \<^item> Codec: \<open>codec.go\<close>; what an encoder writes the decoder reads, in the order of writing. Formats: the textual
    forms of the messages (\<open>message.go\<close> and every \<open>msg.go\<close>) and the message structures that the variants repeat; the text of a command
    determines it.
  \<^item> CommandLine: \<open>cmd/cmd.go\<close>, \<open>server/server.go\<close>, \<open>client/client.go\<close>, \<open>Simulation\<close> of \<open>config.go\<close> and the connections of the
    master. The shell has a fuel for its lines; \<open>Hang\<close> says that it is still reading, which is what it does once its
    input has ended, and the theorem on it says for which inputs enough fuel gives a result.
  \<^item> RetroLog and RetroFacts: \<open>retro_log\<close>; timer sets over any sequence of insertions and expiries, snapshots and what a
    transaction writes.
  \<^item> Checker and CheckerFacts: the checker on a store of operations; no false alarm on a history with
    linearization points, and the histories where its verdict is wrong.
  \<^item> Sockets and SocketFacts: \<open>socket.go\<close> and the rest of \<open>node.go\<close>; the end of injected faults over any sequence of
    injections and timers, the causality of message times, forwarding.
  \<^item> Clients and ClientFacts: \<open>client.go\<close>, \<open>paxos/client.go\<close>, \<open>epaxos/client.go\<close>, \<open>http.go\<close>; what arrives of a command, when
    histories agree, which of the answers a quorum read takes, and, as a lemma, a quorum read that misses a write. The poll of a quorum read has a fuel; \<open>Hang\<close>
    says that it is still polling, and its theorem has an \<open>Inr\<close>.
  \<^item> Workload and WorkloadFacts: \<open>policy.go\<close>, \<open>rate.go\<close>, \<open>benchmark.go\<close>, \<open>stat.go\<close>; the spacing of operations, the range of keys,
    and when \<open>Load\<close> returns. The goroutines and channels of a benchmark are events in any order: an operation is issued, a worker
    ends it and sends its latency, records it in the history after that, the collector takes a latency; a schedule of events that the
    channels do not allow is no run, and \<open>Hang\<close> is a wait group that no event can bring to zero. BenchmarkRun:
    \<open>NewBenchmark\<close> and \<open>Run\<close> with its timer, and that the history accounts for the operations up to those still to be written down.
  \<^item> Float64 and Measures: \<open>float64\<close> as rational arithmetic rounded to 53 bits, with the laws of rounding as a locale;
    the statistics, the written history and the well-formedness of every history that additions, files and the sort of
    \<open>WriteFile\<close> reach, the policy \<open>ema\<close>, the default values, the moving mean, and \<open>Schedule\<close> and
    \<open>GenerateRandVal\<close> of \<open>util.go\<close>. The percentiles stay in range and in order, the moving mean is exact, a steady zone is
    reported once, and a written history cannot be read back.

  \<^bold>\<open>Interaction.\<close> PigSystem composes the handlers of several replicas; PigRelay closes a replica over its own
  messages; LayerFacts and ChainFacts reuse that invariant by interpreting the same locale,
  and PaxosSystem through its view; CheckerFacts rests
  on the graph library; SocketFacts composes socket, node, clock and log;
  ClientFacts puts the clients before the replicas of Paxos; WorkloadFacts records into the histories of Checker;
  CommandLine starts the replicas of every protocol and puts the clients behind the shell.

  \<^bold>\<open>Not modelled.\<close> Locks, goroutines and channels outside of Transports, Workload and BenchmarkRun, except where a lock is released twice or
  a call waits for ever; network connections and the formats of gob and JSON (arguments of Transports and Codec),
  the parsing of flags and the access to files; the texts of floating-point numbers, their infinities and NaN; the start of
  the HTTP server, and the JSON of \<open>Config\<close> and of the store.
\<close>

end
